(* ===== verification/Prelude.thy ===== *)
theory Prelude
  imports Main "HOL-Library.Word"
begin

text \<open>
  What every component of the development shares: the byte and text types of the Go code,
  results that carry an error value, big-endian numbers, and the generic list facts the
  component proofs use. A Go \<open>[]byte\<close> is a \<open>byte list\<close>, a Go string is a \<open>string\<close> whose
  characters are its bytes, and a slice that may be nil is a \<open>byte list option\<close>.
\<close>

type_synonym byte = "8 word"
type_synonym bytes = "8 word list"
type_synonym u64 = "64 word"

named_theorems json_names "the folded names of the members of the JSON objects"

section \<open>Results that may carry an error\<close>

text \<open>
  A Go function returning \<open>(T, error)\<close> returns \<open>error + T\<close>; \<open>bindE\<close> is the early return
  \<open>if err != nil\<close> and \<open>wrapE\<close> is \<open>fmt.Errorf("...: %w", err)\<close>.
\<close>

definition bindE :: "'e + 'a \<Rightarrow> ('a \<Rightarrow> 'e + 'b) \<Rightarrow> 'e + 'b" where
  "bindE r f = (case r of Inl e \<Rightarrow> Inl e | Inr x \<Rightarrow> f x)"

definition wrapE :: "('e \<Rightarrow> 'f) \<Rightarrow> 'e + 'a \<Rightarrow> 'f + 'a" where
  "wrapE w r = (case r of Inl e \<Rightarrow> Inl (w e) | Inr x \<Rightarrow> Inr x)"

definition isOk :: "'e + 'a \<Rightarrow> bool" where
  "isOk r = (case r of Inl _ \<Rightarrow> False | Inr _ \<Rightarrow> True)"

lemma bindE_simps [simp]:
  "bindE (Inl e) f = Inl e"
  "bindE (Inr x) f = f x"
  by (simp_all add: bindE_def)

lemma wrapE_simps [simp]:
  "wrapE w (Inl e) = Inl (w e)"
  "wrapE w (Inr x) = Inr x"
  by (simp_all add: wrapE_def)

lemma isOk_simps [simp]: "\<not> isOk (Inl e)" "isOk (Inr x)"
  by (simp_all add: isOk_def)

lemma bindE_Inr_iff: "bindE r f = Inr y \<longleftrightarrow> (\<exists>x. r = Inr x \<and> f x = Inr y)"
  by (cases r) auto

lemma wrapE_Inr_iff [simp]: "wrapE w r = Inr x \<longleftrightarrow> r = Inr x"
  by (cases r) auto

lemma bindE_InrE:
  assumes "bindE r f = Inr y"
  obtains x where "r = Inr x" "f x = Inr y"
  using assms by (auto simp: bindE_Inr_iff)

lemma bindE_cong [fundef_cong]:
  assumes "r = r'" and "\<And>x. r' = Inr x \<Longrightarrow> f x = f' x"
  shows "bindE r f = bindE r' f'"
  using assms by (cases r') auto

lemma isOk_iff: "isOk r \<longleftrightarrow> (\<exists>x. r = Inr x)"
  by (cases r) auto

section \<open>Bytes and text\<close>

definition byte_of_char :: "char \<Rightarrow> byte" where
  "byte_of_char c = word_of_nat (of_char c)"

definition char_of_byte :: "byte \<Rightarrow> char" where
  "char_of_byte b = char_of (unat b)"

definition bytes_of_string :: "string \<Rightarrow> bytes" where
  "bytes_of_string s = map byte_of_char s"

definition string_of_bytes :: "bytes \<Rightarrow> string" where
  "string_of_bytes b = map char_of_byte b"

lemma char_of_byte_of_char [simp]: "char_of_byte (byte_of_char c) = c"
proof -
  have "(of_char c :: nat) < 256" by simp
  then have "unat (word_of_nat (of_char c) :: byte) = of_char c"
    by (simp add: unat_of_nat)
  then show ?thesis
    by (simp add: char_of_byte_def byte_of_char_def)
qed

lemma byte_of_char_of_byte [simp]: "byte_of_char (char_of_byte b) = b"
proof -
  have "unat b < 256"
    using unsigned_less [of b] by simp
  then show ?thesis
    by (simp add: char_of_byte_def byte_of_char_def)
qed

lemma string_of_bytes_of_string [simp]: "string_of_bytes (bytes_of_string s) = s"
  by (induction s) (simp_all add: string_of_bytes_def bytes_of_string_def)

lemma bytes_of_string_of_bytes [simp]: "bytes_of_string (string_of_bytes b) = b"
  by (induction b) (simp_all add: string_of_bytes_def bytes_of_string_def)

lemma length_bytes_of_string [simp]: "length (bytes_of_string s) = length s"
  by (simp add: bytes_of_string_def)

lemma length_string_of_bytes [simp]: "length (string_of_bytes b) = length b"
  by (simp add: string_of_bytes_def)

lemma bytes_of_string_append [simp]:
  "bytes_of_string (s @ t) = bytes_of_string s @ bytes_of_string t"
  by (simp add: bytes_of_string_def)

lemma string_of_bytes_append [simp]:
  "string_of_bytes (s @ t) = string_of_bytes s @ string_of_bytes t"
  by (simp add: string_of_bytes_def)

lemma bytes_of_string_inj [simp]: "bytes_of_string s = bytes_of_string t \<longleftrightarrow> s = t"
  by (metis string_of_bytes_of_string)

lemma string_of_bytes_inj [simp]: "string_of_bytes s = string_of_bytes t \<longleftrightarrow> s = t"
  by (metis bytes_of_string_of_bytes)

lemma string_of_bytes_eq_iff: "string_of_bytes b = s \<longleftrightarrow> b = bytes_of_string s"
  by auto

section \<open>Big-endian numbers\<close>

text \<open>
  \<open>be_nat\<close> is \<open>new(big.Int).SetBytes\<close>, \<open>min_bytes\<close> is \<open>big.Int.Bytes\<close> (no leading zero
  byte), and \<open>be_bytes n\<close> is \<open>FillBytes\<close> into an n-byte buffer, for a value that fits.
\<close>

definition be_nat :: "bytes \<Rightarrow> nat" where
  "be_nat bs = foldl (\<lambda>v b. v * 256 + unat b) 0 bs"

fun be_bytes :: "nat \<Rightarrow> nat \<Rightarrow> bytes" where
  "be_bytes 0 x = []"
| "be_bytes (Suc n) x = be_bytes n (x div 256) @ [word_of_nat x]"

fun min_bytes :: "nat \<Rightarrow> bytes" where
  "min_bytes x = (if x = 0 then [] else min_bytes (x div 256) @ [word_of_nat x])"

declare min_bytes.simps [simp del]

lemma be_nat_Nil [simp]: "be_nat [] = 0"
  by (simp add: be_nat_def)

lemma be_nat_snoc [simp]: "be_nat (bs @ [b]) = be_nat bs * 256 + unat b"
  by (simp add: be_nat_def)

lemma unat_byte_less [simp]: "unat (b :: byte) < 256"
  using unsigned_less [of b] by simp

lemma unat_byte_of_nat [simp]: "unat (word_of_nat x :: byte) = x mod 256"
  by (simp add: unat_of_nat)

lemma be_nat_less: "be_nat bs < 256 ^ length bs"
proof (induction bs rule: rev_induct)
  case Nil
  then show ?case by simp
next
  case (snoc b bs)
  have "be_nat bs * 256 + unat b < (be_nat bs + 1) * 256"
    by simp
  also have "\<dots> \<le> 256 ^ length bs * 256"
    using snoc.IH by (simp only: mult_le_mono1 Suc_leI flip: Suc_eq_plus1)
  finally show ?case
    by (simp add: mult.commute)
qed

lemma length_be_bytes [simp]: "length (be_bytes n x) = n"
  by (induction n arbitrary: x) auto

lemma be_nat_be_bytes_mod: "be_nat (be_bytes n x) = x mod 256 ^ n"
proof (induction n arbitrary: x)
  case 0
  then show ?case by simp
next
  case (Suc n)
  have "be_nat (be_bytes (Suc n) x) = (x div 256) mod 256 ^ n * 256 + x mod 256"
    using Suc.IH by simp
  also have "\<dots> = x mod (256 * 256 ^ n)"
    by (simp add: mod_mult2_eq)
  finally show ?case by simp
qed

lemma be_nat_be_bytes: "x < 256 ^ n \<Longrightarrow> be_nat (be_bytes n x) = x"
  by (simp add: be_nat_be_bytes_mod)

lemma be_bytes_be_nat: "be_bytes (length bs) (be_nat bs) = bs"
proof (induction bs rule: rev_induct)
  case Nil
  then show ?case by simp
next
  case (snoc b bs)
  have "(be_nat bs * 256 + unat b) div 256 = be_nat bs"
    by (simp add: div_add1_eq)
  moreover have "(word_of_nat (be_nat bs * 256 + unat b) :: byte) = b"
    by (rule word_unat_eq_iff [THEN iffD2]) (simp only: unat_byte_of_nat, simp)
  ultimately show ?case
    using snoc.IH by simp
qed

lemma be_nat_eq_iff: "length a = length b \<Longrightarrow> be_nat a = be_nat b \<longleftrightarrow> a = b"
  by (metis be_bytes_be_nat)

lemma be_nat_min_bytes [simp]: "be_nat (min_bytes x) = x"
proof (induction x rule: min_bytes.induct)
  case (1 x)
  show ?case
  proof (cases "x = 0")
    case True
    then show ?thesis by (simp add: min_bytes.simps)
  next
    case False
    then show ?thesis
      using 1 by (simp add: min_bytes.simps [of x])
  qed
qed

lemma length_min_bytes: "x < 256 ^ n \<Longrightarrow> length (min_bytes x) \<le> n"
proof (induction n arbitrary: x)
  case 0
  then show ?case by (simp add: min_bytes.simps)
next
  case (Suc n)
  then have "x div 256 < 256 ^ n"
    by (simp add: less_mult_imp_div_less mult.commute)
  with Suc.IH have "length (min_bytes (x div 256)) \<le> n"
    by blast
  then show ?case
    by (simp add: min_bytes.simps [of x])
qed

lemma be_bytes_2: "be_bytes 2 x = [word_of_nat (x div 2 ^ 8), word_of_nat x]"
proof -
  have "be_bytes (Suc (Suc 0)) x = [word_of_nat (x div 2 ^ 8), word_of_nat x]" by simp
  then show ?thesis by (simp only: numeral_2_eq_2 [symmetric])
qed

lemma be_bytes_4:
  "be_bytes 4 x = [word_of_nat (x div 2 ^ 24), word_of_nat (x div 2 ^ 16),
     word_of_nat (x div 2 ^ 8), word_of_nat (x div 2 ^ 0)]"
proof -
  have "be_bytes (Suc (Suc (Suc (Suc 0)))) x = [word_of_nat (x div 2 ^ 24),
      word_of_nat (x div 2 ^ 16), word_of_nat (x div 2 ^ 8), word_of_nat (x div 2 ^ 0)]"
    by (simp add: div_mult2_eq [symmetric])
  moreover have "(4 :: nat) = Suc (Suc (Suc (Suc 0)))" by simp
  ultimately show ?thesis by (simp only:)
qed

lemma be_bytes_8: "be_bytes 8 x = [word_of_nat (x div 2 ^ 56), word_of_nat (x div 2 ^ 48),
    word_of_nat (x div 2 ^ 40), word_of_nat (x div 2 ^ 32), word_of_nat (x div 2 ^ 24),
    word_of_nat (x div 2 ^ 16), word_of_nat (x div 2 ^ 8), word_of_nat x]"
proof -
  have "be_bytes (Suc (Suc (Suc (Suc (Suc (Suc (Suc (Suc 0)))))))) x =
      [word_of_nat (x div 2 ^ 56), word_of_nat (x div 2 ^ 48), word_of_nat (x div 2 ^ 40),
       word_of_nat (x div 2 ^ 32), word_of_nat (x div 2 ^ 24), word_of_nat (x div 2 ^ 16),
       word_of_nat (x div 2 ^ 8), word_of_nat x]"
    by (simp add: div_mult2_eq [symmetric])
  moreover have "(8 :: nat) = Suc (Suc (Suc (Suc (Suc (Suc (Suc (Suc 0)))))))" by simp
  ultimately show ?thesis by (simp only:)
qed

lemma unat_ucast_byte_mod: "unat (ucast (v :: u64) :: byte) = unat v mod 256"
  by (simp only: unsigned_ucast_eq) (simp add: take_bit_eq_mod)

section \<open>Lists\<close>

lemma drop_eq_append_take:
  "n \<le> length xs \<Longrightarrow> length ys \<le> length xs - n \<Longrightarrow>
   take (length ys) (drop n xs) = ys \<Longrightarrow> drop n xs = ys @ drop (n + length ys) xs"
  by (metis append_take_drop_id drop_drop add.commute)

lemma take_eq_nth_iff:
  "length ys = m \<Longrightarrow> m \<le> length xs \<Longrightarrow> (ys = take m xs \<longleftrightarrow> (\<forall>i<m. ys ! i = xs ! i))"
  by (simp add: list_eq_iff_nth_eq min_absorb2)

end
