(* ===== verification/Cbor.thy ===== *)
theory Cbor
  imports Prelude
begin

text \<open>
  The CBOR reader of bound.go (\<open>cborReader\<close> and its read methods), \<open>skipValue\<close> of cose.go and
  \<open>readTstr\<close> of eat.go. A method that moves the read position returns the reader moved. The
  central lemma is \<open>readHead_iff\<close>: the reader accepts a head exactly when the input starts with
  the one deterministic encoding of what it returns; the other readers follow suit, and
  \<open>skipValue\<close> always makes progress, stays inside the buffer and restores its nesting depth.
\<close>

unbundle bit_operations_syntax

section \<open>The reader\<close>

record cborReader =
  buf :: bytes
  pos :: nat
  depth :: nat

datatype cbor_error =
    UnexpectedEnd
  | NonMinimal nat
  | UnsupportedInfo byte
  | ExpectedUint byte
  | ExpectedBstr byte
  | BstrExceeds
  | ExpectedBool byte
  | NestingTooDeep
  | StringExceeds
  | CannotSkip byte
  | ExpectedTstr byte
  | TstrExceeds

definition newReader :: "bytes \<Rightarrow> cborReader" where
  "newReader b = \<lparr> buf = b, pos = 0, depth = 0 \<rparr>"

definition maxCBORDepth :: nat where
  "maxCBORDepth = 64"

definition readByte :: "cborReader \<Rightarrow> cbor_error + cborReader \<times> byte" where
  "readByte r =
     (if pos r \<ge> length (buf r) then Inl UnexpectedEnd
      else Inr (r\<lparr> pos := pos r + 1 \<rparr>, buf r ! pos r))"

fun readNLoop :: "nat \<Rightarrow> u64 \<Rightarrow> cborReader \<Rightarrow> cbor_error + cborReader \<times> u64" where
  "readNLoop 0 v r = Inr (r, v)"
| "readNLoop (Suc n) v r =
     bindE (readByte r) (\<lambda>(r, b). readNLoop n (push_bit 8 v OR ucast b) r)"

definition readN :: "nat \<Rightarrow> cborReader \<Rightarrow> cbor_error + cborReader \<times> u64" where
  "readN n r = readNLoop n 0 r"

definition readHead :: "cborReader \<Rightarrow> cbor_error + cborReader \<times> byte \<times> u64" where
  "readHead r =
     bindE (readByte r) (\<lambda>(r, ib).
       let major = drop_bit 5 ib; info = ib AND 0x1f in
       if info < 24 then Inr (r, major, ucast info)
       else if info = 24 then
         bindE (readByte r) (\<lambda>(r, b).
           if b < 24 then Inl (NonMinimal 1) else Inr (r, major, ucast b))
       else if info = 25 then
         bindE (readN 2 r) (\<lambda>(r, v). if v \<le> 0xff then Inl (NonMinimal 2) else Inr (r, major, v))
       else if info = 26 then
         bindE (readN 4 r) (\<lambda>(r, v). if v \<le> 0xffff then Inl (NonMinimal 4) else Inr (r, major, v))
       else if info = 27 then
         bindE (readN 8 r) (\<lambda>(r, v). if v \<le> 0xffffffff then Inl (NonMinimal 8)
                                     else Inr (r, major, v))
       else Inl (UnsupportedInfo info))"

definition readUint :: "cborReader \<Rightarrow> cbor_error + cborReader \<times> u64" where
  "readUint r =
     bindE (readHead r) (\<lambda>(r, major, v).
       if major \<noteq> 0 then Inl (ExpectedUint major) else Inr (r, v))"

definition readBstr :: "cborReader \<Rightarrow> cbor_error + cborReader \<times> bytes" where
  "readBstr r =
     bindE (readHead r) (\<lambda>(r, major, n).
       if major \<noteq> 2 then Inl (ExpectedBstr major)
       else if unat n > length (buf r) - pos r then Inl BstrExceeds
       else Inr (r\<lparr> pos := pos r + unat n \<rparr>, take (unat n) (drop (pos r) (buf r))))"

definition readBool :: "cborReader \<Rightarrow> cbor_error + cborReader \<times> bool" where
  "readBool r =
     bindE (readByte r) (\<lambda>(r, b).
       if b = 0xf4 then Inr (r, False)
       else if b = 0xf5 then Inr (r, True)
       else Inl (ExpectedBool b))"

definition readTstr :: "cborReader \<Rightarrow> cbor_error + cborReader \<times> string" where
  "readTstr r =
     bindE (readHead r) (\<lambda>(r, major, n).
       if major \<noteq> 3 then Inl (ExpectedTstr major)
       else if unat n > length (buf r) - pos r then Inl TstrExceeds
       else Inr (r\<lparr> pos := pos r + unat n \<rparr>,
                 string_of_bytes (take (unat n) (drop (pos r) (buf r)))))"

section \<open>What is left to read\<close>

text \<open>\<open>view\<close> is the unread input; a reader at or before the end of its buffer is \<open>wf\<close>.\<close>

definition view :: "cborReader \<Rightarrow> bytes" where
  "view r = drop (pos r) (buf r)"

definition wf_reader :: "cborReader \<Rightarrow> bool" where
  "wf_reader r \<longleftrightarrow> pos r \<le> length (buf r)"

definition advance :: "nat \<Rightarrow> cborReader \<Rightarrow> cborReader" where
  "advance k r = r\<lparr> pos := pos r + k \<rparr>"

lemma view_newReader [simp]: "view (newReader b) = b"
  by (simp add: view_def newReader_def)

lemma wf_newReader [simp]: "wf_reader (newReader b)"
  by (simp add: wf_reader_def newReader_def)

lemma newReader_fields [simp]:
  "buf (newReader b) = b" "pos (newReader b) = 0" "depth (newReader b) = 0"
  by (simp_all add: newReader_def)

lemma advance_fields [simp]:
  "buf (advance k r) = buf r" "pos (advance k r) = pos r + k" "depth (advance k r) = depth r"
  by (simp_all add: advance_def)

lemma advance_advance [simp]: "advance k (advance j r) = advance (j + k) r"
  by (simp add: advance_def)

lemma advance_0 [simp]: "advance 0 r = r"
  by (simp add: advance_def)

lemma view_advance: "view (advance k r) = drop k (view r)"
  by (simp add: view_def add.commute)

lemma view_advance_length: "view r = xs @ ys \<Longrightarrow> view (advance (length xs) r) = ys"
  by (simp add: view_advance)

lemma length_view: "length (view r) = length (buf r) - pos r"
  by (simp add: view_def)

lemma wf_advance: "wf_reader (advance k r) \<longleftrightarrow> pos r + k \<le> length (buf r)"
  by (simp add: wf_reader_def)

lemma wf_advance_view: "wf_reader r \<Longrightarrow> wf_reader (advance k r) \<longleftrightarrow> k \<le> length (view r)"
  by (auto simp: wf_reader_def length_view)

lemma pos_at_end: "wf_reader r \<Longrightarrow> pos r = length (buf r) \<longleftrightarrow> view r = []"
  by (auto simp: wf_reader_def view_def)

lemma readByte_eq:
  "readByte r = (case view r of [] \<Rightarrow> Inl UnexpectedEnd | b # _ \<Rightarrow> Inr (advance 1 r, b))"
proof (cases "pos r < length (buf r)")
  case True
  then have "view r = buf r ! pos r # drop (Suc (pos r)) (buf r)"
    by (simp add: view_def Cons_nth_drop_Suc)
  with True show ?thesis by (simp add: readByte_def advance_def)
next
  case False
  then show ?thesis by (simp add: readByte_def view_def)
qed

section \<open>Deterministic heads\<close>

text \<open>
  The smallest encoding of a CBOR head, \<open>put_head\<close> of src/common/he_payload.c: what the
  device emits and what \<open>readHead\<close> inverts.
\<close>

definition cbor_head :: "byte \<Rightarrow> u64 \<Rightarrow> bytes" where
  "cbor_head major v =
     (let mt = push_bit 5 major in
      if v < 24 then [mt OR ucast v]
      else if v \<le> 0xff then [mt OR 24, ucast v]
      else if v \<le> 0xffff then (mt OR 25) # be_bytes 2 (unat v)
      else if v \<le> 0xffffffff then (mt OR 26) # be_bytes 4 (unat v)
      else (mt OR 27) # be_bytes 8 (unat v))"

lemma take_bit_small:
  assumes "unat (x :: 'a::len word) < 2 ^ k"
  shows "take_bit k x = x"
proof (rule word_unat_eq_iff [THEN iffD2])
  show "unat (take_bit k x) = unat x"
    using assms by (simp add: unsigned_take_bit_eq take_bit_nat_eq_self)
qed

lemma head_split: "push_bit 5 (drop_bit 5 b) OR (b AND 0x1f) = (b :: byte)"
proof (rule bit_word_eqI)
  fix n assume "n < LENGTH(8)"
  then have "n < 8" by simp
  have m: "(0x1f :: byte) = mask 5" by (simp add: mask_eq_exp_minus_1)
  show "bit (push_bit 5 (drop_bit 5 b) OR (b AND 0x1f)) n = bit b n"
    using \<open>n < 8\<close> unfolding m by (auto simp: bit_simps)
qed

lemma head_parts:
  assumes "m < (8 :: byte)" "i < 32"
  shows "drop_bit 5 (push_bit 5 m OR i) = m" "(push_bit 5 m OR i) AND 0x1f = i"
proof -
  have ms: "(0x1f :: byte) = mask 5" by (simp add: mask_eq_exp_minus_1)
  have m: "take_bit 3 m = m" and i: "take_bit 5 i = i" using assms
    by (simp_all add: take_bit_small word_less_nat_alt)
  have bm: "bit m n \<Longrightarrow> n < 3" for n by (metis m Bit_Operations.bit_take_bit_iff)
  have bi: "bit i n \<Longrightarrow> n < 5" for n by (metis i Bit_Operations.bit_take_bit_iff)
  show "drop_bit 5 (push_bit 5 m OR i) = m"
    by (rule bit_word_eqI) (auto simp: bit_simps dest: bi bm)
  show "(push_bit 5 m OR i) AND 0x1f = i" unfolding ms
    by (rule bit_word_eqI) (auto simp: bit_simps dest: bi bm)
qed

lemma major_less: "drop_bit 5 b < (8 :: byte)"
proof -
  have "unat (drop_bit 5 b) = unat b div 32"
    by (simp only: unsigned_drop_bit_eq) (simp add: drop_bit_eq_div take_bit_nat_eq_self)
  then show ?thesis
    using less_mult_imp_div_less [of "unat b" 8 32] by (simp add: word_less_nat_alt)
qed

lemma info_less: "b AND 0x1f < (32::byte)"
proof -
  have ms: "(0x1f :: byte) = mask 5" by (simp add: mask_eq_exp_minus_1)
  have "unat (take_bit 5 b) = unat b mod 32"
    by (simp only: unsigned_take_bit_eq) (simp add: take_bit_eq_mod)
  then show ?thesis
    unfolding ms by (simp add: word_less_nat_alt flip: take_bit_eq_mask)
qed

lemma or_ucast: "push_bit 8 v OR ucast (b::byte) = 256 * v + (ucast b :: 64 word)"
proof -
  have "push_bit 8 v OR ucast b = push_bit 8 v + (ucast b :: 64 word)"
    by (rule disjunctive_add [symmetric]) (auto simp: bit_simps dest: bit_imp_le_length)
  then show ?thesis by (simp add: push_bit_eq_mult)
qed

lemma foldl_word_be_nat:
  "foldl (\<lambda>v b. push_bit 8 v OR ucast b) (word_of_nat a :: u64) bs =
   word_of_nat (foldl (\<lambda>v b. v * 256 + unat b) a (bs :: bytes))"
proof (induction bs arbitrary: a)
  case Nil
  then show ?case by simp
next
  case (Cons b bs)
  have "256 * word_of_nat a + (ucast b :: u64) = word_of_nat (a * 256 + unat b)"
    by (simp add: mult.commute)
  then show ?case
    using Cons.IH [of "a * 256 + unat b"] by (simp only: foldl.simps or_ucast)
qed

lemma readNLoop_eq:
  "readNLoop n v r =
     (if n \<le> length (view r)
      then Inr (advance n r, foldl (\<lambda>v b. push_bit 8 v OR ucast b) v (take n (view r)))
      else Inl UnexpectedEnd)"
proof (induction n arbitrary: v r)
  case 0
  then show ?case by simp
next
  case (Suc n)
  show ?case
    by (cases "view r") (simp_all add: readByte_eq Suc.IH view_advance)
qed

lemma readN_eq:
  "readN n r =
     (if n \<le> length (view r) then Inr (advance n r, word_of_nat (be_nat (take n (view r))))
      else Inl UnexpectedEnd)"
  using foldl_word_be_nat [of 0] by (simp add: readN_def readNLoop_eq be_nat_def)

lemma unat_ucast_byte [simp]: "unat (ucast (b :: byte) :: u64) = unat b"
proof -
  have "unat b < 2 ^ 64"
    using unat_byte_less [of b] by (rule order.strict_trans) simp
  then show ?thesis
    by (simp only: unsigned_ucast_eq) (simp add: take_bit_nat_eq_self)
qed

lemma unat_ucast_u64: "unat (v :: u64) < 256 \<Longrightarrow> unat (ucast v :: byte) = unat v"
  by (simp only: unsigned_ucast_eq) (simp add: take_bit_nat_eq_self)

lemma ucast_ucast_byte [simp]: "(ucast (ucast (b :: byte) :: u64) :: byte) = b"
  by (simp add: word_unat_eq_iff unat_ucast_u64)

lemma ucast_byte_eq_iff: "ucast (b :: byte) = (v :: u64) \<longleftrightarrow> unat v < 256 \<and> b = ucast v"
  by (metis ucast_ucast_byte unat_byte_less unat_ucast_byte unat_ucast_u64 word_unat_eq_iff)

lemma unat_word_of_be_nat:
  "length bs \<le> 8 \<Longrightarrow> unat (word_of_nat (be_nat bs) :: u64) = be_nat bs"
  using be_nat_less [of bs] power_increasing [of "length bs" 8 "256 :: nat"]
  by (simp add: unat_of_nat)

lemma unat_u64_less: "unat (v :: u64) < 256 ^ 8"
  using unsigned_less [of v, where ?'a = nat] by simp

text \<open>The argument bytes after the initial byte, for a width of 2, 4 or 8 bytes.\<close>

definition wide ::
  "nat \<Rightarrow> u64 \<Rightarrow> byte \<Rightarrow> bytes \<Rightarrow> cborReader \<Rightarrow> cbor_error + cborReader \<times> byte \<times> u64" where
  "wide k lim m ys r =
     (if k \<le> length ys then
        let v = word_of_nat (be_nat (take k ys)) in
        if v \<le> lim then Inl (NonMinimal k) else Inr (advance (Suc k) r, m, v)
      else Inl UnexpectedEnd)"

lemma readHead_Nil: "view r = [] \<Longrightarrow> readHead r = Inl UnexpectedEnd"
  by (simp add: readHead_def readByte_eq)

lemma readHead_Cons:
  assumes "view r = ib # ys"
  shows "readHead r =
    (let m = drop_bit 5 ib; i = ib AND 0x1f in
     if i < 24 then Inr (advance 1 r, m, ucast i)
     else if i = 24 then
       (case ys of [] \<Rightarrow> Inl UnexpectedEnd
        | b # _ \<Rightarrow> if b < 24 then Inl (NonMinimal 1) else Inr (advance 2 r, m, ucast b))
     else if i = 25 then wide 2 0xff m ys r
     else if i = 26 then wide 4 0xffff m ys r
     else if i = 27 then wide 8 0xffffffff m ys r
     else Inl (UnsupportedInfo i))"
proof -
  have "view (advance 1 r) = ys" using assms by (simp add: view_advance)
  then show ?thesis
    using assms
    by (auto simp: readHead_def readByte_eq readN_eq wide_def Let_def split: list.splits)
qed

lemma take_be_bytes_iff:
  "k \<le> 8 \<Longrightarrow> k \<le> length ys \<and> word_of_nat (be_nat (take k ys)) = (v :: u64) \<longleftrightarrow>
     unat v < 256 ^ k \<and> (\<exists>zs. ys = be_bytes k (unat v) @ zs)"
proof (intro iffI)
  assume k: "k \<le> 8" and h: "k \<le> length ys \<and> word_of_nat (be_nat (take k ys)) = v"
  then have u: "unat v = be_nat (take k ys)"
    using unat_word_of_be_nat [of "take k ys"] by auto
  then have "be_bytes k (unat v) = take k ys"
    using h be_bytes_be_nat [of "take k ys"] by simp
  then show "unat v < 256 ^ k \<and> (\<exists>zs. ys = be_bytes k (unat v) @ zs)"
    using u h be_nat_less [of "take k ys"] by (metis append_take_drop_id length_take min_absorb2)
next
  assume k: "k \<le> 8" and h: "unat v < 256 ^ k \<and> (\<exists>zs. ys = be_bytes k (unat v) @ zs)"
  then show "k \<le> length ys \<and> word_of_nat (be_nat (take k ys)) = v"
    by (auto simp: be_nat_be_bytes)
qed

lemma wide_iff:
  assumes "k \<le> 8"
  shows "wide k lim m ys r = Inr (r', m', v) \<longleftrightarrow>
     m' = m \<and> lim < v \<and> unat v < 256 ^ k \<and> (\<exists>zs. ys = be_bytes k (unat v) @ zs) \<and>
     r' = advance (Suc k) r"
  using take_be_bytes_iff [OF assms, of ys v] by (auto simp: wide_def Let_def)

lemma head_byte_iff:
  "m < 8 \<Longrightarrow> i < 32 \<Longrightarrow> drop_bit 5 b = m \<and> b AND 0x1f = i \<longleftrightarrow> b = push_bit 5 m OR (i :: byte)"
  using head_split head_parts by metis

lemma cbor_head_cases:
  "cbor_head m v =
     (if unat v < 24 then [push_bit 5 m OR ucast v]
      else if unat v < 256 then [push_bit 5 m OR 24, ucast v]
      else if unat v < 256 ^ 2 then (push_bit 5 m OR 25) # be_bytes 2 (unat v)
      else if unat v < 256 ^ 4 then (push_bit 5 m OR 26) # be_bytes 4 (unat v)
      else (push_bit 5 m OR 27) # be_bytes 8 (unat v))"
  by (auto simp: cbor_head_def Let_def word_less_nat_alt word_le_nat_alt)

lemma cbor_head_view:
  assumes "m < 8"
  shows "(\<exists>zs. ib # ys = cbor_head m v @ zs) \<longleftrightarrow> drop_bit 5 ib = m \<and>
     (let i = ib AND 0x1f in
      if unat v < 24 then i = ucast v
      else if unat v < 256 then i = 24 \<and> (\<exists>zs. ys = ucast v # zs)
      else if unat v < 256 ^ 2 then i = 25 \<and> (\<exists>zs. ys = be_bytes 2 (unat v) @ zs)
      else if unat v < 256 ^ 4 then i = 26 \<and> (\<exists>zs. ys = be_bytes 4 (unat v) @ zs)
      else i = 27 \<and> (\<exists>zs. ys = be_bytes 8 (unat v) @ zs))"
proof -
  have small: "(ucast v :: byte) < 32" if "unat v < 24"
    using that by (simp add: word_less_nat_alt unat_ucast_u64)
  note eqs = head_byte_iff [OF assms, symmetric]
  show ?thesis
    by (simp add: cbor_head_cases eqs small Let_def)
qed

lemma readHead_Inr:
  assumes "view r = ib # ys"
  shows "readHead r = Inr (r', m, v) \<longleftrightarrow> drop_bit 5 ib = m \<and>
     (let i = ib AND 0x1f in
      if unat v < 24 then i = ucast v \<and> r' = advance 1 r
      else if unat v < 256 then i = 24 \<and> (\<exists>zs. ys = ucast v # zs) \<and> r' = advance 2 r
      else if unat v < 256 ^ 2 then i = 25 \<and> (\<exists>zs. ys = be_bytes 2 (unat v) @ zs) \<and> r' = advance 3 r
      else if unat v < 256 ^ 4 then i = 26 \<and> (\<exists>zs. ys = be_bytes 4 (unat v) @ zs) \<and> r' = advance 5 r
      else i = 27 \<and> (\<exists>zs. ys = be_bytes 8 (unat v) @ zs) \<and> r' = advance 9 r)"
proof -
  define M I where "M = drop_bit 5 ib" and "I = ib AND 0x1f"
  have lt24: "I < 24 \<and> v = ucast I \<longleftrightarrow> unat v < 24 \<and> I = ucast v"
    using unat_ucast_u64 [of v]
    by (auto simp: word_less_nat_alt word_unat_eq_iff)
  have eq24: "(case ys of [] \<Rightarrow> Inl UnexpectedEnd
        | b # _ \<Rightarrow> if b < 24 then Inl (NonMinimal 1) else Inr (advance 2 r, M, ucast b)) = Inr (r', m, v)
      \<longleftrightarrow> M = m \<and> \<not> unat v < 24 \<and> unat v < 256 \<and> (\<exists>zs. ys = ucast v # zs) \<and> r' = advance 2 r"
    using unat_ucast_u64 [of v]
    by (cases ys) (auto simp: ucast_byte_eq_iff word_less_nat_alt)
  have le: "(0xff < v) = (\<not> unat v < 256)" "(0xffff < v) = (\<not> unat v < 256 ^ 2)"
      "(0xffffffff < v) = (\<not> unat v < 256 ^ 4)" "unat v < 256 ^ 8"
    using unat_u64_less [of v] by (auto simp: word_less_nat_alt)
  note red = readHead_Cons [OF assms] M_def [symmetric] I_def [symmetric] Let_def
  consider "I < 24" | "I = 24" | "I = 25" | "I = 26" | "I = 27"
    | "\<not> I < 24" "I \<noteq> 24" "I \<noteq> 25" "I \<noteq> 26" "I \<noteq> 27" by blast
  then show ?thesis
  proof cases
    case 1
    then show ?thesis unfolding red using lt24 by auto
  next
    case 2
    then show ?thesis unfolding red using lt24 eq24 by auto
  next
    case 3
    then show ?thesis unfolding red using lt24 le by (auto simp: wide_iff)
  next
    case 4
    then show ?thesis unfolding red using lt24 le by (auto simp: wide_iff)
  next
    case 5
    then show ?thesis unfolding red using lt24 le by (auto simp: wide_iff)
  next
    case 6
    then show ?thesis unfolding red using lt24 by auto
  qed
qed

lemma readHead_iff:
  "readHead r = Inr (r', m, v) \<longleftrightarrow>
     m < 8 \<and> (\<exists>zs. view r = cbor_head m v @ zs) \<and> r' = advance (length (cbor_head m v)) r"
proof (cases "view r")
  case Nil
  then show ?thesis by (simp add: readHead_Nil cbor_head_cases)
next
  case (Cons ib ys)
  show ?thesis
  proof (cases "m < 8")
    case True
    have "length (cbor_head m v) = (if unat v < 24 then 1 else if unat v < 256 then 2
        else if unat v < 256 ^ 2 then 3 else if unat v < 256 ^ 4 then 5 else 9)"
      by (simp add: cbor_head_cases)
    then show ?thesis
      unfolding readHead_Inr [OF Cons] Cons cbor_head_view [OF True] Let_def
      using True by simp
  next
    case False
    then show ?thesis
      using major_less by (auto simp: readHead_Inr [OF Cons])
  qed
qed

lemma cbor_head_neq_Nil [simp]: "cbor_head m v \<noteq> []"
  by (simp add: cbor_head_cases)

section \<open>Readers that invert an encoder\<close>

text \<open>
  The contract of a value reader: it succeeds exactly when the unread input starts with the
  encoding of the value it returns, and then moves past that encoding. Progress, determinism
  and unique decodability follow for every reader that meets it.
\<close>

definition moves :: "cborReader \<Rightarrow> cborReader \<Rightarrow> bool" where
  "moves r r' \<longleftrightarrow> (\<exists>k. 0 < k \<and> k \<le> length (view r) \<and> r' = advance k r)"

lemma movesI: "0 < k \<Longrightarrow> k \<le> length (view r) \<Longrightarrow> moves r (advance k r)"
  by (auto simp: moves_def)

lemma moves_trans:
  assumes "moves r r'" and "moves r' r''"
  shows "moves r r''"
proof -
  from assms obtain j k where "0 < j" "j \<le> length (view r)" "r' = advance j r"
    and "k \<le> length (view r) - j" "r'' = advance (j + k) r"
    by (auto simp: moves_def view_advance)
  then show ?thesis by (auto intro!: movesI)
qed

lemma moves_fields:
  "moves r r' \<Longrightarrow> buf r' = buf r \<and> depth r' = depth r \<and> pos r < pos r' \<and> pos r' \<le> length (buf r)"
  by (auto simp: moves_def length_view)

lemma moves_wf: "moves r r' \<Longrightarrow> wf_reader r'"
  using moves_fields [of r r'] by (simp add: wf_reader_def)

locale codec =
  fixes read :: "cborReader \<Rightarrow> cbor_error + cborReader \<times> 'a"
    and enc :: "'a \<Rightarrow> bytes"
    and ok :: "'a \<Rightarrow> bool"
  assumes exact: "read r = Inr (r', v) \<longleftrightarrow>
      ok v \<and> (\<exists>zs. view r = enc v @ zs) \<and> r' = advance (length (enc v)) r"
    and nonempty: "ok v \<Longrightarrow> enc v \<noteq> []"
begin

lemma read_enc: "ok v \<Longrightarrow> view r = enc v @ zs \<Longrightarrow> read r = Inr (advance (length (enc v)) r, v)"
  using exact by blast

lemma read_view: "read r = Inr (r', v) \<Longrightarrow> view r = enc v @ view r'"
  by (auto simp: exact view_advance)

lemma read_ok: "read r = Inr (r', v) \<Longrightarrow> ok v"
  by (simp add: exact)

lemma read_moves: "read r = Inr (r', v) \<Longrightarrow> moves r r'"
  using nonempty [of v] by (auto simp: exact intro!: movesI)

lemma prefix_free:
  assumes "ok v" and "ok v'" and "enc v @ zs = enc v' @ zs'"
  shows "v = v' \<and> zs = zs'"
proof -
  define r where "r = newReader (enc v @ zs)"
  have "view r = enc v @ zs" and "view r = enc v' @ zs'"
    using assms(3) by (simp_all add: r_def)
  then have "read r = Inr (advance (length (enc v)) r, v)"
    and "read r = Inr (advance (length (enc v')) r, v')"
    using assms(1,2) by (blast intro: read_enc)+
  then have "v = v'" by simp
  with assms(3) show ?thesis by simp
qed

lemma read_at_end: "view r = [] \<Longrightarrow> \<not> isOk (read r)"
  using nonempty by (auto simp: isOk_iff exact)

end

definition enc_uint :: "u64 \<Rightarrow> bytes" where
  "enc_uint v = cbor_head 0 v"

definition enc_bstr :: "bytes \<Rightarrow> bytes" where
  "enc_bstr b = cbor_head 2 (word_of_nat (length b)) @ b"

definition enc_bool :: "bool \<Rightarrow> bytes" where
  "enc_bool v = [if v then 0xf5 else 0xf4]"

definition enc_tstr :: "string \<Rightarrow> bytes" where
  "enc_tstr s = cbor_head 3 (word_of_nat (length s)) @ bytes_of_string s"

lemma readUint_iff:
  "readUint r = Inr (r', v) \<longleftrightarrow>
     (\<exists>zs. view r = enc_uint v @ zs) \<and> r' = advance (length (enc_uint v)) r"
proof -
  have "readUint r = Inr (r', v) \<longleftrightarrow> readHead r = Inr (r', 0, v)"
    by (auto simp: readUint_def bindE_Inr_iff split: if_splits)
  then show ?thesis
    by (simp add: readHead_iff enc_uint_def)
qed

text \<open>Byte and text strings share their shape: a head with the length, then the content.\<close>

lemma string_read_iff:
  assumes "m < 8"
  shows "(\<exists>r1 n. readHead r = Inr (r1, m, n) \<and> unat n \<le> length (view r1) \<and>
            r' = advance (unat n) r1 \<and> b = take (unat n) (view r1))
     \<longleftrightarrow> length b < 2 ^ 64 \<and>
       (\<exists>zs. view r = (cbor_head m (word_of_nat (length b)) @ b) @ zs) \<and>
       r' = advance (length (cbor_head m (word_of_nat (length b)) @ b)) r" (is "?L \<longleftrightarrow> ?R")
proof
  assume ?L
  then obtain n zs where vw: "view r = cbor_head m n @ zs" and n: "unat n \<le> length zs"
    and r': "r' = advance (length (cbor_head m n) + unat n) r" and b: "b = take (unat n) zs"
    by (auto simp: readHead_iff view_advance)
  then have len: "length b = unat n" and w: "word_of_nat (length b) = n"
    by simp_all
  moreover have "unat n < 2 ^ 64"
    using unsigned_less [of n, where ?'a = nat] by simp
  moreover have "view r = (cbor_head m n @ b) @ drop (unat n) zs"
    using vw b by simp
  ultimately show ?R
    using r' by (simp only: w length_append) blast
next
  assume ?R
  define n :: u64 where "n = word_of_nat (length b)"
  define r1 where "r1 = advance (length (cbor_head m n)) r"
  from \<open>?R\<close> obtain zs where len: "length b < 2 ^ 64"
    and vw: "view r = cbor_head m n @ b @ zs"
    and r': "r' = advance (length b) r1"
    by (auto simp: n_def r1_def)
  have n: "unat n = length b"
    using len by (simp add: n_def unat_of_nat)
  have "readHead r = Inr (r1, m, n)"
    using assms vw by (simp add: readHead_iff r1_def)
  moreover have "view r1 = b @ zs"
    using vw by (simp add: r1_def view_advance)
  ultimately show ?L
    using n r' by (intro exI [of _ r1] exI [of _ n]) simp
qed

lemma readBstr_iff:
  "readBstr r = Inr (r', b) \<longleftrightarrow> length b < 2 ^ 64 \<and>
     (\<exists>zs. view r = enc_bstr b @ zs) \<and> r' = advance (length (enc_bstr b)) r"
proof -
  have "readBstr r = Inr (r', b) \<longleftrightarrow>
      (\<exists>r1 n. readHead r = Inr (r1, 2, n) \<and> unat n \<le> length (view r1) \<and>
        r' = advance (unat n) r1 \<and> b = take (unat n) (view r1))"
    by (cases "readHead r") (auto simp: readBstr_def advance_def view_def not_less split: if_splits)
  then show ?thesis
    using string_read_iff [of 2 r r' b] by (simp add: enc_bstr_def)
qed

lemma readTstr_iff:
  "readTstr r = Inr (r', t) \<longleftrightarrow> length t < 2 ^ 64 \<and>
     (\<exists>zs. view r = enc_tstr t @ zs) \<and> r' = advance (length (enc_tstr t)) r"
proof -
  have "readTstr r = Inr (r', t) \<longleftrightarrow>
      (\<exists>r1 n. readHead r = Inr (r1, 3, n) \<and> unat n \<le> length (view r1) \<and>
        r' = advance (unat n) r1 \<and> bytes_of_string t = take (unat n) (view r1))"
    by (cases "readHead r") (auto simp: readTstr_def advance_def view_def not_less string_of_bytes_eq_iff split: if_splits)
  then show ?thesis
    using string_read_iff [of 3 r r' "bytes_of_string t"] by (simp add: enc_tstr_def)
qed

lemma readBool_iff:
  "readBool r = Inr (r', v) \<longleftrightarrow>
     (\<exists>zs. view r = enc_bool v @ zs) \<and> r' = advance (length (enc_bool v)) r"
  by (cases "view r") (auto simp: readBool_def readByte_eq enc_bool_def)

interpretation head: codec readHead "\<lambda>(m, v). cbor_head m v" "\<lambda>(m, v). m < 8"
  by unfold_locales (auto simp: readHead_iff)

interpretation uint: codec readUint enc_uint "\<lambda>_. True"
  by unfold_locales (simp_all add: readUint_iff enc_uint_def)

interpretation bstr: codec readBstr enc_bstr "\<lambda>b. length b < 2 ^ 64"
  by unfold_locales (simp_all add: readBstr_iff enc_bstr_def)

interpretation tstr: codec readTstr enc_tstr "\<lambda>t. length t < 2 ^ 64"
  by unfold_locales (simp_all add: readTstr_iff enc_tstr_def)

interpretation cbool: codec readBool enc_bool "\<lambda>_. True"
  by unfold_locales (simp_all add: readBool_iff enc_bool_def)

section \<open>Skipping a value\<close>

text \<open>
  \<open>skipValue\<close> recurses into arrays, maps and tags; \<open>skipAt f\<close> is the call that may still nest
  \<open>f\<close> levels, so \<open>f = maxCBORDepth - depth\<close>. \<open>repeatE\<close> is the loop over the items. The deferred
  \<open>depth--\<close> is the last step.
\<close>

primrec repeatE :: "nat \<Rightarrow> ('r \<Rightarrow> 'e + 'r) \<Rightarrow> 'r \<Rightarrow> 'e + 'r" where
  "repeatE 0 f r = Inr r"
| "repeatE (Suc n) f r = bindE (f r) (repeatE n f)"

text \<open>The switch on the major type, \<open>skip\<close> being the recursive call.\<close>

definition skipBody ::
  "(cborReader \<Rightarrow> cbor_error + cborReader) \<Rightarrow> byte \<Rightarrow> u64 \<Rightarrow> cborReader \<Rightarrow> cbor_error + cborReader" where
  "skipBody skip major n r =
     (if major = 0 \<or> major = 1 \<or> major = 7 then Inr r
      else if major = 2 \<or> major = 3 then
        if unat n > length (buf r) - pos r then Inl StringExceeds
        else Inr (r\<lparr> pos := pos r + unat n \<rparr>)
      else if major = 4 then repeatE (unat n) skip r
      else if major = 5 then repeatE (unat n) (\<lambda>r. bindE (skip r) skip) r
      else if major = 6 then skip r
      else Inl (CannotSkip major))"

primrec skipAt :: "nat \<Rightarrow> cborReader \<Rightarrow> cbor_error + cborReader" where
  "skipAt 0 = (\<lambda>r. Inl NestingTooDeep)"
| "skipAt (Suc f) = (\<lambda>r.
     bindE (readHead (r\<lparr> depth := depth r + 1 \<rparr>)) (\<lambda>(r1, major, n).
     bindE (skipBody (skipAt f) major n r1) (\<lambda>r2. Inr (r2\<lparr> depth := depth r2 - 1 \<rparr>))))"

definition skipValue :: "cborReader \<Rightarrow> cbor_error + cborReader" where
  "skipValue r = skipAt (maxCBORDepth - depth r) r"

section \<open>Which bytes are skipped\<close>

text \<open>
  The language a skipping function accepts: it succeeds exactly when the unread input starts
  with a word of the language, and moves past it.
\<close>

definition recog :: "(cborReader \<Rightarrow> cbor_error + cborReader) \<Rightarrow> (bytes \<Rightarrow> bool) \<Rightarrow> bool" where
  "recog f P \<longleftrightarrow> (\<forall>r r'. f r = Inr r' \<longleftrightarrow>
     (\<exists>e zs. P e \<and> view r = e @ zs \<and> r' = advance (length e) r))"

lemma recogD:
  "recog f P \<Longrightarrow> f r = Inr r' \<longleftrightarrow> (\<exists>e zs. P e \<and> view r = e @ zs \<and> r' = advance (length e) r)"
  by (simp add: recog_def)

lemma recog_cong: "recog f P \<Longrightarrow> (\<And>e. P e \<longleftrightarrow> Q e) \<Longrightarrow> recog f Q"
  by (simp add: recog_def)

lemma recog_Nil: "recog Inr (\<lambda>e. e = [])"
  by (auto simp: recog_def)

lemma recog_fail: "recog (\<lambda>r. Inl e) (\<lambda>e. False)"
  by (simp add: recog_def)

lemma recog_seq:
  assumes f: "recog f P" and g: "recog g Q"
  shows "recog (\<lambda>r. bindE (f r) g) (\<lambda>e. \<exists>x y. P x \<and> Q y \<and> e = x @ y)"
  unfolding recog_def
proof (intro allI iffI)
  fix r r'
  assume "bindE (f r) g = Inr r'"
  then obtain x zs y zs' where "P x" "view r = x @ zs" "Q y" "zs = y @ zs'"
      "r' = advance (length x + length y) r"
    by (auto simp: bindE_Inr_iff recogD [OF f] recogD [OF g] view_advance)
  then show "\<exists>e zs. (\<exists>x y. P x \<and> Q y \<and> e = x @ y) \<and> view r = e @ zs \<and> r' = advance (length e) r"
    by (intro exI [of _ "x @ y"] exI [of _ zs']) auto
next
  fix r r'
  assume "\<exists>e zs. (\<exists>x y. P x \<and> Q y \<and> e = x @ y) \<and> view r = e @ zs \<and> r' = advance (length e) r"
  then obtain x y zs where h: "P x" "Q y" "view r = x @ y @ zs"
      "r' = advance (length x + length y) r"
    by auto
  then have "f r = Inr (advance (length x) r)"
    by (auto simp: recogD [OF f])
  moreover have "g (advance (length x) r) = Inr r'"
    using h by (auto simp: recogD [OF g] view_advance)
  ultimately show "bindE (f r) g = Inr r'" by simp
qed

lemma concat_Suc_conv:
  "(\<exists>es. length es = Suc n \<and> (\<forall>x\<in>set es. P x) \<and> e = concat es) \<longleftrightarrow>
   (\<exists>x y. P x \<and> (\<exists>es. length es = n \<and> (\<forall>x\<in>set es. P x) \<and> y = concat es) \<and> e = x @ y)"
proof
  assume "\<exists>es. length es = Suc n \<and> (\<forall>x\<in>set es. P x) \<and> e = concat es"
  then obtain x es where "length es = n" "P x" "\<forall>x\<in>set es. P x" "e = x @ concat es"
    by (auto simp: length_Suc_conv)
  then show "\<exists>x y. P x \<and> (\<exists>es. length es = n \<and> (\<forall>x\<in>set es. P x) \<and> y = concat es) \<and> e = x @ y"
    by blast
next
  assume "\<exists>x y. P x \<and> (\<exists>es. length es = n \<and> (\<forall>x\<in>set es. P x) \<and> y = concat es) \<and> e = x @ y"
  then obtain x es where "P x" "length es = n" "\<forall>x\<in>set es. P x" "e = x @ concat es"
    by blast
  then show "\<exists>es. length es = Suc n \<and> (\<forall>x\<in>set es. P x) \<and> e = concat es"
    by (intro exI [of _ "x # es"]) auto
qed

lemma recog_repeat:
  assumes "recog f P"
  shows "recog (repeatE n f) (\<lambda>e. \<exists>es. length es = n \<and> (\<forall>x\<in>set es. P x) \<and> e = concat es)"
proof (induction n)
  case 0
  have "repeatE 0 f = Inr"
    by (rule ext) simp
  then show ?case
    using recog_Nil by (auto elim!: recog_cong)
next
  case (Suc n)
  have "repeatE (Suc n) f = (\<lambda>r. bindE (f r) (repeatE n f))"
    by (rule ext) simp
  then show ?case
    using recog_seq [OF assms Suc.IH] by (simp only: concat_Suc_conv)
qed

lemma recog_string:
  "recog (\<lambda>r. if unat n > length (buf r) - pos r then Inl StringExceeds
         else Inr (r\<lparr> pos := pos r + unat n \<rparr>)) (\<lambda>e. length e = unat (n :: u64))"
proof -
  have "unat n \<le> length (view r) \<longleftrightarrow> (\<exists>e zs. length e = unat n \<and> view r = e @ zs)" for r
    by (metis append_take_drop_id length_append length_take le_add1 min_absorb2)
  then show ?thesis
    by (auto simp: recog_def not_less advance_def simp flip: length_view)
qed

text \<open>
  One complete data item whose nesting is at most \<open>f\<close> levels: a bare head (integers, simple
  values), a string, an array, a map or a tagged item, all with deterministic heads.
\<close>

inductive item :: "nat \<Rightarrow> bytes \<Rightarrow> bool" where
  atom: "m = 0 \<or> m = 1 \<or> m = 7 \<Longrightarrow> item (Suc f) (cbor_head m v)"
| str: "m = 2 \<or> m = 3 \<Longrightarrow> length b = unat n \<Longrightarrow> item (Suc f) (cbor_head m n @ b)"
| arr: "\<forall>e\<in>set es. item f e \<Longrightarrow> length es = unat n \<Longrightarrow> item (Suc f) (cbor_head 4 n @ concat es)"
| cmap: "\<forall>e\<in>set es. item f e \<Longrightarrow> length es = 2 * unat n \<Longrightarrow>
    item (Suc f) (cbor_head 5 n @ concat es)"
| tag: "item f e \<Longrightarrow> item (Suc f) (cbor_head 6 n @ e)"

inductive_simps item_0: "item 0 e"
inductive_simps item_Suc: "item (Suc f) e"

lemma split_assoc:
  "(\<exists>x y. (\<exists>a b. P a \<and> P b \<and> x = a @ b) \<and> R y \<and> e = x @ y) \<longleftrightarrow>
   (\<exists>a y. P a \<and> (\<exists>b z. P b \<and> R z \<and> y = b @ z) \<and> e = a @ y)" (is "?L \<longleftrightarrow> ?R")
proof
  assume ?L
  then obtain a b y where "P a" "P b" "R y" "e = a @ b @ y" by auto
  then show ?R by blast
next
  assume ?R
  then obtain a b z where "P a" "P b" "R z" "e = (a @ b) @ z" by auto
  then show ?L by blast
qed

lemma recog_pairs:
  assumes "recog f P"
  shows "recog (repeatE n (\<lambda>r. bindE (f r) f))
    (\<lambda>e. \<exists>es. length es = 2 * n \<and> (\<forall>x\<in>set es. P x) \<and> e = concat es)"
proof (rule recog_cong [OF recog_repeat [OF recog_seq [OF assms assms]]])
  fix e
  show "(\<exists>es. length es = n \<and> (\<forall>x\<in>set es. \<exists>xa y. P xa \<and> P y \<and> x = xa @ y) \<and> e = concat es) \<longleftrightarrow>
      (\<exists>es. length es = 2 * n \<and> (\<forall>x\<in>set es. P x) \<and> e = concat es)"
  proof (induction n arbitrary: e)
    case 0
    show ?case by simp
  next
    case (Suc n)
    have "2 * Suc n = Suc (Suc (2 * n))" by simp
    then show ?case
      by (simp only: concat_Suc_conv Suc.IH split_assoc)
  qed
qed

lemma deeper_advance: "(advance k (r\<lparr> depth := depth r + 1 \<rparr>))\<lparr> depth := depth r \<rparr> = advance k r"
  by (simp add: advance_def)

text \<open>The body of \<open>skipValue\<close> after the head, as a language.\<close>

definition body_lang :: "nat \<Rightarrow> byte \<Rightarrow> u64 \<Rightarrow> bytes \<Rightarrow> bool" where
  "body_lang f m n e \<longleftrightarrow>
     (if m = 0 \<or> m = 1 \<or> m = 7 then e = []
      else if m = 2 \<or> m = 3 then length e = unat n
      else if m = 4 then \<exists>es. length es = unat n \<and> (\<forall>x\<in>set es. item f x) \<and> e = concat es
      else if m = 5 then \<exists>es. length es = 2 * unat n \<and> (\<forall>x\<in>set es. item f x) \<and> e = concat es
      else if m = 6 then item f e
      else False)"

lemma item_Suc_body: "item (Suc f) e \<longleftrightarrow> (\<exists>m n b. m < 8 \<and> e = cbor_head m n @ b \<and> body_lang f m n b)"
proof
  assume "item (Suc f) e"
  then show "\<exists>m n b. m < 8 \<and> e = cbor_head m n @ b \<and> body_lang f m n b"
  proof cases
    case (atom m v)
    then show ?thesis by (intro exI [of _ m] exI [of _ v] exI [of _ "[]"]) (auto simp: body_lang_def)
  next
    case (str m b n)
    then show ?thesis by (intro exI [of _ m] exI [of _ n] exI [of _ b]) (auto simp: body_lang_def)
  next
    case (arr es n)
    then show ?thesis by (intro exI [of _ 4] exI [of _ n] exI [of _ "concat es"]) (auto simp: body_lang_def)
  next
    case (cmap es n)
    then show ?thesis by (intro exI [of _ 5] exI [of _ n] exI [of _ "concat es"]) (auto simp: body_lang_def)
  next
    case (tag b n)
    then show ?thesis by (intro exI [of _ 6] exI [of _ n] exI [of _ b]) (auto simp: body_lang_def)
  qed
next
  assume "\<exists>m n b. m < 8 \<and> e = cbor_head m n @ b \<and> body_lang f m n b"
  then obtain m n b where e: "e = cbor_head m n @ b" and b: "body_lang f m n b"
    by blast
  consider "m = 0 \<or> m = 1 \<or> m = 7" | "m = 2 \<or> m = 3" | "m = 4" | "m = 5" | "m = 6"
    using b by (auto simp: body_lang_def split: if_splits)
  then show "item (Suc f) e"
  proof cases
    case 1
    then show ?thesis using b item.atom [of m f n] by (auto simp: e body_lang_def)
  next
    case 2
    then show ?thesis using b item.str [of m b n f] by (auto simp: e body_lang_def)
  next
    case 3
    then show ?thesis using b by (auto simp: e body_lang_def intro: item.arr)
  next
    case 4
    then show ?thesis using b by (auto simp: e body_lang_def intro: item.cmap)
  next
    case 5
    then show ?thesis using b by (auto simp: e body_lang_def intro: item.tag)
  qed
qed

lemma recog_skipAt: "recog (skipAt f) (item f)"
proof (induction f)
  case 0
  show ?case by (simp add: recog_def item_0)
next
  case (Suc f)
  have body: "recog (skipBody (skipAt f) m n) (body_lang f m n)" for m n
    unfolding body_lang_def skipBody_def
    using recog_Nil recog_string [of n] recog_repeat [OF Suc.IH, of "unat n"]
      recog_pairs [OF Suc.IH, of "unat n"] Suc.IH recog_fail [of "CannotSkip m"]
    by (cases "m = 0 \<or> m = 1 \<or> m = 7"; cases "m = 2 \<or> m = 3"; cases "m = 4"; cases "m = 5";
        cases "m = 6") auto
  show ?case
    unfolding recog_def item_Suc_body
  proof (intro allI iffI)
    fix r r'
    assume "skipAt (Suc f) r = Inr r'"
    then obtain r1 m n r2 where "readHead (r\<lparr> depth := depth r + 1 \<rparr>) = Inr (r1, m, n)"
        "skipBody (skipAt f) m n r1 = Inr r2" and r': "r' = r2\<lparr> depth := depth r2 - 1 \<rparr>"
      by (auto simp: bindE_Inr_iff)
    then obtain zs b zs' where "m < 8" "view r = cbor_head m n @ b @ zs'" "body_lang f m n b"
        and r2: "r2 = advance (length (cbor_head m n) + length b) (r\<lparr> depth := depth r + 1 \<rparr>)"
      by (auto simp: readHead_iff recogD [OF body] view_advance) (auto simp: view_def)
    moreover have "r' = advance (length (cbor_head m n) + length b) r"
      by (simp add: r' r2 deeper_advance)
    ultimately show "\<exists>e zs. (\<exists>m n b. m < 8 \<and> e = cbor_head m n @ b \<and> body_lang f m n b) \<and>
        view r = e @ zs \<and> r' = advance (length e) r"
      by (intro exI [of _ "cbor_head m n @ b"] exI [of _ zs']) auto
  next
    fix r r'
    assume "\<exists>e zs. (\<exists>m n b. m < 8 \<and> e = cbor_head m n @ b \<and> body_lang f m n b) \<and>
        view r = e @ zs \<and> r' = advance (length e) r"
    then obtain m n b zs where m: "m < 8" "view r = cbor_head m n @ b @ zs" "body_lang f m n b"
        and r': "r' = advance (length (cbor_head m n) + length b) r"
      by auto
    let ?r = "r\<lparr> depth := depth r + 1 \<rparr>"
    have "readHead ?r = Inr (advance (length (cbor_head m n)) ?r, m, n)"
      using m by (auto simp: readHead_iff view_def)
    moreover have "skipBody (skipAt f) m n (advance (length (cbor_head m n)) ?r) =
        Inr (advance (length (cbor_head m n) + length b) ?r)"
      using m by (auto simp: recogD [OF body] view_advance) (auto simp: view_def)
    ultimately show "skipAt (Suc f) r = Inr r'"
      by (simp add: r' deeper_advance)
  qed
qed


lemma item_neq_Nil: "item f e \<Longrightarrow> e \<noteq> []"
  by (cases rule: item.cases) auto

lemma skipAt_moves: "skipAt f r = Inr r' \<Longrightarrow> moves r r'"
  using item_neq_Nil by (auto simp: recogD [OF recog_skipAt] intro!: movesI)

lemma skipValue_iff:
  "skipValue r = Inr r' \<longleftrightarrow>
     (\<exists>e zs. item (maxCBORDepth - depth r) e \<and> view r = e @ zs \<and> r' = advance (length e) r)"
  by (simp add: skipValue_def recogD [OF recog_skipAt])

lemma skipValue_moves: "skipValue r = Inr r' \<Longrightarrow> moves r r'"
  by (simp add: skipValue_def skipAt_moves)

text \<open>The recursion of the source: the nested calls are \<open>skipValue\<close> on the deeper reader.\<close>

lemma skipBody_cong:
  assumes "\<And>r. depth r = d \<Longrightarrow> f r = g r" and "\<And>r r'. g r = Inr r' \<Longrightarrow> moves r r'"
    and "depth r = d"
  shows "skipBody f m n r = skipBody g m n r"
proof -
  have stay: "depth r' = depth r" if "moves r r'" for r r'
    using moves_fields [OF that] by simp
  have pair: "bindE (f r) f = bindE (g r) g" if "depth r = d" for r
  proof (rule bindE_cong)
    show "f r = g r" by (rule assms(1)) (rule that)
    show "f r' = g r'" if "g r = Inr r'" for r'
      using stay [OF assms(2) [OF that]] \<open>depth r = d\<close> by (intro assms(1)) simp
  qed
  have rep: "repeatE k h r = repeatE k h' r"
    if "depth r = d" and "\<And>r. depth r = d \<Longrightarrow> h r = h' r" and "\<And>r r'. h' r = Inr r' \<Longrightarrow> moves r r'"
    for k h h' and r :: cborReader
    using that
  proof (induction k arbitrary: r)
    case 0
    then show ?case by simp
  next
    case (Suc k)
    show ?case
      unfolding repeatE.simps
    proof (rule bindE_cong)
      show "h r = h' r" using Suc.prems by blast
      show "repeatE k h r' = repeatE k h' r'" if "h' r = Inr r'" for r'
        using stay [OF Suc.prems(3) [OF that]] Suc.prems by (intro Suc.IH) simp_all
    qed
  qed
  have "repeatE k (\<lambda>r. bindE (f r) f) r = repeatE k (\<lambda>r. bindE (g r) g) r" for k
    using assms(2) by (intro rep assms(3) pair) (auto simp: bindE_Inr_iff intro: moves_trans)
  moreover have "repeatE k f r = repeatE k g r" for k
    by (intro rep assms)
  ultimately show ?thesis
    using assms(1) [OF assms(3)] by (simp only: skipBody_def)
qed

lemma skipValue_rec:
  "skipValue r =
     (if depth r \<ge> maxCBORDepth then Inl NestingTooDeep
      else bindE (readHead (r\<lparr> depth := depth r + 1 \<rparr>)) (\<lambda>(r1, major, n).
           bindE (skipBody skipValue major n r1) (\<lambda>r2. Inr (r2\<lparr> depth := depth r2 - 1 \<rparr>))))"
proof (cases "depth r \<ge> maxCBORDepth")
  case True
  then show ?thesis by (simp add: skipValue_def)
next
  case False
  define f where f': "f = maxCBORDepth - (depth r + 1)"
  have f: "maxCBORDepth - depth r = Suc f"
    using False by (simp add: f')
  have "skipBody (skipAt f) m n r1 = skipBody skipValue m n r1"
    if "readHead (r\<lparr> depth := depth r + 1 \<rparr>) = Inr (r1, m, n)" for r1 m n
  proof (rule skipBody_cong [where d = "depth r + 1"])
    show "depth r1 = depth r + 1"
      using that by (auto simp: readHead_iff)
  qed (simp_all add: skipValue_def f' skipAt_moves)
  then show ?thesis
    using False by (cases "readHead (r\<lparr> depth := depth r + 1 \<rparr>)") (auto simp: skipValue_def [of r] f)
qed

end
