(* ===== verification/Payload.thy ===== *)
theory Payload
  imports Cbor
begin

text \<open>
  The signed payload of bound.go: the \<open>Predicate\<close>, its decoder \<open>DecodePayload\<close>, and the
  deterministic encoding the device emits (src/common/he_payload.c). The decoder accepts
  exactly the encodings of the predicates a device can produce (\<open>DecodePayload_iff\<close>).
\<close>

unbundle bit_operations_syntax

section \<open>The predicate and its decoder\<close>

record Predicate =
  Version :: u64
  Nonce :: bytes
  EventID :: u64
  VoiceActive :: bool
  Presence :: u64
  Frames :: u64
  WindowMs :: u64
  Counter :: u64
  ConfigHash :: bytes
  InputHash :: bytes
  PrevDigest :: bytes

definition NonceMax :: nat where "NonceMax = 64"
definition hashLen :: nat where "hashLen = 32"
definition PayloadVersion :: u64 where "PayloadVersion = 1"

definition EventName :: "Predicate \<Rightarrow> string" where
  "EventName p = (if EventID p = 2 then ''alarm_tone'' else if EventID p = 1 then ''voice'' else ''none'')"

definition emptyPredicate :: Predicate where
  "emptyPredicate = \<lparr> Version = 0, Nonce = [], EventID = 0, VoiceActive = False, Presence = 0,
     Frames = 0, WindowMs = 0, Counter = 0, ConfigHash = [], InputHash = [], PrevDigest = [] \<rparr>"

datatype payload_error =
    PayloadCbor cbor_error
  | NotMap byte
  | MapKey cbor_error
  | NonCanonicalMap u64 u64
  | DuplicateKey u64
  | NonceTooLong nat
  | HashLength u64 nat
  | UnknownKey u64
  | ValueForKey u64 cbor_error
  | MissingKeys u64
  | TrailingBytes

text \<open>The switch on the key: the value is read into the key's field.\<close>

definition decodeValue :: "u64 \<Rightarrow> cborReader \<Rightarrow> Predicate \<Rightarrow> payload_error + cborReader \<times> Predicate" where
  "decodeValue key r p =
     (let uint = (\<lambda>set. bindE (wrapE (ValueForKey key) (readUint r)) (\<lambda>(r, v). Inr (r, set v p)));
          hash = (\<lambda>set. bindE (wrapE (ValueForKey key) (readBstr r)) (\<lambda>(r, v).
                    if length v \<noteq> hashLen then Inl (HashLength key (length v)) else Inr (r, set v p)))
      in
      if key = 0 then uint (\<lambda>v p. p\<lparr> Version := v \<rparr>)
      else if key = 1 then
        bindE (wrapE (ValueForKey key) (readBstr r)) (\<lambda>(r, v).
          if length v > NonceMax then Inl (NonceTooLong (length v)) else Inr (r, p\<lparr> Nonce := v \<rparr>))
      else if key = 2 then uint (\<lambda>v p. p\<lparr> EventID := v \<rparr>)
      else if key = 3 then
        bindE (wrapE (ValueForKey key) (readBool r)) (\<lambda>(r, v). Inr (r, p\<lparr> VoiceActive := v \<rparr>))
      else if key = 4 then uint (\<lambda>v p. p\<lparr> Presence := v \<rparr>)
      else if key = 5 then uint (\<lambda>v p. p\<lparr> Frames := v \<rparr>)
      else if key = 6 then uint (\<lambda>v p. p\<lparr> WindowMs := v \<rparr>)
      else if key = 7 then uint (\<lambda>v p. p\<lparr> Counter := v \<rparr>)
      else if key = 8 then hash (\<lambda>v p. p\<lparr> ConfigHash := v \<rparr>)
      else if key = 9 then hash (\<lambda>v p. p\<lparr> InputHash := v \<rparr>)
      else if key = 10 then hash (\<lambda>v p. p\<lparr> PrevDigest := v \<rparr>)
      else Inl (UnknownKey key))"

text \<open>
  The loop over the map entries, \<open>n\<close> of them left. \<open>seen\<close> is the mask of keys read, \<open>lastKey\<close> the
  previous key (None while \<open>haveLast\<close> is false).
\<close>

fun decodeLoop ::
  "nat \<Rightarrow> cborReader \<Rightarrow> Predicate \<Rightarrow> u64 \<Rightarrow> u64 option \<Rightarrow> payload_error + cborReader \<times> Predicate \<times> u64"
where
  "decodeLoop 0 r p seen lastKey = Inr (r, p, seen)"
| "decodeLoop (Suc n) r p seen lastKey =
     bindE (wrapE MapKey (readUint r)) (\<lambda>(r, key).
       if lastKey \<noteq> None \<and> key \<le> the lastKey then Inl (NonCanonicalMap key (the lastKey))
       else if key < 11 \<and> seen AND push_bit (unat key) 1 \<noteq> 0 then Inl (DuplicateKey key)
       else
         let seen = (if key < 11 then seen OR push_bit (unat key) 1 else seen) in
         bindE (decodeValue key r p) (\<lambda>(r, p). decodeLoop n r p seen (Some key)))"

definition allKeys :: u64 where
  "allKeys = push_bit 11 1 - 1"

definition DecodePayload :: "bytes \<Rightarrow> payload_error + Predicate" where
  "DecodePayload b =
     bindE (wrapE PayloadCbor (readHead (newReader b))) (\<lambda>(r, major, n).
       if major \<noteq> 5 then Inl (NotMap major)
       else bindE (decodeLoop (unat n) r emptyPredicate 0 None) (\<lambda>(r, p, seen).
         if seen \<noteq> allKeys then Inl (MissingKeys seen)
         else if pos r \<noteq> length b then Inl TrailingBytes
         else Inr p))"

section \<open>What the device encodes\<close>

text \<open>The value of a key, as the encoder of he_payload.c writes it.\<close>

datatype fval = FUint u64 | FBstr bytes | FBool bool

definition field :: "Predicate \<Rightarrow> nat \<Rightarrow> fval" where
  "field p k = [FUint (Version p), FBstr (Nonce p), FUint (EventID p), FBool (VoiceActive p),
     FUint (Presence p), FUint (Frames p), FUint (WindowMs p), FUint (Counter p),
     FBstr (ConfigHash p), FBstr (InputHash p), FBstr (PrevDigest p)] ! k"

fun encVal :: "fval \<Rightarrow> bytes" where
  "encVal (FUint v) = enc_uint v"
| "encVal (FBstr b) = enc_bstr b"
| "encVal (FBool v) = enc_bool v"

definition encEntry :: "Predicate \<Rightarrow> nat \<Rightarrow> bytes" where
  "encEntry p k = enc_uint (word_of_nat k) @ encVal (field p k)"

definition encodePayload :: "Predicate \<Rightarrow> bytes" where
  "encodePayload p = cbor_head 5 11 @ concat (map (encEntry p) [0..<11])"

text \<open>The predicates a device can sign: a nonce of at most 64 bytes, digests of 32.\<close>

definition okField :: "nat \<Rightarrow> fval \<Rightarrow> bool" where
  "okField k v = (case v of
     FBstr b \<Rightarrow> if k = 1 then length b \<le> NonceMax else length b = hashLen
   | _ \<Rightarrow> True)"

definition validPredicate :: "Predicate \<Rightarrow> bool" where
  "validPredicate p \<longleftrightarrow> length (Nonce p) \<le> NonceMax \<and> length (ConfigHash p) = hashLen \<and>
     length (InputHash p) = hashLen \<and> length (PrevDigest p) = hashLen"

lemma less_11_cases:
  assumes "k < (11 :: nat)"
  obtains "k = 0" | "k = 1" | "k = 2" | "k = 3" | "k = 4" | "k = 5" | "k = 6" | "k = 7"
    | "k = 8" | "k = 9" | "k = 10"
proof -
  have "k \<in> {0, 1, 2, 3, 4, 5, 6, 7, 8, 9, 10}"
    using assms by (auto simp: numeral_eq_Suc less_Suc_eq)
  then show thesis using that by blast
qed

lemma all_11:
  "(\<forall>k<11. P k) \<longleftrightarrow>
     P 0 \<and> P 1 \<and> P 2 \<and> P 3 \<and> P 4 \<and> P 5 \<and> P 6 \<and> P 7 \<and> P 8 \<and> P 9 \<and> P (10 :: nat)"
proof
  assume "P 0 \<and> P 1 \<and> P 2 \<and> P 3 \<and> P 4 \<and> P 5 \<and> P 6 \<and> P 7 \<and> P 8 \<and> P 9 \<and> P 10"
  then show "\<forall>k<11. P k"
    by (auto elim: less_11_cases)
qed simp

lemma field_simps:
  "field p 0 = FUint (Version p)" "field p 1 = FBstr (Nonce p)" "field p (Suc 0) = FBstr (Nonce p)" "field p 2 = FUint (EventID p)"
  "field p 3 = FBool (VoiceActive p)" "field p 4 = FUint (Presence p)"
  "field p 5 = FUint (Frames p)" "field p 6 = FUint (WindowMs p)" "field p 7 = FUint (Counter p)"
  "field p 8 = FBstr (ConfigHash p)" "field p 9 = FBstr (InputHash p)"
  "field p 10 = FBstr (PrevDigest p)"
  by (simp_all add: field_def)

lemma validPredicate_iff: "validPredicate p \<longleftrightarrow> (\<forall>k<11. okField k (field p k))"
  by (simp add: all_11 field_simps okField_def validPredicate_def)

lemma Predicate_fieldI: "(\<And>k. k < 11 \<Longrightarrow> field p k = field q k) \<Longrightarrow> p = q"
proof -
  assume "\<And>k. k < 11 \<Longrightarrow> field p k = field q k"
  then have "\<forall>k<11. field p k = field q k" by blast
  then show "p = q"
    by (cases p; cases q) (simp add: all_11 field_simps)
qed

lemma record_field_iff:
  "p' = p\<lparr> Version := v \<rparr> \<longleftrightarrow> field p' 0 = FUint v \<and> (\<forall>j<11. j \<noteq> 0 \<longrightarrow> field p' j = field p j)"
  "p' = p\<lparr> Nonce := b \<rparr> \<longleftrightarrow> field p' 1 = FBstr b \<and> (\<forall>j<11. j \<noteq> 1 \<longrightarrow> field p' j = field p j)"
  "p' = p\<lparr> EventID := v \<rparr> \<longleftrightarrow> field p' 2 = FUint v \<and> (\<forall>j<11. j \<noteq> 2 \<longrightarrow> field p' j = field p j)"
  "p' = p\<lparr> VoiceActive := t \<rparr> \<longleftrightarrow> field p' 3 = FBool t \<and> (\<forall>j<11. j \<noteq> 3 \<longrightarrow> field p' j = field p j)"
  "p' = p\<lparr> Presence := v \<rparr> \<longleftrightarrow> field p' 4 = FUint v \<and> (\<forall>j<11. j \<noteq> 4 \<longrightarrow> field p' j = field p j)"
  "p' = p\<lparr> Frames := v \<rparr> \<longleftrightarrow> field p' 5 = FUint v \<and> (\<forall>j<11. j \<noteq> 5 \<longrightarrow> field p' j = field p j)"
  "p' = p\<lparr> WindowMs := v \<rparr> \<longleftrightarrow> field p' 6 = FUint v \<and> (\<forall>j<11. j \<noteq> 6 \<longrightarrow> field p' j = field p j)"
  "p' = p\<lparr> Counter := v \<rparr> \<longleftrightarrow> field p' 7 = FUint v \<and> (\<forall>j<11. j \<noteq> 7 \<longrightarrow> field p' j = field p j)"
  "p' = p\<lparr> ConfigHash := b \<rparr> \<longleftrightarrow> field p' 8 = FBstr b \<and> (\<forall>j<11. j \<noteq> 8 \<longrightarrow> field p' j = field p j)"
  "p' = p\<lparr> InputHash := b \<rparr> \<longleftrightarrow> field p' 9 = FBstr b \<and> (\<forall>j<11. j \<noteq> 9 \<longrightarrow> field p' j = field p j)"
  "p' = p\<lparr> PrevDigest := b \<rparr> \<longleftrightarrow> field p' 10 = FBstr b \<and> (\<forall>j<11. j \<noteq> 10 \<longrightarrow> field p' j = field p j)"
  by (cases p; cases p'; auto simp: all_11 field_simps)+

lemma decode_step_iff:
  "bindE (wrapE w x) (\<lambda>(r, v). Inr (r, f v)) = Inr (r', p') \<longleftrightarrow> (\<exists>v. x = Inr (r', v) \<and> p' = f v)"
  "bindE (wrapE w x) (\<lambda>(r, v). if bad v then Inl (e v) else Inr (r, f v)) = Inr (r', p') \<longleftrightarrow>
     (\<exists>v. x = Inr (r', v) \<and> \<not> bad v \<and> p' = f v)"
  by (cases x; auto split: if_splits)+

text \<open>Reading the value of key \<open>k\<close>: exactly when the input starts with the encoding of a valid
  value, which becomes field \<open>k\<close>; the other fields keep theirs.\<close>

lemma decodeValue_iff:
  assumes "k < 11"
  shows "decodeValue (word_of_nat k) r p = Inr (r', p') \<longleftrightarrow>
     okField k (field p' k) \<and> (\<exists>zs. view r = encVal (field p' k) @ zs) \<and>
     r' = advance (length (encVal (field p' k))) r \<and> (\<forall>j<11. j \<noteq> k \<longrightarrow> field p' j = field p j)"
  using assms
  by (cases rule: less_11_cases)
    (auto simp: decodeValue_def decode_step_iff record_field_iff readUint_iff readBstr_iff
      readBool_iff field_simps okField_def NonceMax_def hashLen_def not_less)

lemma decodeValue_unknown: "11 \<le> unat key \<Longrightarrow> decodeValue key r p = Inl (UnknownKey key)"
  by (auto simp: decodeValue_def)

section \<open>The loop reads the keys 0 to 10 in order\<close>

definition nextKey :: "u64 option \<Rightarrow> nat" where
  "nextKey lastKey = (case lastKey of None \<Rightarrow> 0 | Some l \<Rightarrow> Suc (unat l))"

lemma nextKey_simps [simp]: "nextKey None = 0" "nextKey (Some l) = Suc (unat l)"
  by (simp_all add: nextKey_def)

lemma seen_dup: "seen AND 2 ^ k = 0 \<longleftrightarrow> \<not> bit (seen :: u64) k"
  by (rule and_exp_eq_0_iff_not_bit)

lemma seen_set: "k < 11 \<Longrightarrow> bit (seen OR 2 ^ k :: u64) j \<longleftrightarrow> bit seen j \<or> j = k"
  by (auto simp: bit_simps bit_exp_iff)

lemma bit_allKeys: "bit allKeys j \<longleftrightarrow> j < 11"
proof -
  have "allKeys = mask 11" by (simp add: allKeys_def mask_eq_exp_minus_1)
  then have "bit allKeys j \<longleftrightarrow> bit (mask 11 :: u64) j" by (rule arg_cong)
  also have "\<dots> \<longleftrightarrow> j < 11" by (auto simp: bit_mask_iff)
  finally show ?thesis .
qed

text \<open>One iteration that succeeds.\<close>

lemma decodeLoop_SucE:
  assumes "decodeLoop (Suc n) r p seen lastKey = Inr (r', q, seen')"
  obtains k p2 where "nextKey lastKey \<le> k" and "k < 11" and "\<not> bit seen k"
    and "\<exists>zs. view r = encEntry p2 k @ zs" and "okField k (field p2 k)"
    and "\<forall>j<11. j \<noteq> k \<longrightarrow> field p2 j = field p j"
    and "decodeLoop n (advance (length (encEntry p2 k)) r) p2 (seen OR 2 ^ k)
           (Some (word_of_nat k)) = Inr (r', q, seen')"
proof -
  from assms obtain r1 key r2 p2 where key: "readUint r = Inr (r1, key)"
    and lk: "\<not> (lastKey \<noteq> None \<and> key \<le> the lastKey)"
    and dup: "\<not> (key < 11 \<and> seen AND push_bit (unat key) 1 \<noteq> 0)"
    and val: "decodeValue key r1 p = Inr (r2, p2)"
    and rest: "decodeLoop n r2 p2 (if key < 11 then seen OR push_bit (unat key) 1 else seen) (Some key)
        = Inr (r', q, seen')"
    by (auto simp: bindE_Inr_iff Let_def split: if_splits)
  define k where "k = unat key"
  have wk: "word_of_nat k = key" by (simp add: k_def)
  have k11: "k < 11"
    using decodeValue_unknown [of key r1 p] val by (fastforce simp: k_def not_less)
  then have key11: "key < 11" by (simp add: k_def word_less_nat_alt)
  note dv = decodeValue_iff [OF k11, unfolded wk, THEN iffD1, OF val]
  have vw: "\<exists>zs. view r = encEntry p2 k @ zs" and r2: "r2 = advance (length (encEntry p2 k)) r"
    using key dv by (auto simp: readUint_iff encEntry_def wk view_advance)
  have "nextKey lastKey \<le> k"
    using lk by (cases lastKey) (auto simp: k_def word_le_nat_alt)
  moreover have "\<not> bit seen k"
    using dup key11 by (simp add: seen_dup k_def)
  moreover have "decodeLoop n (advance (length (encEntry p2 k)) r) p2 (seen OR 2 ^ k)
      (Some (word_of_nat k)) = Inr (r', q, seen')"
    using rest key11 by (simp add: r2 wk) (simp add: k_def)
  ultimately show thesis
    using k11 vw dv by (intro that [of k p2]) blast+
qed

lemma decodeLoop_bits:
  "decodeLoop n r p seen lastKey = Inr (r', q, seen') \<Longrightarrow> j < nextKey lastKey \<Longrightarrow>
   bit seen' j = bit seen j"
proof (induction n arbitrary: r p seen lastKey)
  case 0
  then show ?case by simp
next
  case (Suc n)
  from Suc.prems(1) show ?case
  proof (rule decodeLoop_SucE)
    fix k p2
    assume k: "nextKey lastKey \<le> k" "k < 11"
      and rest: "decodeLoop n (advance (length (encEntry p2 k)) r) p2 (seen OR 2 ^ k)
           (Some (word_of_nat k)) = Inr (r', q, seen')"
    have "bit seen' j = bit (seen OR 2 ^ k) j"
      using Suc.prems(2) k by (intro Suc.IH [OF rest]) (simp add: unat_of_nat)
    then show "bit seen' j = bit seen j"
      using k Suc.prems(2) by (simp add: seen_set)
  qed
qed

text \<open>A key that is passed over stays unset to the end of the loop.\<close>

lemma decodeLoop_no_gap:
  assumes "decodeLoop n r p (seen OR 2 ^ k) (Some (word_of_nat k)) = Inr (r', q, seen')"
    and "nextKey lastKey \<le> k" "k < 11"
    and "\<And>j. bit seen j \<Longrightarrow> j < nextKey lastKey" and "\<And>j. j < 11 \<Longrightarrow> bit seen' j"
  shows "k = nextKey lastKey"
proof (rule ccontr)
  assume "k \<noteq> nextKey lastKey"
  then have less: "nextKey lastKey < k" using assms(2) by simp
  then have "bit seen' (nextKey lastKey) = bit (seen OR 2 ^ k) (nextKey lastKey)"
    using assms(3) by (intro decodeLoop_bits [OF assms(1)]) (simp add: unat_of_nat)
  then show False
    using less assms(3-5) by (auto simp: seen_set)
qed

lemma decodeLoop_sound:
  assumes "decodeLoop n r p seen lastKey = Inr (r', q, seen')"
    and "nextKey lastKey \<le> 11" and "\<And>j. bit seen j \<Longrightarrow> j < nextKey lastKey"
    and "\<And>j. j < 11 \<Longrightarrow> bit seen' j"
  shows "n = 11 - nextKey lastKey \<and>
    (\<exists>zs. view r = concat (map (encEntry q) [nextKey lastKey..<11]) @ zs) \<and>
    r' = advance (length (concat (map (encEntry q) [nextKey lastKey..<11]))) r \<and>
    (\<forall>j<nextKey lastKey. field q j = field p j) \<and>
    (\<forall>j<11. nextKey lastKey \<le> j \<longrightarrow> okField j (field q j))"
  using assms
proof (induction n arbitrary: r p seen lastKey)
  case 0
  then have "nextKey lastKey = 11"
    by (metis decodeLoop.simps(1) le_antisym nat_less_le not_less old.sum.inject(2) prod.inject)
  with 0 show ?case by simp
next
  case (Suc n)
  from Suc.prems(1) show ?case
  proof (rule decodeLoop_SucE)
    fix k p2
    let ?r = "advance (length (encEntry p2 k)) r"
    assume k: "nextKey lastKey \<le> k" "k < 11" and "\<not> bit seen k"
      and vw: "\<exists>zs. view r = encEntry p2 k @ zs" and ok: "okField k (field p2 k)"
      and same: "\<forall>j<11. j \<noteq> k \<longrightarrow> field p2 j = field p j"
      and rest: "decodeLoop n ?r p2 (seen OR 2 ^ k) (Some (word_of_nat k)) = Inr (r', q, seen')"
    have uk: "unat (word_of_nat k :: u64) = k"
      using k by (simp add: unat_of_nat)
    have "k = nextKey lastKey"
      by (rule decodeLoop_no_gap [OF rest k Suc.prems(3,4)])
    moreover have "n = 11 - Suc k \<and>
        (\<exists>zs. view ?r = concat (map (encEntry q) [Suc k..<11]) @ zs) \<and>
        r' = advance (length (concat (map (encEntry q) [Suc k..<11]))) ?r \<and>
        (\<forall>j<Suc k. field q j = field p2 j) \<and> (\<forall>j<11. Suc k \<le> j \<longrightarrow> okField j (field q j))"
    proof -
      have "j < Suc k" if "bit (seen OR 2 ^ k) j" for j
        using that Suc.prems(3) [of j] k by (auto simp: seen_set)
      with Suc.IH [OF rest, unfolded nextKey_simps uk] Suc.prems(4) Suc_leI [OF k(2)]
      show ?thesis by blast
    qed
    moreover have "[k..<11] = k # [Suc k..<11]"
      using k by (simp add: upt_conv_Cons)
    moreover have "encEntry q k = encEntry p2 k"
      using calculation(2) by (simp add: encEntry_def)
    ultimately show ?thesis
      using vw ok same k
      by (auto simp: view_advance le_less_Suc_eq Suc_le_eq)
  qed
qed

lemma field_update_exists:
  assumes "k < 11"
  shows "\<exists>p'. field p' k = field q k \<and> (\<forall>j<11. j \<noteq> k \<longrightarrow> field p' j = field p j)"
  using assms
proof (cases rule: less_11_cases)
  case 1 then show ?thesis by (intro exI [of _ "p\<lparr> Version := Version q \<rparr>"]) (simp add: all_11 field_simps)
next
  case 2 then show ?thesis by (intro exI [of _ "p\<lparr> Nonce := Nonce q \<rparr>"]) (simp add: all_11 field_simps)
next
  case 3 then show ?thesis by (intro exI [of _ "p\<lparr> EventID := EventID q \<rparr>"]) (simp add: all_11 field_simps)
next
  case 4 then show ?thesis by (intro exI [of _ "p\<lparr> VoiceActive := VoiceActive q \<rparr>"]) (simp add: all_11 field_simps)
next
  case 5 then show ?thesis by (intro exI [of _ "p\<lparr> Presence := Presence q \<rparr>"]) (simp add: all_11 field_simps)
next
  case 6 then show ?thesis by (intro exI [of _ "p\<lparr> Frames := Frames q \<rparr>"]) (simp add: all_11 field_simps)
next
  case 7 then show ?thesis by (intro exI [of _ "p\<lparr> WindowMs := WindowMs q \<rparr>"]) (simp add: all_11 field_simps)
next
  case 8 then show ?thesis by (intro exI [of _ "p\<lparr> Counter := Counter q \<rparr>"]) (simp add: all_11 field_simps)
next
  case 9 then show ?thesis by (intro exI [of _ "p\<lparr> ConfigHash := ConfigHash q \<rparr>"]) (simp add: all_11 field_simps)
next
  case 10 then show ?thesis by (intro exI [of _ "p\<lparr> InputHash := InputHash q \<rparr>"]) (simp add: all_11 field_simps)
next
  case 11 then show ?thesis by (intro exI [of _ "p\<lparr> PrevDigest := PrevDigest q \<rparr>"]) (simp add: all_11 field_simps)
qed

text \<open>One round on a stream that goes on with the entry of the expected key.\<close>

lemma decodeLoop_step:
  assumes "nextKey lastKey = k" "k < 11" and "\<not> bit seen k"
    and "view r = encEntry q k @ zs" and "okField k (field q k)"
  obtains p2 where "field p2 k = field q k" "\<forall>j<11. j \<noteq> k \<longrightarrow> field p2 j = field p j"
    "decodeLoop (Suc n) r p seen lastKey =
      decodeLoop n (advance (length (encEntry q k)) r) p2 (seen OR 2 ^ k) (Some (word_of_nat k))"
proof -
  define key :: u64 where "key = word_of_nat k"
  have key: "unat key = k" "key < 11"
    using assms(2) by (simp_all add: key_def unat_of_nat word_less_nat_alt)
  obtain p2 where p2: "field p2 k = field q k" "\<forall>j<11. j \<noteq> k \<longrightarrow> field p2 j = field p j"
    using field_update_exists [OF assms(2)] by blast
  define r1 where "r1 = advance (length (enc_uint key)) r"
  have rd: "readUint r = Inr (r1, key)"
    using assms(4) by (simp add: readUint_iff encEntry_def [of q k] key_def r1_def)
  have "view r1 = encVal (field q k) @ zs"
    using assms(4) by (simp add: encEntry_def [of q k] key_def r1_def view_advance)
  then have val: "decodeValue key r1 p = Inr (advance (length (encVal (field q k))) r1, p2)"
    using assms(2,5) p2 by (simp add: key_def decodeValue_iff view_advance)
  have lk: "\<not> (lastKey \<noteq> None \<and> key \<le> the lastKey)"
    using assms(1) key by (cases lastKey) (auto simp: word_le_nat_alt)
  have "seen AND 2 ^ k = 0"
    using assms(3) by (auto simp: seen_dup)
  then have "decodeLoop (Suc n) r p seen lastKey =
      decodeLoop n (advance (length (encVal (field q k))) r1) p2 (seen OR 2 ^ k) (Some key)"
    using rd lk val key by (cases lastKey) (simp_all add: Let_def)
  moreover have "advance (length (encVal (field q k))) r1 = advance (length (encEntry q k)) r"
    by (simp add: r1_def encEntry_def [of q k] key_def)
  ultimately show thesis
    using p2 by (intro that [of p2]) (simp_all only: key_def)
qed

lemma decodeLoop_complete:
  assumes "nextKey lastKey = k" and "k + n = 11" and "\<And>j. bit seen j \<Longrightarrow> j < k"
    and "view r = concat (map (encEntry q) [k..<11]) @ zs"
    and "\<And>j. k \<le> j \<Longrightarrow> j < 11 \<Longrightarrow> okField j (field q j)"
    and "\<And>j. j < k \<Longrightarrow> field p j = field q j"
  shows "\<exists>seen'. decodeLoop n r p seen lastKey =
      Inr (advance (length (concat (map (encEntry q) [k..<11]))) r, q, seen') \<and>
    (\<forall>j. bit seen' j \<longleftrightarrow> bit seen j \<or> (k \<le> j \<and> j < 11))"
  using assms
proof (induction n arbitrary: r p seen lastKey k)
  case 0
  then have "p = q" by (intro Predicate_fieldI) simp
  with 0 show ?case by (auto simp: not_less intro!: exI [of _ seen])
next
  case (Suc n)
  then have k: "k < 11" and upt: "[k..<11] = k # [Suc k..<11]"
    by (simp_all add: upt_conv_Cons)
  let ?r = "advance (length (encEntry q k)) r"
  have vw: "view r = encEntry q k @ concat (map (encEntry q) [Suc k..<11]) @ zs"
    using Suc.prems(4) by (simp add: upt)
  have nb: "\<not> bit seen k" using Suc.prems(3) [of k] by auto
  obtain p2 where p2: "field p2 k = field q k" "\<forall>j<11. j \<noteq> k \<longrightarrow> field p2 j = field p j"
      "decodeLoop (Suc n) r p seen lastKey = decodeLoop n ?r p2 (seen OR 2 ^ k) (Some (word_of_nat k))"
    using decodeLoop_step [OF Suc.prems(1) k nb vw Suc.prems(5) [OF order.refl k]] by blast
  have "\<exists>seen'. decodeLoop n ?r p2 (seen OR 2 ^ k) (Some (word_of_nat k)) =
      Inr (advance (length (concat (map (encEntry q) [Suc k..<11]))) ?r, q, seen') \<and>
    (\<forall>j. bit seen' j \<longleftrightarrow> bit (seen OR 2 ^ k) j \<or> (Suc k \<le> j \<and> j < 11))"
  proof (rule Suc.IH)
    show "nextKey (Some (word_of_nat k)) = Suc k" using k by (simp add: unat_of_nat)
    show "view ?r = concat (map (encEntry q) [Suc k..<11]) @ zs" using vw by (simp add: view_advance)
    show "field p2 j = field q j" if "j < Suc k" for j
      using that p2 Suc.prems(6) [of j] k by (auto simp: less_Suc_eq)
    show "j < Suc k" if "bit (seen OR 2 ^ k) j" for j
      using that Suc.prems(3) [of j] k by (auto simp: seen_set)
  qed (use Suc.prems in auto)
  then show ?case
    using k p2(3) by (auto simp: seen_set Suc_le_eq le_less upt add.assoc)
qed

section \<open>The decoder inverts the encoder\<close>

lemma DecodePayload_encode:
  assumes "validPredicate q"
  shows "DecodePayload (encodePayload q) = Inr q"
proof -
  define body where "body = concat (map (encEntry q) [0..<11])"
  define r1 where "r1 = advance (length (cbor_head 5 11)) (newReader (encodePayload q))"
  have "readHead (newReader (encodePayload q)) = Inr (r1, 5, 11)"
    by (simp add: readHead_iff r1_def encodePayload_def)
  moreover have "view r1 = body"
    by (simp add: r1_def view_advance encodePayload_def body_def)
  then obtain seen' where
    "decodeLoop 11 r1 emptyPredicate 0 None = Inr (advance (length body) r1, q, seen')"
    and bits: "\<forall>j. bit seen' j \<longleftrightarrow> j < 11"
    using decodeLoop_complete [of None 0 11 0 r1 q "[]" emptyPredicate] assms
    by (auto simp: validPredicate_iff body_def)
  moreover have "seen' = allKeys"
    using bits by (intro bit_word_eqI) (simp add: bit_allKeys)
  moreover have "pos (advance (length body) r1) = length (encodePayload q)"
    by (simp add: r1_def encodePayload_def body_def)
  ultimately show ?thesis
    by (simp add: DecodePayload_def)
qed

lemma DecodePayload_sound:
  assumes "DecodePayload b = Inr q"
  shows "validPredicate q \<and> b = encodePayload q"
proof -
  from assms obtain r1 n r2 seen where head: "readHead (newReader b) = Inr (r1, 5, n)"
    and loop: "decodeLoop (unat n) r1 emptyPredicate 0 None = Inr (r2, q, seen)"
    and seen: "seen = allKeys" and at_end: "pos r2 = length b"
    by (auto simp: DecodePayload_def bindE_Inr_iff split: if_splits)
  define body where "body = concat (map (encEntry q) [0..<11])"
  from decodeLoop_sound [OF loop]
  have n: "unat n = 11" and vw: "\<exists>zs. view r1 = body @ zs" and r2: "r2 = advance (length body) r1"
    and ok: "\<forall>j<11. okField j (field q j)"
    by (simp_all add: seen bit_allKeys body_def)
  have "n = 11"
    using n by (simp add: word_unat_eq_iff)
  then obtain zs where b: "b = cbor_head 5 11 @ body @ zs"
    and r1: "r1 = advance (length (cbor_head 5 11)) (newReader b)"
    using head vw by (auto simp: readHead_iff view_advance)
  then have "zs = []"
    using at_end by (simp add: r2 r1)
  then show ?thesis
    using b ok by (simp add: encodePayload_def body_def validPredicate_iff)
qed

text \<open>C2: \<open>DecodePayload\<close> accepts a byte string exactly when it is the deterministic encoding
  (the one the device emits) of a predicate with a nonce of at most 64 bytes and 32-byte digests,
  and then returns that predicate: no second encoding of a signed payload is accepted, no key may
  be missing, repeated, reordered or unknown, and nothing may trail the map.\<close>

theorem DecodePayload_iff: "DecodePayload b = Inr p \<longleftrightarrow> validPredicate p \<and> b = encodePayload p"
  using DecodePayload_encode DecodePayload_sound by blast
end
