(* ===== verification/P256.thy ===== *)
theory P256
  imports Prelude
begin

text \<open>
  The curve NIST P-256 and ECDSA over it, the \<open>crypto/elliptic\<close> and \<open>crypto/ecdsa\<close> of Go's
  standard library: affine points over the integers modulo \<open>p\<close>, double-and-add scalar
  multiplication, \<open>IsOnCurve\<close>, \<open>ScalarBaseMult\<close>, \<open>ecdsa.Verify\<close> and \<open>ecdsa.Sign\<close>. The random
  nonce that \<open>ecdsa.Sign\<close> draws is an argument.
\<close>

section \<open>Modular inverse\<close>

definition modinv :: "int \<Rightarrow> int \<Rightarrow> int" where
  "modinv a m = fst (bezw (nat (a mod m)) (nat m)) mod m"

text \<open>Extended Euclid finds the inverse whenever there is one, so a candidate that multiplies
  to 1 is the inverse.\<close>

lemma modinv_eqI:
  assumes m: "1 < m" and inv: "(a * b) mod m = 1" and b: "0 \<le> b" "b < m"
  shows "modinv a m = b"
proof -
  define x u v where "x = nat (a mod m)" and "u = fst (bezw x (nat m))"
    and "v = snd (bezw x (nat m))"
  have x: "int x = a mod m"
    using m by (simp add: x_def)
  have bez: "u * int x + v * m = int (gcd x (nat m))"
    using bezw_aux [of x "nat m"] m by (simp add: u_def v_def)
  have xb: "(int x * b) mod m = 1"
    using inv by (simp add: x mod_mult_left_eq)
  have "int (gcd x (nat m)) dvd int x" and "int (gcd x (nat m)) dvd int (nat m)"
    by (simp_all only: int_dvd_int_iff gcd_dvd1 gcd_dvd2)
  then have "int (gcd x (nat m)) dvd int x * b mod m"
    using m by (intro dvd_mod dvd_mult2) simp_all
  then have g: "int (gcd x (nat m)) = 1"
    by (simp add: xb)
  have "u mod m = (u * ((int x * b) mod m)) mod m"
    by (simp add: xb)
  also have "\<dots> = ((u * int x) * b) mod m"
    by (simp add: mod_mult_right_eq mult.assoc)
  also have "u * int x = 1 - v * m"
    using bez g by simp
  also have "((1 - v * m) * b) mod m = (b + (- (v * b)) * m) mod m"
    by (simp add: algebra_simps)
  also have "\<dots> = b mod m"
    by (rule mod_mult_self1)
  finally show ?thesis
    using b by (simp add: modinv_def u_def x_def)
qed

section \<open>The curve\<close>

definition p256_p :: int where
  "p256_p = 0xffffffff00000001000000000000000000000000ffffffffffffffffffffffff"

definition p256_n :: int where
  "p256_n = 0xffffffff00000000ffffffffffffffffbce6faada7179e84f3b9cac2fc632551"

definition p256_b :: int where
  "p256_b = 0x5ac635d8aa3a93e7b3ebbd55769886bc651d06b0cc53b0f63bce3c3e27d2604b"

datatype ec_point = Infinity | Affine int int

definition p256_G :: ec_point where
  "p256_G = Affine 0x6b17d1f2e12c4247f8bce6e563a440f277037d812deb33a0f4a13945d898c296
                   0x4fe342e2fe1a7f9b8ee7eb4a7c0f9e162bce33576b315ececbb6406837bf51f5"

text \<open>\<open>elliptic.P256().IsOnCurve\<close>: it rejects (0, 0), Go's point at infinity, and coordinates
  that are not reduced.\<close>

definition onCurve :: "int \<Rightarrow> int \<Rightarrow> bool" where
  "onCurve x y \<longleftrightarrow> \<not> (x = 0 \<and> y = 0) \<and> 0 \<le> x \<and> x < p256_p \<and> 0 \<le> y \<and> y < p256_p \<and>
     (y * y) mod p256_p = (x * x * x - 3 * x + p256_b) mod p256_p"

text \<open>The chord or tangent through two points of slope \<open>l\<close>, and the addition law.\<close>

definition ec_line :: "int \<Rightarrow> int \<Rightarrow> int \<Rightarrow> int \<Rightarrow> ec_point" where
  "ec_line l x1 y1 x2 =
     (let x3 = (l * l - x1 - x2) mod p256_p in Affine x3 ((l * (x1 - x3) - y1) mod p256_p))"

fun ec_add :: "ec_point \<Rightarrow> ec_point \<Rightarrow> ec_point" where
  "ec_add Infinity Q = Q"
| "ec_add P Infinity = P"
| "ec_add (Affine x1 y1) (Affine x2 y2) =
     (if x1 = x2 then
        if (y1 + y2) mod p256_p = 0 then Infinity
        else ec_line (((3 * x1 * x1 - 3) * modinv (2 * y1) p256_p) mod p256_p) x1 y1 x2
      else ec_line (((y2 - y1) * modinv (x2 - x1) p256_p) mod p256_p) x1 y1 x2)"

fun ec_mul :: "nat \<Rightarrow> ec_point \<Rightarrow> ec_point" where
  "ec_mul k P =
     (if k = 0 then Infinity
      else if even k then ec_mul (k div 2) (ec_add P P)
      else ec_add P (ec_mul (k div 2) (ec_add P P)))"

declare ec_mul.simps [simp del]

lemma ec_add_Infinity_right [simp]: "ec_add P Infinity = P"
  by (cases P) simp_all

lemma ec_mul_0 [simp]: "ec_mul 0 P = Infinity"
  by (simp add: ec_mul.simps)

lemma ec_mul_1 [simp]: "ec_mul (Suc 0) P = P"
  by (simp add: ec_mul.simps)

text \<open>Addition of two points with different x coordinates, given the inverse.\<close>

lemma ec_add_chord:
  assumes "x1 \<noteq> x2" and "((x2 - x1) * i) mod p256_p = 1" and "0 \<le> i" "i < p256_p"
  shows "ec_add (Affine x1 y1) (Affine x2 y2) = ec_line (((y2 - y1) * i) mod p256_p) x1 y1 x2"
proof -
  have "modinv (x2 - x1) p256_p = i"
    using assms by (intro modinv_eqI) (simp_all add: p256_p_def)
  with assms(1) show ?thesis by simp
qed

text \<open>The same with every quotient given, so that only products are to be computed.\<close>

lemma mod_hint: "x = q * m + r \<Longrightarrow> 0 \<le> r \<Longrightarrow> r < m \<Longrightarrow> x mod m = (r :: int)"
  by simp

lemma ec_add_hint:
  assumes "x1 \<noteq> x2" and "(x2 - x1) * i = q0 * p256_p + 1" "0 \<le> i" "i < p256_p"
    and "(y2 - y1) * i = q1 * p256_p + l" "0 \<le> l" "l < p256_p"
    and "l * l - x1 - x2 = q2 * p256_p + x3" "0 \<le> x3" "x3 < p256_p"
    and "l * (x1 - x3) - y1 = q3 * p256_p + y3" "0 \<le> y3" "y3 < p256_p"
  shows "ec_add (Affine x1 y1) (Affine x2 y2) = Affine x3 y3"
proof -
  have "((x2 - x1) * i) mod p256_p = 1"
    using assms(2) by (rule mod_hint) (simp_all add: p256_p_def)
  moreover have "((y2 - y1) * i) mod p256_p = l"
    using assms(5-7) by (rule mod_hint)
  ultimately have "ec_add (Affine x1 y1) (Affine x2 y2) = ec_line l x1 y1 x2"
    using ec_add_chord [OF assms(1) _ assms(3,4)] by simp
  also have "\<dots> = Affine x3 y3"
    using mod_hint [OF assms(8-10)] mod_hint [OF assms(11-13)] by (simp add: ec_line_def)
  finally show ?thesis .
qed

lemma onCurve_hint:
  assumes "y * y = q1 * p256_p + c" and "x * x * x - 3 * x + p256_b = q2 * p256_p + c"
    and "0 < x" "x < p256_p" "0 \<le> y" "y < p256_p"
  shows "onCurve x y"
  using assms by (simp add: onCurve_def)

text \<open>\<open>ScalarBaseMult\<close> returns (0, 0) for the point at infinity.\<close>

fun ec_affine :: "ec_point \<Rightarrow> int \<times> int" where
  "ec_affine Infinity = (0, 0)"
| "ec_affine (Affine x y) = (x, y)"

definition ScalarBaseMult :: "bytes \<Rightarrow> int \<times> int" where
  "ScalarBaseMult d = ec_affine (ec_mul (nat (int (be_nat d) mod p256_n)) p256_G)"

section \<open>ECDSA\<close>

text \<open>\<open>ecdsa.Verify(&PublicKey{P256, qx, qy}, hash, r, s)\<close> for a 32-byte hash.\<close>

definition ecdsaVerify :: "int \<Rightarrow> int \<Rightarrow> bytes \<Rightarrow> int \<Rightarrow> int \<Rightarrow> bool" where
  "ecdsaVerify qx qy hash r s \<longleftrightarrow>
     0 < r \<and> r < p256_n \<and> 0 < s \<and> s < p256_n \<and> onCurve qx qy \<and>
     (let e = int (be_nat hash) mod p256_n;
          w = modinv s p256_n;
          u1 = nat ((e * w) mod p256_n);
          u2 = nat ((r * w) mod p256_n)
      in case ec_add (ec_mul u1 p256_G) (ec_mul u2 (Affine qx qy)) of
           Infinity \<Rightarrow> False
         | Affine x _ \<Rightarrow> x mod p256_n = r)"

text \<open>\<open>ecdsa.Sign\<close> with private scalar \<open>d\<close> and the nonce \<open>k\<close> it draws.\<close>

definition ecdsaSign :: "int \<Rightarrow> int \<Rightarrow> bytes \<Rightarrow> int \<times> int" where
  "ecdsaSign k d hash =
     (let r = fst (ec_affine (ec_mul (nat k) p256_G)) mod p256_n;
          e = int (be_nat hash) mod p256_n
      in (r, (modinv k p256_n * (e + r * d)) mod p256_n))"

text \<open>
  A signature whose r and s both equal the hash makes both scalars 1, so that checking it is
  one addition: the concrete instances of the development use keys with this property.
\<close>

lemma ecdsaVerify_unit:
  assumes "int (be_nat hash) = r" and "0 < r" and "r < p256_n"
    and "r * i = q * p256_n + 1" and "0 \<le> i" and "i < p256_n"
    and "onCurve qx qy"
    and "ec_add p256_G (Affine qx qy) = Affine r y"
  shows "ecdsaVerify qx qy hash r r"
proof -
  have "(r * i) mod p256_n = 1"
    using assms(4) by (rule mod_hint) (simp_all add: p256_n_def)
  then have "modinv r p256_n = i"
    using assms(5,6) by (intro modinv_eqI) (simp_all add: p256_n_def)
  then show ?thesis
    using assms by (simp add: ecdsaVerify_def)
qed

end
