(* ===== verification/GoStd.thy ===== *)
theory GoStd
  imports Prelude
begin

text \<open>
  The parts of Go's standard library the verifier computes with, as executable functions:
  \<open>encoding/hex\<close>, \<open>strconv\<close>, \<open>encoding/base64\<close> (StdEncoding), \<open>bytes.Split\<close> /
  \<open>bytes.TrimRight\<close> on newlines, and \<open>subtle.ConstantTimeCompare\<close>; with the round trips of
  each encoder and its decoder; and well-formed UTF-8.
\<close>

section \<open>encoding/hex\<close>

datatype hex_error = HexInvalidByte char | HexLength

definition from_hex_char :: "char \<Rightarrow> nat option" where
  "from_hex_char c = (let n = of_char c in
     if 48 \<le> n \<and> n \<le> 57 then Some (n - 48)
     else if 97 \<le> n \<and> n \<le> 102 then Some (n - 87)
     else if 65 \<le> n \<and> n \<le> 70 then Some (n - 55)
     else None)"

definition hex_char :: "nat \<Rightarrow> char" where
  "hex_char v = char_of (if v < 10 then v + 48 else v + 87)"

text \<open>
  \<open>hex.DecodeString\<close>: pairs are decoded left to right; an odd length is reported only when
  every character, the last one included, is a hex digit.
\<close>

fun hex_decode :: "string \<Rightarrow> hex_error + bytes" where
  "hex_decode [] = Inr []"
| "hex_decode [c] =
     (case from_hex_char c of None \<Rightarrow> Inl (HexInvalidByte c) | Some _ \<Rightarrow> Inl HexLength)"
| "hex_decode (c # d # s) =
     (case from_hex_char c of
        None \<Rightarrow> Inl (HexInvalidByte c)
      | Some a \<Rightarrow>
          (case from_hex_char d of
             None \<Rightarrow> Inl (HexInvalidByte d)
           | Some b \<Rightarrow> bindE (hex_decode s) (\<lambda>bs. Inr (word_of_nat (16 * a + b) # bs))))"

fun hex_encode :: "bytes \<Rightarrow> string" where
  "hex_encode [] = []"
| "hex_encode (b # bs) = hex_char (unat b div 16) # hex_char (unat b mod 16) # hex_encode bs"

lemma from_hex_char_hex_char [simp]: "v < 16 \<Longrightarrow> from_hex_char (hex_char v) = Some v"
  by (auto simp: from_hex_char_def hex_char_def Let_def)

lemma hex_decode_encode [simp]: "hex_decode (hex_encode bs) = Inr bs"
proof (induction bs)
  case Nil
  then show ?case by simp
next
  case (Cons b bs)
  have "unat b div 16 < 16"
    using unat_byte_less [of b] by linarith
  moreover have "16 * (unat b div 16) + unat b mod 16 = unat b"
    by (rule mult_div_mod_eq)
  ultimately show ?case
    using Cons.IH by simp
qed

lemma length_hex_encode [simp]: "length (hex_encode bs) = 2 * length bs"
  by (induction bs) auto

lemma hex_encode_nonempty: "hex_encode b = [] \<longleftrightarrow> b = []"
  by (cases b) simp_all

lemma hex_decode_length: "hex_decode s = Inr bs \<Longrightarrow> length s = 2 * length bs"
  by (induction s arbitrary: bs rule: hex_decode.induct)
    (auto simp: bindE_Inr_iff split: option.splits)

lemma hex_encode_inj [simp]: "hex_encode a = hex_encode b \<longleftrightarrow> a = b"
  by (metis hex_decode_encode sum.inject(2))

lemma hex_decode_Nil_iff [simp]: "hex_decode s = Inr [] \<longleftrightarrow> s = []"
  using hex_decode_length [of s "[]"] by auto

lemma set_hex_encode: "set (hex_encode bs) \<subseteq> hex_char ` {..<16}"
proof (induction bs)
  case Nil
  then show ?case by simp
next
  case (Cons b bs)
  have "unat b div 16 < 16"
    using unat_byte_less [of b] by linarith
  then have "hex_char (unat b div 16) \<in> hex_char ` {..<16}" by blast
  moreover have "hex_char (unat b mod 16) \<in> hex_char ` {..<16}" by simp
  ultimately show ?case
    using Cons.IH by auto
qed

section \<open>strconv and the decimal verbs of fmt\<close>

definition digit_char :: "nat \<Rightarrow> char" where
  "digit_char d = char_of (48 + d)"

definition digit_val :: "char \<Rightarrow> nat option" where
  "digit_val c = (let n = of_char c in if 48 \<le> n \<and> n \<le> 57 then Some (n - 48) else None)"

fun dec :: "nat \<Rightarrow> string" where
  "dec n = (if n < 10 then [digit_char n] else dec (n div 10) @ [digit_char (n mod 10)])"

declare dec.simps [simp del]

fun digits_val :: "nat \<Rightarrow> string \<Rightarrow> nat option" where
  "digits_val acc [] = Some acc"
| "digits_val acc (c # s) =
     (case digit_val c of None \<Rightarrow> None | Some d \<Rightarrow> digits_val (10 * acc + d) s)"

text \<open>\<open>strconv.ParseUint(s, 10, 64)\<close>: digits only, at least one, below \<open>2 ^ 64\<close>.\<close>

definition parse_uint64 :: "string \<Rightarrow> u64 option" where
  "parse_uint64 s =
     (if s = [] then None
      else case digits_val 0 s of
        None \<Rightarrow> None
      | Some n \<Rightarrow> if n < 2 ^ 64 then Some (word_of_nat n) else None)"

text \<open>\<open>strconv.Atoi\<close>: an optional sign, digits, and a value in the range of a 64-bit int.\<close>

definition atoi :: "string \<Rightarrow> int option" where
  "atoi s =
     (let neg = (s \<noteq> [] \<and> hd s = CHR ''-'');
          ds = (if s \<noteq> [] \<and> (hd s = CHR ''-'' \<or> hd s = CHR ''+'') then tl s else s)
      in if ds = [] then None
         else case digits_val 0 ds of
           None \<Rightarrow> None
         | Some n \<Rightarrow>
             (if neg then (if n \<le> 2 ^ 63 then Some (- int n) else None)
              else (if n < 2 ^ 63 then Some (int n) else None)))"

definition dec_int :: "int \<Rightarrow> string" where
  "dec_int i = (if i < 0 then CHR ''-'' # dec (nat (- i)) else dec (nat i))"

lemma digit_val_digit_char [simp]: "d < 10 \<Longrightarrow> digit_val (digit_char d) = Some d"
  by (auto simp: digit_val_def digit_char_def Let_def)

lemma digits_val_append:
  "digits_val acc (s @ t) =
   (case digits_val acc s of None \<Rightarrow> None | Some v \<Rightarrow> digits_val v t)"
  by (induction s arbitrary: acc) (auto split: option.splits)

lemma dec_nonempty [simp]: "dec n \<noteq> []"
  by (subst dec.simps) simp

lemma digits_val_dec_gen: "digits_val 0 (dec n) = Some n"
proof (induction n rule: dec.induct)
  case (1 n)
  show ?case
  proof (cases "n < 10")
    case True
    then show ?thesis by (subst dec.simps) simp
  next
    case False
    with 1 show ?thesis
      by (subst dec.simps) (simp add: digits_val_append)
  qed
qed

lemma set_dec: "c \<in> set (dec n) \<Longrightarrow> \<exists>d<10. c = digit_char d"
proof (induction n rule: dec.induct)
  case (1 n)
  then show ?case
    by (cases "n < 10") (auto simp: dec.simps [of n] intro: exI [of _ "n mod 10"])
qed

lemma digit_char_neq [simp]:
  "d < 10 \<Longrightarrow> digit_char d \<noteq> CHR ''-''"
  "d < 10 \<Longrightarrow> digit_char d \<noteq> CHR ''+''"
  "d < 10 \<Longrightarrow> digit_char d \<noteq> CHR 0x0A"
  by (auto simp: digit_char_def char_of_eq_iff take_bit_eq_mod)

lemma hd_dec: "hd (dec n) \<noteq> CHR ''-'' \<and> hd (dec n) \<noteq> CHR ''+''"
  using set_dec [of "hd (dec n)" n] hd_in_set [OF dec_nonempty [of n]] digit_char_neq by metis

lemma atoi_dec: "n < 2 ^ 63 \<Longrightarrow> atoi (dec n) = Some (int n)"
  using hd_dec [of n] by (simp add: atoi_def digits_val_dec_gen Let_def)

lemma parse_uint64_dec [simp]: "parse_uint64 (dec (unat v)) = Some v"
proof -
  have "unat v < 2 ^ 64"
    using unsigned_less [of v] by simp
  then show ?thesis
    by (simp add: parse_uint64_def digits_val_dec_gen)
qed

lemma newline_notin_dec [simp]: "CHR 0x0A \<notin> set (dec n)"
  using set_dec [of "CHR 0x0A" n] digit_char_neq(3) by metis

lemma hex_char_neq_newline: "v < 16 \<Longrightarrow> hex_char v \<noteq> CHR 0x0A"
  by (auto simp: hex_char_def dest: arg_cong [of _ _ "of_char :: char \<Rightarrow> nat"])

lemma newline_notin_hex [simp]: "CHR 0x0A \<notin> set (hex_encode bs)"
  using set_hex_encode [of bs] hex_char_neq_newline by fastforce

section \<open>base64.StdEncoding\<close>

definition b64_char :: "nat \<Rightarrow> char" where
  "b64_char v = char_of
     (if v < 26 then v + 65 else if v < 52 then v + 71 else if v < 62 then v - 4
      else if v = 62 then 43 else 47)"

definition b64_val :: "char \<Rightarrow> nat option" where
  "b64_val c = (let n = of_char c in
     if 65 \<le> n \<and> n \<le> 90 then Some (n - 65)
     else if 97 \<le> n \<and> n \<le> 122 then Some (n - 71)
     else if 48 \<le> n \<and> n \<le> 57 then Some (n + 4)
     else if n = 43 then Some 62 else if n = 47 then Some 63 else None)"

fun b64_encode :: "bytes \<Rightarrow> string" where
  "b64_encode [] = []"
| "b64_encode [a] =
     [b64_char (unat a div 4), b64_char (unat a mod 4 * 16), CHR ''='', CHR ''='']"
| "b64_encode [a, b] =
     [b64_char (unat a div 4), b64_char (unat a mod 4 * 16 + unat b div 16),
      b64_char (unat b mod 16 * 4), CHR ''='']"
| "b64_encode (a # b # c # bs) =
     b64_char (unat a div 4) # b64_char (unat a mod 4 * 16 + unat b div 16)
     # b64_char (unat b mod 16 * 4 + unat c div 64) # b64_char (unat c mod 64)
     # b64_encode bs"

text \<open>
  Decoding works on quanta of four characters; carriage returns and newlines anywhere are
  skipped, padding is allowed in the last quantum only, and the unused low bits of a padded
  quantum are not checked (the encoding is not \<open>Strict()\<close>).
\<close>

fun b64_quanta :: "string \<Rightarrow> bytes option" where
  "b64_quanta [] = Some []"
| "b64_quanta (c0 # c1 # c2 # c3 # rest) =
     (case (b64_val c0, b64_val c1) of
        (Some v0, Some v1) \<Rightarrow>
          (let b0 = word_of_nat (v0 * 4 + v1 div 16) in
           if c2 = CHR ''='' then
             (if c3 = CHR ''='' \<and> rest = [] then Some [b0] else None)
           else case b64_val c2 of
             None \<Rightarrow> None
           | Some v2 \<Rightarrow>
               (let b1 = word_of_nat (v1 mod 16 * 16 + v2 div 4) in
                if c3 = CHR ''='' then (if rest = [] then Some [b0, b1] else None)
                else case b64_val c3 of
                  None \<Rightarrow> None
                | Some v3 \<Rightarrow>
                    (let b2 = word_of_nat (v2 mod 4 * 64 + v3) in
                     map_option (\<lambda>bs. b0 # b1 # b2 # bs) (b64_quanta rest))))
      | _ \<Rightarrow> None)"
| "b64_quanta _ = None"

definition b64_decode :: "string \<Rightarrow> bytes option" where
  "b64_decode s = b64_quanta (filter (\<lambda>c. c \<noteq> CHR 0x0D \<and> c \<noteq> CHR 0x0A) s)"

lemma b64_val_char [simp]: "v < 64 \<Longrightarrow> b64_val (b64_char v) = Some v"
  by (auto simp: b64_val_def b64_char_def Let_def)

lemma b64_char_neq [simp]:
  "v < 64 \<Longrightarrow> b64_char v \<noteq> CHR ''=''"
  "v < 64 \<Longrightarrow> b64_char v \<noteq> CHR 0x0A"
  "v < 64 \<Longrightarrow> b64_char v \<noteq> CHR 0x0D"
  by (auto simp: b64_char_def char_of_eq_iff take_bit_eq_mod)

lemma byte_split_bounds [simp]:
  "unat (a :: byte) div 4 < 64" "unat a mod 4 * 16 < 64"
  "unat a mod 4 * 16 + unat (b :: byte) div 16 < 64"
  "unat b mod 16 * 4 < 64"
  "unat b mod 16 * 4 + unat (c :: byte) div 64 < 64"
  using unat_byte_less [of a] unat_byte_less [of b] unat_byte_less [of c] by linarith+

lemma byte_div [simp]:
  "unat (b :: byte) div 16 mod 16 = unat b div 16"
  "unat b div 16 div 16 = 0"
  "unat b div 64 div 4 = 0"
  "unat b div 64 mod 4 = unat b div 64"
proof -
  have "unat b div 16 < 16" "unat b div 64 < 4"
    using unat_byte_less [of b] by linarith+
  then show "unat b div 16 mod 16 = unat b div 16" "unat b div 16 div 16 = 0"
    "unat b div 64 div 4 = 0" "unat b div 64 mod 4 = unat b div 64" by simp_all
qed

lemma b64_quanta_encode: "b64_quanta (b64_encode bs) = Some bs"
proof (induction bs rule: b64_encode.induct)
  case 1
  then show ?case by simp
next
  case (2 a)
  have "unat a div 4 * 4 + unat a mod 4 * 16 div 16 = unat a" by simp
  then show ?case by (simp add: Let_def)
next
  case (3 a b)
  have "unat a div 4 * 4 + (unat a mod 4 * 16 + unat b div 16) div 16 = unat a"
    using unat_byte_less [of b] by (simp add: div_add1_eq div_mult2_eq [symmetric])
  moreover have "(unat a mod 4 * 16 + unat b div 16) mod 16 * 16 + unat b mod 16 * 4 div 4 = unat b"
    by simp
  ultimately show ?case by (simp add: Let_def)
next
  case (4 a b c bs)
  have "unat a div 4 * 4 + (unat a mod 4 * 16 + unat b div 16) div 16 = unat a"
    using unat_byte_less [of b] by (simp add: div_add1_eq div_mult2_eq [symmetric])
  moreover have "(unat a mod 4 * 16 + unat b div 16) mod 16 * 16
      + (unat b mod 16 * 4 + unat c div 64) div 4 = unat b"
    using unat_byte_less [of b] unat_byte_less [of c]
    by (simp add: div_add1_eq div_mult2_eq [symmetric])
  moreover have "(unat b mod 16 * 4 + unat c div 64) mod 4 * 64 + unat c mod 64 = unat c"
    using unat_byte_less [of c] by simp
  ultimately show ?case
    using 4 by (simp add: Let_def)
qed

lemma newline_notin_b64: "CHR 0x0A \<notin> set (b64_encode bs)"
  and return_notin_b64: "CHR 0x0D \<notin> set (b64_encode bs)"
  by (induction bs rule: b64_encode.induct) (simp_all add: b64_char_neq [symmetric])

lemma b64_decode_encode [simp]: "b64_decode (b64_encode bs) = Some bs"
proof -
  have "filter (\<lambda>c. c \<noteq> CHR 0x0D \<and> c \<noteq> CHR 0x0A) (b64_encode bs) = b64_encode bs"
    using newline_notin_b64 [of bs] return_notin_b64 [of bs] by (intro filter_True) auto
  then show ?thesis
    by (simp add: b64_decode_def b64_quanta_encode)
qed

lemma b64_encode_Nil_iff [simp]: "b64_encode bs = [] \<longleftrightarrow> bs = []"
  by (cases bs rule: b64_encode.cases) simp_all

section \<open>bytes.TrimRight, bytes.Split and constant-time comparison\<close>

definition trim_right_nl :: "string \<Rightarrow> string" where
  "trim_right_nl s = rev (dropWhile (\<lambda>c. c = CHR 0x0A) (rev s))"

fun split_nl :: "string \<Rightarrow> string list" where
  "split_nl [] = [[]]"
| "split_nl (c # s) =
     (if c = CHR 0x0A then [] # split_nl s
      else case split_nl s of [] \<Rightarrow> [[c]] | l # ls \<Rightarrow> (c # l) # ls)"

text \<open>\<open>strings.Split\<close> at a one-character separator.\<close>

fun splitAt :: "char \<Rightarrow> string \<Rightarrow> string list" where
  "splitAt sep [] = [[]]"
| "splitAt sep (c # s) =
     (if c = sep then [] # splitAt sep s
      else case splitAt sep s of [] \<Rightarrow> [[c]] | l # ls \<Rightarrow> (c # l) # ls)"

definition constantTimeCompare :: "bytes \<Rightarrow> bytes \<Rightarrow> nat" where
  "constantTimeCompare a b = (if a = b then 1 else 0)"

lemma constantTimeCompare_1 [simp]: "constantTimeCompare a b = 1 \<longleftrightarrow> a = b"
  "constantTimeCompare a b = Suc 0 \<longleftrightarrow> a = b"
  by (simp_all add: constantTimeCompare_def)

lemma split_nl_nonempty [simp]: "split_nl s \<noteq> []"
  by (induction s) (auto split: list.splits)

lemma split_nl_no_newline: "CHR 0x0A \<notin> set s \<Longrightarrow> split_nl s = [s]"
  by (induction s) auto

lemma split_nl_append:
  "CHR 0x0A \<notin> set s \<Longrightarrow> split_nl (s @ CHR 0x0A # t) = s # split_nl t"
  by (induction s) auto

lemma split_nl_no_newlineD: "l \<in> set (split_nl s) \<Longrightarrow> CHR 0x0A \<notin> set l"
proof (induction s arbitrary: l)
  case Nil
  then show ?case by simp
next
  case (Cons c s)
  obtain x xs where "split_nl s = x # xs"
    using split_nl_nonempty by (meson neq_Nil_conv)
  with Cons show ?case by (auto split: if_splits)
qed

lemma trim_right_nl_snoc [simp]: "trim_right_nl (s @ [CHR 0x0A]) = trim_right_nl s"
  by (simp add: trim_right_nl_def)

lemma trim_right_nl_id: "s \<noteq> [] \<Longrightarrow> last s \<noteq> CHR 0x0A \<Longrightarrow> trim_right_nl s = s"
  by (cases s rule: rev_cases) (simp_all add: trim_right_nl_def)

lemma trim_right_nl_lines:
  "CHR 0x0A \<notin> set l \<Longrightarrow> l \<noteq> [] \<Longrightarrow> trim_right_nl (s @ l @ [CHR 0x0A]) = s @ l"
proof -
  assume l: "CHR 0x0A \<notin> set l" "l \<noteq> []"
  then have "last l \<noteq> CHR 0x0A"
    using last_in_set by fastforce
  with l show ?thesis
    using trim_right_nl_snoc [of "s @ l"] trim_right_nl_id [of "s @ l"] by simp
qed

lemmas text_line_simps =
  split_nl_append split_nl_no_newline trim_right_nl_lines newline_notin_dec newline_notin_hex
  newline_notin_b64

section \<open>Well-formed UTF-8 and 64-bit ints\<close>

text \<open>\<open>runeSize\<close> is the number of bytes of the first rune of a string, 1 when the first byte is ASCII
  or starts no well-formed sequence (\<open>utf8.DecodeRuneInString\<close>); \<open>validUTF8\<close> is
  \<open>utf8.ValidString\<close>.\<close>

definition runeSize :: "string \<Rightarrow> nat" where
  "runeSize s =
     (let n = length s; c = (\<lambda>i. of_char (s ! i) :: nat); cont = (\<lambda>i. 0x80 \<le> c i \<and> c i \<le> 0xBF) in
      if 2 \<le> n \<and> 0xC2 \<le> c 0 \<and> c 0 \<le> 0xDF \<and> cont 1 then 2
      else if 3 \<le> n \<and> 0xE0 \<le> c 0 \<and> c 0 \<le> 0xEF \<and> cont 1 \<and> cont 2 \<and>
          \<not> (c 0 = 0xE0 \<and> c 1 < 0xA0) \<and> \<not> (c 0 = 0xED \<and> 0x9F < c 1) then 3
      else if 4 \<le> n \<and> 0xF0 \<le> c 0 \<and> c 0 \<le> 0xF4 \<and> cont 1 \<and> cont 2 \<and> cont 3 \<and>
          \<not> (c 0 = 0xF0 \<and> c 1 < 0x90) \<and> \<not> (c 0 = 0xF4 \<and> 0x8F < c 1) then 4
      else 1)"

lemma runeSize_pos [simp]: "0 < runeSize s"
  by (simp add: runeSize_def Let_def)

function validUTF8 :: "string \<Rightarrow> bool" where
  "validUTF8 s =
     (if s = [] then True
      else (of_char (hd s) < (0x80 :: nat) \<or> 1 < runeSize s) \<and> validUTF8 (drop (runeSize s) s))"
  by pat_completeness auto
termination
  by (relation "measure length") auto

declare validUTF8.simps [simp del]

lemma runeSize_ascii: "of_char c < (0x80 :: nat) \<Longrightarrow> runeSize (c # s) = 1"
  by (simp add: runeSize_def Let_def)

lemma validUTF8_ascii: "\<forall>c\<in>set s. of_char c < (0x80 :: nat) \<Longrightarrow> validUTF8 s"
proof (induction s)
  case (Cons c s)
  then show ?case by (subst validUTF8.simps) (simp add: runeSize_ascii)
qed (simp add: validUTF8.simps)

lemma validUTF8_hex [simp]: "validUTF8 (hex_encode bs)"
proof (rule validUTF8_ascii, rule ballI)
  fix c assume "c \<in> set (hex_encode bs)"
  then obtain i where "i < 16" "c = hex_char i" using set_hex_encode by blast
  then show "of_char c < (0x80 :: nat)" by (simp add: hex_char_def)
qed

definition int64 :: "int \<Rightarrow> bool" where
  "int64 n \<longleftrightarrow> - (2 ^ 63) \<le> n \<and> n < 2 ^ 63"

lemma atoi_int64: "atoi s = Some n \<Longrightarrow> int64 n"
  by (auto simp: atoi_def int64_def Let_def split: if_splits option.splits)

lemma atoi_dec_int64: "int64 n \<Longrightarrow> atoi (dec_int n) = Some n"
proof (cases "n < 0")
  case True
  assume "int64 n"
  then have "nat (- n) \<le> 2 ^ 63" by (simp add: int64_def nat_le_iff)
  then show ?thesis
    using True dec_nonempty [of "nat (- n)"] by (simp add: dec_int_def atoi_def Let_def digits_val_dec_gen)
next
  case False
  assume "int64 n"
  then have "nat n < 2 ^ 63" using False by (simp add: int64_def nat_less_iff)
  then show ?thesis using False atoi_dec [of "nat n"] by (simp add: dec_int_def)
qed

end
