(* ===== verification/Signature.thy ===== *)
theory Signature
  imports Sha256 P256 GoStd
begin

text \<open>
  The raw signature check every envelope shares (\<open>verifySig\<close>, \<open>lowS\<close> and \<open>NormalizeLowS\<close> of
  bound.go) and the key helpers of keys.go. A signature is 64 bytes, r and s big-endian.
\<close>

section \<open>Signatures\<close>

datatype sig_error = ErrShortSig | ErrBadPubKey | ErrECDSA

definition verifySig :: "bytes \<Rightarrow> bytes \<Rightarrow> bytes \<Rightarrow> bytes \<Rightarrow> sig_error + unit" where
  "verifySig payload sig px py =
     (if length sig \<noteq> 64 then Inl ErrShortSig
      else
        let x = int (be_nat px); y = int (be_nat py) in
        if \<not> onCurve x y then Inl ErrBadPubKey
        else
          let h = sha256 payload; r = int (be_nat (take 32 sig)); s = int (be_nat (drop 32 sig)) in
          if \<not> ecdsaVerify x y h r s then Inl ErrECDSA
          else Inr ())"

definition halfN :: int where
  "halfN = p256_n div 2"

definition lowS :: "bytes \<Rightarrow> bool" where
  "lowS sig = (if length sig \<noteq> 64 then False else int (be_nat (drop 32 sig)) \<le> halfN)"

definition NormalizeLowS :: "int \<Rightarrow> int" where
  "NormalizeLowS s = (if s > halfN then p256_n - s else s)"

text \<open>The 64 bytes a signer emits: both numbers \<open>FillBytes\<close>-padded to 32 bytes.\<close>

definition sigBytes :: "int \<Rightarrow> int \<Rightarrow> bytes" where
  "sigBytes r s = be_bytes 32 (nat r) @ be_bytes 32 (nat s)"

lemma p256_n_odd: "p256_n = 2 * halfN + 1"
  by (simp add: halfN_def p256_n_def)

lemma p256_n_pos [simp]: "0 < p256_n"
  by (simp add: p256_n_def)

lemma p256_n_bytes: "nat p256_n \<le> 256 ^ 32"
  by (simp add: p256_n_def)

lemma length_sigBytes [simp]: "length (sigBytes r s) = 64"
  by (simp add: sigBytes_def)

lemma sigBytes_parts:
  assumes "0 \<le> r" "r < p256_n" "0 \<le> s" "s < p256_n"
  shows "int (be_nat (take 32 (sigBytes r s))) = r" "int (be_nat (drop 32 (sigBytes r s))) = s"
proof -
  have "nat r < 256 ^ 32" "nat s < 256 ^ 32"
    using assms p256_n_bytes by (auto simp: zless_nat_eq_int_zless p256_n_def)
  then show "int (be_nat (take 32 (sigBytes r s))) = r"
    and "int (be_nat (drop 32 (sigBytes r s))) = s"
    using assms by (simp_all add: sigBytes_def be_nat_be_bytes)
qed

lemma verifySig_length: "verifySig payload sig px py = Inr () \<Longrightarrow> length sig = 64"
  by (simp add: verifySig_def split: if_splits)

lemma verifySig_onCurve:
  "verifySig payload sig px py = Inr () \<Longrightarrow> onCurve (int (be_nat px)) (int (be_nat py))"
  by (simp add: verifySig_def Let_def split: if_splits)

lemma verifySig_iff:
  "verifySig payload sig px py = Inr u \<longleftrightarrow>
     length sig = 64 \<and>
     ecdsaVerify (int (be_nat px)) (int (be_nat py)) (sha256 payload)
       (int (be_nat (take 32 sig))) (int (be_nat (drop 32 sig)))"
  by (auto simp: verifySig_def Let_def ecdsaVerify_def)

lemma isOk_verifySig: "isOk (verifySig payload sig px py) \<longleftrightarrow> verifySig payload sig px py = Inr ()"
  by (auto simp: isOk_iff)

lemma verifySig_sigBytes:
  assumes "0 \<le> r" "r < p256_n" "0 \<le> s" "s < p256_n"
  shows "verifySig payload (sigBytes r s) px py = Inr () \<longleftrightarrow>
     ecdsaVerify (int (be_nat px)) (int (be_nat py)) (sha256 payload) r s"
  using assms by (simp add: verifySig_iff sigBytes_parts)

section \<open>Keys\<close>

text \<open>keys.go: a private key is the record of its scalar and the derived public point.\<close>

record priv_key =
  D :: int
  X :: int
  Y :: int

datatype key_error = KeyHex hex_error | KeyLength

definition PrivKeyFromHex :: "string \<Rightarrow> key_error + priv_key" where
  "PrivKeyFromHex h =
     (case hex_decode h of
        Inl e \<Rightarrow> Inl (KeyHex e)
      | Inr d \<Rightarrow>
          if length d \<noteq> 32 then Inl KeyLength
          else let (x, y) = ScalarBaseMult d in Inr \<lparr> D = int (be_nat d), X = x, Y = y \<rparr>)"

definition leftPad32 :: "bytes \<Rightarrow> bytes" where
  "leftPad32 b = (if length b \<ge> 32 then b else replicate (32 - length b) 0 @ b)"

definition PubXY :: "priv_key \<Rightarrow> bytes \<times> bytes" where
  "PubXY k = (leftPad32 (min_bytes (nat (X k))), leftPad32 (min_bytes (nat (Y k))))"

lemma be_nat_replicate_0: "be_nat (replicate n 0 @ b) = be_nat b"
proof -
  have "be_nat (replicate n 0) = 0"
    by (induction n) (simp_all add: be_nat_def)
  then show ?thesis
    by (simp add: be_nat_def)
qed

lemma be_nat_leftPad32 [simp]: "be_nat (leftPad32 b) = be_nat b"
  by (simp add: leftPad32_def be_nat_replicate_0)

lemma length_leftPad32: "length b \<le> 32 \<Longrightarrow> length (leftPad32 b) = 32"
  by (simp add: leftPad32_def)

text \<open>\<open>leftPad32\<close> of the minimal bytes is \<open>FillBytes\<close>: the coordinates \<open>PubXY\<close> prints are the
  32-byte form of the point, and reading them back gives the point.\<close>

lemma leftPad32_min_bytes: "x < 256 ^ 32 \<Longrightarrow> leftPad32 (min_bytes x) = be_bytes 32 x"
  by (subst be_nat_eq_iff [symmetric])
    (simp_all add: length_leftPad32 length_min_bytes be_nat_be_bytes)

lemma PubXY_point:
  assumes "onCurve (X k) (Y k)" and "PubXY k = (x, y)"
  shows "length x = 32 \<and> length y = 32 \<and> int (be_nat x) = X k \<and> int (be_nat y) = Y k"
proof -
  have "nat (X k) < 256 ^ 32" "nat (Y k) < 256 ^ 32"
    using assms(1) by (auto simp: onCurve_def p256_p_def zless_nat_eq_int_zless)
  then show ?thesis
    using assms by (auto simp: PubXY_def length_leftPad32 length_min_bytes onCurve_def)
qed

section \<open>Low-s\<close>

lemma NormalizeLowS_range:
  "0 < s \<Longrightarrow> s < p256_n \<Longrightarrow> 0 < NormalizeLowS s \<and> NormalizeLowS s \<le> halfN"
  using p256_n_odd by (auto simp: NormalizeLowS_def)

lemma NormalizeLowS_cases: "NormalizeLowS s = s \<or> NormalizeLowS s = p256_n - s"
  by (simp add: NormalizeLowS_def)

lemma lowS_sigBytes:
  "0 \<le> r \<Longrightarrow> r < p256_n \<Longrightarrow> 0 \<le> s \<Longrightarrow> s < p256_n \<Longrightarrow> lowS (sigBytes r s) \<longleftrightarrow> s \<le> halfN"
  by (simp add: lowS_def sigBytes_parts)

end
