(* ===== verification/Cose.thy ===== *)
theory Cose
  imports Payload Signature
begin

text \<open>
  COSE_Sign1, the envelope of cose.go and cose_encode.go: the parser \<open>parseCOSESign1\<close> with its
  algorithm check \<open>requireES256\<close>, the signed bytes \<open>coseSigStruct\<close>, and the encoder
  \<open>SignCOSESign1\<close>. The parser is characterised exactly (\<open>parseCOSESign1_iff\<close>); the signed bytes
  determine the protected header and the payload (\<open>coseSigStruct_inj\<close>).
\<close>

unbundle bit_operations_syntax

section \<open>Parsing\<close>

datatype cose_error =
    CoseCbor cbor_error
  | NotFourArray
  | CoseProtected cbor_error
  | ProtHeader cbor_error
  | ProtNotMap
  | ProtLabel cbor_error
  | AlgValue cbor_error
  | AlgNotES256
  | ProtSkip cbor_error
  | MissingAlg
  | Unprotected cbor_error
  | CosePayload cbor_error
  | CoseSignature cbor_error
  | CoseShortSig
  | CoseTrailing

definition coseContext :: bytes where
  "coseContext = 0x6a # bytes_of_string ''Signature1''"

definition coseSigStruct :: "bytes \<Rightarrow> bytes \<Rightarrow> bytes" where
  "coseSigStruct protBstr payloadBstr =
     [0x84] @ coseContext @ protBstr @ [0x40] @ payloadBstr"

text \<open>The loop over the header map, \<open>n\<close> labels left.\<close>

fun es256Loop :: "nat \<Rightarrow> cborReader \<Rightarrow> cose_error + unit" where
  "es256Loop 0 r = Inl MissingAlg"
| "es256Loop (Suc n) r =
     bindE (wrapE ProtLabel (readUint r)) (\<lambda>(r, label).
       if label = 1 then
         bindE (wrapE AlgValue (readHead r)) (\<lambda>(r, m, v).
           if m \<noteq> 1 \<or> v \<noteq> 6 then Inl AlgNotES256 else Inr ())
       else bindE (wrapE ProtSkip (skipValue r)) (\<lambda>r. es256Loop n r))"

definition requireES256 :: "bytes \<Rightarrow> cose_error + unit" where
  "requireES256 protected =
     bindE (wrapE ProtHeader (readHead (newReader protected))) (\<lambda>(r, major, n).
       if major \<noteq> 5 then Inl ProtNotMap else es256Loop (unat n) r)"

text \<open>\<open>b[from:to]\<close>\<close>

definition slice :: "bytes \<Rightarrow> nat \<Rightarrow> nat \<Rightarrow> bytes" where
  "slice b from to = take (to - from) (drop from b)"

definition parseCOSESign1 :: "bytes \<Rightarrow> cose_error + bytes \<times> bytes \<times> bytes \<times> bytes" where
  "parseCOSESign1 b =
     (let r = newReader b;
          r = (if pos r < length (buf r) \<and> buf r ! pos r = 0xd2 then r\<lparr> pos := pos r + 1 \<rparr> else r)
      in
      bindE (wrapE CoseCbor (readHead r)) (\<lambda>(r, major, n).
      if major \<noteq> 4 \<or> n \<noteq> 4 then Inl NotFourArray
      else let pstart = pos r in
      bindE (wrapE CoseProtected (readBstr r)) (\<lambda>(r, prot).
      let protBstr = slice b pstart (pos r) in
      bindE (requireES256 prot) (\<lambda>_.
      bindE (wrapE Unprotected (skipValue r)) (\<lambda>r.
      let plstart = pos r in
      bindE (wrapE CosePayload (readBstr r)) (\<lambda>(r, payload).
      let payloadBstr = slice b plstart (pos r) in
      bindE (wrapE CoseSignature (readBstr r)) (\<lambda>(r, sig).
      if length sig \<noteq> 64 then Inl CoseShortSig
      else if pos r \<noteq> length b then Inl CoseTrailing
      else Inr (protBstr, payload, payloadBstr, sig))))))))"

datatype cose_payload_error = CoseHexError hex_error | CoseParseError cose_error

definition COSEPayload :: "string \<Rightarrow> cose_payload_error + bytes" where
  "COSEPayload coseHex =
     bindE (wrapE CoseHexError (hex_decode coseHex)) (\<lambda>raw.
     bindE (wrapE CoseParseError (parseCOSESign1 raw)) (\<lambda>(_, payload, _, _). Inr payload))"

section \<open>Encoding\<close>

definition coseProtected :: bytes where
  "coseProtected = [0x43, 0xa1, 0x01, 0x26]"

definition bstrHead :: "nat \<Rightarrow> bytes" where
  "bstrHead n =
     (if n < 24 then [0x40 OR word_of_nat n]
      else if n < 256 then [0x58, word_of_nat n]
      else if n < 65536 then [0x59, word_of_nat (n div 2 ^ 8), word_of_nat n]
      else [0x5a, word_of_nat (n div 2 ^ 24), word_of_nat (n div 2 ^ 16),
            word_of_nat (n div 2 ^ 8), word_of_nat n])"

text \<open>The outcome of the signing call is an argument: the nonce \<open>ecdsa.Sign\<close> drew, or None when
  it returned an error.\<close>

definition SignCOSESign1 :: "int option \<Rightarrow> bytes \<Rightarrow> priv_key \<Rightarrow> bytes option" where
  "SignCOSESign1 nonce payload key =
     (let payloadBstr = bstrHead (length payload) @ payload;
          h = sha256 (coseSigStruct coseProtected payloadBstr)
      in
      case nonce of
        None \<Rightarrow> None
      | Some k \<Rightarrow>
          let (r, s) = ecdsaSign k (D key) h;
              s = NormalizeLowS s;
              sig = sigBytes r s
          in Some ([0xd2, 0x84] @ coseProtected @ [0xa0] @ payloadBstr @ bstrHead 64 @ sig))"

section \<open>Exactly which messages parse\<close>

text \<open>A header that declares ES256: label 1 with the value -7 after entries of other labels.\<close>

definition entries :: "(u64 \<times> bytes) list \<Rightarrow> bytes" where
  "entries es = concat (map (\<lambda>(l, v). enc_uint l @ v) es)"

definition declaresES256 :: "bytes \<Rightarrow> bool" where
  "declaresES256 b \<longleftrightarrow> (\<exists>n es zs. b = cbor_head 5 n @ entries es @ enc_uint 1 @ cbor_head 1 6 @ zs \<and>
     length es < unat n \<and> (\<forall>(l, v)\<in>set es. l \<noteq> 1 \<and> item maxCBORDepth v))"

lemma entries_simps [simp]:
  "entries [] = []" "entries ((l, v) # es) = enc_uint l @ v @ entries es"
  by (simp_all add: entries_def)

lemma es256Loop_sound:
  "es256Loop n r = Inr () \<Longrightarrow> depth r = 0 \<Longrightarrow>
     \<exists>es zs. view r = entries es @ enc_uint 1 @ cbor_head 1 6 @ zs \<and> length es < n \<and>
        (\<forall>(l, v)\<in>set es. l \<noteq> 1 \<and> item maxCBORDepth v)"
proof (induction n arbitrary: r)
  case 0
  then show ?case by simp
next
  case (Suc n)
  then obtain r1 l where l: "readUint r = Inr (r1, l)"
    and rest: "if l = 1 then (\<exists>r2. readHead r1 = Inr (r2, 1, 6))
      else (\<exists>r2. skipValue r1 = Inr r2 \<and> es256Loop n r2 = Inr ())"
    by (auto simp: bindE_Inr_iff split: if_splits)
  show ?case
  proof (cases "l = 1")
    case True
    then obtain zs where "view r1 = cbor_head 1 6 @ zs"
      using rest by (auto simp: readHead_iff)
    then show ?thesis
      using True uint.read_view [OF l] by (intro exI [of _ "[]"] exI [of _ zs]) simp
  next
    case False
    then obtain r2 where r2: "skipValue r1 = Inr r2" "es256Loop n r2 = Inr ()"
      using rest by auto
    have "depth r1 = 0"
      using Suc.prems moves_fields [OF uint.read_moves [OF l]] by simp
    then obtain e where e: "item maxCBORDepth e" "view r1 = e @ view r2" "depth r2 = 0"
      using r2(1) by (auto simp: skipValue_iff view_advance)
    with Suc.IH [OF r2(2)] obtain es zs where
        "view r2 = entries es @ enc_uint 1 @ cbor_head 1 6 @ zs"
        "length es < n" "\<forall>(l, v)\<in>set es. l \<noteq> 1 \<and> item maxCBORDepth v"
      by blast
    then show ?thesis
      using False e uint.read_view [OF l]
      by (intro exI [of _ "(l, e) # es"] exI [of _ zs]) auto
  qed
qed

lemma es256Loop_complete:
  assumes "view r = entries es @ enc_uint 1 @ cbor_head 1 6 @ zs" and "length es < n"
    and "\<forall>(l, v)\<in>set es. l \<noteq> 1 \<and> item maxCBORDepth v" and "depth r = 0"
  shows "es256Loop n r = Inr ()"
  using assms
proof (induction es arbitrary: n r)
  case Nil
  then obtain m where n: "n = Suc m" by (cases n) auto
  let ?r = "advance (length (enc_uint 1)) r"
  have "readUint r = Inr (?r, 1)"
    using Nil by (simp add: readUint_iff)
  moreover have "readHead ?r = Inr (advance (length (cbor_head 1 6)) ?r, 1, 6)"
    using Nil by (simp add: readHead_iff view_advance)
  ultimately show ?case by (simp add: n)
next
  case (Cons lv es)
  obtain l v where lv: "lv = (l, v)" by (cases lv)
  obtain m where n: "n = Suc m" using Cons.prems(2) by (cases n) auto
  let ?r1 = "advance (length (enc_uint l)) r"
  let ?r2 = "advance (length v) ?r1"
  have "readUint r = Inr (?r1, l)"
    using Cons.prems lv by (simp add: readUint_iff)
  moreover have "skipValue ?r1 = Inr ?r2"
    using Cons.prems lv by (auto simp: skipValue_iff view_advance)
  moreover have "es256Loop m ?r2 = Inr ()"
    using Cons.prems lv n by (intro Cons.IH) (auto simp: view_advance)
  ultimately show ?case
    using Cons.prems lv n by simp
qed

lemma requireES256_iff: "requireES256 b = Inr () \<longleftrightarrow> declaresES256 b"
proof
  assume "requireES256 b = Inr ()"
  then obtain r n where h: "readHead (newReader b) = Inr (r, 5, n)" and l: "es256Loop (unat n) r = Inr ()"
    by (auto simp: requireES256_def bindE_Inr_iff split: if_splits)
  from h have b: "b = cbor_head 5 n @ view r" and "depth r = 0"
    by (auto simp: readHead_iff view_advance)
  with es256Loop_sound [OF l] obtain es zs where
      "view r = entries es @ enc_uint 1 @ cbor_head 1 6 @ zs"
      "length es < unat n" "\<forall>(l, v)\<in>set es. l \<noteq> 1 \<and> item maxCBORDepth v"
    by blast
  with b show "declaresES256 b"
    unfolding declaresES256_def by metis
next
  assume "declaresES256 b"
  then obtain n es zs where b: "b = cbor_head 5 n @ entries es @ enc_uint 1 @ cbor_head 1 6 @ zs"
    and es: "length es < unat n" "\<forall>(l, v)\<in>set es. l \<noteq> 1 \<and> item maxCBORDepth v"
    unfolding declaresES256_def by blast
  define r where "r = advance (length (cbor_head 5 n)) (newReader b)"
  have "readHead (newReader b) = Inr (r, 5, n)"
    by (simp add: readHead_iff r_def b)
  moreover have "es256Loop (unat n) r = Inr ()"
    using es by (intro es256Loop_complete [where es = es and zs = zs])
      (simp_all add: r_def view_advance b)
  ultimately show "requireES256 b = Inr ()"
    by (simp add: requireES256_def)
qed

text \<open>The layout of a COSE_Sign1 message, tagged or not, with unprotected header \<open>u\<close>.\<close>

definition coseMessage :: "bytes \<Rightarrow> bytes \<Rightarrow> bytes \<Rightarrow> bytes \<Rightarrow> bytes \<Rightarrow> bytes" where
  "coseMessage tg prot u payload sig =
     tg @ cbor_head 4 4 @ enc_bstr prot @ u @ enc_bstr payload @ enc_bstr sig"

definition coseParts :: "bytes \<Rightarrow> bytes \<Rightarrow> bytes \<Rightarrow> bytes \<Rightarrow> bytes \<Rightarrow> bool" where
  "coseParts tg prot u payload sig \<longleftrightarrow> (tg = [] \<or> tg = [0xd2]) \<and> declaresES256 prot \<and>
     item maxCBORDepth u \<and> length prot < 2 ^ 64 \<and> length payload < 2 ^ 64 \<and> length sig = 64"

lemma slice_view:
  "buf r = b \<Longrightarrow> view r = e @ zs \<Longrightarrow> slice b (pos r) (pos (advance (length e) r)) = e"
  by (auto simp: slice_def view_def)

lemma cose_first_byte: "cbor_head 4 4 = [0x84]"
  by (simp add: cbor_head_def)

lemma parseCOSESign1_complete:
  assumes "coseParts tg prot u payload sig" and b: "b = coseMessage tg prot u payload sig"
  shows "parseCOSESign1 b = Inr (enc_bstr prot, payload, enc_bstr payload, sig)"
proof -
  define r0 where "r0 = advance (length tg) (newReader b)"
  define r1 where "r1 = advance (length (cbor_head 4 4)) r0"
  define r2 where "r2 = advance (length (enc_bstr prot)) r1"
  define r3 where "r3 = advance (length u) r2"
  define r4 where "r4 = advance (length (enc_bstr payload)) r3"
  define r5 where "r5 = advance (length (enc_bstr sig)) r4"
  note parts = assms(1) [unfolded coseParts_def]
  have v0: "view r0 = cbor_head 4 4 @ enc_bstr prot @ u @ enc_bstr payload @ enc_bstr sig"
    by (simp add: r0_def b coseMessage_def view_advance)
  then have v1: "view r1 = enc_bstr prot @ u @ enc_bstr payload @ enc_bstr sig"
    by (simp add: r1_def view_advance)
  then have v2: "view r2 = u @ enc_bstr payload @ enc_bstr sig"
    by (simp add: r2_def view_advance)
  then have v3: "view r3 = enc_bstr payload @ enc_bstr sig"
    by (simp add: r3_def view_advance)
  then have v4: "view r4 = enc_bstr sig"
    by (simp add: r4_def view_advance)
  have bufs: "buf r1 = b" "buf r3 = b" and depth2: "depth r2 = 0"
    by (simp_all add: r0_def r1_def r2_def r3_def)
  have start: "(let r = newReader b in if pos r < length (buf r) \<and> buf r ! pos r = 0xd2
      then r\<lparr> pos := pos r + 1 \<rparr> else r) = r0"
    using parts by (auto simp: r0_def b coseMessage_def cose_first_byte advance_def)
  have "readHead r0 = Inr (r1, 4, 4)"
    by (simp add: readHead_iff r1_def v0)
  moreover have "readBstr r1 = Inr (r2, prot)"
    using parts by (simp add: readBstr_iff v1 r2_def)
  moreover have "requireES256 prot = Inr ()"
    using parts by (simp add: requireES256_iff)
  moreover have "skipValue r2 = Inr r3"
    using parts v2 depth2 by (auto simp: skipValue_iff r3_def)
  moreover have "readBstr r3 = Inr (r4, payload)"
    using parts by (simp add: readBstr_iff v3 r4_def)
  moreover have "readBstr r4 = Inr (r5, sig)"
    using parts by (simp add: readBstr_iff v4 r5_def)
  moreover have "pos r5 = length b"
    by (simp add: r5_def r4_def r3_def r2_def r1_def r0_def b coseMessage_def)
  moreover have "slice b (pos r1) (pos r2) = enc_bstr prot"
    unfolding r2_def using bufs(1) v1 by (rule slice_view)
  moreover have "slice b (pos r3) (pos r4) = enc_bstr payload"
    unfolding r4_def using bufs(2) v3 by (rule slice_view)
  ultimately show ?thesis
    using parts start by (simp add: parseCOSESign1_def Let_def)
qed

lemma parseCOSESign1_sound:
  assumes "parseCOSESign1 b = Inr (pb, payload, plb, sig)"
  shows "\<exists>tg prot u. coseParts tg prot u payload sig \<and> b = coseMessage tg prot u payload sig \<and>
     pb = enc_bstr prot \<and> plb = enc_bstr payload"
proof -
  define r0 where "r0 = (let r = newReader b in if pos r < length (buf r) \<and> buf r ! pos r = 0xd2
      then r\<lparr> pos := pos r + 1 \<rparr> else r)"
  from assms obtain r1 r2 prot r3 r4 r5 where
      h: "readHead r0 = Inr (r1, 4, 4)" "readBstr r1 = Inr (r2, prot)" "requireES256 prot = Inr ()"
        "skipValue r2 = Inr r3" "readBstr r3 = Inr (r4, payload)" "readBstr r4 = Inr (r5, sig)"
    and res: "length sig = 64" "pos r5 = length b" "pb = slice b (pos r1) (pos r2)"
        "plb = slice b (pos r3) (pos r4)"
    by (auto simp: parseCOSESign1_def Let_def bindE_Inr_iff r0_def split: if_splits)
  obtain tg where tg: "tg = [] \<or> tg = [0xd2]" "b = tg @ view r0" "r0 = advance (length tg) (newReader b)"
  proof (cases "b \<noteq> [] \<and> hd b = 0xd2")
    case True
    then show thesis
      by (intro that [of "[0xd2]"]) (cases b; simp add: r0_def Let_def view_def advance_def)+
  next
    case False
    then show thesis
      by (intro that [of "[]"]) (cases b; auto simp: r0_def Let_def view_def advance_def)+
  qed
  then have d0: "depth r0 = 0" "buf r0 = b" by simp_all
  have v: "view r0 = cbor_head 4 4 @ view r1" "view r1 = enc_bstr prot @ view r2"
      "view r3 = enc_bstr payload @ view r4" "view r4 = enc_bstr sig @ view r5"
    using head.read_view [of r0 r1 "(4, 4)"] h bstr.read_view by auto
  have m: "moves r0 r1" "moves r1 r2" "moves r2 r3" "moves r3 r4" "moves r4 r5"
    using head.read_moves [of r0 r1 "(4, 4)"] h bstr.read_moves skipValue_moves by auto
  have bufs: "buf r1 = b" "buf r3 = b" "buf r5 = b" "depth r2 = 0"
    using moves_fields [OF m(1)] moves_fields [OF m(2)] moves_fields [OF m(3)]
      moves_fields [OF m(4)] moves_fields [OF m(5)] d0 by simp_all
  obtain u where u: "item maxCBORDepth u" "view r2 = u @ view r3"
    using h(4) bufs(4) by (auto simp: skipValue_iff view_advance)
  have "view r5 = []"
    using res(2) bufs(3) by (simp add: view_def)
  then have "b = coseMessage tg prot u payload sig"
    using tg(2) v u by (simp add: coseMessage_def)
  moreover have "coseParts tg prot u payload sig"
    using tg(1) h(2,3,5) u res(1) bstr.read_ok by (auto simp: coseParts_def requireES256_iff)
  moreover have "pb = enc_bstr prot" "plb = enc_bstr payload"
    using res h(2,5) v slice_view [OF bufs(1)] slice_view [OF bufs(2)] by (auto simp: readBstr_iff)
  ultimately show ?thesis by blast
qed

section \<open>What is signed\<close>

text \<open>Byte strings are prefix-free, so the signed bytes determine both spliced parts.\<close>

lemma coseSigStruct_inj:
  assumes "length p1 < 2 ^ 64" "length p2 < 2 ^ 64" "length d1 < 2 ^ 64" "length d2 < 2 ^ 64"
    and "coseSigStruct (enc_bstr p1) (enc_bstr d1) = coseSigStruct (enc_bstr p2) (enc_bstr d2)"
  shows "p1 = p2 \<and> d1 = d2"
proof -
  have "enc_bstr p1 @ (0x40 # enc_bstr d1) = enc_bstr p2 @ (0x40 # enc_bstr d2)"
    using assms(5) by (simp add: coseSigStruct_def)
  then have "p1 = p2 \<and> 0x40 # enc_bstr d1 = 0x40 # enc_bstr d2"
    using assms by (intro bstr.prefix_free) auto
  moreover from this have "enc_bstr d1 @ [] = enc_bstr d2 @ []" by simp
  then have "d1 = d2 \<and> ([] :: bytes) = []"
    using assms by (intro bstr.prefix_free) auto
  ultimately show ?thesis by blast
qed

text \<open>C3: A COSE_Sign1 message parses exactly when it has the documented layout: an optional tag
  18, a four-element array, a protected header declaring ES256, one skippable unprotected item of
  nesting at most 64, a payload and a 64-byte signature, and nothing after it. The two raw spans
  returned are the on-wire encodings of the protected header and of the payload.\<close>

theorem parseCOSESign1_iff:
  "parseCOSESign1 b = Inr (pb, payload, plb, sig) \<longleftrightarrow>
     (\<exists>tg prot u. coseParts tg prot u payload sig \<and> b = coseMessage tg prot u payload sig \<and>
        pb = enc_bstr prot \<and> plb = enc_bstr payload)"
  using parseCOSESign1_sound parseCOSESign1_complete by blast

text \<open>Two messages that parse and whose reconstructed Sig_structures are equal carry the same
  protected header and the same payload: a signature never covers a second payload.\<close>

theorem cose_signed_bytes_determine_payload:
  assumes "parseCOSESign1 b1 = Inr (pb1, d1, plb1, sig1)"
    and "parseCOSESign1 b2 = Inr (pb2, d2, plb2, sig2)"
    and "coseSigStruct pb1 plb1 = coseSigStruct pb2 plb2"
  shows "pb1 = pb2 \<and> d1 = d2 \<and> plb1 = plb2"
proof -
  obtain tg1 prot1 u1 tg2 prot2 u2 where "coseParts tg1 prot1 u1 d1 sig1" "pb1 = enc_bstr prot1"
      "plb1 = enc_bstr d1" "coseParts tg2 prot2 u2 d2 sig2" "pb2 = enc_bstr prot2"
      "plb2 = enc_bstr d2"
    using parseCOSESign1_sound [OF assms(1)] parseCOSESign1_sound [OF assms(2)] by blast
  with assms(3) coseSigStruct_inj [of prot1 prot2 d1 d2] show ?thesis
    by (auto simp: coseParts_def)
qed

section \<open>The encoder\<close>

lemma bstrHead_eq:
  assumes "n < 2 ^ 32"
  shows "bstrHead n = cbor_head 2 (word_of_nat n)"
proof -
  have u: "unat (word_of_nat n :: u64) = n"
    using assms by (simp add: unat_of_nat)
  have "(ucast (word_of_nat n :: u64) :: byte) = word_of_nat n"
    by (simp add: word_unat_eq_iff unat_ucast_byte_mod u)
  then show ?thesis
    using assms by (auto simp: bstrHead_def cbor_head_cases u be_bytes_2 be_bytes_4)
qed

lemma ecdsaSign_range:
  "ecdsaSign k d h = (r, s) \<Longrightarrow> 0 \<le> r \<and> r < p256_n \<and> 0 \<le> s \<and> s < p256_n"
  by (auto simp: ecdsaSign_def Let_def)

lemma NormalizeLowS_bounds:
  "0 \<le> s \<Longrightarrow> s < p256_n \<Longrightarrow> 0 \<le> NormalizeLowS s \<and> NormalizeLowS s \<le> halfN"
  using p256_n_odd by (auto simp: NormalizeLowS_def)

lemma coseProtected_bstr: "coseProtected = enc_bstr [0xa1, 0x01, 0x26]"
  by (simp add: coseProtected_def enc_bstr_def cbor_head_def)

lemma protected_declares: "declaresES256 [0xa1, 0x01, 0x26]"
  unfolding declaresES256_def
  by (intro exI [of _ 1] exI [of _ "[]"]) (simp add: enc_uint_def cbor_head_def)

lemma empty_map_item: "item maxCBORDepth [0xa0]"
proof -
  have "item (Suc 63) (cbor_head 5 0 @ concat [])"
    by (rule item.cmap) simp_all
  then show ?thesis by (simp add: maxCBORDepth_def cbor_head_def)
qed

lemma SignCOSESign1_message:
  assumes "SignCOSESign1 (Some k) payload key = Some msg" and "length payload < 2 ^ 32"
    and "ecdsaSign k (D key) (sha256 (coseSigStruct coseProtected (enc_bstr payload))) = (r, s)"
  shows "msg = coseMessage [0xd2] [0xa1, 0x01, 0x26] [0xa0] payload (sigBytes r (NormalizeLowS s)) \<and>
    coseParts [0xd2] [0xa1, 0x01, 0x26] [0xa0] payload (sigBytes r (NormalizeLowS s))"
proof -
  have pl: "bstrHead (length payload) @ payload = enc_bstr payload"
    using assms(2) by (simp add: bstrHead_eq enc_bstr_def)
  have sg: "bstrHead 64 @ sigBytes r (NormalizeLowS s) = enc_bstr (sigBytes r (NormalizeLowS s))"
    by (simp add: bstrHead_eq enc_bstr_def)
  have "msg = [0xd2] @ [0x84] @ coseProtected @ [0xa0] @ enc_bstr payload @
      enc_bstr (sigBytes r (NormalizeLowS s))"
    using assms(1,3) by (simp add: SignCOSESign1_def Let_def pl sg)
  then show ?thesis
    using assms(2) protected_declares empty_map_item
    by (simp add: coseMessage_def coseProtected_bstr cose_first_byte coseParts_def)
qed

text \<open>C6: Parsing what \<open>SignCOSESign1\<close> emits gives back the payload with the raw spans that were
  signed, and the signature it carries is in canonical low-s form (the payload is shorter than
  4 GiB, which is what the encoder's length head can express).\<close>

theorem parse_SignCOSESign1:
  assumes "SignCOSESign1 (Some k) payload key = Some msg" and "length payload < 2 ^ 32"
  shows "\<exists>sig. parseCOSESign1 msg =
       Inr (coseProtected, payload, bstrHead (length payload) @ payload, sig) \<and> lowS sig"
proof -
  obtain r s where rs:
    "ecdsaSign k (D key) (sha256 (coseSigStruct coseProtected (enc_bstr payload))) = (r, s)"
    by fastforce
  note msg = SignCOSESign1_message [OF assms rs]
  have "parseCOSESign1 msg = Inr (coseProtected, payload, enc_bstr payload, sigBytes r (NormalizeLowS s))"
    using msg parseCOSESign1_complete by (simp add: coseProtected_bstr)
  moreover have "lowS (sigBytes r (NormalizeLowS s))"
    using ecdsaSign_range [OF rs] NormalizeLowS_bounds [of s] p256_n_odd
    by (subst lowS_sigBytes) auto
  moreover have "enc_bstr payload = bstrHead (length payload) @ payload"
    using assms(2) by (simp add: bstrHead_eq enc_bstr_def)
  ultimately show ?thesis by auto
qed

text \<open>The length head silently wraps at 4 GiB: for a payload of \<open>2 ^ 32\<close> bytes it encodes
  the length 0.\<close>

theorem bstrHead_wraps: "bstrHead (2 ^ 32) = [0x5a, 0, 0, 0, 0]"
  by (simp add: bstrHead_def)

section \<open>Concrete instances\<close>

definition demoKey :: priv_key where
  "demoKey = \<lparr> D = 1, X = 0, Y = 0 \<rparr>"

lemma parse_SignCOSESign1_witness:
  "\<exists>sig. parseCOSESign1 (the (SignCOSESign1 (Some 1) [1, 2] demoKey)) =
       Inr (coseProtected, [1, 2], [0x42, 1, 2], sig) \<and> lowS sig"
proof -
  obtain msg where "SignCOSESign1 (Some 1) [1, 2] demoKey = Some msg"
    by (cases "ecdsaSign 1 (D demoKey) (sha256 (coseSigStruct coseProtected
          (bstrHead (length [1 :: byte, 2]) @ [1, 2])))") (simp add: SignCOSESign1_def Let_def)
  moreover have "bstrHead (length [1 :: byte, 2]) @ [1, 2] = [0x42, 1, 2]"
    by (simp add: bstrHead_def)
  ultimately show ?thesis
    using parse_SignCOSESign1 [of 1 "[1, 2]" demoKey msg] by simp
qed

definition demoSig :: bytes where
  "demoSig = replicate 64 7"

definition demoMsg1 :: bytes where
  "demoMsg1 = coseMessage [0xd2] [0xa1, 0x01, 0x26] [0xa0] [1, 2] demoSig"

definition demoMsg2 :: bytes where
  "demoMsg2 = coseMessage [] [0xa1, 0x01, 0x26] (cbor_head 0 5) [1, 2] demoSig"

lemma cose_signed_bytes_determine_payload_witness:
  "demoMsg1 \<noteq> demoMsg2 \<and> (\<exists>pb1 pb2 d1 d2 plb1 plb2.
    parseCOSESign1 demoMsg1 = Inr (pb1, d1, plb1, demoSig) \<and>
    parseCOSESign1 demoMsg2 = Inr (pb2, d2, plb2, demoSig) \<and>
    coseSigStruct pb1 plb1 = coseSigStruct pb2 plb2 \<and> pb1 = pb2 \<and> d1 = d2)"
proof -
  have i: "item maxCBORDepth (cbor_head 0 5)"
    using item.atom [of 0 63 5] by (simp add: maxCBORDepth_def)
  have p1: "parseCOSESign1 demoMsg1 = Inr (enc_bstr [0xa1, 0x01, 0x26], [1, 2], enc_bstr [1, 2], demoSig)"
    unfolding demoMsg1_def
    by (rule parseCOSESign1_complete) (auto simp: coseParts_def protected_declares empty_map_item demoSig_def)
  have p2: "parseCOSESign1 demoMsg2 = Inr (enc_bstr [0xa1, 0x01, 0x26], [1, 2], enc_bstr [1, 2], demoSig)"
    unfolding demoMsg2_def
    by (rule parseCOSESign1_complete) (auto simp: coseParts_def protected_declares i demoSig_def)
  have "demoMsg1 \<noteq> demoMsg2"
    by (simp add: demoMsg1_def demoMsg2_def coseMessage_def cose_first_byte)
  then show ?thesis
    using cose_signed_bytes_determine_payload [OF p1 p2 refl] p1 p2 by blast
qed

end
