(* ===== verification/Bound.thy ===== *)
theory Bound
  imports Cose
begin

text \<open>
  The verification gates of bound.go and cose.go: \<open>VerifyBundle\<close> for the raw envelope and
  \<open>VerifyCOSEBundle\<close> for COSE_Sign1, over one copy of the gates after the signature
  (\<open>gatesAfterSig\<close>). A failed gate is a value of \<open>reason\<close>; acceptance is characterised as the
  conjunction of the gates, and a bundle accepted once is refused when it is replayed.
\<close>

section \<open>Bundles, options and results\<close>

record Bundle =
  Schema :: string
  Payload :: string
  Sig :: string
  PubX :: string
  PubY :: string

record COSEBundle =
  CSchema :: string
  COSE :: string
  CPubX :: string
  CPubY :: string

text \<open>A slice that may be nil is an option; \<open>ExpectedNonce\<close> is only ever looked at through its
  length and content, for which nil and empty agree.\<close>

record Options =
  ExpectedNonce :: bytes
  PinPubX :: "bytes option"
  PinPubY :: "bytes option"
  LastCounter :: u64
  ExpectedPrevDigest :: "bytes option"

datatype reason =
    PayloadHex hex_error
  | SigHex hex_error
  | PubXHex hex_error
  | PubYHex hex_error
  | CoseHex hex_error
  | CoseFailed cose_error
  | PinMismatch
  | SignatureFailed sig_error
  | HighS
  | DecodeFailed payload_error
  | UnsupportedVersion u64
  | NoExpectedNonce
  | NoNonce
  | NonceMismatch
  | CounterNotGreater u64 u64
  | PrevDigestMismatch
  | Verified

record VerifyResult =
  Pred :: "Predicate option"
  OK :: bool
  Reason :: reason
  NextDigest :: "bytes option"

text \<open>The result literals \<open>VerifyResult{Reason: ...}\<close> and \<open>VerifyResult{Predicate: pred, Reason: ...}\<close>.\<close>

definition fail :: "reason \<Rightarrow> VerifyResult" where
  "fail why = \<lparr> Pred = None, OK = False, Reason = why, NextDigest = None \<rparr>"

definition reject :: "Predicate \<Rightarrow> reason \<Rightarrow> VerifyResult" where
  "reject p why = \<lparr> Pred = Some p, OK = False, Reason = why, NextDigest = None \<rparr>"

definition sliceOf :: "bytes option \<Rightarrow> bytes" where
  "sliceOf b = (case b of None \<Rightarrow> [] | Some x \<Rightarrow> x)"

section \<open>The gates\<close>

definition pinOK :: "bytes \<Rightarrow> bytes \<Rightarrow> Options \<Rightarrow> bool" where
  "pinOK px py opt =
     (if PinPubX opt = None \<and> PinPubY opt = None then True
      else constantTimeCompare px (sliceOf (PinPubX opt)) = 1 \<and>
           constantTimeCompare py (sliceOf (PinPubY opt)) = 1)"

definition gatesAfterSig :: "bytes \<Rightarrow> Options \<Rightarrow> VerifyResult" where
  "gatesAfterSig payload opt =
     (case DecodePayload payload of
        Inl e \<Rightarrow> fail (DecodeFailed e)
      | Inr pred \<Rightarrow>
          if Version pred \<noteq> PayloadVersion then reject pred (UnsupportedVersion (Version pred))
          else if length (ExpectedNonce opt) = 0 then reject pred NoExpectedNonce
          else if length (Nonce pred) = 0 then reject pred NoNonce
          else if constantTimeCompare (Nonce pred) (ExpectedNonce opt) \<noteq> 1
            then reject pred NonceMismatch
          else if Counter pred \<le> LastCounter opt
            then reject pred (CounterNotGreater (Counter pred) (LastCounter opt))
          else if ExpectedPrevDigest opt \<noteq> None \<and>
              constantTimeCompare (PrevDigest pred) (the (ExpectedPrevDigest opt)) \<noteq> 1
            then reject pred PrevDigestMismatch
          else \<lparr> Pred = Some pred, OK = True, Reason = Verified,
                 NextDigest = Some (sha256 payload) \<rparr>)"

definition VerifyBundle :: "Bundle \<Rightarrow> Options \<Rightarrow> VerifyResult" where
  "VerifyBundle b opt =
     (case hex_decode (Payload b) of Inl e \<Rightarrow> fail (PayloadHex e) | Inr payload \<Rightarrow>
     (case hex_decode (Sig b) of Inl e \<Rightarrow> fail (SigHex e) | Inr sig \<Rightarrow>
     (case hex_decode (PubX b) of Inl e \<Rightarrow> fail (PubXHex e) | Inr px \<Rightarrow>
     (case hex_decode (PubY b) of Inl e \<Rightarrow> fail (PubYHex e) | Inr py \<Rightarrow>
       if \<not> pinOK px py opt then fail PinMismatch
       else case verifySig payload sig px py of
              Inl e \<Rightarrow> fail (SignatureFailed e)
            | Inr _ \<Rightarrow>
                if \<not> lowS sig then fail HighS else gatesAfterSig payload opt))))"

definition VerifyCOSEBundle :: "COSEBundle \<Rightarrow> Options \<Rightarrow> VerifyResult" where
  "VerifyCOSEBundle b opt =
     (case hex_decode (COSE b) of Inl e \<Rightarrow> fail (CoseHex e) | Inr cose \<Rightarrow>
     (case hex_decode (CPubX b) of Inl e \<Rightarrow> fail (PubXHex e) | Inr px \<Rightarrow>
     (case hex_decode (CPubY b) of Inl e \<Rightarrow> fail (PubYHex e) | Inr py \<Rightarrow>
     (case parseCOSESign1 cose of Inl e \<Rightarrow> fail (CoseFailed e)
      | Inr (protBstr, payload, payloadBstr, sig) \<Rightarrow>
       if \<not> pinOK px py opt then fail PinMismatch
       else case verifySig (coseSigStruct protBstr payloadBstr) sig px py of
              Inl e \<Rightarrow> fail (SignatureFailed e)
            | Inr _ \<Rightarrow>
                if \<not> lowS sig then fail HighS else gatesAfterSig payload opt))))"

section \<open>Acceptance is the conjunction of the gates\<close>

lemma fail_fields [simp]: "\<not> OK (fail w)" "Pred (fail w) = None" "Reason (fail w) = w"
    "NextDigest (fail w) = None"
  by (simp_all add: fail_def)

lemma reject_fields [simp]: "\<not> OK (reject p w)" "Pred (reject p w) = Some p"
    "Reason (reject p w) = w" "NextDigest (reject p w) = None"
  by (simp_all add: reject_def)

text \<open>What the options ask of the key and of the payload.\<close>

definition keyPinned :: "bytes \<Rightarrow> bytes \<Rightarrow> Options \<Rightarrow> bool" where
  "keyPinned px py opt \<longleftrightarrow> (PinPubX opt = None \<and> PinPubY opt = None) \<or>
     (px = sliceOf (PinPubX opt) \<and> py = sliceOf (PinPubY opt))"

definition freshPredicate :: "Predicate \<Rightarrow> Options \<Rightarrow> bool" where
  "freshPredicate p opt \<longleftrightarrow> Version p = 1 \<and> Nonce p = ExpectedNonce opt \<and> Nonce p \<noteq> [] \<and>
     LastCounter opt < Counter p \<and>
     (ExpectedPrevDigest opt = None \<or> ExpectedPrevDigest opt = Some (PrevDigest p))"

lemma pinOK_iff: "pinOK px py opt \<longleftrightarrow> keyPinned px py opt"
  by (auto simp: pinOK_def keyPinned_def)

lemma gatesAfterSig_ok:
  "OK (gatesAfterSig payload opt) \<longleftrightarrow> (\<exists>p. DecodePayload payload = Inr p \<and> freshPredicate p opt)"
  by (cases "ExpectedPrevDigest opt")
    (auto simp: gatesAfterSig_def freshPredicate_def PayloadVersion_def not_le split: sum.splits)

lemma gatesAfterSig_result:
  "OK (gatesAfterSig payload opt) \<Longrightarrow> \<exists>p. DecodePayload payload = Inr p \<and>
     gatesAfterSig payload opt =
       \<lparr> Pred = Some p, OK = True, Reason = Verified, NextDigest = Some (sha256 payload) \<rparr>"
  by (auto simp: gatesAfterSig_def split: sum.splits if_splits)

text \<open>Message \<open>m\<close> carries a canonical device signature under the key \<open>(px, py)\<close>: 64 bytes, an
  ECDSA signature of its SHA-256 digest, s at most half the group order.\<close>

definition deviceSigned :: "bytes \<Rightarrow> bytes \<Rightarrow> bytes \<Rightarrow> bytes \<Rightarrow> bool" where
  "deviceSigned px py m sig \<longleftrightarrow> length sig = 64 \<and>
     ecdsaVerify (int (be_nat px)) (int (be_nat py)) (sha256 m)
       (int (be_nat (take 32 sig))) (int (be_nat (drop 32 sig))) \<and>
     int (be_nat (drop 32 sig)) \<le> halfN"

lemma deviceSigned_iff:
  "deviceSigned px py m sig \<longleftrightarrow> verifySig m sig px py = Inr () \<and> lowS sig"
  by (auto simp: deviceSigned_def verifySig_iff lowS_def)

lemma VerifyBundle_ok:
  "OK (VerifyBundle b opt) \<longleftrightarrow>
     (\<exists>payload sig px py. hex_decode (Payload b) = Inr payload \<and> hex_decode (Sig b) = Inr sig \<and>
        hex_decode (PubX b) = Inr px \<and> hex_decode (PubY b) = Inr py \<and> keyPinned px py opt \<and>
        deviceSigned px py payload sig \<and> OK (gatesAfterSig payload opt))"
  by (auto simp: VerifyBundle_def deviceSigned_iff pinOK_iff split: sum.splits if_splits)

lemma VerifyBundle_run:
  assumes "hex_decode (Payload b) = Inr payload" "hex_decode (Sig b) = Inr sig"
    "hex_decode (PubX b) = Inr px" "hex_decode (PubY b) = Inr py" "keyPinned px py opt"
    "deviceSigned px py payload sig"
  shows "VerifyBundle b opt = gatesAfterSig payload opt"
  using assms by (simp add: VerifyBundle_def pinOK_iff deviceSigned_iff)

lemma VerifyCOSEBundle_ok:
  "OK (VerifyCOSEBundle b opt) \<longleftrightarrow>
     (\<exists>cose pb payload plb sig px py. hex_decode (COSE b) = Inr cose \<and>
        parseCOSESign1 cose = Inr (pb, payload, plb, sig) \<and>
        hex_decode (CPubX b) = Inr px \<and> hex_decode (CPubY b) = Inr py \<and> keyPinned px py opt \<and>
        deviceSigned px py (coseSigStruct pb plb) sig \<and> OK (gatesAfterSig payload opt))"
  by (auto simp: VerifyCOSEBundle_def deviceSigned_iff pinOK_iff split: sum.splits if_splits)

section \<open>Properties of the gates\<close>

text \<open>The gates of a raw bundle that carries predicate \<open>p\<close>, stated without the verifier: the four
  fields are hex, the key is the pinned one if a pin is given, the payload is the deterministic
  encoding of \<open>p\<close> signed under that key, and \<open>p\<close> is fresh.\<close>

definition bundleGates :: "Bundle \<Rightarrow> Options \<Rightarrow> Predicate \<Rightarrow> bool" where
  "bundleGates b opt p \<longleftrightarrow> hex_decode (Payload b) = Inr (encodePayload p) \<and> validPredicate p \<and>
     (\<exists>sig px py. hex_decode (Sig b) = Inr sig \<and> hex_decode (PubX b) = Inr px \<and>
        hex_decode (PubY b) = Inr py \<and> keyPinned px py opt \<and>
        deviceSigned px py (encodePayload p) sig) \<and> freshPredicate p opt"

definition acceptedResult :: "Predicate \<Rightarrow> VerifyResult" where
  "acceptedResult p = \<lparr> Pred = Some p, OK = True, Reason = Verified,
     NextDigest = Some (sha256 (encodePayload p)) \<rparr>"

lemma bundleGates_accepted: "bundleGates b opt p \<Longrightarrow> VerifyBundle b opt = acceptedResult p"
proof -
  assume g: "bundleGates b opt p"
  then have d: "DecodePayload (encodePayload p) = Inr p" and "freshPredicate p opt"
    by (simp_all add: bundleGates_def DecodePayload_encode)
  then have "OK (gatesAfterSig (encodePayload p) opt)" by (simp add: gatesAfterSig_ok)
  from gatesAfterSig_result [OF this] d
  have "gatesAfterSig (encodePayload p) opt = acceptedResult p" by (simp add: acceptedResult_def)
  then show ?thesis using g VerifyBundle_run by (auto simp: bundleGates_def)
qed

lemma accepted_bundleGates:
  assumes "OK (VerifyBundle b opt)"
  obtains p where "bundleGates b opt p" "VerifyBundle b opt = acceptedResult p"
proof -
  from assms obtain payload sig px py where h: "hex_decode (Payload b) = Inr payload"
      "hex_decode (Sig b) = Inr sig" "hex_decode (PubX b) = Inr px" "hex_decode (PubY b) = Inr py"
      "keyPinned px py opt" "deviceSigned px py payload sig"
    and ok: "OK (gatesAfterSig payload opt)"
    by (auto simp: VerifyBundle_ok)
  from ok obtain p where p: "DecodePayload payload = Inr p" "freshPredicate p opt"
    by (auto simp: gatesAfterSig_ok)
  with h DecodePayload_sound [OF p(1)] have "bundleGates b opt p" by (auto simp: bundleGates_def)
  with bundleGates_accepted that show thesis by blast
qed

text \<open>C1: \<open>VerifyBundle\<close> accepts exactly when every gate holds: the four fields are hex, the key
  is the pinned one if a pin is given, the payload is the deterministic encoding of a version 1
  predicate signed with a canonical low-s ECDSA signature under that key, its nonce is the issued
  non-empty challenge, its counter exceeds the last one, and its prev_digest is the expected one if
  a chain is followed. And it is the accepting result for \<open>p\<close> (that predicate, no reason to
  refuse, the digest the next bundle must chain onto) exactly when the gates hold for \<open>p\<close>. The
  right-hand sides do not mention the verifier.\<close>

theorem VerifyBundle_accepts_iff:
  "(OK (VerifyBundle b opt) \<longleftrightarrow>
     (\<exists>p sig px py. hex_decode (Payload b) = Inr (encodePayload p) \<and> validPredicate p \<and>
        hex_decode (Sig b) = Inr sig \<and> hex_decode (PubX b) = Inr px \<and> hex_decode (PubY b) = Inr py \<and>
        keyPinned px py opt \<and> deviceSigned px py (encodePayload p) sig \<and> freshPredicate p opt)) \<and>
   (VerifyBundle b opt = \<lparr> Pred = Some q, OK = True, Reason = Verified,
        NextDigest = Some (sha256 (encodePayload q)) \<rparr> \<longleftrightarrow>
     (\<exists>sig px py. hex_decode (Payload b) = Inr (encodePayload q) \<and> validPredicate q \<and>
        hex_decode (Sig b) = Inr sig \<and> hex_decode (PubX b) = Inr px \<and> hex_decode (PubY b) = Inr py \<and>
        keyPinned px py opt \<and> deviceSigned px py (encodePayload q) sig \<and> freshPredicate q opt))"
proof -
  have "OK (VerifyBundle b opt) \<longleftrightarrow> (\<exists>p. bundleGates b opt p)"
    by (metis accepted_bundleGates bundleGates_accepted acceptedResult_def VerifyResult.select_convs(2))
  moreover have "VerifyBundle b opt = acceptedResult q \<longleftrightarrow> bundleGates b opt q"
  proof
    assume v: "VerifyBundle b opt = acceptedResult q"
    then have "OK (VerifyBundle b opt)" by (simp add: acceptedResult_def)
    then obtain p where "bundleGates b opt p" "VerifyBundle b opt = acceptedResult p"
      by (rule accepted_bundleGates)
    with v show "bundleGates b opt q" by (simp add: acceptedResult_def)
  qed (rule bundleGates_accepted)
  ultimately show ?thesis by (auto simp: bundleGates_def acceptedResult_def)
qed

text \<open>C4: \<open>VerifyCOSEBundle\<close> accepts exactly when the message parses as a COSE_Sign1, its
  signature over the reconstructed Sig_structure is canonical under the pinned key, and the inner
  payload passes the same gates as a raw bundle.\<close>

theorem VerifyCOSEBundle_accepts_iff:
  "OK (VerifyCOSEBundle b opt) \<longleftrightarrow>
     (\<exists>p tg prot u sig px py.
        hex_decode (COSE b) = Inr (coseMessage tg prot u (encodePayload p) sig) \<and>
        coseParts tg prot u (encodePayload p) sig \<and> validPredicate p \<and>
        hex_decode (CPubX b) = Inr px \<and> hex_decode (CPubY b) = Inr py \<and> keyPinned px py opt \<and>
        deviceSigned px py (coseSigStruct (enc_bstr prot) (enc_bstr (encodePayload p))) sig \<and>
        freshPredicate p opt)" (is "?L \<longleftrightarrow> ?R")
proof
  assume ?L
  then obtain cose pb payload plb sig px py where h: "hex_decode (COSE b) = Inr cose"
      "parseCOSESign1 cose = Inr (pb, payload, plb, sig)" "hex_decode (CPubX b) = Inr px"
      "hex_decode (CPubY b) = Inr py" "keyPinned px py opt"
      "deviceSigned px py (coseSigStruct pb plb) sig" and ok: "OK (gatesAfterSig payload opt)"
    by (auto simp: VerifyCOSEBundle_ok)
  then obtain p where p: "DecodePayload payload = Inr p" "freshPredicate p opt"
    by (auto simp: gatesAfterSig_ok)
  with h parseCOSESign1_sound [OF h(2)] DecodePayload_sound [OF p(1)] show ?R by blast
next
  assume ?R
  then obtain p tg prot u sig px py where
      "hex_decode (COSE b) = Inr (coseMessage tg prot u (encodePayload p) sig)"
      "coseParts tg prot u (encodePayload p) sig" "validPredicate p" "hex_decode (CPubX b) = Inr px"
      "hex_decode (CPubY b) = Inr py" "keyPinned px py opt" "freshPredicate p opt"
      "deviceSigned px py (coseSigStruct (enc_bstr prot) (enc_bstr (encodePayload p))) sig"
    by blast
  moreover from this have "OK (gatesAfterSig (encodePayload p) opt)"
    using DecodePayload_encode by (auto simp: gatesAfterSig_ok)
  ultimately show ?L
    using parseCOSESign1_complete by (fastforce simp: VerifyCOSEBundle_ok)
qed

text \<open>C5: Replay is refused: once a bundle has been accepted and the verifier remembers its
  counter, presenting the same bundle again is rejected by the counter gate, whatever else the
  options are changed to in their last counter.\<close>

theorem VerifyBundle_replay_refused:
  assumes "OK (VerifyBundle b opt)" and "Pred (VerifyBundle b opt) = Some p" and "Counter p \<le> seen"
  shows "VerifyBundle b (opt\<lparr> LastCounter := seen \<rparr>) = reject p (CounterNotGreater (Counter p) seen)"
proof -
  from assms(1) obtain payload sig px py where h: "hex_decode (Payload b) = Inr payload"
      "hex_decode (Sig b) = Inr sig" "hex_decode (PubX b) = Inr px" "hex_decode (PubY b) = Inr py"
      "keyPinned px py opt" "deviceSigned px py payload sig"
    and ok: "OK (gatesAfterSig payload opt)"
    by (auto simp: VerifyBundle_ok)
  have pin: "keyPinned px py (opt\<lparr> LastCounter := seen \<rparr>)"
    using h(5) by (simp add: keyPinned_def)
  have "DecodePayload payload = Inr p"
    using gatesAfterSig_result [OF ok] assms(2) VerifyBundle_run [OF h] by auto
  moreover have "freshPredicate p opt"
    using ok calculation by (simp add: gatesAfterSig_ok)
  ultimately have "gatesAfterSig payload (opt\<lparr> LastCounter := seen \<rparr>) =
      reject p (CounterNotGreater (Counter p) seen)"
    using assms(3) by (auto simp: gatesAfterSig_def freshPredicate_def PayloadVersion_def)
  then show ?thesis
    using VerifyBundle_run [OF h(1-4) pin h(6)] by simp
qed

text \<open>Freshness fails closed: with no (or an empty) expected nonce nothing is accepted, raw or
  COSE.\<close>

theorem empty_nonce_fails_closed:
  "\<not> OK (VerifyBundle b (opt\<lparr> ExpectedNonce := [] \<rparr>)) \<and>
   \<not> OK (VerifyCOSEBundle c (opt\<lparr> ExpectedNonce := [] \<rparr>))"
  by (auto simp: VerifyBundle_ok VerifyCOSEBundle_ok gatesAfterSig_ok freshPredicate_def)

end
