(* ===== verification/Sha256_Eval.thy ===== *)
theory Sha256_Eval
  imports Sha256
begin

text \<open>
  An evaluator for \<open>sha256\<close> on lists of 32 bits (least significant first), proved equal to the
  definition over words. Its equations are unconditional rewrite rules on Boolean constants
  (\<open>sha_bit_simps\<close>), so the kernel computes a digest by rewriting; the concrete instances of
  the development's theorems use it.
\<close>

type_synonym bits = "bool list"

definition bits :: "u32 \<Rightarrow> bits" where
  "bits w = map (bit w) [0..<32]"

lemma length_bits [simp]: "length (bits w) = 32"
  by (simp add: bits_def)

lemma nth_bits [simp]: "n < 32 \<Longrightarrow> bits w ! n = bit w n"
  by (simp add: bits_def)

lemma bits_eqI: "length xs = 32 \<Longrightarrow> (\<And>n. n < 32 \<Longrightarrow> bit w n = xs ! n) \<Longrightarrow> bits w = xs"
  by (simp add: list_eq_iff_nth_eq)

section \<open>Bitwise functions and addition\<close>

definition xor3 :: "bool \<Rightarrow> bool \<Rightarrow> bool \<Rightarrow> bool" where
  "xor3 a b c = (a \<noteq> (b \<noteq> c))"

definition maj3 :: "bool \<Rightarrow> bool \<Rightarrow> bool \<Rightarrow> bool" where
  "maj3 a b c = (a \<and> b \<or> c \<and> (a \<or> b))"

definition ch3 :: "bool \<Rightarrow> bool \<Rightarrow> bool \<Rightarrow> bool" where
  "ch3 a b c = (if a then b else c)"

fun addb :: "bool \<Rightarrow> bits \<Rightarrow> bits \<Rightarrow> bits" where
  "addb c (x # xs) (y # ys) = xor3 x y c # addb (maj3 x y c) xs ys"
| "addb c xs ys = []"

fun chb :: "bits \<Rightarrow> bits \<Rightarrow> bits \<Rightarrow> bits" where
  "chb (x # xs) (y # ys) (z # zs) = ch3 x y z # chb xs ys zs"
| "chb xs ys zs = []"

fun majb :: "bits \<Rightarrow> bits \<Rightarrow> bits \<Rightarrow> bits" where
  "majb (x # xs) (y # ys) (z # zs) = maj3 x y z # majb xs ys zs"
| "majb xs ys zs = []"

definition rot3 :: "nat \<Rightarrow> nat \<Rightarrow> nat \<Rightarrow> bits \<Rightarrow> bits" where
  "rot3 i j k xs =
     map (\<lambda>n. xor3 (xs ! ((n + i) mod 32)) (xs ! ((n + j) mod 32)) (xs ! ((n + k) mod 32))) [0..<32]"

definition rot2 :: "nat \<Rightarrow> nat \<Rightarrow> nat \<Rightarrow> bits \<Rightarrow> bits" where
  "rot2 i j k xs =
     map (\<lambda>n. xor3 (xs ! ((n + i) mod 32)) (xs ! ((n + j) mod 32)) (n + k < 32 \<and> xs ! (n + k)))
       [0..<32]"

lemma chb_nth:
  "length xs = k \<Longrightarrow> length ys = k \<Longrightarrow> length zs = k \<Longrightarrow>
   length (chb xs ys zs) = k \<and> (\<forall>n<k. chb xs ys zs ! n = ch3 (xs ! n) (ys ! n) (zs ! n))"
  by (induction xs ys zs arbitrary: k rule: chb.induct) (auto simp: nth_Cons split: nat.split)

lemma majb_nth:
  "length xs = k \<Longrightarrow> length ys = k \<Longrightarrow> length zs = k \<Longrightarrow>
   length (majb xs ys zs) = k \<and> (\<forall>n<k. majb xs ys zs ! n = maj3 (xs ! n) (ys ! n) (zs ! n))"
  by (induction xs ys zs arbitrary: k rule: majb.induct) (auto simp: nth_Cons split: nat.split)

lemma bits_Ch: "bits (sha_Ch x y z) = chb (bits x) (bits y) (bits z)"
  using chb_nth [of "bits x" 32 "bits y" "bits z"]
  by (intro bits_eqI) (auto simp: sha_Ch_def bit_simps ch3_def)

lemma bits_Maj: "bits (sha_Maj x y z) = majb (bits x) (bits y) (bits z)"
  using majb_nth [of "bits x" 32 "bits y" "bits z"]
  by (intro bits_eqI) (auto simp: sha_Maj_def bit_simps maj3_def)

lemma bit_rotr32: "n < 32 \<Longrightarrow> bit (word_rotr k (w :: u32)) n = bit w ((n + k) mod 32)"
  by (simp add: bit_word_rotr_iff)

lemma bits_S0: "bits (sha_S0 x) = rot3 2 13 22 (bits x)"
  by (rule bits_eqI) (auto simp: sha_S0_def rot3_def bit_xor_iff bit_rotr32 xor3_def)

lemma bits_S1: "bits (sha_S1 x) = rot3 6 11 25 (bits x)"
  by (rule bits_eqI) (auto simp: sha_S1_def rot3_def bit_xor_iff bit_rotr32 xor3_def)

lemma bit_drop32: "bit (drop_bit k (w :: u32)) n \<longleftrightarrow> n + k < 32 \<and> bit w (n + k)"
  using bit_imp_le_length [of w "n + k"] by (auto simp: bit_drop_bit_eq add.commute)

lemma bits_s0: "bits (sha_s0 x) = rot2 7 18 3 (bits x)"
  by (rule bits_eqI) (auto simp: sha_s0_def rot2_def bit_xor_iff bit_rotr32 bit_drop32 xor3_def)

lemma bits_s1: "bits (sha_s1 x) = rot2 17 19 10 (bits x)"
  by (rule bits_eqI) (auto simp: sha_s1_def rot2_def bit_xor_iff bit_rotr32 bit_drop32 xor3_def)

definition bits_nat :: "bits \<Rightarrow> nat" where
  "bits_nat xs = horner_sum of_bool 2 xs"

lemma bits_nat_bits [simp]: "bits_nat (bits w) = unat w"
proof -
  have "map (bit w) [0..<32] = map (bit (unat w)) [0..<32]"
    by (simp add: bit_unsigned_iff)
  moreover have "take_bit 32 (unat w) = unat w"
    using unsigned_less [of w, where ?'a = nat] by (simp add: take_bit_nat_eq_self)
  ultimately show ?thesis
    by (simp only: bits_nat_def bits_def horner_sum_bit_eq_take_bit)
qed

lemma word_of_horner_sum:
  "(word_of_nat (horner_sum of_bool 2 xs) :: u32) = horner_sum of_bool 2 xs"
  by (induction xs) simp_all

lemma bits_of_bits_nat: "length xs = 32 \<Longrightarrow> bits (word_of_nat (bits_nat xs)) = xs"
proof (rule bits_eqI)
  fix n :: nat
  assume len: "length xs = 32" and n: "n < 32"
  have "(word_of_nat (bits_nat xs) :: u32) = horner_sum of_bool 2 xs"
    by (simp only: bits_nat_def word_of_horner_sum)
  with len n show "bit (word_of_nat (bits_nat xs) :: u32) n = xs ! n"
    by (simp add: bit_horner_sum_bit_word_iff)
qed

lemma length_addb: "length xs = length ys \<Longrightarrow> length (addb c xs ys) = length xs"
  by (induction c xs ys rule: addb.induct) auto

lemma double_mod_cong:
  fixes a b m :: nat
  assumes "a mod m = b mod m"
  shows "(c + 2 * a) mod (2 * m) = (c + 2 * b) mod (2 * m)"
proof -
  have "2 * a mod (2 * m) = 2 * b mod (2 * m)"
    using assms by (simp add: mult_mod_right [symmetric])
  then show ?thesis
    by (rule mod_add_cong [OF refl])
qed

lemma bits_nat_addb:
  "length xs = length ys \<Longrightarrow>
   (bits_nat (addb c xs ys) :: nat) mod 2 ^ length xs
     = (bits_nat xs + bits_nat ys + of_bool c) mod 2 ^ length xs"
proof (induction c xs ys rule: addb.induct)
  case (1 c x xs y ys)
  then have IH: "bits_nat (addb (maj3 x y c) xs ys) mod 2 ^ length xs
      = (bits_nat xs + bits_nat ys + of_bool (maj3 x y c)) mod 2 ^ length xs"
    by simp
  have "(of_bool (xor3 x y c) + 2 * bits_nat (addb (maj3 x y c) xs ys)) mod (2 * 2 ^ length xs)
      = (of_bool (xor3 x y c) + 2 * (bits_nat xs + bits_nat ys + of_bool (maj3 x y c)))
          mod (2 * 2 ^ length xs)"
    by (rule double_mod_cong) (rule IH)
  also have "of_bool (xor3 x y c) + 2 * (bits_nat xs + bits_nat ys + of_bool (maj3 x y c))
      = (of_bool x + 2 * bits_nat xs) + (of_bool y + 2 * bits_nat ys) + (of_bool c :: nat)"
    by (cases x; cases y; cases c) (simp_all add: xor3_def maj3_def)
  finally show ?case
    by (simp add: bits_nat_def)
qed (auto simp: bits_nat_def)

lemma bits_add: "bits (a + b) = addb False (bits a) (bits b)"
proof -
  let ?s = "addb False (bits a) (bits b)"
  have len: "length ?s = 32"
    by (simp add: length_addb)
  have "word_of_nat (bits_nat ?s) = a + b"
  proof (rule word_unat_eq_iff [THEN iffD2])
    show "unat (word_of_nat (bits_nat ?s) :: u32) = unat (a + b)"
      using bits_nat_addb [of "bits a" "bits b" False]
      by (simp add: unat_of_nat unat_word_ariths)
  qed
  with bits_of_bits_nat [OF len] show ?thesis by simp
qed

section \<open>Rotations of a literal list\<close>

lemma S0_literal:
  "rot3 2 13 22 [x0, x1, x2, x3, x4, x5, x6, x7, x8, x9, x10, x11, x12, x13, x14, x15, x16, x17,
    x18, x19, x20, x21, x22, x23, x24, x25, x26, x27, x28, x29, x30, x31] = [xor3 x2 x13 x22,
    xor3 x3 x14 x23, xor3 x4 x15 x24, xor3 x5 x16 x25, xor3 x6 x17 x26, xor3 x7 x18 x27, xor3 x8
    x19 x28, xor3 x9 x20 x29, xor3 x10 x21 x30, xor3 x11 x22 x31, xor3 x12 x23 x0, xor3 x13 x24
    x1, xor3 x14 x25 x2, xor3 x15 x26 x3, xor3 x16 x27 x4, xor3 x17 x28 x5, xor3 x18 x29 x6,
    xor3 x19 x30 x7, xor3 x20 x31 x8, xor3 x21 x0 x9, xor3 x22 x1 x10, xor3 x23 x2 x11, xor3 x24
    x3 x12, xor3 x25 x4 x13, xor3 x26 x5 x14, xor3 x27 x6 x15, xor3 x28 x7 x16, xor3 x29 x8 x17,
    xor3 x30 x9 x18, xor3 x31 x10 x19, xor3 x0 x11 x20, xor3 x1 x12 x21]"
  by (simp add: rot3_def upt_rec)

lemma S1_literal:
  "rot3 6 11 25 [x0, x1, x2, x3, x4, x5, x6, x7, x8, x9, x10, x11, x12, x13, x14, x15, x16, x17,
    x18, x19, x20, x21, x22, x23, x24, x25, x26, x27, x28, x29, x30, x31] = [xor3 x6 x11 x25,
    xor3 x7 x12 x26, xor3 x8 x13 x27, xor3 x9 x14 x28, xor3 x10 x15 x29, xor3 x11 x16 x30, xor3
    x12 x17 x31, xor3 x13 x18 x0, xor3 x14 x19 x1, xor3 x15 x20 x2, xor3 x16 x21 x3, xor3 x17
    x22 x4, xor3 x18 x23 x5, xor3 x19 x24 x6, xor3 x20 x25 x7, xor3 x21 x26 x8, xor3 x22 x27 x9,
    xor3 x23 x28 x10, xor3 x24 x29 x11, xor3 x25 x30 x12, xor3 x26 x31 x13, xor3 x27 x0 x14,
    xor3 x28 x1 x15, xor3 x29 x2 x16, xor3 x30 x3 x17, xor3 x31 x4 x18, xor3 x0 x5 x19, xor3 x1
    x6 x20, xor3 x2 x7 x21, xor3 x3 x8 x22, xor3 x4 x9 x23, xor3 x5 x10 x24]"
  by (simp add: rot3_def upt_rec)

lemma s0_literal:
  "rot2 7 18 3 [x0, x1, x2, x3, x4, x5, x6, x7, x8, x9, x10, x11, x12, x13, x14, x15, x16, x17,
    x18, x19, x20, x21, x22, x23, x24, x25, x26, x27, x28, x29, x30, x31] = [xor3 x7 x18 x3,
    xor3 x8 x19 x4, xor3 x9 x20 x5, xor3 x10 x21 x6, xor3 x11 x22 x7, xor3 x12 x23 x8, xor3 x13
    x24 x9, xor3 x14 x25 x10, xor3 x15 x26 x11, xor3 x16 x27 x12, xor3 x17 x28 x13, xor3 x18 x29
    x14, xor3 x19 x30 x15, xor3 x20 x31 x16, xor3 x21 x0 x17, xor3 x22 x1 x18, xor3 x23 x2 x19,
    xor3 x24 x3 x20, xor3 x25 x4 x21, xor3 x26 x5 x22, xor3 x27 x6 x23, xor3 x28 x7 x24, xor3
    x29 x8 x25, xor3 x30 x9 x26, xor3 x31 x10 x27, xor3 x0 x11 x28, xor3 x1 x12 x29, xor3 x2 x13
    x30, xor3 x3 x14 x31, xor3 x4 x15 False, xor3 x5 x16 False, xor3 x6 x17 False]"
  by (simp add: rot2_def upt_rec)

lemma s1_literal:
  "rot2 17 19 10 [x0, x1, x2, x3, x4, x5, x6, x7, x8, x9, x10, x11, x12, x13, x14, x15, x16,
    x17, x18, x19, x20, x21, x22, x23, x24, x25, x26, x27, x28, x29, x30, x31] = [xor3 x17 x19
    x10, xor3 x18 x20 x11, xor3 x19 x21 x12, xor3 x20 x22 x13, xor3 x21 x23 x14, xor3 x22 x24
    x15, xor3 x23 x25 x16, xor3 x24 x26 x17, xor3 x25 x27 x18, xor3 x26 x28 x19, xor3 x27 x29
    x20, xor3 x28 x30 x21, xor3 x29 x31 x22, xor3 x30 x0 x23, xor3 x31 x1 x24, xor3 x0 x2 x25,
    xor3 x1 x3 x26, xor3 x2 x4 x27, xor3 x3 x5 x28, xor3 x4 x6 x29, xor3 x5 x7 x30, xor3 x6 x8
    x31, xor3 x7 x9 False, xor3 x8 x10 False, xor3 x9 x11 False, xor3 x10 x12 False, xor3 x11
    x13 False, xor3 x12 x14 False, xor3 x13 x15 False, xor3 x14 x16 False, xor3 x15 x17 False,
    xor3 x16 x18 False]"
  by (simp add: rot2_def upt_rec)

lemma bool_table:
  "xor3 True True True = True" "xor3 True True False = False"
  "xor3 True False True = False" "xor3 True False False = True"
  "xor3 False True True = False" "xor3 False True False = True"
  "xor3 False False True = True" "xor3 False False False = False"
  "maj3 True True c = True" "maj3 False False c = False"
  "maj3 True False c = c" "maj3 False True c = c"
  "ch3 True b c = b" "ch3 False b c = c"
  by (auto simp: xor3_def maj3_def ch3_def)

section \<open>Schedule, rounds and blocks\<close>

type_synonym bstate = "bits \<times> bits \<times> bits \<times> bits \<times> bits \<times> bits \<times> bits \<times> bits"

fun bstate :: "sha_state \<Rightarrow> bstate" where
  "bstate (a, b, c, d, e, f, g, h) =
     (bits a, bits b, bits c, bits d, bits e, bits f, bits g, bits h)"

fun updateb :: "bstate \<Rightarrow> bits \<Rightarrow> bits \<Rightarrow> bstate" where
  "updateb (a, b, c, d, e, f, g, h) t1 t2 =
     (addb False t1 t2, a, b, c, addb False d t1, e, f, g)"

fun roundb :: "bstate \<Rightarrow> bits \<Rightarrow> bits \<Rightarrow> bstate" where
  "roundb (a, b, c, d, e, f, g, h) k w =
     updateb (a, b, c, d, e, f, g, h)
       (addb False (addb False (addb False (addb False h (rot3 6 11 25 e)) (chb e f g)) k) w)
       (addb False (rot3 2 13 22 a) (majb a b c))"

fun roundsb :: "bstate \<Rightarrow> bits list \<Rightarrow> bits list \<Rightarrow> bstate" where
  "roundsb s (k # ks) (w # ws) = roundsb (roundb s k w) ks ws"
| "roundsb s ks ws = s"

fun addsb :: "bstate \<Rightarrow> bstate \<Rightarrow> bstate" where
  "addsb (a, b, c, d, e, f, g, h) (a', b', c', d', e', f', g', h') =
     (addb False a a', addb False b b', addb False c c', addb False d d',
      addb False e e', addb False f f', addb False g g', addb False h h')"

text \<open>The schedule is driven by a list of 48 entries instead of a number.\<close>

fun scheduleb :: "unit list \<Rightarrow> bits list \<Rightarrow> bits list" where
  "scheduleb [] ws = ws"
| "scheduleb (u # us) ws =
     scheduleb us
       (addb False (addb False (addb False (rot2 17 19 10 (ws ! 1)) (ws ! 6)) (rot2 7 18 3 (ws ! 14)))
          (ws ! 15) # ws)"

lemma scheduleb_literal:
  "scheduleb [] ws = ws"
  "scheduleb (u # us) (w0 # w1 # w2 # w3 # w4 # w5 # w6 # w7 # w8 # w9 # w10 # w11 # w12 # w13
      # w14 # w15 # ws) =
   scheduleb us
     (addb False (addb False (addb False (rot2 17 19 10 w1) w6) (rot2 7 18 3 w14)) w15
      # w0 # w1 # w2 # w3 # w4 # w5 # w6 # w7 # w8 # w9 # w10 # w11 # w12 # w13 # w14 # w15 # ws)"
  by simp_all

lemma bstate_round: "bstate (sha_round s k w) = roundb (bstate s) (bits k) (bits w)"
  by (cases s rule: bstate.cases)
    (simp add: Let_def bits_add bits_S0 bits_S1 bits_Ch bits_Maj)

lemma bstate_rounds: "bstate (sha_rounds s ks ws) = roundsb (bstate s) (map bits ks) (map bits ws)"
  by (induction s ks ws rule: sha_rounds.induct) (simp_all add: bstate_round)

lemma bstate_add: "bstate (sha_add s s') = addsb (bstate s) (bstate s')"
  by (cases s rule: bstate.cases; cases s' rule: bstate.cases) (simp add: bits_add)

lemma bits_schedule:
  "16 \<le> length ws \<Longrightarrow>
   map bits (sha_schedule n ws) = scheduleb (replicate n ()) (map bits ws)"
proof (induction n arbitrary: ws)
  case 0
  then show ?case by simp
next
  case (Suc n)
  then show ?case
    by (simp add: bits_add bits_s0 bits_s1)
qed

definition compressb :: "bstate \<Rightarrow> bits list \<Rightarrow> bstate" where
  "compressb s ws =
     addsb s (roundsb s (map bits sha_K) (rev (scheduleb (replicate 48 ()) (rev ws))))"

lemma bstate_compress:
  "16 \<le> length ws \<Longrightarrow> bstate (sha_compress s ws) = compressb (bstate s) (map bits ws)"
  by (simp add: sha_compress_def compressb_def bstate_add bstate_rounds bits_schedule
      rev_map [symmetric] del: map_replicate)

lemma bit_of_nat_eq_bit_byte:
  assumes "n < 8"
  shows "bit (word_of_nat m :: byte) n = bit m n"
proof -
  have "bit (unat (word_of_nat m :: byte)) n = bit m n"
    using assms
    by (simp add: unsigned_of_nat Bit_Operations.bit_take_bit_iff del: unat_byte_of_nat)
  then show ?thesis
    using assms by (simp only: bit_unsigned_iff) simp
qed

lemma bit_of_nat_eq_bit_u32:
  assumes "n < 32"
  shows "bit (word_of_nat m :: u32) n = bit m n"
proof -
  have "bit (unat (word_of_nat m :: u32)) n = bit m n"
    using assms
    by (simp add: unsigned_of_nat Bit_Operations.bit_take_bit_iff)
  then show ?thesis
    using assms by (simp only: bit_unsigned_iff) simp
qed

lemma bit_numeral_byte: "n < 8 \<Longrightarrow> bit (numeral k :: byte) n = bit (numeral k :: nat) n"
  using bit_of_nat_eq_bit_byte [of n "numeral k"] by simp

lemma bit_numeral_u32: "n < 32 \<Longrightarrow> bit (numeral k :: u32) n = bit (numeral k :: nat) n"
  using bit_of_nat_eq_bit_u32 [of n "numeral k"] by simp

section \<open>From bytes to bits and back\<close>

definition byteb :: "byte \<Rightarrow> bits" where
  "byteb b = map (bit b) [0..<8]"

fun wordsb :: "bytes \<Rightarrow> bits list" where
  "wordsb (a # b # c # d # bs) = (byteb d @ byteb c @ byteb b @ byteb a) # wordsb bs"
| "wordsb bs = []"

text \<open>Bits of a numeral, as many as the list of units is long.\<close>

fun numb :: "unit list \<Rightarrow> num \<Rightarrow> bits" where
  "numb [] k = []"
| "numb (u # us) num.One = True # map (\<lambda>_. False) us"
| "numb (u # us) (num.Bit0 k) = False # numb us k"
| "numb (u # us) (num.Bit1 k) = True # numb us k"

lemma numb_eq: "numb us k = map (bit (numeral k :: nat)) [0..<length us]"
proof (induction us k rule: numb.induct)
  case (2 u us)
  show ?case
    by (rule nth_equalityI) (auto simp: nth_Cons bit_0 bit_Suc_0_iff simp del: upt_Suc split: nat.split)
next
  case (3 u us k)
  have "numb us k ! n = bit (numeral k :: nat) n" if "n < length us" for n
    using 3 that by simp
  then show ?case
    using 3 by (intro nth_equalityI)
      (auto simp: nth_Cons bit_0 bit_numeral_Bit0_Suc_iff simp del: upt_Suc split: nat.split)
next
  case (4 u us k)
  have "numb us k ! n = bit (numeral k :: nat) n" if "n < length us" for n
    using 4 that by simp
  then show ?case
    using 4 by (intro nth_equalityI)
      (auto simp: nth_Cons bit_0 bit_numeral_Bit1_Suc_iff simp del: upt_Suc split: nat.split)
qed simp

lemma bits_nat_byteb [simp]: "bits_nat (byteb b) = unat b"
proof -
  have "map (bit b) [0..<8] = map (bit (unat b)) [0..<8]"
    by (simp add: bit_unsigned_iff)
  moreover have "take_bit 8 (unat b) = unat b"
    using unat_byte_less [of b] by (simp add: take_bit_nat_eq_self)
  ultimately show ?thesis
    by (simp only: bits_nat_def byteb_def horner_sum_bit_eq_take_bit)
qed

lemma length_byteb [simp]: "length (byteb b) = 8"
  by (simp add: byteb_def)

lemma bits_nat_append: "bits_nat (xs @ ys) = bits_nat xs + 2 ^ length xs * bits_nat ys"
  by (simp add: bits_nat_def horner_sum_append)

lemma bits_be_word: "bits (be_word [a, b, c, d]) = byteb d @ byteb c @ byteb b @ byteb a"
proof -
  have "bits_nat (byteb d @ byteb c @ byteb b @ byteb a) = be_nat [a, b, c, d]"
    by (simp add: bits_nat_append be_nat_def algebra_simps)
  then show ?thesis
    using bits_of_bits_nat [of "byteb d @ byteb c @ byteb b @ byteb a"]
    by (simp add: be_word_def)
qed

lemma map_bits_be_words: "map bits (be_words m) = wordsb m"
  by (induction m rule: be_words.induct) (simp_all add: bits_be_word)

lemma length_be_words: "length (be_words m) = length m div 4"
  by (induction m rule: be_words.induct) auto

definition byte_of_bits :: "bits \<Rightarrow> byte" where
  "byte_of_bits xs = horner_sum of_bool 2 xs"

definition outb :: "bits \<Rightarrow> bytes" where
  "outb xs = [byte_of_bits (take 8 (drop 24 xs)), byte_of_bits (take 8 (drop 16 xs)),
              byte_of_bits (take 8 (drop 8 xs)), byte_of_bits (take 8 xs)]"

lemma byte_of_bits_bits:
  "k + 8 \<le> 32 \<Longrightarrow> byte_of_bits (take 8 (drop k (bits w))) = word_of_nat (unat w div 2 ^ k)"
proof (rule bit_word_eqI)
  fix n
  assume k: "k + 8 \<le> 32" and "n < LENGTH(8)"
  then have n: "n < 8" by simp
  have "bit (word_of_nat (unat w div 2 ^ k) :: byte) n = bit (unat w div 2 ^ k) n"
    using n by (simp add: bit_of_nat_eq_bit_byte)
  also have "\<dots> = bit w (k + n)"
    using k n by (simp add: drop_bit_eq_div [symmetric] bit_drop_bit_eq bit_unsigned_iff)
  finally show "bit (byte_of_bits (take 8 (drop k (bits w)))) n
      = bit (word_of_nat (unat w div 2 ^ k) :: byte) n"
    using k n by (simp add: byte_of_bits_def bit_horner_sum_bit_word_iff)
qed

lemma outb_bits: "outb (bits w) = be_bytes 4 (unat w)"
proof -
  have "take 8 (bits w) = take 8 (drop 0 (bits w))" by simp
  then show ?thesis
    unfolding outb_def be_bytes_4 by (simp only: byte_of_bits_bits)
qed

lemma outb_literal:
  "outb [x0, x1, x2, x3, x4, x5, x6, x7, x8, x9, x10, x11, x12, x13, x14, x15, x16, x17, x18,
    x19, x20, x21, x22, x23, x24, x25, x26, x27, x28, x29, x30, x31] = [byte_of_bits [x24, x25,
    x26, x27, x28, x29, x30, x31], byte_of_bits [x16, x17, x18, x19, x20, x21, x22, x23],
    byte_of_bits [x8, x9, x10, x11, x12, x13, x14, x15], byte_of_bits [x0, x1, x2, x3, x4, x5,
    x6, x7]]"
  by (simp add: outb_def)

lemma byteb_literal:
  "byteb 0 = [False, False, False, False, False, False, False, False]"
  "byteb 1 = [True, False, False, False, False, False, False, False]"
  "byteb (numeral k) = numb [(), (), (), (), (), (), (), ()] k"
proof -
  have "byteb (numeral k) = map (bit (numeral k :: nat)) [0..<8]"
    unfolding byteb_def by (rule map_cong) (simp_all only: set_upt atLeastLessThan_iff bit_numeral_byte)
  then show "byteb (numeral k) = numb [(), (), (), (), (), (), (), ()] k"
    by (simp only: numb_eq) (simp add: upt_rec)
qed (simp_all add: byteb_def upt_rec)

lemma bits_literal:
  "bits (numeral k) = numb [(), (), (), (), (), (), (), (), (), (), (), (), (), (), (), (), (),
    (), (), (), (), (), (), (), (), (), (), (), (), (), (), ()] k"
proof -
  have "bits (numeral k) = map (bit (numeral k :: nat)) [0..<32]"
    unfolding bits_def by (rule map_cong) (simp_all only: set_upt atLeastLessThan_iff bit_numeral_u32)
  then show ?thesis
    by (simp only: numb_eq) (simp add: upt_rec)
qed

section \<open>The digest at the bit level\<close>

text \<open>Reversal with an accumulator, and the loop counters as literal lists of units.\<close>

fun rev_onto :: "'a list \<Rightarrow> 'a list \<Rightarrow> 'a list" where
  "rev_onto [] ys = ys"
| "rev_onto (x # xs) ys = rev_onto xs (x # ys)"

lemma rev_onto_eq: "rev_onto xs ys = rev xs @ ys"
  by (induction xs ys rule: rev_onto.induct) simp_all

definition kb :: "bits list" where
  "kb = map bits sha_K"

definition units48 :: "unit list" where
  "units48 = replicate 48 ()"

lemma units48_literal:
  "units48 = [(), (), (), (), (), (), (), (), (), (), (), (), (), (), (), (), (), (), (), (),
    (), (), (), (), (), (), (), (), (), (), (), (), (), (), (), (), (), (), (), (), (), (), (),
    (), (), (), (), ()]"
  by (simp add: units48_def numeral_eq_Suc)

lemma compressb_step:
  "compressb s ws = addsb s (roundsb s kb (rev_onto (scheduleb units48 (rev_onto ws [])) []))"
  by (simp add: compressb_def rev_onto_eq kb_def units48_def)

function blocksb :: "bstate \<Rightarrow> bits list \<Rightarrow> bstate" where
  "blocksb s ws =
     (if ws = [] then s else blocksb (compressb s (take 16 ws)) (drop 16 ws))"
  by pat_completeness auto
termination
  by (relation "measure (\<lambda>(s, ws). length ws)") auto

declare blocksb.simps [simp del]

lemma blocksb_literal:
  "blocksb s [] = s"
  "blocksb s (w0 # w1 # w2 # w3 # w4 # w5 # w6 # w7 # w8 # w9 # w10 # w11 # w12 # w13
      # w14 # w15 # ws) =
   blocksb (compressb s [w0, w1, w2, w3, w4, w5, w6, w7, w8, w9, w10, w11, w12, w13, w14, w15])
     ws"
  by (simp_all add: blocksb.simps [of s])

lemma bstate_blocks:
  "length ws mod 16 = 0 \<Longrightarrow> bstate (sha_blocks s ws) = blocksb (bstate s) (map bits ws)"
proof (induction s ws rule: sha_blocks.induct)
  case (1 s ws)
  show ?case
  proof (cases "ws = []")
    case True
    then show ?thesis by (simp add: sha_blocks.simps blocksb.simps)
  next
    case False
    with 1 have len: "16 \<le> length ws"
      by (metis length_0_conv mod_less not_less)
    then have "length (drop 16 ws) mod 16 = 0"
      using 1 by (simp add: le_mod_geq [symmetric])
    then show ?thesis
      using 1 False len
      by (simp add: sha_blocks.simps [of s] blocksb.simps [of "bstate s"] bstate_compress
          take_map drop_map)
  qed
qed

fun digestb :: "bstate \<Rightarrow> bytes" where
  "digestb (a, b, c, d, e, f, g, h) =
     outb a @ outb b @ outb c @ outb d @ outb e @ outb f @ outb g @ outb h"

lemma digestb_bstate: "digestb (bstate s) = sha_digest s"
  by (cases s rule: bstate.cases) (simp add: outb_bits)

lemma sha256_bits:
  "sha256 m = digestb (blocksb (bstate sha_init) (wordsb (sha_pad m)))"
proof -
  have "length (be_words (sha_pad m)) mod 16 = 0"
    using sha_pad_blocks [of m] by (auto simp: length_be_words)
  then show ?thesis
    by (simp add: sha256_def digestb_bstate [symmetric] bstate_blocks map_bits_be_words)
qed

text \<open>
  The bundle a digest is computed with: \<open>simp only: sha256_bits sha_bit_simps\<close> on a literal
  list of byte numerals, once \<open>sha_pad\<close> of it is a literal list.
\<close>

lemma wordsb_literal:
  "wordsb [] = []"
  "wordsb (a # b # c # d # bs) = (byteb d @ byteb c @ byteb b @ byteb a) # wordsb bs"
  by simp_all

lemma append_literal: "[] @ ys = ys" "(x # xs) @ ys = x # (xs @ ys)"
  by simp_all

lemma units_map_literal: "map (\<lambda>_. False) [] = []"
  "map (\<lambda>_. False) (u # us) = False # map (\<lambda>_. False) us"
  by simp_all

lemma byte_of_bits_value:
  "byte_of_bits [] = 0"
  "byte_of_bits (True # xs) = 1 + 2 * byte_of_bits xs"
  "byte_of_bits (False # xs) = 2 * byte_of_bits xs"
  by (simp_all add: byte_of_bits_def)

lemma bstate_init: "bstate sha_init = (bits 1779033703, bits 3144134277, bits 1013904242,
    bits 2773480762, bits 1359893119, bits 2600822924, bits 528734635, bits 1541459225)"
  by (simp add: sha_init_def)

lemma kb_literal: 
  "kb = [bits 1116352408, bits 1899447441, bits 3049323471, bits 3921009573, bits 961987163, bits
    1508970993, bits 2453635748, bits 2870763221, bits 3624381080, bits 310598401, bits
    607225278, bits 1426881987, bits 1925078388, bits 2162078206, bits 2614888103, bits
    3248222580, bits 3835390401, bits 4022224774, bits 264347078, bits 604807628, bits
    770255983, bits 1249150122, bits 1555081692, bits 1996064986, bits 2554220882, bits
    2821834349, bits 2952996808, bits 3210313671, bits 3336571891, bits 3584528711, bits
    113926993, bits 338241895, bits 666307205, bits 773529912, bits 1294757372, bits
    1396182291, bits 1695183700, bits 1986661051, bits 2177026350, bits 2456956037, bits
    2730485921, bits 2820302411, bits 3259730800, bits 3345764771, bits 3516065817, bits
    3600352804, bits 4094571909, bits 275423344, bits 430227734, bits 506948616, bits
    659060556, bits 883997877, bits 958139571, bits 1322822218, bits 1537002063, bits
    1747873779, bits 1955562222, bits 2024104815, bits 2227730452, bits 2361852424, bits
    2428436474, bits 2756734187, bits 3204031479, bits 3329325298]"
  by (simp only: kb_def sha_K_def list.map)

lemmas sha_bit_simps =
  bstate_init bits_literal numb.simps wordsb_literal byteb_literal append_literal
  units_map_literal blocksb_literal compressb_step kb_literal units48_literal rev_onto.simps
  scheduleb_literal roundsb.simps roundb.simps updateb.simps addsb.simps addb.simps chb.simps
  majb.simps S0_literal S1_literal s0_literal s1_literal bool_table digestb.simps outb_literal

text \<open>The padding of a literal message.\<close>

lemma replicate_literal:
  "replicate (numeral k) x = x # replicate (pred_numeral k) x"
  by (simp add: numeral_eq_Suc)

lemmas sha_pad_simps = sha_pad_def be_bytes_8 replicate_literal

text \<open>The test vector of FIPS 180-4 for \<open>abc\<close>.\<close>

lemma sha256_abc: "sha256 [0x61, 0x62, 0x63] =
   [0xba, 0x78, 0x16, 0xbf, 0x8f, 0x01, 0xcf, 0xea, 0x41, 0x41, 0x40, 0xde, 0x5d, 0xae, 0x22, 0x23,
    0xb0, 0x03, 0x61, 0xa3, 0x96, 0x17, 0x7a, 0x9c, 0xb4, 0x10, 0xff, 0x61, 0xf2, 0x00, 0x15, 0xad]"
proof -
  have pad: "sha_pad [0x61, 0x62, 0x63] = [0x61, 0x62, 0x63, 0x80, 0, 0, 0, 0, 0, 0, 0, 0, 0, 0,
      0, 0, 0, 0, 0, 0, 0, 0, 0, 0, 0, 0, 0, 0, 0, 0, 0, 0, 0, 0, 0, 0, 0, 0, 0, 0, 0, 0, 0, 0,
      0, 0, 0, 0, 0, 0, 0, 0, 0, 0, 0, 0, 0, 0, 0, 0, 0, 0, 0, 24]"
    by (simp add: sha_pad_simps)
  show ?thesis
    by (simp only: sha256_bits pad, simp only: sha_bit_simps) (simp add: byte_of_bits_value)
qed

end
