(* ===== verification/Bound_Demo.thy ===== *)
theory Bound_Demo
  imports Bound Sha256_Eval
begin

text \<open>
  A concrete accepted bundle, on which the gate properties are instantiated: a version 1
  predicate with nonce [9] and counter 5, the kernel-computed SHA-256 digest of its encoding, and
  a key under which the pair (digest, digest) is a valid low-s signature.
\<close>

definition demoPredicate :: Predicate where
  "demoPredicate = \<lparr> Version = 1, Nonce = [9], EventID = 1, VoiceActive = True, Presence = 1,
     Frames = 100, WindowMs = 5, Counter = 5, ConfigHash = replicate 32 0,
     InputHash = replicate 32 0, PrevDigest = replicate 32 0 \<rparr>"

definition demoH :: int where
  "demoH = 53435607468085550260312347333717825515589877774521452721194064234424059704131"

definition demoQx :: int where
  "demoQx = 29288007719435881768385952519799284156932359321532919777877331387308068255209"

definition demoQy :: int where
  "demoQy = 25069481815804101372079948455985193873236801724589084558021313905673131472428"

definition demoPx :: bytes where "demoPx = be_bytes 32 (nat demoQx)"
definition demoPy :: bytes where "demoPy = be_bytes 32 (nat demoQy)"
definition demoRS :: bytes where "demoRS = sigBytes demoH demoH"

lemma demo_valid: "validPredicate demoPredicate"
  by (simp add: validPredicate_def demoPredicate_def NonceMax_def hashLen_def)

lemma demo_payload: "encodePayload demoPredicate =
    [171, 0, 1, 1, 65, 9, 2, 1, 3, 245, 4, 1, 5, 24, 100, 6, 5, 7, 5, 8, 88, 32, 0, 0, 0, 0, 0,
    0, 0, 0, 0, 0, 0, 0, 0, 0, 0, 0, 0, 0, 0, 0, 0, 0, 0, 0, 0, 0, 0, 0, 0, 0, 0, 0, 9, 88, 32,
    0, 0, 0, 0, 0, 0, 0, 0, 0, 0, 0, 0, 0, 0, 0, 0, 0, 0, 0, 0, 0, 0, 0, 0, 0, 0, 0, 0, 0, 0, 0,
    0, 10, 88, 32, 0, 0, 0, 0, 0, 0, 0, 0, 0, 0, 0, 0, 0, 0, 0, 0, 0, 0, 0, 0, 0, 0, 0, 0, 0, 0,
    0, 0, 0, 0, 0, 0]"
  by (simp add: encodePayload_def encEntry_def demoPredicate_def field_def enc_uint_def
      enc_bstr_def enc_bool_def cbor_head_def upt_rec replicate_literal)

lemma demo_sha: "sha256 (encodePayload demoPredicate) =
     [118, 35, 123, 102, 221, 8, 217, 241, 236, 250, 42, 182, 200, 123, 247, 186, 85, 181, 43,
      102, 85, 78, 229, 148, 244, 156, 245, 159, 18, 214, 51, 67]"
proof -
  have pad: "sha_pad [171, 0, 1, 1, 65, 9, 2, 1, 3, 245, 4, 1, 5, 24, 100, 6, 5, 7, 5, 8, 88, 32, 0, 0, 0, 0,
      0, 0, 0, 0, 0, 0, 0, 0, 0, 0, 0, 0, 0, 0, 0, 0, 0, 0, 0, 0, 0, 0, 0, 0, 0, 0, 0, 0, 9, 88,
      32, 0, 0, 0, 0, 0, 0, 0, 0, 0, 0, 0, 0, 0, 0, 0, 0, 0, 0, 0, 0, 0, 0, 0, 0, 0, 0, 0, 0, 0,
      0, 0, 0, 10, 88, 32, 0, 0, 0, 0, 0, 0, 0, 0, 0, 0, 0, 0, 0, 0, 0, 0, 0, 0, 0, 0, 0, 0, 0,
      0, 0, 0, 0, 0, 0, 0, 0, 0] =
      [171, 0, 1, 1, 65, 9, 2, 1, 3, 245, 4, 1, 5, 24, 100, 6, 5, 7, 5, 8, 88, 32, 0, 0, 0, 0,
      0, 0, 0, 0, 0, 0, 0, 0, 0, 0, 0, 0, 0, 0, 0, 0, 0, 0, 0, 0, 0, 0, 0, 0, 0, 0, 0, 0, 9, 88,
      32, 0, 0, 0, 0, 0, 0, 0, 0, 0, 0, 0, 0, 0, 0, 0, 0, 0, 0, 0, 0, 0, 0, 0, 0, 0, 0, 0, 0, 0,
      0, 0, 0, 10, 88, 32, 0, 0, 0, 0, 0, 0, 0, 0, 0, 0, 0, 0, 0, 0, 0, 0, 0, 0, 0, 0, 0, 0, 0,
      0, 0, 0, 0, 0, 0, 0, 0, 0, 128, 0, 0, 0, 0, 0, 0, 0, 0, 0, 0, 0, 0, 0, 0, 0, 0, 0, 0, 0,
      0, 0, 0, 0, 0, 0, 0, 0, 0, 0, 0, 0, 0, 0, 0, 0, 0, 0, 0, 0, 0, 0, 0, 0, 0, 0, 0, 0, 0, 0,
      0, 0, 0, 0, 0, 0, 0, 0, 0, 0, 0, 0, 0, 0, 0, 0, 3, 224]"
    by (simp add: sha_pad_simps)
  show ?thesis
    by (simp only: demo_payload sha256_bits pad, simp only: sha_bit_simps) (simp add: byte_of_bits_value)
qed

lemma demo_hash: "int (be_nat (sha256 (encodePayload demoPredicate))) = demoH"
  by (simp add: demo_sha be_nat_def demoH_def)

lemma demo_key: "int (be_nat demoPx) = demoQx" "int (be_nat demoPy) = demoQy"
proof -
  have "be_nat demoPx = nat demoQx" "be_nat demoPy = nat demoQy"
    unfolding demoPx_def demoPy_def
    by (rule be_nat_be_bytes, simp add: demoQx_def demoQy_def)+
  then show "int (be_nat demoPx) = demoQx" "int (be_nat demoPy) = demoQy"
    by (simp_all add: demoQx_def demoQy_def)
qed

lemma demo_onCurve: "onCurve demoQx demoQy"
  by (rule onCurve_hint [where c = 57396903286164466005332046195867183430260374694416874714129795737102497622423
      and ?q1.0 = 5427649874864874718697725168370326178832556123655290914655725277048823714311
      and ?q2.0 = 216965459834921354819075267526232683095908845331252294289807280767055415993504782852952546811879237157369837208149158551080364778328254352914730784381070])
    (simp_all add: demoQx_def demoQy_def p256_p_def p256_b_def)

lemma demo_add: "ec_add p256_G (Affine demoQx demoQy) = Affine demoH
    90387736885028356106421622980291768650679009039685771358661111263946035227149"
  unfolding p256_G_def
  by (rule ec_add_hint [where
        i = 50608429419443063737197197588993180968284409665238510391407931332611976346808
        and ?q0.0 = "-8370434059493505219468126400098946208773372938109483468188265451031917254567"
        and l = 41061937875529909248893032719947566977350116080916163264508670087121694225543
        and ?q1.0 = "-4836000385956409656429925086789146680046031061108166597398713916836684035841"
        and ?q2.0 = "14561294761948878681070054980806540627583301489355635564742208014572870601873"
        and ?q3.0 = "-1771686986791779828193812205007642627897646724456815200790551741165280130243"])
    (simp_all add: demoQx_def demoQy_def demoH_def p256_p_def)

lemma demo_verify: "ecdsaVerify demoQx demoQy (sha256 (encodePayload demoPredicate)) demoH demoH"
proof (rule ecdsaVerify_unit)
  show "int (be_nat (sha256 (encodePayload demoPredicate))) = demoH"
    by (rule demo_hash)
  show "demoH * 67984792201499736949308168446889942297934385294282055083546087285226221149378 =
      31373548008785658506377401301579008048902392900098852469505628112303739011893 * p256_n + 1"
    by (simp add: demoH_def p256_n_def)
  show "onCurve demoQx demoQy"
    by (rule demo_onCurve)
  show "ec_add p256_G (Affine demoQx demoQy) = Affine demoH
    90387736885028356106421622980291768650679009039685771358661111263946035227149"
    by (rule demo_add)
qed (simp_all add: demoH_def p256_n_def)

lemma demo_signed: "deviceSigned demoPx demoPy (encodePayload demoPredicate) demoRS"
proof -
  have r: "0 \<le> demoH" "demoH < p256_n" "demoH \<le> halfN"
    by (simp_all add: demoH_def p256_n_def halfN_def)
  show ?thesis
    using demo_verify r
    by (simp add: deviceSigned_def demo_key demoRS_def sigBytes_parts)
qed

definition demoBundle :: Bundle where
  "demoBundle = \<lparr> Schema = ''honest-ear/bound-output/1'', Payload = hex_encode (encodePayload demoPredicate),
     Sig = hex_encode demoRS, PubX = hex_encode demoPx, PubY = hex_encode demoPy \<rparr>"

definition demoOptions :: Options where
  "demoOptions = \<lparr> ExpectedNonce = [9], PinPubX = Some demoPx, PinPubY = Some demoPy,
     LastCounter = 4, ExpectedPrevDigest = Some (replicate 32 0) \<rparr>"

lemma demo_gates: "OK (gatesAfterSig (encodePayload demoPredicate) demoOptions)"
  using DecodePayload_encode [OF demo_valid]
  by (auto simp: gatesAfterSig_ok freshPredicate_def demoPredicate_def demoOptions_def)

lemma demo_run: "VerifyBundle demoBundle demoOptions = \<lparr> Pred = Some demoPredicate, OK = True,
    Reason = Verified, NextDigest = Some (sha256 (encodePayload demoPredicate)) \<rparr>"
proof -
  have "VerifyBundle demoBundle demoOptions = gatesAfterSig (encodePayload demoPredicate) demoOptions"
    by (rule VerifyBundle_run [where sig = demoRS and px = demoPx and py = demoPy])
      (simp_all add: demoBundle_def hex_decode_encode demo_signed keyPinned_def demoOptions_def sliceOf_def)
  then show ?thesis
    using gatesAfterSig_result [OF demo_gates] DecodePayload_encode [OF demo_valid] by simp
qed

lemma VerifyBundle_replay_refused_witness:
  "OK (VerifyBundle demoBundle demoOptions) \<and>
   VerifyBundle demoBundle (demoOptions\<lparr> LastCounter := 5 \<rparr>) =
     reject demoPredicate (CounterNotGreater 5 5)"
proof -
  have "Counter demoPredicate = 5" by (simp add: demoPredicate_def)
  then show ?thesis
    using VerifyBundle_replay_refused [of demoBundle demoOptions demoPredicate 5]
    by (simp add: demo_run)
qed

end
