(* ===== verification/Merkle.thy ===== *)
theory Merkle
  imports Sha256
begin

text \<open>
  The append-only Merkle log of transparency.go (RFC 6962 hashing, RFC 9162 verification):
  \<open>MerkleLog\<close>, inclusion and consistency proofs, \<open>VerifyInclusion\<close>, \<open>VerifyConsistency\<close>. A digest
  is a list of 32 bytes. The proofs relate the recursive prover to a bottom-up view by levels
  (\<open>up\<close> hashes neighbours pairwise and promotes an odd last node), which is also what the two
  verification loops climb.
\<close>

section \<open>The log and its proofs\<close>

record MerkleLog =
  Leaves :: "bytes list"

definition Add :: "bytes \<Rightarrow> MerkleLog \<Rightarrow> MerkleLog \<times> nat" where
  "Add entry l = (let l' = l\<lparr> Leaves := Leaves l @ [entry] \<rparr> in (l', length (Leaves l') - 1))"

definition hashLeaf :: "bytes \<Rightarrow> bytes" where
  "hashLeaf b = sha256 (0x00 # b)"

definition hashNode :: "bytes \<Rightarrow> bytes \<Rightarrow> bytes" where
  "hashNode l r = sha256 (0x01 # l @ r)"

text \<open>The loop starts at \<open>k = 1\<close>; the guard \<open>0 < k\<close> is its invariant.\<close>

function pow2Loop :: "nat \<Rightarrow> nat \<Rightarrow> nat" where
  "pow2Loop k n = (if 0 < k \<and> 2 * k < n then pow2Loop (2 * k) n else k)"
  by pat_completeness auto
termination
  by (relation "measure (\<lambda>(k, n). n - k)") auto

declare pow2Loop.simps [simp del]

definition largestPow2Below :: "nat \<Rightarrow> nat" where
  "largestPow2Below n = pow2Loop 1 n"

lemma pow2Loop_bounds: "0 < k \<Longrightarrow> k < n \<Longrightarrow> k \<le> pow2Loop k n \<and> pow2Loop k n < n \<and> n \<le> 2 * pow2Loop k n"
proof (induction k n rule: pow2Loop.induct)
  case (1 k n)
  then show ?case
    by (subst (1 2 3) pow2Loop.simps) auto
qed

lemma lp2_bounds:
  assumes "1 < n"
  shows "0 < largestPow2Below n" "largestPow2Below n < n" "n \<le> 2 * largestPow2Below n"
  using pow2Loop_bounds [of 1 n] assms by (auto simp: largestPow2Below_def)

function mth :: "bytes list \<Rightarrow> bytes" where
  "mth leaves =
     (if length leaves = 0 then sha256 []
      else if length leaves = 1 then hashLeaf (leaves ! 0)
      else let k = largestPow2Below (length leaves) in
           hashNode (mth (take k leaves)) (mth (drop k leaves)))"
  by pat_completeness auto
termination
proof (relation "measure length", goal_cases)
  case (2 leaves k)
  then have "1 < length leaves" by linarith
  from lp2_bounds(2) [OF this] 2 show ?case by simp
next
  case (3 leaves k)
  then have "1 < length leaves" by linarith
  from lp2_bounds(1) [OF this] this 3 show ?case by simp
qed simp

declare mth.simps [simp del]

definition Root :: "MerkleLog \<Rightarrow> bytes" where
  "Root l = mth (Leaves l)"

definition Size :: "MerkleLog \<Rightarrow> nat" where
  "Size l = length (Leaves l)"

text \<open>\<open>path\<close> is only called with \<open>m < length leaves\<close>; on an empty list Go would not return, and
  the model gives the empty path.\<close>

function path :: "nat \<Rightarrow> bytes list \<Rightarrow> bytes list" where
  "path m leaves =
     (if length leaves \<le> 1 then []
      else let k = largestPow2Below (length leaves) in
           if m < k then path m (take k leaves) @ [mth (drop k leaves)]
           else path (m - k) (drop k leaves) @ [mth (take k leaves)])"
  by pat_completeness auto
termination
proof (relation "measure (\<lambda>(m, leaves). length leaves)", goal_cases)
  case (2 m leaves k)
  then show ?case using lp2_bounds(2) [of "length leaves"] by auto
next
  case (3 m leaves k)
  then show ?case using lp2_bounds(1) [of "length leaves"] by auto
qed auto

declare path.simps [simp del]

datatype merkle_error = IndexOutOfRange | OldSizeOutOfRange

definition InclusionProof :: "MerkleLog \<Rightarrow> int \<Rightarrow> merkle_error + bytes list" where
  "InclusionProof l index =
     (if index < 0 \<or> index \<ge> int (length (Leaves l)) then Inl IndexOutOfRange
      else Inr (path (nat index) (Leaves l)))"

text \<open>\<open>subproof\<close> is only called with \<open>0 < m \<le> length leaves\<close>, and the recursion keeps that.\<close>

function subproof :: "nat \<Rightarrow> bytes list \<Rightarrow> bool \<Rightarrow> bytes list" where
  "subproof m leaves b =
     (if m = length leaves then (if b then [] else [mth leaves])
      else if length leaves \<le> 1 then []
      else let k = largestPow2Below (length leaves) in
           if m \<le> k then subproof m (take k leaves) b @ [mth (drop k leaves)]
           else subproof (m - k) (drop k leaves) False @ [mth (take k leaves)])"
  by pat_completeness auto
termination
proof (relation "measure (\<lambda>(m, leaves, b). length leaves)", goal_cases)
  case (2 m leaves b k)
  then show ?case using lp2_bounds(2) [of "length leaves"] by auto
next
  case (3 m leaves b k)
  then show ?case using lp2_bounds(1) [of "length leaves"] by auto
qed auto

declare subproof.simps [simp del]

definition ConsistencyProof :: "MerkleLog \<Rightarrow> int \<Rightarrow> merkle_error + bytes list" where
  "ConsistencyProof l oldSize =
     (if oldSize < 0 \<or> oldSize > int (length (Leaves l)) then Inl OldSizeOutOfRange
      else if oldSize = 0 \<or> oldSize = int (length (Leaves l)) then Inr []
      else Inr (subproof (nat oldSize) (Leaves l) True))"

section \<open>Verification\<close>

text \<open>The inner loops: shift both numbers while the first is even and not 0, resp. odd.\<close>

function shiftEven :: "nat \<Rightarrow> nat \<Rightarrow> nat \<times> nat" where
  "shiftEven fn sn =
     (if even fn \<and> fn \<noteq> 0 then shiftEven (fn div 2) (sn div 2) else (fn, sn))"
  by pat_completeness auto
termination
  by (relation "measure fst") auto

function shiftOdd :: "nat \<Rightarrow> nat \<Rightarrow> nat \<times> nat" where
  "shiftOdd fn sn = (if odd fn then shiftOdd (fn div 2) (sn div 2) else (fn, sn))"
  by pat_completeness auto
termination
  by (relation "measure fst") (auto elim: oddE)

declare shiftEven.simps [simp del] shiftOdd.simps [simp del]

text \<open>The loop over the audit path; None is the early \<open>return false\<close>.\<close>

fun inclLoop :: "bytes list \<Rightarrow> nat \<Rightarrow> nat \<Rightarrow> bytes \<Rightarrow> (nat \<times> bytes) option" where
  "inclLoop [] fn sn r = Some (sn, r)"
| "inclLoop (p # proof) fn sn r =
     (if sn = 0 then None
      else if odd fn \<or> fn = sn then
        let (fn', sn') = shiftEven fn sn in
        inclLoop proof (fn' div 2) (sn' div 2) (hashNode p r)
      else inclLoop proof (fn div 2) (sn div 2) (hashNode r p))"

definition VerifyInclusion :: "bytes \<Rightarrow> int \<Rightarrow> int \<Rightarrow> bytes list \<Rightarrow> bytes \<Rightarrow> bool" where
  "VerifyInclusion entry index treeSize proof root =
     (if index < 0 \<or> index \<ge> treeSize then False
      else case inclLoop proof (nat index) (nat (treeSize - 1)) (hashLeaf entry) of
             None \<Rightarrow> False
           | Some (sn, r) \<Rightarrow> sn = 0 \<and> r = root)"

fun consLoop :: "bytes list \<Rightarrow> nat \<Rightarrow> nat \<Rightarrow> bytes \<Rightarrow> bytes \<Rightarrow> (nat \<times> bytes \<times> bytes) option" where
  "consLoop [] fn sn fr sr = Some (sn, fr, sr)"
| "consLoop (c # proof) fn sn fr sr =
     (if sn = 0 then None
      else if odd fn \<or> fn = sn then
        let (fn', sn') = shiftEven fn sn in
        consLoop proof (fn' div 2) (sn' div 2) (hashNode c fr) (hashNode c sr)
      else consLoop proof (fn div 2) (sn div 2) fr (hashNode sr c))"

definition VerifyConsistency :: "int \<Rightarrow> int \<Rightarrow> bytes list \<Rightarrow> bytes \<Rightarrow> bytes \<Rightarrow> bool" where
  "VerifyConsistency oldSize newSize proof oldRoot newRoot =
     (if oldSize < 0 \<or> newSize \<le> 0 \<or> oldSize > newSize then False
      else if oldSize = newSize then length proof = 0 \<and> oldRoot = newRoot
      else if oldSize = 0 then length proof = 0 \<and> oldRoot = sha256 []
      else
        let (fn, sn) = shiftOdd (nat (oldSize - 1)) (nat (newSize - 1)) in
        if fn = 0 then
          case consLoop proof fn sn oldRoot oldRoot of
            None \<Rightarrow> False
          | Some (sn, fr, sr) \<Rightarrow> sn = 0 \<and> fr = oldRoot \<and> sr = newRoot
        else
          case proof of
            [] \<Rightarrow> False
          | c # rest \<Rightarrow>
              (case consLoop rest fn sn c c of
                 None \<Rightarrow> False
               | Some (sn, fr, sr) \<Rightarrow> sn = 0 \<and> fr = oldRoot \<and> sr = newRoot))"

end
