(* ===== verification/Merkle_Levels.thy ===== *)
theory Merkle_Levels
  imports Merkle
begin

text \<open>
  The hash tree seen from below, level by level: the recursive prover (\<open>path\<close>, \<open>subproof\<close>) and
  the verification loops of the Merkle log are both related to one step up (\<open>up\<close>), for an
  arbitrary list of digests.
\<close>

section \<open>The tree by levels\<close>

text \<open>The hash tree over a list of digests, and one level up.\<close>

function mroot :: "bytes list \<Rightarrow> bytes" where
  "mroot hs =
     (if length hs \<le> 1 then hd hs
      else let k = largestPow2Below (length hs) in hashNode (mroot (take k hs)) (mroot (drop k hs)))"
  by pat_completeness auto
termination
proof (relation "measure length", goal_cases)
  case (2 hs k)
  then have "1 < length hs" by linarith
  from lp2_bounds(2) [OF this] 2 show ?case by simp
next
  case (3 hs k)
  then have "1 < length hs" by linarith
  from lp2_bounds(1) [OF this] this 3 show ?case by simp
qed simp

declare mroot.simps [simp del]

fun up :: "bytes list \<Rightarrow> bytes list" where
  "up (a # b # hs) = hashNode a b # up hs"
| "up hs = hs"

text \<open>Splitting at the largest power of two below \<open>n > 2\<close>: it is even, and halving it gives the
  split of the level above.\<close>

lemma pow2Loop_double: "0 < k \<Longrightarrow> pow2Loop (2 * k) n = 2 * pow2Loop k ((n + 1) div 2)"
proof (induction k "(n + 1) div 2" rule: pow2Loop.induct)
  case (1 k)
  have c: "2 * (2 * k) < n \<longleftrightarrow> 2 * k < (n + 1) div 2" by presburger
  show ?case
    using 1 by (subst (1 2) pow2Loop.simps) (auto simp: c)
qed

lemma lp2_half:
  assumes "2 < n"
  shows "largestPow2Below n = 2 * largestPow2Below ((n + 1) div 2)"
proof -
  have "largestPow2Below n = pow2Loop (2 * 1) n"
    unfolding largestPow2Below_def using assms by (subst pow2Loop.simps) simp
  also have "\<dots> = 2 * largestPow2Below ((n + 1) div 2)"
    by (simp only: pow2Loop_double zero_less_one largestPow2Below_def)
  finally show ?thesis .
qed

lemma lp2_2 [simp]: "largestPow2Below 2 = 1" "largestPow2Below (Suc (Suc 0)) = 1"
  by (simp_all add: largestPow2Below_def pow2Loop.simps)

lemma length_up [simp]: "length (up hs) = (length hs + 1) div 2"
  by (induction hs rule: up.induct) auto

lemma up_append: "even (length xs) \<Longrightarrow> up (xs @ ys) = up xs @ up ys"
  by (induction xs rule: up.induct) auto

lemma up_nth:
  "2 * i + 1 < length hs \<Longrightarrow> up hs ! i = hashNode (hs ! (2 * i)) (hs ! (2 * i + 1))"
proof (induction hs arbitrary: i rule: up.induct)
  case (1 a b hs)
  then show ?case by (cases i) auto
qed auto

lemma up_last: "length hs = 2 * i + 1 \<Longrightarrow> up hs ! i = hs ! (2 * i)"
proof (induction hs arbitrary: i rule: up.induct)
  case (1 a b hs)
  then show ?case by (cases i) auto
qed auto

text \<open>An induction that every level fact follows: the split of a list of more than two digests is
  even, so it commutes with \<open>up\<close>.\<close>

lemma split_up:
  assumes "2 < length hs" and "k = largestPow2Below (length hs)"
  shows "k = 2 * largestPow2Below (length (up hs))" and "even k" and "2 \<le> k" and "k < length hs"
    and "take (largestPow2Below (length (up hs))) (up hs) = up (take k hs)"
    and "drop (largestPow2Below (length (up hs))) (up hs) = up (drop k hs)"
proof -
  let ?j = "largestPow2Below (length (up hs))"
  show k: "k = 2 * ?j"
    using assms lp2_half by simp
  then show e: "even k" by simp
  have "1 < length (up hs)" using assms(1) by simp
  then have "0 < ?j" by (rule lp2_bounds)
  with k show "2 \<le> k" by simp
  show kl: "k < length hs"
    using assms lp2_bounds(2) [of "length hs"] by simp
  then have tk: "length (take k hs) = k" by simp
  have "up hs = up (take k hs) @ up (drop k hs)"
    using up_append [of "take k hs" "drop k hs"] e tk by simp
  moreover have "length (up (take k hs)) = ?j"
    using k tk by simp
  ultimately show "take ?j (up hs) = up (take k hs)" and "drop ?j (up hs) = up (drop k hs)"
    by simp_all
qed

lemma split_cases [consumes 0, case_names small two more]:
  obtains "length hs \<le> 1" | a b where "hs = [a, b]" | "2 < length hs"
proof -
  consider "length hs \<le> 1" | "length hs = 2" | "2 < length hs" by linarith
  then show thesis
  proof cases
    case 2
    then obtain a b where "hs = [a, b]" by (auto simp: numeral_2_eq_2 length_Suc_conv)
    then show thesis by (rule that(2))
  qed (use that in blast)+
qed

lemma mroot_small [simp]: "mroot [h] = h"
  by (simp add: mroot.simps)

lemma mroot_two: "mroot [a, b] = hashNode a b"
  by (simp add: mroot.simps [of "[a, b]"])

lemma mroot_split:
  "1 < length hs \<Longrightarrow> k = largestPow2Below (length hs) \<Longrightarrow>
   mroot hs = hashNode (mroot (take k hs)) (mroot (drop k hs))"
  by (simp add: mroot.simps [of hs] Let_def)

lemma up_small: "length hs \<le> 1 \<Longrightarrow> up hs = hs"
  by (cases hs rule: up.cases) auto

lemma mroot_up: "mroot (up hs) = mroot hs"
proof (induction "length hs" arbitrary: hs rule: less_induct)
  case less
  show ?case
  proof (cases hs rule: split_cases)
    case small
    then show ?thesis by (simp add: up_small)
  next
    case (two a b)
    then show ?thesis by (simp add: mroot_two)
  next
    case more
    define k where "k = largestPow2Below (length hs)"
    note s = split_up [OF more k_def]
    have "mroot (up hs) = hashNode (mroot (up (take k hs))) (mroot (up (drop k hs)))"
      using mroot_split [OF _ refl, of "up hs"] more by (simp only: s(5,6)) simp
    also have "\<dots> = hashNode (mroot (take k hs)) (mroot (drop k hs))"
      using s(3,4) by (simp add: less)
    also have "\<dots> = mroot hs"
      using mroot_split [OF _ k_def] more by simp
    finally show ?thesis .
  qed
qed

lemma mth_mroot: "leaves \<noteq> [] \<Longrightarrow> mth leaves = mroot (map hashLeaf leaves)"
proof (induction leaves rule: mth.induct)
  case (1 leaves)
  show ?case
  proof (cases "length leaves = 1")
    case True
    then obtain x where "leaves = [x]" by (auto simp: length_Suc_conv)
    then show ?thesis by (simp add: mth.simps)
  next
    case False
    with 1(3) have n: "1 < length leaves" by (cases leaves) auto
    define k where "k = largestPow2Below (length leaves)"
    have k: "0 < k" "k < length leaves" using lp2_bounds [OF n] by (simp_all add: k_def)
    have ne: "take k leaves \<noteq> []" "drop k leaves \<noteq> []" using k by auto
    have "mth leaves = hashNode (mth (take k leaves)) (mth (drop k leaves))"
      using n by (subst mth.simps) (auto simp: k_def Let_def)
    also have "\<dots> = hashNode (mroot (map hashLeaf (take k leaves))) (mroot (map hashLeaf (drop k leaves)))"
      using 1(1,2) [OF _ _ k_def] n ne by auto
    also have "\<dots> = mroot (map hashLeaf leaves)"
      using mroot_split [of "map hashLeaf leaves" k] n by (simp add: k_def take_map drop_map)
    finally show ?thesis .
  qed
qed

section \<open>The audit path by levels\<close>

function hpath :: "nat \<Rightarrow> bytes list \<Rightarrow> bytes list" where
  "hpath m hs =
     (if length hs \<le> 1 then []
      else let k = largestPow2Below (length hs) in
           if m < k then hpath m (take k hs) @ [mroot (drop k hs)]
           else hpath (m - k) (drop k hs) @ [mroot (take k hs)])"
  by pat_completeness auto
termination
proof (relation "measure (\<lambda>(m, hs). length hs)", goal_cases)
  case (2 m hs k)
  then show ?case using lp2_bounds(2) [of "length hs"] by auto
next
  case (3 m hs k)
  then show ?case using lp2_bounds(1) [of "length hs"] by auto
qed auto

declare hpath.simps [simp del]

lemma hpath_split:
  "1 < length hs \<Longrightarrow> k = largestPow2Below (length hs) \<Longrightarrow>
   hpath m hs = (if m < k then hpath m (take k hs) @ [mroot (drop k hs)]
                 else hpath (m - k) (drop k hs) @ [mroot (take k hs)])"
  by (subst hpath.simps) (simp add: Let_def)

lemma hpath_small: "length hs \<le> 1 \<Longrightarrow> hpath m hs = []"
  by (subst hpath.simps) simp

lemma path_hpath: "path m leaves = hpath m (map hashLeaf leaves)"
proof (induction m leaves rule: path.induct)
  case (1 m leaves)
  show ?case
  proof (cases "length leaves \<le> 1")
    case True
    then show ?thesis by (simp add: path.simps hpath_small)
  next
    case False
    define k where "k = largestPow2Below (length leaves)"
    have k: "0 < k" "k < length leaves" using lp2_bounds [of "length leaves"] False by (simp_all add: k_def)
    then have "take k leaves \<noteq> []" "drop k leaves \<noteq> []" by auto
    then have r: "mth (take k leaves) = mroot (take k (map hashLeaf leaves))"
        "mth (drop k leaves) = mroot (drop k (map hashLeaf leaves))"
      by (simp_all add: mth_mroot take_map drop_map)
    have "path m leaves = (if m < k then path m (take k leaves) @ [mth (drop k leaves)]
        else path (m - k) (drop k leaves) @ [mth (take k leaves)])"
      using False by (subst path.simps) (simp add: k_def Let_def)
    moreover have "hpath m (map hashLeaf leaves) =
        (if m < k then hpath m (map hashLeaf (take k leaves)) @ [mth (drop k leaves)]
         else hpath (m - k) (map hashLeaf (drop k leaves)) @ [mth (take k leaves)])"
      using hpath_split [of "map hashLeaf leaves" k m] False by (simp add: k_def [symmetric] r take_map drop_map)
    ultimately show ?thesis
      using 1 [OF False k_def] by simp
  qed
qed

text \<open>The sibling at one level, if there is one.\<close>

definition sib :: "nat \<Rightarrow> bytes list \<Rightarrow> bytes list" where
  "sib m hs = (if odd m then [hs ! (m - 1)] else if m + 1 < length hs then [hs ! (m + 1)] else [])"

lemma sib_take: "even k \<Longrightarrow> m < k \<Longrightarrow> k \<le> length hs \<Longrightarrow> sib m (take k hs) = sib m hs"
proof -
  assume "even k" "m < k" "k \<le> length hs"
  moreover have "m + 1 < k" if "even m"
    using that \<open>even k\<close> \<open>m < k\<close> by presburger
  ultimately show ?thesis by (auto simp: sib_def)
qed

lemma sib_drop: "even k \<Longrightarrow> k \<le> m \<Longrightarrow> m < length hs \<Longrightarrow> sib (m - k) (drop k hs) = sib m hs"
proof -
  assume "even k" "k \<le> m" "m < length hs"
  moreover have "k < m" if "odd m"
    using that \<open>even k\<close> \<open>k \<le> m\<close> by (cases "k = m") auto
  ultimately show ?thesis by (auto simp: sib_def)
qed

lemma hpath_up: "m < length hs \<Longrightarrow> hpath m hs = sib m hs @ hpath (m div 2) (up hs)"
proof (induction "length hs" arbitrary: hs m rule: less_induct)
  case less
  show ?case
  proof (cases hs rule: split_cases)
    case small
    then have "m = 0" using less.prems by simp
    then show ?thesis using small by (simp add: up_small hpath_small sib_def)
  next
    case (two a b)
    then have "m = 0 \<or> m = 1" using less.prems by auto
    then show ?thesis using two by (auto simp: hpath_split hpath_small sib_def)
  next
    case more
    define k j where "k = largestPow2Below (length hs)" and "j = largestPow2Below (length (up hs))"
    note s = split_up [OF more k_def, folded j_def]
    have half: "(m - k) div 2 = m div 2 - j" using s(1) by presburger
    have u: "hpath (m div 2) (up hs) =
        (if m < k then hpath (m div 2) (up (take k hs)) @ [mroot (drop k hs)]
         else hpath ((m - k) div 2) (up (drop k hs)) @ [mroot (take k hs)])"
      using hpath_split [OF _ j_def, of "m div 2"] more s half
      by (auto simp: mroot_up)
    have h: "hpath m hs = (if m < k then hpath m (take k hs) @ [mroot (drop k hs)]
        else hpath (m - k) (drop k hs) @ [mroot (take k hs)])"
      using more by (intro hpath_split) (simp_all add: k_def)
    show ?thesis
    proof (cases "m < k")
      case True
      then have "hpath m (take k hs) = sib m (take k hs) @ hpath (m div 2) (up (take k hs))"
        using s(4) by (intro less.hyps) simp_all
      then show ?thesis using True s u h by (simp add: sib_take)
    next
      case False
      then have "hpath (m - k) (drop k hs) = sib (m - k) (drop k hs) @ hpath ((m - k) div 2) (up (drop k hs))"
        using s(3,4) less.prems by (intro less.hyps) simp_all
      then show ?thesis using False s u h less.prems by (simp add: sib_drop)
    qed
  qed
qed

section \<open>The verification loops climb the levels\<close>

text \<open>A last node at an even position has no sibling: both loops pass through to the next level.\<close>

lemma shift_promote:
  "even fn \<Longrightarrow> fn \<noteq> 0 \<Longrightarrow> shiftEven fn fn = shiftEven (fn div 2) (fn div 2)"
  by (subst shiftEven.simps) simp

lemma consLoop_promote:
  assumes "even fn" "fn \<noteq> 0"
  shows "consLoop ps fn fn fr sr = Some (0, a, b) \<longleftrightarrow>
    consLoop ps (fn div 2) (fn div 2) fr sr = Some (0, a, b)"
proof -
  have "fn div 2 \<noteq> 0" using assms by (auto elim!: evenE)
  then show ?thesis using assms shift_promote [OF assms] by (cases ps) simp_all
qed

lemma shiftEven_odd: "odd fn \<Longrightarrow> shiftEven fn sn = (fn, sn)"
  by (subst shiftEven.simps) simp

text \<open>The three ways up from index \<open>fn\<close> of a level of at least two nodes.\<close>

lemma level_cases:
  assumes "fn < length hs" and "1 < length hs"
  obtains (left) "odd fn" "sib fn hs = [hs ! (fn - 1)]"
      "up hs ! (fn div 2) = hashNode (hs ! (fn - 1)) (hs ! fn)"
    | (right) "even fn" "fn + 1 < length hs" "sib fn hs = [hs ! (fn + 1)]"
      "up hs ! (fn div 2) = hashNode (hs ! fn) (hs ! (fn + 1))"
    | (promote) "even fn" "fn \<noteq> 0" "length hs = fn + 1" "sib fn hs = []"
      "up hs ! (fn div 2) = hs ! fn"
proof -
  consider "odd fn" | "even fn" "fn + 1 < length hs" | "even fn" "length hs = fn + 1"
    using assms by linarith
  then show thesis
  proof cases
    case 1
    then obtain i where fn: "fn = 2 * i + 1" by (elim oddE)
    then show thesis using assms up_nth [of i hs] left by (simp add: sib_def)
  next
    case 2
    then obtain i where fn: "fn = 2 * i" by (elim evenE)
    then show thesis using 2 up_nth [of i hs] right by (simp add: sib_def)
  next
    case 3
    then obtain i where fn: "fn = 2 * i" by (elim evenE)
    then show thesis using 3 assms up_last [of hs i] promote by (auto simp: sib_def)
  qed
qed

text \<open>Going back down: what a run that ends in the root of \<open>hs\<close> started from. \<open>inj\<close> is the
  injectivity of the node hash on the pairs that occur, those of the tree and those of the run.\<close>

fun pairs :: "bytes list \<Rightarrow> (bytes \<times> bytes) list" where
  "pairs (a # b # hs) = (a, b) # pairs hs"
| "pairs hs = []"

lemma pairs_nth: "2 * i + 1 < length hs \<Longrightarrow> (hs ! (2 * i), hs ! (2 * i + 1)) \<in> set (pairs hs)"
proof (induction hs arbitrary: i rule: pairs.induct)
  case (1 a b hs)
  then show ?case by (cases i) auto
qed auto

text \<open>All pairs hashed in the tree over \<open>hs\<close>, level by level.\<close>

function treePairs :: "bytes list \<Rightarrow> (bytes \<times> bytes) list" where
  "treePairs hs = (if length hs \<le> 1 then [] else pairs hs @ treePairs (up hs))"
  by pat_completeness auto
termination
  by (relation "measure length") auto

declare treePairs.simps [simp del]

text \<open>The pairs hashed by a run of the inclusion loop, resp. on the new side of the consistency
  loop.\<close>

fun inclPairs :: "bytes list \<Rightarrow> nat \<Rightarrow> nat \<Rightarrow> bytes \<Rightarrow> (bytes \<times> bytes) list" where
  "inclPairs [] fn sn r = []"
| "inclPairs (p # ps) fn sn r =
     (if sn = 0 then []
      else if odd fn \<or> fn = sn then
        (p, r) # (let (fn', sn') = shiftEven fn sn in
                  inclPairs ps (fn' div 2) (sn' div 2) (hashNode p r))
      else (r, p) # inclPairs ps (fn div 2) (sn div 2) (hashNode r p))"

lemma inclPairs_promote:
  assumes "even fn" "fn \<noteq> 0"
  shows "inclPairs ps fn fn r = inclPairs ps (fn div 2) (fn div 2) r"
proof -
  have "fn div 2 \<noteq> 0" using assms by (auto elim!: evenE)
  then show ?thesis using assms shift_promote [OF assms] by (cases ps) simp_all
qed

definition pairInj :: "(bytes \<times> bytes) set \<Rightarrow> bool" where
  "pairInj P \<longleftrightarrow> inj_on (\<lambda>(a, b). hashNode a b) P"

lemma pairInjD:
  "pairInj P \<Longrightarrow> (a, b) \<in> P \<Longrightarrow> (c, d) \<in> P \<Longrightarrow> hashNode a b = hashNode c d \<Longrightarrow> a = c \<and> b = d"
  by (auto simp: pairInj_def inj_on_def)

lemma pairInj_mono: "pairInj P \<Longrightarrow> Q \<subseteq> P \<Longrightarrow> pairInj Q"
  unfolding pairInj_def by (rule inj_on_subset)

text \<open>A pair hashed by the verifier to a node of the next level is the pair of the tree there.\<close>

lemma treePairs_up: "1 < length hs \<Longrightarrow> treePairs hs = pairs hs @ treePairs (up hs)"
  by (subst treePairs.simps) simp

lemma pairInj_up:
  "pairInj (set (treePairs hs) \<union> Q) \<Longrightarrow> 1 < length hs \<Longrightarrow> Q' \<subseteq> Q \<Longrightarrow> pairInj (set (treePairs (up hs)) \<union> Q')"
  by (erule pairInj_mono) (auto simp: treePairs_up)

lemma tree_pair:
  assumes "pairInj (set (treePairs hs) \<union> Q)" "(a, b) \<in> Q" "hashNode a b = up hs ! i" "2 * i + 1 < length hs"
  shows "a = hs ! (2 * i) \<and> b = hs ! (2 * i + 1)"
  using pairInjD [OF assms(1), of a b "hs ! (2 * i)" "hs ! (2 * i + 1)"] pairs_nth [OF assms(4)]
    up_nth [OF assms(4)] treePairs_up [of hs] assms(2-4)
  by simp

lemma tree_pair_left:
  assumes "pairInj (set (treePairs hs) \<union> Q)" "(p, r) \<in> Q" "hashNode p r = up hs ! (fn div 2)"
    and "odd fn" "fn < length hs"
  shows "p = hs ! (fn - 1) \<and> r = hs ! fn"
  using tree_pair [OF assms(1-3)] assms(4,5) by (auto elim!: oddE)

lemma tree_pair_right:
  assumes "pairInj (set (treePairs hs) \<union> Q)" "(r, p) \<in> Q" "hashNode r p = up hs ! (fn div 2)"
    and "even fn" "fn + 1 < length hs"
  shows "r = hs ! fn"
  using tree_pair [OF assms(1-3)] assms(4,5) by (auto elim!: evenE)

section \<open>The consistency proof by levels\<close>

function hsub :: "nat \<Rightarrow> bytes list \<Rightarrow> bool \<Rightarrow> bytes list" where
  "hsub m hs b =
     (if m = length hs then (if b then [] else [mroot hs])
      else if length hs \<le> 1 then []
      else let k = largestPow2Below (length hs) in
           if m \<le> k then hsub m (take k hs) b @ [mroot (drop k hs)]
           else hsub (m - k) (drop k hs) False @ [mroot (take k hs)])"
  by pat_completeness auto
termination
proof (relation "measure (\<lambda>(m, hs, b). length hs)", goal_cases)
  case (2 m hs b k)
  then show ?case using lp2_bounds(2) [of "length hs"] by auto
next
  case (3 m hs b k)
  then show ?case using lp2_bounds(1) [of "length hs"] by auto
qed auto

declare hsub.simps [simp del]

lemma hsub_split:
  "1 < length hs \<Longrightarrow> k = largestPow2Below (length hs) \<Longrightarrow> m \<noteq> length hs \<Longrightarrow>
   hsub m hs b = (if m \<le> k then hsub m (take k hs) b @ [mroot (drop k hs)]
                 else hsub (m - k) (drop k hs) False @ [mroot (take k hs)])"
  by (subst hsub.simps) (simp add: Let_def)

lemma hsub_all: "m = length hs \<Longrightarrow> hsub m hs b = (if b then [] else [mroot hs])"
  by (subst hsub.simps) simp

lemma subproof_hsub: "0 < m \<Longrightarrow> m \<le> length leaves \<Longrightarrow> subproof m leaves b = hsub m (map hashLeaf leaves) b"
proof (induction m leaves b rule: subproof.induct)
  case (1 m leaves b)
  show ?case
  proof (cases "m = length leaves")
    case True
    then have "leaves \<noteq> []" using 1(3) by auto
    then show ?thesis using True by (subst subproof.simps) (simp add: hsub_all mth_mroot)
  next
    case False
    then have n: "1 < length leaves" using 1(3,4) by linarith
    then have nn: "\<not> length leaves \<le> 1" by simp
    define k where "k = largestPow2Below (length leaves)"
    have k: "0 < k" "k < length leaves" using lp2_bounds [OF n] by (simp_all add: k_def)
    then have "take k leaves \<noteq> []" "drop k leaves \<noteq> []" by auto
    then have r: "mth (take k leaves) = mroot (take k (map hashLeaf leaves))"
        "mth (drop k leaves) = mroot (drop k (map hashLeaf leaves))"
      by (simp_all add: mth_mroot take_map drop_map)
    have "subproof m leaves b = (if m \<le> k then subproof m (take k leaves) b @ [mth (drop k leaves)]
        else subproof (m - k) (drop k leaves) False @ [mth (take k leaves)])"
      using False n by (subst subproof.simps) (simp add: k_def Let_def)
    moreover have "hsub m (map hashLeaf leaves) b =
        (if m \<le> k then hsub m (map hashLeaf (take k leaves)) b @ [mth (drop k leaves)]
         else hsub (m - k) (map hashLeaf (drop k leaves)) False @ [mth (take k leaves)])"
      using hsub_split [of "map hashLeaf leaves" k m b] n False
      by (simp add: k_def [symmetric] r take_map drop_map)
    ultimately show ?thesis
      using 1(1) [OF False nn k_def] 1(2) [OF False nn k_def] 1(3,4) k by auto
  qed
qed

text \<open>An even old size: the proof is the one a level up.\<close>

lemma hsub_even:
  "even m \<Longrightarrow> 0 < m \<Longrightarrow> m \<le> length hs \<Longrightarrow> hsub m hs b = hsub (m div 2) (up hs) b"
proof (induction "length hs" arbitrary: hs m b rule: less_induct)
  case less
  show ?case
  proof (cases "m = length hs")
    case True
    then have "m div 2 = length (up hs)" using less.prems by auto
    then show ?thesis using True by (simp add: hsub_all mroot_up)
  next
    case False
    then have more: "2 < length hs" using less.prems by presburger
    define k j where "k = largestPow2Below (length hs)" and "j = largestPow2Below (length (up hs))"
    note s = split_up [OF more k_def, folded j_def]
    have ne: "m div 2 \<noteq> length (up hs)" using False less.prems by simp
    have half: "(m - k) div 2 = m div 2 - j" "m div 2 \<le> j \<longleftrightarrow> m \<le> k"
      using s(1) less.prems(1) by presburger+
    have u: "hsub (m div 2) (up hs) b =
        (if m \<le> k then hsub (m div 2) (up (take k hs)) b @ [mroot (drop k hs)]
         else hsub ((m - k) div 2) (up (drop k hs)) False @ [mroot (take k hs)])"
      using hsub_split [OF _ j_def ne, of b] more half
      by (simp add: s(5,6) mroot_up)
    have h: "hsub m hs b = (if m \<le> k then hsub m (take k hs) b @ [mroot (drop k hs)]
        else hsub (m - k) (drop k hs) False @ [mroot (take k hs)])"
      using more False by (intro hsub_split) (simp_all add: k_def)
    show ?thesis
    proof (cases "m \<le> k")
      case True
      then have "hsub m (take k hs) b = hsub (m div 2) (up (take k hs)) b"
        using s(4) less.prems by (intro less.hyps) simp_all
      then show ?thesis using True u h by simp
    next
      case False
      then have "hsub (m - k) (drop k hs) False = hsub ((m - k) div 2) (up (drop k hs)) False"
        using s(2,3,4) less.prems by (intro less.hyps) simp_all
      then show ?thesis using False u h by simp
    qed
  qed
qed

text \<open>An odd old size: the last node of the old level, unless it is the old root itself, then its
  audit path.\<close>

lemma hsub_odd:
  "odd m \<Longrightarrow> m < length hs \<Longrightarrow>
   hsub m hs b = (if b \<and> m = 1 then [] else [hs ! (m - 1)]) @ hpath (m - 1) hs"
proof (induction "length hs" arbitrary: hs m b rule: less_induct)
  case less
  show ?case
  proof (cases hs rule: split_cases)
    case small
    then have "m = 0" using less.prems by linarith
    then show ?thesis using less.prems by simp
  next
    case (two a c)
    then have "m = 1" using less.prems by (cases m) auto
    then show ?thesis using two by (auto simp: hsub_split hpath_split hsub_all hpath_small)
  next
    case more
    define k where "k = largestPow2Below (length hs)"
    note s = split_up [OF more k_def]
    have ne: "m \<noteq> k" using less.prems s(2) by auto
    have h: "hsub m hs b = (if m \<le> k then hsub m (take k hs) b @ [mroot (drop k hs)]
        else hsub (m - k) (drop k hs) False @ [mroot (take k hs)])"
      using more less.prems by (intro hsub_split) (simp_all add: k_def)
    have p: "hpath (m - 1) hs = (if m - 1 < k then hpath (m - 1) (take k hs) @ [mroot (drop k hs)]
        else hpath (m - 1 - k) (drop k hs) @ [mroot (take k hs)])"
      using more by (intro hpath_split) (simp_all add: k_def)
    show ?thesis
    proof (cases "m \<le> k")
      case True
      then have "hsub m (take k hs) b =
          (if b \<and> m = 1 then [] else [take k hs ! (m - 1)]) @ hpath (m - 1) (take k hs)"
        using s(4) ne less.prems by (intro less.hyps) simp_all
      moreover have "m - 1 < k" "take k hs ! (m - 1) = hs ! (m - 1)"
        using True s(3) by simp_all
      ultimately show ?thesis using True h p by simp
    next
      case False
      then have "hsub (m - k) (drop k hs) False =
          [drop k hs ! (m - k - 1)] @ hpath (m - k - 1) (drop k hs)"
        using s(2,3,4) less.prems less.hyps [of "drop k hs" "m - k" False] by simp
      moreover have "\<not> m - 1 < k" "m \<noteq> 1" "drop k hs ! (m - k - 1) = hs ! (m - 1)"
          "m - 1 - k = m - k - 1"
        using False s(3,4) by (simp_all add: add.commute)
      ultimately show ?thesis using False h p by simp
    qed
  qed
qed

lemma up_take_even: "even k \<Longrightarrow> k \<le> length hs \<Longrightarrow> up (take k hs) = take (k div 2) (up hs)"
proof -
  assume k: "even k" "k \<le> length hs"
  then have "up hs = up (take k hs) @ up (drop k hs)"
    using up_append [of "take k hs" "drop k hs"] by simp
  moreover have "length (up (take k hs)) = k div 2"
    using k by simp
  ultimately show ?thesis by simp
qed

text \<open>The old tree at a level: the nodes before \<open>fn\<close> and \<open>fr\<close> as the last one.\<close>

lemma up_old_odd:
  assumes "odd fn" "fn < length hs"
  shows "up (take fn hs @ [fr]) = take (fn div 2) (up hs) @ [hashNode (hs ! (fn - 1)) fr]"
proof -
  from assms(1) obtain i where fn: "fn = 2 * i + 1" by (elim oddE)
  then have "take fn hs @ [fr] = take (2 * i) hs @ [hs ! (2 * i), fr]"
    using assms(2) by (simp add: take_Suc_conv_app_nth)
  moreover have "up (take (2 * i) hs @ [hs ! (2 * i), fr]) = up (take (2 * i) hs) @ up [hs ! (2 * i), fr]"
    using assms(2) fn by (intro up_append) simp
  moreover have "up (take (2 * i) hs) = take i (up hs)"
    using assms(2) fn up_take_even [of "2 * i" hs] by simp
  ultimately show ?thesis by (simp add: fn)
qed

lemma up_old_even:
  assumes "even fn" "fn < length hs"
  shows "up (take fn hs @ [fr]) = take (fn div 2) (up hs) @ [fr]"
  using assms up_append [of "take fn hs" "[fr]"] up_take_even [of fn hs] by simp

lemma consLoop_complete:
  "fn < length hs \<Longrightarrow>
   consLoop (hpath fn hs) fn (length hs - 1) fr (hs ! fn) = Some (0, mroot (take fn hs @ [fr]), mroot hs)"
proof (induction "length hs" arbitrary: hs fn fr rule: less_induct)
  case less
  show ?case
  proof (cases "length hs \<le> 1")
    case True
    then have "fn = 0" and len: "length hs = 1" using less.prems by auto
    moreover obtain h where "hs = [h]" using len by (auto simp: length_Suc_conv)
    ultimately show ?thesis by (simp add: hpath_small)
  next
    case False
    then have n: "1 < length hs" by simp
    have half: "(length hs - 1) div 2 = length (up hs) - 1" by simp
    have IH: "consLoop (hpath (fn div 2) (up hs)) (fn div 2) (length (up hs) - 1) fr' (up hs ! (fn div 2))
        = Some (0, mroot (take (fn div 2) (up hs) @ [fr']), mroot (up hs))" for fr'
      using less.prems n by (intro less.hyps) simp_all
    note path = hpath_up [OF less.prems]
    from less.prems n show ?thesis
    proof (cases rule: level_cases)
      case left
      have "mroot (take fn hs @ [fr]) = mroot (take (fn div 2) (up hs) @ [hashNode (hs ! (fn - 1)) fr])"
        using mroot_up [of "take fn hs @ [fr]"] by (simp only: up_old_odd [OF left(1) less.prems])
      then show ?thesis
        using left IH [of "hashNode (hs ! (fn - 1)) fr"] path n half
        by (simp add: shiftEven_odd mroot_up del: length_up)
    next
      case right
      then have "fn \<noteq> length hs - 1" by simp
      moreover have "mroot (take fn hs @ [fr]) = mroot (take (fn div 2) (up hs) @ [fr])"
        using mroot_up [of "take fn hs @ [fr]"] by (simp only: up_old_even [OF right(1) less.prems])
      ultimately show ?thesis
        using right IH [of fr] path n half by (simp add: mroot_up del: length_up)
    next
      case promote
      then have sn: "length hs - 1 = fn" "length (up hs) - 1 = fn div 2" by simp_all
      have "mroot (take fn hs @ [fr]) = mroot (take (fn div 2) (up hs) @ [fr])"
        using mroot_up [of "take fn hs @ [fr]"] by (simp only: up_old_even [OF promote(1) less.prems])
      then show ?thesis
        using promote IH [of fr, unfolded sn(2)] path consLoop_promote [of fn] by (simp add: sn mroot_up)
    qed
  qed
qed

text \<open>The first round of a run that succeeds, on a right and on a left node of the level.\<close>

lemma consLoop_left:
  assumes "odd fn" "fn < length hs" "consLoop ps fn (length hs - 1) fr sr = Some (0, res)"
  obtains p ps' where
    "consLoop ps' (fn div 2) (length (up hs) - 1) (hashNode p fr) (hashNode p sr) = Some (0, res)"
    "set (inclPairs ps fn (length hs - 1) sr) =
      insert (p, sr) (set (inclPairs ps' (fn div 2) (length (up hs) - 1) (hashNode p sr)))"
proof -
  have n: "length hs - 1 \<noteq> 0" using assms(1,2) by (cases fn) auto
  then obtain p ps' where ps: "ps = p # ps'" using assms(3) by (cases ps) auto
  have "(length hs - 1) div 2 = length (up hs) - 1" by simp
  then show thesis
    using assms(1,3) n ps by (intro that [of ps' p]) (simp_all add: shiftEven_odd del: length_up)
qed

lemma consLoop_right:
  assumes "even fn" "fn + 1 < length hs" "consLoop ps fn (length hs - 1) fr sr = Some (0, res)"
  obtains p ps' where
    "consLoop ps' (fn div 2) (length (up hs) - 1) fr (hashNode sr p) = Some (0, res)"
    "set (inclPairs ps fn (length hs - 1) sr) =
      insert (sr, p) (set (inclPairs ps' (fn div 2) (length (up hs) - 1) (hashNode sr p)))"
proof -
  have n: "length hs - 1 \<noteq> 0" "fn \<noteq> length hs - 1" using assms(2) by auto
  then obtain p ps' where ps: "ps = p # ps'" using assms(3) by (cases ps) auto
  have "(length hs - 1) div 2 = length (up hs) - 1" by simp
  then show thesis
    using assms(1,3) n ps by (intro that [of ps' p]) (simp_all del: length_up)
qed

text \<open>A run on a level contains a run on the next one; if that one starts from the right node of the tree, so
  does this one, and both give the same old root.\<close>

lemma consLoop_level:
  assumes "fn < length hs" "1 < length hs" and run: "consLoop ps fn (length hs - 1) fr sr = Some (0, res)"
    and inj: "pairInj (set (treePairs hs) \<union> set (inclPairs ps fn (length hs - 1) sr))"
  obtains ps' fr' sr' where "consLoop ps' (fn div 2) (length (up hs) - 1) fr' sr' = Some (0, res)"
    "set (inclPairs ps' (fn div 2) (length (up hs) - 1) sr') \<subseteq> set (inclPairs ps fn (length hs - 1) sr)"
    "sr' = up hs ! (fn div 2) \<longrightarrow> sr = hs ! fn \<and> up (take fn hs @ [fr]) = take (fn div 2) (up hs) @ [fr']"
  using assms(1,2)
proof (cases rule: level_cases)
  case left
  from consLoop_left [OF left(1) assms(1) run] obtain p ps'
    where run_up: "consLoop ps' (fn div 2) (length (up hs) - 1) (hashNode p fr) (hashNode p sr) = Some (0, res)"
      and sub: "set (inclPairs ps fn (length hs - 1) sr) =
        insert (p, sr) (set (inclPairs ps' (fn div 2) (length (up hs) - 1) (hashNode p sr)))" .
  have "p = hs ! (fn - 1) \<and> sr = hs ! fn" if "hashNode p sr = up hs ! (fn div 2)"
    by (rule tree_pair_left [OF inj _ that left(1) assms(1)]) (use sub in blast)
  then show thesis
    using sub up_old_odd [OF left(1) assms(1)] by (intro that [OF run_up]) auto
next
  case right
  from consLoop_right [OF right(1,2) run] obtain p ps'
    where run_up: "consLoop ps' (fn div 2) (length (up hs) - 1) fr (hashNode sr p) = Some (0, res)"
      and sub: "set (inclPairs ps fn (length hs - 1) sr) =
        insert (sr, p) (set (inclPairs ps' (fn div 2) (length (up hs) - 1) (hashNode sr p)))" .
  have "sr = hs ! fn" if "hashNode sr p = up hs ! (fn div 2)"
    by (rule tree_pair_right [OF inj _ that right(1,2)]) (use sub in blast)
  then show thesis
    using sub up_old_even [OF right(1) assms(1)] by (intro that [OF run_up]) auto
next
  case promote
  then have sn: "length hs - 1 = fn" "length (up hs) - 1 = fn div 2" by simp_all
  show thesis
  proof (rule that [of ps fr sr])
    show "consLoop ps (fn div 2) (length (up hs) - 1) fr sr = Some (0, res)"
      using run consLoop_promote [OF promote(1,2)] unfolding sn by (cases res) simp
  qed (use promote up_old_even [OF promote(1) assms(1)] inclPairs_promote [OF promote(1,2)] sn in auto)
qed

lemma consLoop_sound:
  assumes "fn < length hs" and "consLoop ps fn (length hs - 1) fr sr = Some (0, a, mroot hs)"
    and "pairInj (set (treePairs hs) \<union> set (inclPairs ps fn (length hs - 1) sr))"
  shows "sr = hs ! fn \<and> a = mroot (take fn hs @ [fr])"
  using assms
proof (induction "length hs" arbitrary: hs fn ps fr sr rule: less_induct)
  case less
  show ?case
  proof (cases "length hs \<le> 1")
    case True
    then have "fn = 0" "length hs = 1" using less.prems by auto
    moreover from this obtain h where "hs = [h]" by (auto simp: length_Suc_conv)
    ultimately show ?thesis using less.prems(2) by (cases ps) auto
  next
    case False
    then have n: "1 < length hs" by simp
    from consLoop_level [OF less.prems(1) n less.prems(2,3)] obtain ps' fr' sr'
      where run: "consLoop ps' (fn div 2) (length (up hs) - 1) fr' sr' = Some (0, a, mroot hs)"
        and sub: "set (inclPairs ps' (fn div 2) (length (up hs) - 1) sr') \<subseteq> set (inclPairs ps fn (length hs - 1) sr)"
      and down: "sr' = up hs ! (fn div 2) \<longrightarrow>
          sr = hs ! fn \<and> up (take fn hs @ [fr]) = take (fn div 2) (up hs) @ [fr']" .
    have "sr' = up hs ! (fn div 2) \<and> a = mroot (take (fn div 2) (up hs) @ [fr'])"
      by (rule less.hyps [OF _ _ _ pairInj_up [OF less.prems(3) n sub]])
        (use less.prems(1) n run in \<open>simp_all only: mroot_up, simp_all\<close>)
    then show ?thesis
      using down mroot_up [of "take fn hs @ [fr]"] by simp
  qed
qed

text \<open>The inclusion loop is the new side of the consistency loop.\<close>

lemma inclLoop_consLoop:
  "inclLoop ps fn sn r = map_option (\<lambda>(n, a, b). (n, b)) (consLoop ps fn sn fr r)"
  by (induction ps fn sn fr r rule: consLoop.induct) (simp_all split: prod.split)

lemma inclLoop_complete:
  "fn < length hs \<Longrightarrow> inclLoop (hpath fn hs) fn (length hs - 1) (hs ! fn) = Some (0, mroot hs)"
  using consLoop_complete [of fn hs "hs ! fn"] by (simp add: inclLoop_consLoop [of _ _ _ _ "hs ! fn"])

lemma inclLoop_sound:
  assumes "fn < length hs" and "inclLoop ps fn (length hs - 1) r = Some (0, mroot hs)"
    and "pairInj (set (treePairs hs) \<union> set (inclPairs ps fn (length hs - 1) r))"
  shows "r = hs ! fn"
  using assms consLoop_sound [of fn hs ps r r] by (auto simp: inclLoop_consLoop [of _ _ _ r r])

text \<open>Skipping the even levels at the start.\<close>

lemma shiftOdd_levels:
  "0 < m \<Longrightarrow> m < length hs \<Longrightarrow> \<exists>m' L. shiftOdd (m - 1) (length hs - 1) = (m' - 1, length L - 1) \<and>
     odd m' \<and> m' < length L \<and> hsub m hs True = hsub m' L True \<and> mroot L = mroot hs \<and>
     mroot (take m' L) = mroot (take m hs) \<and> set (treePairs L) \<subseteq> set (treePairs hs)"
proof (induction m arbitrary: hs rule: less_induct)
  case (less m)
  show ?case
  proof (cases "odd m")
    case True
    then have "shiftOdd (m - 1) (length hs - 1) = (m - 1, length hs - 1)"
      by (subst shiftOdd.simps) simp
    with True less.prems show ?thesis by blast
  next
    case False
    then obtain i where m: "m = 2 * i" "0 < i" using less.prems by (auto elim: evenE)
    have "i < m" "i < length (up hs)" using m less.prems by simp_all
    from less.IH [OF this(1) m(2) this(2)] obtain m' L where
      L: "shiftOdd (i - 1) (length (up hs) - 1) = (m' - 1, length L - 1)" "odd m'" "m' < length L"
        "hsub i (up hs) True = hsub m' L True" "mroot L = mroot (up hs)"
        "mroot (take m' L) = mroot (take i (up hs))" "set (treePairs L) \<subseteq> set (treePairs (up hs))"
      by blast
    have "odd (m - 1)" "(m - 1) div 2 = i - 1" "(length hs - 1) div 2 = length (up hs) - 1"
      using m by auto
    then have "shiftOdd (m - 1) (length hs - 1) = shiftOdd (i - 1) (length (up hs) - 1)"
      by (subst shiftOdd.simps) simp
    moreover have "hsub m hs True = hsub i (up hs) True"
      using hsub_even [of m hs] m less.prems by simp
    moreover have "mroot (take i (up hs)) = mroot (take m hs)"
      using up_take_even [of m hs] mroot_up [of "take m hs"] m less.prems by simp
    moreover have "set (treePairs (up hs)) \<subseteq> set (treePairs hs)"
      using less.prems by (subst treePairs.simps [of hs]) auto
    ultimately show ?thesis
      using L by (intro exI [of _ m'] exI [of _ L]) (auto simp: mroot_up)
  qed
qed

end
