(* ===== verification/Merkle_Proofs.thy ===== *)
theory Merkle_Proofs
  imports Merkle_Levels
begin

text \<open>
  Completeness and soundness of the Merkle proofs. Completeness is unconditional; soundness
  holds when SHA-256 has no collision among the strings actually hashed in the tree and in the
  run of the verifier (\<open>treeStrings\<close>, \<open>inclStrings\<close>, \<open>consStrings\<close>), a finite, explicit set.
\<close>

section \<open>The strings hashed\<close>

text \<open>Every string hashed to compute \<open>mth leaves\<close>, and every string hashed by a run of
  \<open>VerifyInclusion\<close>, resp. on the new side of \<open>VerifyConsistency\<close>.\<close>

function treeStrings :: "bytes list \<Rightarrow> bytes list" where
  "treeStrings leaves =
     (if length leaves = 0 then [[]]
      else if length leaves = 1 then [0x00 # leaves ! 0]
      else let k = largestPow2Below (length leaves) in
           treeStrings (take k leaves) @ treeStrings (drop k leaves) @
           [0x01 # mth (take k leaves) @ mth (drop k leaves)])"
  by pat_completeness auto
termination
proof (relation "measure length", goal_cases)
  case (2 leaves k)
  then have "1 < length leaves" by linarith
  from lp2_bounds(2) [OF this] 2 show ?case by simp
next
  case (3 leaves k)
  then have "1 < length leaves" by linarith
  from lp2_bounds(1) [OF this] this 3 show ?case by simp
qed simp

declare treeStrings.simps [simp del]

definition nodeString :: "bytes \<times> bytes \<Rightarrow> bytes" where
  "nodeString = (\<lambda>(a, b). 0x01 # a @ b)"

definition inclStrings :: "bytes \<Rightarrow> nat \<Rightarrow> nat \<Rightarrow> bytes list \<Rightarrow> bytes list" where
  "inclStrings entry index treeSize ps =
     (0x00 # entry) # map nodeString (inclPairs ps index (treeSize - 1) (hashLeaf entry))"

definition consStrings :: "nat \<Rightarrow> nat \<Rightarrow> bytes list \<Rightarrow> bytes \<Rightarrow> bytes list" where
  "consStrings oldSize newSize ps oldRoot =
     (let (fn, sn) = shiftOdd (oldSize - 1) (newSize - 1) in
      if fn = 0 then map nodeString (inclPairs ps fn sn oldRoot)
      else case ps of [] \<Rightarrow> [] | c # rest \<Rightarrow> map nodeString (inclPairs rest fn sn c))"

lemma treePairs_split:
  "1 < length hs \<Longrightarrow> k = largestPow2Below (length hs) \<Longrightarrow>
   set (treePairs hs) = set (treePairs (take k hs)) \<union> set (treePairs (drop k hs)) \<union>
     {(mroot (take k hs), mroot (drop k hs))}"
proof (induction "length hs" arbitrary: hs k rule: less_induct)
  case less
  show ?case
  proof (cases hs rule: split_cases)
    case small
    then show ?thesis using less.prems by simp
  next
    case (two a b)
    then show ?thesis using less.prems
      by (simp add: treePairs.simps [of "[a, b]"] treePairs.simps [of "[a]"]
          treePairs.simps [of "[b]"] treePairs.simps [of "[hashNode a b]"])
  next
    case more
    note s = split_up [OF more less.prems(2)]
    have prs: "pairs hs = pairs (take k hs) @ pairs (drop k hs)"
    proof -
      have "pairs (xs @ ys) = pairs xs @ pairs ys" if "even (length xs)" for xs ys
        using that by (induction xs rule: pairs.induct) auto
      from this [of "take k hs" "drop k hs"] show ?thesis using s(2,4) by simp
    qed
    have lvl: "set (treePairs xs) = set (pairs xs) \<union> set (treePairs (up xs))" for xs
      by (cases "length xs \<le> 1") (cases xs rule: pairs.cases, auto simp: treePairs.simps [of xs] up_small)
    have "set (treePairs (up hs)) = set (treePairs (up (take k hs))) \<union> set (treePairs (up (drop k hs))) \<union>
        {(mroot (take k hs), mroot (drop k hs))}"
      using less.hyps [OF _ _ refl, of "up hs"] more s by (simp add: mroot_up)
    then show ?thesis
      using lvl [of hs] lvl [of "take k hs"] lvl [of "drop k hs"] prs by auto
  qed
qed

lemma treeStrings_pairs:
  "leaves \<noteq> [] \<Longrightarrow> set (treeStrings leaves) =
     (\<lambda>x. 0x00 # x) ` set leaves \<union> nodeString ` set (treePairs (map hashLeaf leaves))"
proof (induction leaves rule: treeStrings.induct)
  case (1 leaves)
  show ?case
  proof (cases "length leaves = 1")
    case True
    then obtain x where "leaves = [x]" by (auto simp: length_Suc_conv)
    then show ?thesis by (simp add: treeStrings.simps treePairs.simps)
  next
    case False
    with 1(3) have n: "1 < length leaves" by (cases leaves) auto
    define k where "k = largestPow2Below (length leaves)"
    have k: "0 < k" "k < length leaves" using lp2_bounds [OF n] by (simp_all add: k_def)
    then have ne: "take k leaves \<noteq> []" "drop k leaves \<noteq> []" by auto
    have "treeStrings leaves = treeStrings (take k leaves) @ treeStrings (drop k leaves) @
        [nodeString (mth (take k leaves), mth (drop k leaves))]"
      using n by (subst treeStrings.simps) (auto simp: k_def Let_def nodeString_def)
    moreover have "set (treePairs (map hashLeaf leaves)) =
        set (treePairs (map hashLeaf (take k leaves))) \<union> set (treePairs (map hashLeaf (drop k leaves))) \<union>
        {(mth (take k leaves), mth (drop k leaves))}"
      using treePairs_split [of "map hashLeaf leaves" k] n ne
      by (simp add: k_def [symmetric] take_map drop_map mth_mroot)
    moreover have "set leaves = set (take k leaves) \<union> set (drop k leaves)"
      by (metis append_take_drop_id set_append)
    moreover have "set (treeStrings (take k leaves)) = (\<lambda>x. 0x00 # x) ` set (take k leaves) \<union>
        nodeString ` set (treePairs (map hashLeaf (take k leaves)))"
      by (rule 1(1) [OF _ _ k_def ne(1)]) (use n in auto)
    moreover have "set (treeStrings (drop k leaves)) = (\<lambda>x. 0x00 # x) ` set (drop k leaves) \<union>
        nodeString ` set (treePairs (map hashLeaf (drop k leaves)))"
      by (rule 1(2) [OF _ _ k_def ne(2)]) (use n in auto)
    ultimately show ?thesis
      by (simp only: set_append image_Un list.set image_insert image_empty) blast
  qed
qed

lemma length_hashNode [simp]: "length (hashNode a b) = 32"
  by (simp add: hashNode_def)

lemma length_hashLeaf [simp]: "length (hashLeaf a) = 32"
  by (simp add: hashLeaf_def)

lemma up_digests: "\<forall>h\<in>set hs. length h = 32 \<Longrightarrow> \<forall>h\<in>set (up hs). length h = 32"
  by (induction hs rule: up.induct) auto

lemma pairs_digests: "\<forall>h\<in>set hs. length h = 32 \<Longrightarrow> \<forall>(a, b)\<in>set (pairs hs). length a = 32"
  by (induction hs rule: pairs.induct) auto

lemma treePairs_digests:
  "\<forall>h\<in>set hs. length h = 32 \<Longrightarrow> \<forall>(a, b)\<in>set (treePairs hs). length a = 32"
proof (induction hs rule: treePairs.induct)
  case (1 hs)
  show ?case
  proof (cases "length hs \<le> 1")
    case True
    then show ?thesis by (simp add: treePairs.simps)
  next
    case False
    then show ?thesis
      using 1(1) [OF False up_digests [OF 1(2)]] pairs_digests [OF 1(2)]
      by (subst treePairs.simps) auto
  qed
qed

lemma inclPairs_digests:
  "\<forall>p\<in>set ps. length p = 32 \<Longrightarrow> length r = 32 \<Longrightarrow> \<forall>(a, b)\<in>set (inclPairs ps fn sn r). length a = 32"
proof (induction ps arbitrary: fn sn r)
  case (Cons p ps)
  have IH: "\<forall>(a, b)\<in>set (inclPairs ps fn sn (hashNode x y)). length a = 32" for fn sn x y
    by (rule Cons.IH) (use Cons.prems in simp_all)
  show ?case
    using Cons.prems IH by (cases "shiftEven fn sn") simp
qed simp

lemma pairInj_sha256:
  assumes "inj_on sha256 (nodeString ` P)" and "\<forall>(a, b)\<in>P. length a = 32"
  shows "pairInj P"
  unfolding pairInj_def
proof (rule inj_onI)
  fix x y
  assume in_P: "x \<in> P" "y \<in> P" and eq: "(\<lambda>(a, b). hashNode a b) x = (\<lambda>(a, b). hashNode a b) y"
  obtain a b c d where xy: "x = (a, b)" "y = (c, d)" by (cases x; cases y)
  have "sha256 (nodeString x) = sha256 (nodeString y)"
    using eq by (simp add: xy nodeString_def hashNode_def)
  then have "nodeString x = nodeString y"
    by (rule inj_onD [OF assms(1)]) (use in_P in simp_all)
  moreover have "length a = 32" "length c = 32"
    using in_P assms(2) by (auto simp: xy)
  ultimately show "x = y"
    by (simp add: xy nodeString_def)
qed

section \<open>Inclusion\<close>

lemma VerifyInclusion_iff:
  "VerifyInclusion entry index treeSize ps root \<longleftrightarrow> 0 \<le> index \<and> index < treeSize \<and>
     inclLoop ps (nat index) (nat (treeSize - 1)) (hashLeaf entry) = Some (0, root)"
  by (auto simp: VerifyInclusion_def split: option.splits)

text \<open>Every node the log computes or hands out is a digest.\<close>

lemma length_mth: "length (mth leaves) = 32"
  by (subst mth.simps) (simp add: Let_def)

lemma path_digests: "\<forall>p\<in>set (path m leaves). length p = 32"
proof (induction m leaves rule: path.induct)
  case (1 m leaves)
  then show ?case by (subst path.simps) (auto simp: Let_def length_mth)
qed

lemma subproof_digests: "\<forall>p\<in>set (subproof m leaves b). length p = 32"
proof (induction m leaves b rule: subproof.induct)
  case (1 m leaves b)
  then show ?case
    by (subst subproof.simps) (auto simp: Let_def length_mth)
qed

lemma inclusion_complete:
  assumes "InclusionProof l index = Inr ps"
  shows "VerifyInclusion (Leaves l ! nat index) index (int (Size l)) ps (Root l)"
proof -
  define hs where "hs = map hashLeaf (Leaves l)"
  from assms have i: "0 \<le> index" "index < int (length (Leaves l))"
    and ps: "ps = hpath (nat index) hs"
    by (auto simp: InclusionProof_def path_hpath hs_def split: if_splits)
  then have lt: "nat index < length hs" by (simp add: hs_def)
  have "Leaves l \<noteq> []" using i by auto
  then have "Root l = mroot hs"
    by (simp add: Root_def hs_def mth_mroot)
  moreover have "hs ! nat index = hashLeaf (Leaves l ! nat index)"
    using lt by (simp add: hs_def)
  ultimately show ?thesis
    using inclLoop_complete [OF lt] i by (simp add: VerifyInclusion_iff ps Size_def hs_def nat_diff_distrib')
qed

lemma inclusion_sound:
  assumes "VerifyInclusion entry index (int (length leaves)) ps (mth leaves)"
    and "\<forall>p\<in>set ps. length p = 32"
    and "inj_on sha256 (set (treeStrings leaves) \<union>
           set (inclStrings entry (nat index) (length leaves) ps))"
  shows "entry = leaves ! nat index"
proof -
  define hs where "hs = map hashLeaf leaves"
  let ?P = "set (treePairs hs) \<union> set (inclPairs ps (nat index) (length hs - 1) (hashLeaf entry))"
  from assms(1) have i: "nat index < length hs" and ne: "leaves \<noteq> []"
    by (auto simp: VerifyInclusion_iff hs_def)
  have sub: "nodeString ` ?P \<subseteq> set (treeStrings leaves) \<union>
      set (inclStrings entry (nat index) (length leaves) ps)"
    unfolding treeStrings_pairs [OF ne] by (auto simp: inclStrings_def hs_def)
  have "\<forall>(a, b)\<in>?P. length a = 32"
    using treePairs_digests [of hs] inclPairs_digests [OF assms(2) length_hashLeaf]
    by (simp add: ball_Un hs_def)
  then have "pairInj ?P"
    by (rule pairInj_sha256 [OF inj_on_subset [OF assms(3) sub]])
  moreover have "inclLoop ps (nat index) (length hs - 1) (hashLeaf entry) = Some (0, mroot hs)"
    using assms(1) ne by (simp add: VerifyInclusion_iff mth_mroot hs_def nat_diff_distrib')
  ultimately have "hashLeaf entry = hs ! nat index"
    by (intro inclLoop_sound i)
  then have eq: "sha256 (0x00 # entry) = sha256 (0x00 # leaves ! nat index)"
    using i by (simp add: hs_def hashLeaf_def)
  have "0x00 # entry \<in> set (inclStrings entry (nat index) (length leaves) ps)"
    by (simp add: inclStrings_def)
  moreover have "0x00 # leaves ! nat index \<in> set (treeStrings leaves)"
    using i unfolding treeStrings_pairs [OF ne] by (simp add: hs_def)
  ultimately have "0x00 # entry = 0x00 # leaves ! nat index"
    by (intro inj_onD [OF assms(3) eq]) simp_all
  then show ?thesis by simp
qed

section \<open>Consistency\<close>

lemma VerifyConsistency_iff:
  assumes "0 < m" and "m < n" and "shiftOdd (m - 1) (n - 1) = (fn, sn)"
  shows "VerifyConsistency (int m) (int n) ps oldRoot newRoot \<longleftrightarrow>
    (if fn = 0 then consLoop ps fn sn oldRoot oldRoot = Some (0, oldRoot, newRoot)
     else \<exists>c rest. ps = c # rest \<and> consLoop rest fn sn c c = Some (0, oldRoot, newRoot))"
proof -
  have "nat (int m - 1) = m - 1" "nat (int n - 1) = n - 1"
    using assms(1,2) by simp_all
  then show ?thesis
    using assms by (auto simp: VerifyConsistency_def Let_def split: option.splits list.splits)
qed

text \<open>Between the empty and the whole log the shift leads to a level of the tree where the old size is odd.\<close>

lemma consistency_shift:
  assumes "0 < k" "k < length leaves"
  obtains m L where "shiftOdd (k - 1) (length leaves - 1) = (m - 1, length L - 1)" "odd m" "m < length L"
    "hsub k (map hashLeaf leaves) True = hsub m L True" "set (treePairs L) \<subseteq> set (treePairs (map hashLeaf leaves))"
    "mroot (take m L) = mth (take k leaves)" "mroot L = mth leaves"
    "take (m - 1) L @ [L ! (m - 1)] = take m L"
proof -
  obtain m L where L: "shiftOdd (k - 1) (length leaves - 1) = (m - 1, length L - 1)" "odd m" "m < length L"
      "hsub k (map hashLeaf leaves) True = hsub m L True" "mroot L = mroot (map hashLeaf leaves)"
      "mroot (take m L) = mroot (take k (map hashLeaf leaves))"
      "set (treePairs L) \<subseteq> set (treePairs (map hashLeaf leaves))"
    using shiftOdd_levels [OF assms(1), of "map hashLeaf leaves"] assms(2) unfolding length_map by blast
  have "take (m - 1) L @ [L ! (m - 1)] = take m L"
    using L(2,3) by (cases m) (simp_all add: take_Suc_conv_app_nth)
  moreover have "leaves \<noteq> []" "take k leaves \<noteq> []" using assms by auto
  then have "mroot (take m L) = mth (take k leaves)" "mroot L = mth leaves"
    using L(5,6) by (simp_all add: take_map mth_mroot)
  ultimately show thesis
    using that [OF L(1-4,7)] by blast
qed

lemma subproof_verifies:
  assumes "0 < k" "k < length leaves"
  shows "VerifyConsistency (int k) (int (length leaves)) (subproof k leaves True) (mth (take k leaves)) (mth leaves)"
proof -
  obtain m L where L: "shiftOdd (k - 1) (length leaves - 1) = (m - 1, length L - 1)" "odd m" "m < length L"
      "hsub k (map hashLeaf leaves) True = hsub m L True"
      and roots: "mroot (take m L) = mth (take k leaves)" "mroot L = mth leaves"
      and tk: "take (m - 1) L @ [L ! (m - 1)] = take m L"
    by (rule consistency_shift [OF assms])
  have lt: "m - 1 < length L" using L(3) by simp
  have ps: "subproof k leaves True = (if m = 1 then [] else [L ! (m - 1)]) @ hpath (m - 1) L"
    using subproof_hsub [of k leaves True] assms L(2-4) hsub_odd [of m L True] by simp
  have run: "consLoop (hpath (m - 1) L) (m - 1) (length L - 1) (L ! (m - 1)) (L ! (m - 1)) =
      Some (0, mth (take k leaves), mth leaves)"
    using consLoop_complete [OF lt, of "L ! (m - 1)"] by (simp only: tk roots)
  show ?thesis
  proof (cases "m = 1")
    case True
    then have "L ! 0 = mth (take k leaves)"
      using roots(1) L(3) by (cases L) simp_all
    with True show ?thesis
      using VerifyConsistency_iff [OF assms L(1)] run ps by simp
  next
    case False
    then have "m - 1 \<noteq> 0" using L(2) by (cases m) auto
    with False show ?thesis
      using VerifyConsistency_iff [OF assms L(1)] run ps by simp
  qed
qed

lemma consistency_complete:
  assumes "ConsistencyProof l m = Inr ps" and "Leaves l \<noteq> []"
  shows "VerifyConsistency m (int (Size l)) ps (mth (take (nat m) (Leaves l))) (Root l)"
proof -
  from assms have m: "0 \<le> m" "m \<le> int (length (Leaves l))"
    and ps: "ps = (if m = 0 \<or> m = int (length (Leaves l)) then [] else subproof (nat m) (Leaves l) True)"
    by (auto simp: ConsistencyProof_def split: if_splits)
  consider "m = 0" | "m = int (length (Leaves l))" | "0 < m" "m < int (length (Leaves l))" using m by linarith
  then show ?thesis
  proof cases
    case 1
    then show ?thesis using assms(2) ps
      by (simp add: VerifyConsistency_def Size_def mth.simps [of "[]"])
  next
    case 2
    then show ?thesis using assms(2) ps
      by (simp add: VerifyConsistency_def Size_def Root_def)
  next
    case 3
    then show ?thesis
      using subproof_verifies [of "nat m" "Leaves l"] ps by (simp add: Size_def Root_def)
  qed
qed

text \<open>The part of a run of \<open>VerifyConsistency\<close> after the shift: a start digest \<open>c\<close>, the old root itself or the
  first node of the proof, and the nodes that follow it.\<close>

lemma consistency_run:
  assumes "VerifyConsistency (int k) (int n) ps oldRoot newRoot" "0 < k" "k < n"
    and "shiftOdd (k - 1) (n - 1) = (fn, sn)" "\<forall>p\<in>set ps. length p = 32" "length oldRoot = 32"
  obtains c rest where "consLoop rest fn sn c c = Some (0, oldRoot, newRoot)"
    "set (consStrings k n ps oldRoot) = nodeString ` set (inclPairs rest fn sn c)"
    "length c = 32" "\<forall>p\<in>set rest. length p = 32"
proof (cases "fn = 0")
  case True
  have "consLoop ps fn sn oldRoot oldRoot = Some (0, oldRoot, newRoot)"
    using VerifyConsistency_iff [OF assms(2-4), of ps oldRoot newRoot] assms(1) True by simp
  moreover have "set (consStrings k n ps oldRoot) = nodeString ` set (inclPairs ps fn sn oldRoot)"
    unfolding consStrings_def assms(4) using True by simp
  ultimately show thesis
    using assms(5,6) by (intro that [of ps oldRoot])
next
  case False
  with VerifyConsistency_iff [OF assms(2-4)] assms(1) obtain c rest where
    "ps = c # rest" "consLoop rest fn sn c c = Some (0, oldRoot, newRoot)"
    by auto
  moreover from this have "set (consStrings k n ps oldRoot) = nodeString ` set (inclPairs rest fn sn c)"
    unfolding consStrings_def assms(4) using False by simp
  ultimately show thesis
    using assms(5) by (intro that [of rest c]) simp_all
qed

lemma proper_consistency_sound:
  assumes "VerifyConsistency (int k) (int (length leaves)) ps oldRoot (mth leaves)" "0 < k" "k < length leaves"
    and "\<forall>p\<in>set ps. length p = 32" and "length oldRoot = 32"
    and "inj_on sha256 (set (treeStrings leaves) \<union> set (consStrings k (length leaves) ps oldRoot))"
  shows "oldRoot = mth (take k leaves)"
proof -
  define hs where "hs = map hashLeaf leaves"
  have ne: "leaves \<noteq> []" using assms(3) by auto
  obtain m L where L: "shiftOdd (k - 1) (length leaves - 1) = (m - 1, length L - 1)" "m < length L"
      "set (treePairs L) \<subseteq> set (treePairs hs)" "mroot (take m L) = mth (take k leaves)" "mroot L = mth leaves"
      "take (m - 1) L @ [L ! (m - 1)] = take m L"
    unfolding hs_def by (rule consistency_shift [OF assms(2,3)])
  from consistency_run [OF assms(1-3) L(1) assms(4,5)]
  obtain c rest where run: "consLoop rest (m - 1) (length L - 1) c c = Some (0, oldRoot, mroot L)"
    and strs: "set (consStrings k (length leaves) ps oldRoot) =
        nodeString ` set (inclPairs rest (m - 1) (length L - 1) c)"
    and dig: "length c = 32" "\<forall>p\<in>set rest. length p = 32"
    unfolding L(5) .
  let ?P = "set (treePairs L) \<union> set (inclPairs rest (m - 1) (length L - 1) c)"
  have "nodeString ` ?P \<subseteq> set (treeStrings leaves) \<union> set (consStrings k (length leaves) ps oldRoot)"
    using L(3) unfolding strs treeStrings_pairs [OF ne] hs_def by blast
  moreover have "\<forall>(a, b)\<in>set (treePairs hs). length a = 32"
    by (rule treePairs_digests) (simp add: hs_def)
  then have "\<forall>(a, b)\<in>?P. length a = 32"
    using L(3) inclPairs_digests [OF dig(2,1)] by blast
  ultimately have inj: "pairInj ?P"
    using inj_on_subset [OF assms(6)] by (intro pairInj_sha256)
  have "m - 1 < length L" using L(2) by simp
  from consLoop_sound [OF this run inj] have "oldRoot = mroot (take (m - 1) L @ [L ! (m - 1)])"
    by blast
  then show ?thesis by (simp only: L(4,6))
qed

lemma consistency_sound:
  assumes "VerifyConsistency m (int (length leaves)) ps oldRoot (mth leaves)"
    and "\<forall>p\<in>set ps. length p = 32" and "length oldRoot = 32"
    and "inj_on sha256 (set (treeStrings leaves) \<union>
           set (consStrings (nat m) (length leaves) ps oldRoot))"
  shows "0 \<le> m \<and> m \<le> int (length leaves) \<and> oldRoot = mth (take (nat m) leaves)"
proof -
  from assms(1) have m: "0 \<le> m" "m \<le> int (length leaves)" and n0: "0 < length leaves"
    by (auto simp: VerifyConsistency_def split: if_splits)
  consider "m = 0" | "m = int (length leaves)" | "0 < m" "m < int (length leaves)" using m by linarith
  then have "oldRoot = mth (take (nat m) leaves)"
  proof cases
    case 1
    then show ?thesis using assms(1) n0
      by (simp add: VerifyConsistency_def mth.simps [of "[]"] split: if_splits)
  next
    case 2
    then show ?thesis using assms(1) n0 by (simp add: VerifyConsistency_def)
  next
    case 3
    then show ?thesis
      using assms by (intro proper_consistency_sound [of "nat m" leaves ps]) simp_all
  qed
  with m show ?thesis by simp
qed

section \<open>An append-only log as an interface\<close>

text \<open>
  What a client of the log relies on: the root of a list of entries, a consistency check, and
  that an accepted check against a root identifies the old root as that of a prefix. \<open>clean\<close>
  marks the checks the law is claimed for.
\<close>

locale append_log =
  fixes root :: "'e list \<Rightarrow> 'h"
    and check :: "nat \<Rightarrow> nat \<Rightarrow> 'p \<Rightarrow> 'h \<Rightarrow> 'h \<Rightarrow> bool"
    and clean :: "'e list \<Rightarrow> nat \<Rightarrow> 'p \<Rightarrow> 'h \<Rightarrow> bool"
  assumes prefix: "check m (length es) p old (root es) \<Longrightarrow> clean es m p old \<Longrightarrow>
      m \<le> length es \<and> old = root (take m es)"
begin

text \<open>Checkpoints (size, root) linked by accepted checks, oldest first: each but the last comes with
  the proof to its successor.\<close>

fun linked :: "(nat \<times> 'h) \<Rightarrow> ('p \<times> nat \<times> 'h) list \<Rightarrow> bool" where
  "linked c [] \<longleftrightarrow> True"
| "linked (m, r) ((p, m', r') # rest) \<longleftrightarrow> check m m' p r r' \<and> linked (m', r') rest"

fun final :: "(nat \<times> 'h) \<Rightarrow> ('p \<times> nat \<times> 'h) list \<Rightarrow> nat \<times> 'h" where
  "final c [] = c"
| "final c ((p, m', r') # rest) = final (m', r') rest"

fun all_clean :: "'e list \<Rightarrow> (nat \<times> 'h) \<Rightarrow> ('p \<times> nat \<times> 'h) list \<Rightarrow> bool" where
  "all_clean es c [] \<longleftrightarrow> True"
| "all_clean es (m, r) ((p, m', r') # rest) \<longleftrightarrow>
     clean (take m' es) m p r \<and> all_clean es (m', r') rest"

lemma linked_prefix:
  assumes "linked (m, r) steps" and "all_clean es (m, r) steps"
    and "final (m, r) steps = (length es, root es)"
  shows "m \<le> length es \<and> r = root (take m es)"
  using assms
proof (induction steps arbitrary: m r)
  case Nil
  then show ?case by simp
next
  case (Cons st steps)
  obtain p m' r' where st: "st = (p, m', r')" by (cases st)
  have later: "m' \<le> length es" "r' = root (take m' es)"
    using Cons.IH [of m' r'] Cons.prems by (simp_all add: st)
  then have len: "length (take m' es) = m'" by simp
  have c: "check m m' p r (root (take m' es))" "clean (take m' es) m p r"
    using Cons.prems later(2) by (simp_all add: st)
  have "m \<le> m' \<and> r = root (take m (take m' es))"
    using prefix [of m "take m' es" p r] c by (simp only: len)
  then show ?case using later(1) by (simp add: min_absorb1)
qed

text \<open>Two histories that end in the same log never disagree about a size they share.\<close>

lemma linked_agree:
  assumes "linked (m, r) steps" "all_clean es (m, r) steps" "final (m, r) steps = (length es, root es)"
    and "linked (m, r') steps'" "all_clean es (m, r') steps'" "final (m, r') steps' = (length es, root es)"
  shows "r = r'"
  using linked_prefix [OF assms(1-3)] linked_prefix [OF assms(4-6)] by simp

end

text \<open>The Merkle log provides it, for digests, when the strings of the check are free of
  collisions.\<close>

definition mcheck :: "nat \<Rightarrow> nat \<Rightarrow> bytes list \<Rightarrow> bytes \<Rightarrow> bytes \<Rightarrow> bool" where
  "mcheck m n ps old new \<longleftrightarrow> VerifyConsistency (int m) (int n) ps old new"

definition mclean :: "bytes list \<Rightarrow> nat \<Rightarrow> bytes list \<Rightarrow> bytes \<Rightarrow> bool" where
  "mclean es m ps old \<longleftrightarrow> (\<forall>p\<in>set ps. length p = 32) \<and> length old = 32 \<and>
     inj_on sha256 (set (treeStrings es) \<union> set (consStrings m (length es) ps old))"

interpretation mlog: append_log mth mcheck mclean
proof unfold_locales
  fix m es ps old
  assume "mcheck m (length es) ps old (mth es)" and "mclean es m ps old"
  then show "m \<le> length es \<and> old = mth (take m es)"
    using consistency_sound [of "int m" es ps old] by (simp add: mcheck_def mclean_def)
qed

section \<open>Properties\<close>

text \<open>C13: The log gives an inclusion proof for exactly the indexes it has, and the proof of an entry
  verifies against the log's size and root.\<close>

theorem inclusion_proof_verifies:
  "(isOk (InclusionProof l index) \<longleftrightarrow> 0 \<le> index \<and> index < int (Size l)) \<and>
   (case InclusionProof l index of
      Inl e \<Rightarrow> e = IndexOutOfRange
    | Inr ps \<Rightarrow> VerifyInclusion (Leaves l ! nat index) index (int (Size l)) ps (Root l))"
  using inclusion_complete [of l index]
  by (auto simp: InclusionProof_def Size_def split: sum.splits if_splits)

text \<open>C11: An entry that verifies against a log's root at some index is the log's entry at that
  index, unless two different strings among those hashed in the tree or by this verification have
  the same SHA-256 digest.\<close>

theorem verified_inclusion_is_the_entry:
  assumes "VerifyInclusion entry index (int (length leaves)) ps (mth leaves)"
    and "\<forall>p\<in>set ps. length p = 32"
    and "inj_on sha256 (set (treeStrings leaves) \<union>
           set (inclStrings entry (nat index) (length leaves) ps))"
  shows "0 \<le> index \<and> index < int (length leaves) \<and> leaves ! nat index = entry"
  using inclusion_sound [OF assms] assms(1) by (simp add: VerifyInclusion_iff)

text \<open>C12: The log gives a consistency proof exactly for the sizes from 0 to its own, and the proof it
  gives verifies, between the root of that prefix and the log's current root, exactly when the log
  has an entry: the (empty) proof of the empty log is refused, because the verifier takes no new
  size 0.\<close>

theorem consistency_proof_verifies:
  "(isOk (ConsistencyProof l m) \<longleftrightarrow> 0 \<le> m \<and> m \<le> int (Size l)) \<and>
   (case ConsistencyProof l m of
      Inl e \<Rightarrow> e = OldSizeOutOfRange
    | Inr ps \<Rightarrow> VerifyConsistency m (int (Size l)) ps (mth (take (nat m) (Leaves l))) (Root l) \<longleftrightarrow>
        Leaves l \<noteq> [])"
proof (cases "ConsistencyProof l m")
  case (Inl e)
  then show ?thesis by (auto simp: ConsistencyProof_def Size_def split: if_splits)
next
  case (Inr ps)
  moreover from this have "0 \<le> m \<and> m \<le> int (Size l)"
    by (auto simp: ConsistencyProof_def Size_def split: if_splits)
  moreover have "\<not> VerifyConsistency m (int (Size l)) ps (mth (take (nat m) (Leaves l))) (Root l)"
    if "Leaves l = []"
    using that by (simp add: VerifyConsistency_def Size_def)
  ultimately show ?thesis using consistency_complete [OF Inr] by auto
qed

text \<open>C10: If a consistency proof verifies against the root of a log, the old root it was verified
  with is the root of that log's own prefix: history cannot have been rewritten, unless SHA-256
  collides on the strings hashed.\<close>

theorem verified_consistency_is_a_prefix:
  assumes "VerifyConsistency m (int (length leaves)) ps oldRoot (mth leaves)"
    and "\<forall>p\<in>set ps. length p = 32" and "length oldRoot = 32"
    and "inj_on sha256 (set (treeStrings leaves) \<union>
           set (consStrings (nat m) (length leaves) ps oldRoot))"
  shows "0 \<le> m \<and> m \<le> int (length leaves) \<and> oldRoot = mth (take (nat m) leaves)"
  by (rule consistency_sound [OF assms])

end
