(* ===== verification/Merkle_Demo.thy ===== *)
theory Merkle_Demo
  imports Merkle_Proofs Sha256_Eval
begin

text \<open>
  The log of the two entries [1] and [2], with its three digests computed in the kernel: the
  concrete instances of the soundness of Merkle proofs.
\<close>

definition demoLog :: "bytes list" where
  "demoLog = [[1], [2]]"

lemma demo_leaf1_pad: "sha_pad [0, 1] =
     [0, 1, 128, 0, 0, 0, 0, 0, 0, 0, 0, 0, 0, 0, 0, 0, 0, 0, 0, 0, 0, 0, 0, 0, 0, 0, 0, 0, 0,
      0, 0, 0, 0, 0, 0, 0, 0, 0, 0, 0, 0, 0, 0, 0, 0, 0, 0, 0, 0, 0, 0, 0, 0, 0, 0, 0, 0, 0, 0,
      0, 0, 0, 0, 16]"
  by (simp add: sha_pad_simps)

lemma demo_leaf1: "sha256 [0, 1] =
     [180, 19, 244, 125, 19, 238, 47, 230, 200, 69, 178, 238, 20, 26, 248, 29, 232, 88, 223,
      78, 197, 73, 165, 139, 121, 112, 187, 150, 100, 91, 200, 210]"
  by (simp only: sha256_bits demo_leaf1_pad, simp only: sha_bit_simps) (simp add: byte_of_bits_value)

lemma demo_leaf2_pad: "sha_pad [0, 2] =
     [0, 2, 128, 0, 0, 0, 0, 0, 0, 0, 0, 0, 0, 0, 0, 0, 0, 0, 0, 0, 0, 0, 0, 0, 0, 0, 0, 0, 0,
      0, 0, 0, 0, 0, 0, 0, 0, 0, 0, 0, 0, 0, 0, 0, 0, 0, 0, 0, 0, 0, 0, 0, 0, 0, 0, 0, 0, 0, 0,
      0, 0, 0, 0, 16]"
  by (simp add: sha_pad_simps)

lemma demo_leaf2: "sha256 [0, 2] =
     [252, 240, 166, 199, 0, 221, 19, 226, 116, 182, 251, 168, 222, 234, 141, 217, 178, 110,
      78, 237, 222, 52, 149, 113, 124, 172, 132, 8, 201, 197, 23, 127]"
  by (simp only: sha256_bits demo_leaf2_pad, simp only: sha_bit_simps) (simp add: byte_of_bits_value)

definition demoNode :: bytes where
  "demoNode = [1, 180, 19, 244, 125, 19, 238, 47, 230, 200, 69, 178, 238, 20, 26, 248, 29, 232, 88, 223,
      78, 197, 73, 165, 139, 121, 112, 187, 150, 100, 91, 200, 210, 252, 240, 166, 199, 0, 221,
      19, 226, 116, 182, 251, 168, 222, 234, 141, 217, 178, 110, 78, 237, 222, 52, 149, 113,
      124, 172, 132, 8, 201, 197, 23, 127]"

lemma demo_root: "sha256 demoNode =
     [107, 207, 14, 46, 147, 224, 161, 142, 34, 120, 154, 238, 150, 94, 101, 83, 244, 251, 233,
      63, 10, 207, 196, 167, 5, 214, 145, 200, 49, 28, 73, 101]"
proof -
  have pad: "sha_pad [1, 180, 19, 244, 125, 19, 238, 47, 230, 200, 69, 178, 238, 20, 26, 248, 29, 232, 88, 223,
      78, 197, 73, 165, 139, 121, 112, 187, 150, 100, 91, 200, 210, 252, 240, 166, 199, 0, 221,
      19, 226, 116, 182, 251, 168, 222, 234, 141, 217, 178, 110, 78, 237, 222, 52, 149, 113,
      124, 172, 132, 8, 201, 197, 23, 127] =
      [1, 180, 19, 244, 125, 19, 238, 47, 230, 200, 69, 178, 238, 20, 26, 248, 29, 232, 88, 223,
      78, 197, 73, 165, 139, 121, 112, 187, 150, 100, 91, 200, 210, 252, 240, 166, 199, 0, 221,
      19, 226, 116, 182, 251, 168, 222, 234, 141, 217, 178, 110, 78, 237, 222, 52, 149, 113,
      124, 172, 132, 8, 201, 197, 23, 127, 128, 0, 0, 0, 0, 0, 0, 0, 0, 0, 0, 0, 0, 0, 0, 0, 0,
      0, 0, 0, 0, 0, 0, 0, 0, 0, 0, 0, 0, 0, 0, 0, 0, 0, 0, 0, 0, 0, 0, 0, 0, 0, 0, 0, 0, 0, 0,
      0, 0, 0, 0, 0, 0, 0, 0, 0, 0, 0, 0, 0, 0, 2, 8]"
    by (simp add: sha_pad_simps)
  show ?thesis
    by (simp only: demoNode_def sha256_bits pad, simp only: sha_bit_simps) (simp add: byte_of_bits_value)
qed

lemma demo_hashes: "hashLeaf [1] = [180, 19, 244, 125, 19, 238, 47, 230, 200, 69, 178, 238, 20, 26, 248, 29, 232, 88, 223,
      78, 197, 73, 165, 139, 121, 112, 187, 150, 100, 91, 200, 210]"
    "hashLeaf [2] = [252, 240, 166, 199, 0, 221, 19, 226, 116, 182, 251, 168, 222, 234, 141, 217, 178, 110,
      78, 237, 222, 52, 149, 113, 124, 172, 132, 8, 201, 197, 23, 127]"
  by (simp_all only: hashLeaf_def demo_leaf1 demo_leaf2)

lemma demo_node: "nodeString (hashLeaf [1], hashLeaf [2]) = demoNode"
  by (simp add: nodeString_def demo_hashes demoNode_def)

lemma demo_mth: "mth demoLog = hashNode (hashLeaf [1]) (hashLeaf [2])"
  by (simp add: demoLog_def mth.simps [of "[[1], [2]]"] mth.simps [of "[[1]]"] mth.simps [of "[[2]]"])

lemma demo_strings: "set (treeStrings demoLog) = {[0, 1], [0, 2], demoNode}"
proof -
  have "set (treePairs (map hashLeaf demoLog)) = {(hashLeaf [1], hashLeaf [2])}"
    by (simp add: demoLog_def treePairs.simps [of "[hashLeaf [1], hashLeaf [2]]"]
        treePairs.simps [of "[hashNode (hashLeaf [1]) (hashLeaf [2])]"])
  moreover have "demoLog \<noteq> []" "set demoLog = {[1], [2]}"
    by (simp_all add: demoLog_def)
  ultimately show ?thesis
    using treeStrings_pairs [of demoLog] demo_node by auto
qed

lemma demo_clean: "inj_on sha256 {[0, 1], [0, 2], demoNode}"
proof -
  have "sha256 [0, 1] \<noteq> sha256 [0, 2]" "sha256 [0, 1] \<noteq> sha256 demoNode"
      "sha256 [0, 2] \<noteq> sha256 demoNode"
    unfolding demo_leaf1 demo_leaf2 demo_root by simp_all
  then show ?thesis by (simp add: inj_on_def)
qed

text \<open>Entry 0 with the other leaf as its audit path.\<close>

lemma demo_inclusion: "VerifyInclusion [1] 0 2 [hashLeaf [2]] (mth demoLog)"
  by (simp add: VerifyInclusion_def demo_mth)

lemma verified_inclusion_is_the_entry_witness:
  "VerifyInclusion [1] 0 2 [hashLeaf [2]] (mth demoLog) \<and> demoLog ! 0 = [1]"
proof -
  have two: "length demoLog = 2" by (simp add: demoLog_def)
  have "set (inclStrings [1] (nat 0) (length demoLog) [hashLeaf [2]]) = {[0, 1], demoNode}"
    using demo_node by (simp add: inclStrings_def two)
  then have "inj_on sha256 (set (treeStrings demoLog) \<union>
      set (inclStrings [1] (nat 0) (length demoLog) [hashLeaf [2]]))"
    using demo_clean by (simp add: demo_strings insert_commute)
  then show ?thesis
    using verified_inclusion_is_the_entry [of "[1]" 0 demoLog "[hashLeaf [2]]"] demo_inclusion
    by (simp add: two)
qed

text \<open>The extension from one entry to two.\<close>

lemma verified_consistency_is_a_prefix_witness:
  "VerifyConsistency 1 2 [hashLeaf [2]] (hashLeaf [1]) (mth demoLog) \<and>
   hashLeaf [1] = mth (take 1 demoLog)"
proof -
  have two: "length demoLog = 2" by (simp add: demoLog_def)
  have shift: "shiftOdd 0 n = (0, n)" for n by (subst shiftOdd.simps) simp
  have run: "VerifyConsistency 1 2 [hashLeaf [2]] (hashLeaf [1]) (mth demoLog)"
    by (simp add: VerifyConsistency_def demo_mth shift)
  have "set (consStrings (nat 1) (length demoLog) [hashLeaf [2]] (hashLeaf [1])) = {demoNode}"
    using demo_node by (simp add: consStrings_def two shift)
  then have "inj_on sha256 (set (treeStrings demoLog) \<union>
      set (consStrings (nat 1) (length demoLog) [hashLeaf [2]] (hashLeaf [1])))"
    using demo_clean by (simp add: demo_strings insert_commute)
  then show ?thesis
    using verified_consistency_is_a_prefix [of 1 demoLog "[hashLeaf [2]]" "hashLeaf [1]"] run
    by (simp add: two)
qed

end
