(* ===== verification/Quorum.thy ===== *)
theory Quorum
  imports Bound "HOL-Library.List_Lexorder" "HOL-Library.Char_ord"
begin

text \<open>
  quorum.go: k-of-n agreement of enrolled provers (\<open>quorumCore\<close>) and multi-modal co-attestation
  (\<open>coAttestCore\<close>), each over inputs of either envelope. The map \<open>passed\<close> is an association list in
  the order its keys are inserted; only its size, its lookups and its sorted keys are used. The
  outcome of \<open>json.Unmarshal\<close> on an input is an argument: the fields, or None for an error.
\<close>

section \<open>Provers\<close>

record Prover =
  ProverName :: string
  ProverX :: bytes
  ProverY :: bytes

record QuorumOptions =
  QNonce :: bytes
  Roots :: "Prover list"
  Threshold :: int
  QLastCounter :: u64

datatype quorum_reason =
    BadThreshold
  | TooFewProvers nat int
  | EventsDisagree
  | QuorumReached

record QuorumResult =
  QOK :: bool
  QReason :: quorum_reason
  QEvent :: string
  PassedRoots :: "string list"

definition keyMatches :: "bytes \<Rightarrow> bytes \<Rightarrow> Prover \<Rightarrow> bool" where
  "keyMatches px py root \<longleftrightarrow>
     constantTimeCompare px (ProverX root) = 1 \<and> constantTimeCompare py (ProverY root) = 1"

definition matchKeyHex :: "string \<Rightarrow> string \<Rightarrow> Prover list \<Rightarrow> Prover option" where
  "matchKeyHex pubXHex pubYHex roots =
     (case hex_decode pubXHex of Inl _ \<Rightarrow> None | Inr px \<Rightarrow>
     (case hex_decode pubYHex of Inl _ \<Rightarrow> None | Inr py \<Rightarrow> find (keyMatches px py) roots))"

record proverInput =
  pubXHex :: string
  pubYHex :: string
  verify :: "Options \<Rightarrow> VerifyResult"

definition rawInput :: "Bundle \<Rightarrow> proverInput" where
  "rawInput b = \<lparr> pubXHex = PubX b, pubYHex = PubY b, verify = VerifyBundle b \<rparr>"

record proverJSON =
  PSchema :: string
  PPayload :: string
  PCOSE :: string
  PSig :: string
  PPubX :: string
  PPubY :: string

definition parseProverInput :: "proverJSON option \<Rightarrow> proverInput option" where
  "parseProverInput parsed =
     (case parsed of
        None \<Rightarrow> None
      | Some p \<Rightarrow>
          if PCOSE p \<noteq> [] then
            let cb = \<lparr> CSchema = PSchema p, COSE = PCOSE p, CPubX = PPubX p, CPubY = PPubY p \<rparr>
            in Some \<lparr> pubXHex = PPubX p, pubYHex = PPubY p, verify = VerifyCOSEBundle cb \<rparr>
          else Some (rawInput \<lparr> Schema = PSchema p, Payload = PPayload p, Sig = PSig p,
                                PubX = PPubX p, PubY = PPubY p \<rparr>))"

section \<open>The quorum\<close>

definition rootOptions :: "QuorumOptions \<Rightarrow> Prover \<Rightarrow> Options" where
  "rootOptions qopt root = \<lparr> ExpectedNonce = QNonce qopt, PinPubX = Some (ProverX root),
     PinPubY = Some (ProverY root), LastCounter = QLastCounter qopt, ExpectedPrevDigest = None \<rparr>"

fun votes :: "QuorumOptions \<Rightarrow> (string \<times> Predicate) list \<Rightarrow> proverInput list \<Rightarrow>
    (string \<times> Predicate) list" where
  "votes qopt passed [] = passed"
| "votes qopt passed (pin # provers) =
     (case matchKeyHex (pubXHex pin) (pubYHex pin) (Roots qopt) of
        None \<Rightarrow> votes qopt passed provers
      | Some root \<Rightarrow>
          if map_of passed (ProverName root) \<noteq> None then votes qopt passed provers
          else
            let res = verify pin (rootOptions qopt root) in
            if OK res then votes qopt (passed @ [(ProverName root, the (Pred res))]) provers
            else votes qopt passed provers)"

definition quorumCore :: "proverInput list \<Rightarrow> QuorumOptions \<Rightarrow> QuorumResult" where
  "quorumCore provers qopt =
     (let failed = (\<lambda>why. \<lparr> QOK = False, QReason = why, QEvent = [], PassedRoots = [] \<rparr>) in
      if Threshold qopt \<le> 0 \<or> Threshold qopt > int (length (Roots qopt)) then failed BadThreshold
      else
        let passed = votes qopt [] provers in
        if int (length passed) < Threshold qopt
          then failed (TooFewProvers (length passed) (Threshold qopt))
        else
          let names = sort (map fst passed);
              event = EventName (the (map_of passed (names ! 0)))
          in
          if \<exists>name\<in>set names. EventName (the (map_of passed name)) \<noteq> event
            then failed EventsDisagree
          else \<lparr> QOK = True, QReason = QuorumReached, QEvent = event, PassedRoots = names \<rparr>)"

definition VerifyQuorum :: "Bundle list \<Rightarrow> QuorumOptions \<Rightarrow> QuorumResult" where
  "VerifyQuorum bundles qopt = quorumCore (map rawInput bundles) qopt"

definition VerifyQuorumJSON :: "proverJSON option list \<Rightarrow> QuorumOptions \<Rightarrow> QuorumResult" where
  "VerifyQuorumJSON inputs qopt = quorumCore (List.map_filter parseProverInput inputs) qopt"

section \<open>Co-attestation\<close>

datatype coattest_reason = BadModalityThreshold | TooFewModalities nat int | CoAttestationReached

record CoAttestation =
  COK :: bool
  CReason :: coattest_reason
  Modalities :: "string list"

fun modalityLoop :: "Options \<Rightarrow> string list \<Rightarrow> string list \<Rightarrow> proverInput list \<Rightarrow> string list" where
  "modalityLoop opt seenInput modalities [] = modalities"
| "modalityLoop opt seenInput modalities (pin # provers) =
     (let res = verify pin opt in
      if \<not> OK res \<or> Pred res = None then modalityLoop opt seenInput modalities provers
      else
        let ih = hex_encode (InputHash (the (Pred res))) in
        if ih \<in> set seenInput then modalityLoop opt seenInput modalities provers
        else modalityLoop opt (ih # seenInput) (modalities @ [EventName (the (Pred res))]) provers)"

definition coAttestCore :: "proverInput list \<Rightarrow> Options \<Rightarrow> int \<Rightarrow> CoAttestation" where
  "coAttestCore provers opt threshold =
     (if threshold \<le> 0 then \<lparr> COK = False, CReason = BadModalityThreshold, Modalities = [] \<rparr>
      else
        let modalities = modalityLoop opt [] [] provers in
        if int (length modalities) < threshold
          then \<lparr> COK = False, CReason = TooFewModalities (length modalities) threshold,
                 Modalities = [] \<rparr>
        else \<lparr> COK = True, CReason = CoAttestationReached, Modalities = sort modalities \<rparr>)"

definition VerifyCoAttestation :: "Bundle list \<Rightarrow> Options \<Rightarrow> int \<Rightarrow> CoAttestation" where
  "VerifyCoAttestation bundles opt threshold = coAttestCore (map rawInput bundles) opt threshold"

definition VerifyCoAttestationJSON :: "proverJSON option list \<Rightarrow> Options \<Rightarrow> int \<Rightarrow> CoAttestation" where
  "VerifyCoAttestationJSON inputs opt threshold =
     coAttestCore (List.map_filter parseProverInput inputs) opt threshold"

section \<open>The contract of a verifier of bundles\<close>

text \<open>What the cores rely on: an input that is accepted under options has a predicate that is fresh
  under them, and it is accepted only under its own key when the key is pinned.\<close>

definition soundInput :: "proverInput \<Rightarrow> bool" where
  "soundInput pin \<longleftrightarrow> (\<forall>opt. OK (verify pin opt) \<longrightarrow>
     (\<exists>p. Pred (verify pin opt) = Some p \<and> freshPredicate p opt))"

locale bundle_verifier =
  fixes check :: "'b \<Rightarrow> Options \<Rightarrow> VerifyResult"
  assumes accepted: "OK (check b opt) \<Longrightarrow> \<exists>p. Pred (check b opt) = Some p \<and> freshPredicate p opt"
begin

lemma input_sound: "verify pin = check b \<Longrightarrow> soundInput pin"
  using accepted by (simp add: soundInput_def)

lemma same_nonce:
  assumes "OK (check b opt)" and "OK (check b' opt)"
  shows "\<exists>p p'. Pred (check b opt) = Some p \<and> Pred (check b' opt) = Some p' \<and> Nonce p = Nonce p'"
  using accepted [OF assms(1)] accepted [OF assms(2)] by (auto simp: freshPredicate_def)

end

lemma gates_accepted:
  "OK (gatesAfterSig payload opt) \<Longrightarrow>
     \<exists>p. Pred (gatesAfterSig payload opt) = Some p \<and> freshPredicate p opt"
  using gatesAfterSig_result [of payload opt] gatesAfterSig_ok [of payload opt] by auto

interpretation raw_verifier: bundle_verifier VerifyBundle
proof unfold_locales
  fix b opt
  assume ok: "OK (VerifyBundle b opt)"
  then obtain payload where "OK (gatesAfterSig payload opt)" "VerifyBundle b opt = gatesAfterSig payload opt"
    using VerifyBundle_run [of b] by (auto simp: VerifyBundle_ok)
  then show "\<exists>p. Pred (VerifyBundle b opt) = Some p \<and> freshPredicate p opt"
    using gates_accepted by simp
qed

interpretation cose_verifier: bundle_verifier VerifyCOSEBundle
proof unfold_locales
  fix b opt
  assume ok: "OK (VerifyCOSEBundle b opt)"
  then obtain payload where "VerifyCOSEBundle b opt = gatesAfterSig payload opt"
    by (auto simp: VerifyCOSEBundle_def split: sum.splits if_splits)
  then show "\<exists>p. Pred (VerifyCOSEBundle b opt) = Some p \<and> freshPredicate p opt"
    using gates_accepted ok by simp
qed

lemma rawInput_sound: "soundInput (rawInput b)"
  by (rule raw_verifier.input_sound) (simp add: rawInput_def)

lemma parseProverInput_sound: "parseProverInput j = Some pin \<Longrightarrow> soundInput pin"
  using cose_verifier.input_sound [of pin]
  by (auto simp: parseProverInput_def rawInput_sound Let_def split: option.splits if_splits)

section \<open>What the vote map holds\<close>

text \<open>The predicate with which an enrolled root votes: that of the first input under the root's key
  that verifies when pinned to it.\<close>

definition accepts :: "QuorumOptions \<Rightarrow> proverInput \<Rightarrow> string \<Rightarrow> Predicate option" where
  "accepts qopt pin name =
     (case matchKeyHex (pubXHex pin) (pubYHex pin) (Roots qopt) of
        None \<Rightarrow> None
      | Some root \<Rightarrow>
          if ProverName root = name \<and> OK (verify pin (rootOptions qopt root))
          then Some (the (Pred (verify pin (rootOptions qopt root)))) else None)"

definition firstVote :: "QuorumOptions \<Rightarrow> proverInput list \<Rightarrow> string \<rightharpoonup> Predicate" where
  "firstVote qopt provers name =
     (case List.map_filter (\<lambda>pin. accepts qopt pin name) provers of [] \<Rightarrow> None | p # _ \<Rightarrow> Some p)"

lemma firstVote_simps [simp]:
  "firstVote qopt [] name = None"
  "firstVote qopt (pin # provers) name =
     (case accepts qopt pin name of None \<Rightarrow> firstVote qopt provers name | Some p \<Rightarrow> Some p)"
  by (simp_all add: firstVote_def map_filter_simps split: option.splits)

lemma firstVote_SomeD:
  "firstVote qopt provers name = Some p \<Longrightarrow> \<exists>pin\<in>set provers. accepts qopt pin name = Some p"
  by (induction provers) (auto split: option.splits)

lemma map_of_votes:
  "map_of (votes qopt passed provers) name =
     (case map_of passed name of None \<Rightarrow> firstVote qopt provers name | Some p \<Rightarrow> Some p)"
proof (induction qopt passed provers rule: votes.induct)
  case (2 qopt passed pin provers)
  then show ?case
    by (auto simp: accepts_def Let_def map_add_def split: option.splits if_splits)
qed (simp split: option.splits)

lemma distinct_votes: "distinct (map fst passed) \<Longrightarrow> distinct (map fst (votes qopt passed provers))"
proof (induction qopt passed provers rule: votes.induct)
  case (2 qopt passed pin provers)
  then show ?case
    by (auto simp: Let_def map_of_eq_None_iff split: option.splits)
qed simp

lemma votes_dom: "set (map fst (votes qopt [] provers)) = dom (firstVote qopt provers)"
  using map_of_votes [of qopt "[]" provers] by (simp add: dom_map_of_conv_image_fst [symmetric] dom_def)

lemma votes_card: "length (votes qopt [] provers) = card (dom (firstVote qopt provers))"
  using distinct_votes [of "[]" qopt provers] by (metis distinct_card length_map list.simps(8) distinct.simps(1) votes_dom)

lemma quorumCore_names:
  "sort (map fst (votes qopt [] provers)) = sorted_list_of_set (dom (firstVote qopt provers))"
  using distinct_votes [of "[]" qopt provers]
  by (metis distinct.simps(1) list.simps(8) sorted_list_of_set_sort_remdups distinct_remdups_id votes_dom)

lemma matchKeyHex_SomeD:
  assumes "matchKeyHex xh yh roots = Some root"
  shows "root \<in> set roots \<and> hex_decode xh = Inr (ProverX root) \<and> hex_decode yh = Inr (ProverY root)"
  using assms by (auto simp: matchKeyHex_def find_Some_iff keyMatches_def split: sum.splits)

text \<open>One key never votes for two roots.\<close>

lemma matchKeyHex_same_key:
  assumes "matchKeyHex xh yh roots = Some root" and "matchKeyHex xh' yh' roots = Some root'"
    and "ProverX root = ProverX root'" and "ProverY root = ProverY root'"
  shows "root = root'"
proof -
  from matchKeyHex_SomeD [OF assms(1)] matchKeyHex_SomeD [OF assms(2)] assms(3,4)
  have "matchKeyHex xh yh roots = matchKeyHex xh' yh' roots" by (simp add: matchKeyHex_def)
  with assms(1,2) show ?thesis by simp
qed

lemma accepts_SomeD:
  assumes "accepts qopt pin name = Some p"
  shows "\<exists>root\<in>set (Roots qopt). ProverName root = name \<and> OK (verify pin (rootOptions qopt root)) \<and>
     p = the (Pred (verify pin (rootOptions qopt root))) \<and>
     matchKeyHex (pubXHex pin) (pubYHex pin) (Roots qopt) = Some root"
  using assms matchKeyHex_SomeD by (fastforce simp: accepts_def split: option.splits if_splits)

text \<open>The root and the input behind each vote.\<close>

definition voteOf :: "QuorumOptions \<Rightarrow> proverInput list \<Rightarrow> string \<Rightarrow> Prover \<Rightarrow> bool" where
  "voteOf qopt provers name root \<longleftrightarrow> root \<in> set (Roots qopt) \<and> ProverName root = name \<and>
     (\<exists>pin\<in>set provers. matchKeyHex (pubXHex pin) (pubYHex pin) (Roots qopt) = Some root \<and>
        OK (verify pin (rootOptions qopt root)) \<and>
        firstVote qopt provers name = Some (the (Pred (verify pin (rootOptions qopt root)))))"

lemma vote_exists: "name \<in> dom (firstVote qopt provers) \<Longrightarrow> \<exists>root. voteOf qopt provers name root"
  using firstVote_SomeD accepts_SomeD unfolding voteOf_def by (metis domD)

lemma finite_votes: "finite (dom (firstVote qopt provers))"
  unfolding votes_dom [symmetric] by simp

lemma voting_roots:
  "\<exists>roots. map ProverName roots = sorted_list_of_set (dom (firstVote qopt provers)) \<and>
     length roots = card (dom (firstVote qopt provers)) \<and>
     (\<forall>root\<in>set roots. voteOf qopt provers (ProverName root) root) \<and>
     distinct (map ProverName roots) \<and> distinct (map (\<lambda>r. (ProverX r, ProverY r)) roots)"
proof -
  let ?names = "sorted_list_of_set (dom (firstVote qopt provers))"
  have "\<forall>n\<in>dom (firstVote qopt provers). \<exists>root. voteOf qopt provers n root"
    using vote_exists by blast
  from bchoice [OF this] obtain f where f: "\<forall>n\<in>dom (firstVote qopt provers). voteOf qopt provers n (f n)" ..
  define roots where "roots = map f ?names"
  have names: "map ProverName roots = ?names"
    using f finite_votes by (auto simp: roots_def voteOf_def intro!: map_idI)
  have dist: "distinct (map ProverName roots)" by (simp add: names)
  have each: "\<forall>root\<in>set roots. voteOf qopt provers (ProverName root) root"
    using f finite_votes by (auto simp: roots_def voteOf_def)
  have "inj_on (\<lambda>r. (ProverX r, ProverY r)) (set roots)"
  proof (rule inj_onI)
    fix a b
    assume "a \<in> set roots" "b \<in> set roots" and key: "(ProverX a, ProverY a) = (ProverX b, ProverY b)"
    with each have "voteOf qopt provers (ProverName a) a" "voteOf qopt provers (ProverName b) b" by blast+
    then obtain i j :: proverInput where "matchKeyHex (pubXHex i) (pubYHex i) (Roots qopt) = Some a"
        "matchKeyHex (pubXHex j) (pubYHex j) (Roots qopt) = Some b"
      by (fastforce simp: voteOf_def)
    then show "a = b" using key by (intro matchKeyHex_same_key) simp_all
  qed
  then have "distinct (map (\<lambda>r. (ProverX r, ProverY r)) roots)"
    using dist by (simp add: distinct_map)
  moreover have "length roots = card (dom (firstVote qopt provers))" by (simp add: roots_def)
  ultimately show ?thesis using names each dist by blast
qed

lemma rawInput_fields [simp]: "pubXHex (rawInput b) = PubX b" "pubYHex (rawInput b) = PubY b"
    "verify (rawInput b) = VerifyBundle b"
  by (simp_all add: rawInput_def)

lemma raw_vote:
  assumes "voteOf qopt (map rawInput bundles) name root"
  shows "\<exists>b\<in>set bundles. \<exists>p. hex_decode (PubX b) = Inr (ProverX root) \<and>
        hex_decode (PubY b) = Inr (ProverY root) \<and>
        Pred (VerifyBundle b (rootOptions qopt root)) = Some p \<and> OK (VerifyBundle b (rootOptions qopt root)) \<and>
        freshPredicate p (rootOptions qopt root) \<and> p \<in> ran (firstVote qopt (map rawInput bundles))"
proof -
  from assms obtain b where b: "b \<in> set bundles" "matchKeyHex (PubX b) (PubY b) (Roots qopt) = Some root"
      "OK (VerifyBundle b (rootOptions qopt root))"
      "firstVote qopt (map rawInput bundles) name = Some (the (Pred (VerifyBundle b (rootOptions qopt root))))"
    by (auto simp: voteOf_def)
  from raw_verifier.accepted [OF b(3)] obtain p where
      "Pred (VerifyBundle b (rootOptions qopt root)) = Some p" "freshPredicate p (rootOptions qopt root)"
    by blast
  with b matchKeyHex_SomeD [OF b(2)] show ?thesis by (auto intro!: bexI [of _ b] ranI)
qed

lemma quorumCore_ok:
  "QOK (quorumCore provers qopt) \<longleftrightarrow>
     0 < Threshold qopt \<and> Threshold qopt \<le> int (length (Roots qopt)) \<and>
     Threshold qopt \<le> int (card (dom (firstVote qopt provers))) \<and>
     (\<exists>e. EventName ` ran (firstVote qopt provers) = {e} \<and>
        quorumCore provers qopt = \<lparr> QOK = True, QReason = QuorumReached, QEvent = e,
          PassedRoots = sorted_list_of_set (dom (firstVote qopt provers)) \<rparr>)" (is "?L \<longleftrightarrow> ?R")
proof
  assume ok: ?L
  define vs where "vs = votes qopt [] provers"
  define names where "names = sort (map fst vs)"
  have fv: "map_of vs = firstVote qopt provers"
    using map_of_votes [of qopt "[]" provers] by (auto simp: vs_def)
  have set_names: "set names = dom (firstVote qopt provers)"
    using votes_dom by (simp add: names_def vs_def)
  define e where "e = EventName (the (map_of vs (names ! 0)))"
  from ok have t: "0 < Threshold qopt" "Threshold qopt \<le> int (length (Roots qopt))"
      "Threshold qopt \<le> int (length vs)" and agree: "\<forall>name\<in>set names. EventName (the (map_of vs name)) = e"
    and res: "quorumCore provers qopt = \<lparr> QOK = True, QReason = QuorumReached, QEvent = e, PassedRoots = names \<rparr>"
    unfolding quorumCore_def Let_def vs_def [symmetric] names_def [symmetric] e_def [symmetric]
    by (auto split: if_splits)
  have "vs \<noteq> []" using t by auto
  then have "dom (firstVote qopt provers) \<noteq> {}"
    using set_names by (auto simp: names_def)
  then have "EventName ` ran (firstVote qopt provers) = {e}"
    using agree unfolding set_names fv by (force simp: ran_def)
  with t res show ?R
    using votes_card quorumCore_names by (auto simp: vs_def names_def)
next
  assume ?R
  then show ?L by auto
qed

section \<open>Properties of the quorum\<close>

text \<open>A quorum is reported exactly when the threshold is between 1 and the number of roots, at
  least that many enrolled roots have an input under their key that verifies when pinned to it,
  and all their votes (the first such input of each) name one event; the result then lists exactly those roots, in order, and that
  event.\<close>

theorem quorum_reached_iff:
  "QOK (quorumCore provers qopt) \<longleftrightarrow>
     0 < Threshold qopt \<and> Threshold qopt \<le> int (length (Roots qopt)) \<and>
     Threshold qopt \<le> int (card (dom (firstVote qopt provers))) \<and>
     (\<exists>e. EventName ` ran (firstVote qopt provers) = {e} \<and>
        quorumCore provers qopt = \<lparr> QOK = True, QReason = QuorumReached, QEvent = e,
          PassedRoots = sorted_list_of_set (dom (firstVote qopt provers)) \<rparr>)"
  by (rule quorumCore_ok)

text \<open>C14: When \<open>VerifyQuorum\<close> reports a quorum, at least the threshold of enrolled roots, under pairwise different
  names and pairwise different keys, each have a bundle under their own key that verifies pinned
  to it and for the issued nonce, all for the reported event.\<close>

theorem quorum_independent_roots:
  assumes "QOK (VerifyQuorum bundles qopt)"
  shows "\<exists>roots. Threshold qopt \<le> int (length roots) \<and> set roots \<subseteq> set (Roots qopt) \<and>
     map ProverName roots = PassedRoots (VerifyQuorum bundles qopt) \<and>
     distinct (map ProverName roots) \<and> distinct (map (\<lambda>r. (ProverX r, ProverY r)) roots) \<and>
     (\<forall>root\<in>set roots. \<exists>b\<in>set bundles. \<exists>p. hex_decode (PubX b) = Inr (ProverX root) \<and>
        hex_decode (PubY b) = Inr (ProverY root) \<and>
        Pred (VerifyBundle b (rootOptions qopt root)) = Some p \<and> OK (VerifyBundle b (rootOptions qopt root)) \<and>
        freshPredicate p (rootOptions qopt root) \<and>
        EventName p = QEvent (VerifyQuorum bundles qopt))"
proof -
  let ?v = "firstVote qopt (map rawInput bundles)"
  from assms obtain e where k: "Threshold qopt \<le> int (card (dom ?v))"
    and ev: "EventName ` ran ?v = {e}"
    and res: "VerifyQuorum bundles qopt = \<lparr> QOK = True, QReason = QuorumReached, QEvent = e,
        PassedRoots = sorted_list_of_set (dom ?v) \<rparr>"
    using quorumCore_ok [of "map rawInput bundles" qopt] unfolding VerifyQuorum_def by blast
  obtain roots where r: "map ProverName roots = sorted_list_of_set (dom ?v)"
      "length roots = card (dom ?v)" "\<forall>root\<in>set roots. voteOf qopt (map rawInput bundles) (ProverName root) root"
      "distinct (map ProverName roots)" "distinct (map (\<lambda>r. (ProverX r, ProverY r)) roots)"
    using voting_roots by blast
  have "set roots \<subseteq> set (Roots qopt)" using r(3) by (auto simp: voteOf_def)
  moreover have "\<forall>p\<in>ran ?v. EventName p = e" using ev by blast
  then have "\<forall>root\<in>set roots. \<exists>b\<in>set bundles. \<exists>p. hex_decode (PubX b) = Inr (ProverX root) \<and>
        hex_decode (PubY b) = Inr (ProverY root) \<and>
        Pred (VerifyBundle b (rootOptions qopt root)) = Some p \<and> OK (VerifyBundle b (rootOptions qopt root)) \<and>
        freshPredicate p (rootOptions qopt root) \<and> EventName p = e"
    using raw_vote [OF bspec [OF r(3)]] by meson
  ultimately show ?thesis
    unfolding res using k r(1,2,4,5) by (intro exI [of _ roots]) simp
qed

section \<open>Properties of co-attestation\<close>

text \<open>The sensor inputs attested by the accepted bundles.\<close>

definition acceptedInputs :: "proverInput list \<Rightarrow> Options \<Rightarrow> bytes set" where
  "acceptedInputs provers opt =
     {InputHash p | p pin. pin \<in> set provers \<and> OK (verify pin opt) \<and> Pred (verify pin opt) = Some p}"

lemma acceptedInputs_Cons:
  "acceptedInputs (pin # provers) opt =
     (if OK (verify pin opt) then InputHash ` set_option (Pred (verify pin opt)) else {}) \<union>
     acceptedInputs provers opt"
  by (auto simp: acceptedInputs_def)

lemma finite_acceptedInputs: "finite (acceptedInputs provers opt)"
  by (induction provers) (simp_all add: acceptedInputs_Cons, simp add: acceptedInputs_def)

lemma length_modalityLoop:
  "length (modalityLoop opt seenInput modalities provers) =
     length modalities + card (hex_encode ` acceptedInputs provers opt - set seenInput)"
proof (induction provers arbitrary: seenInput modalities)
  case Nil
  then show ?case by (simp add: acceptedInputs_def)
next
  case (Cons pin provers)
  let ?A = "hex_encode ` acceptedInputs provers opt"
  show ?case
  proof (cases "OK (verify pin opt) \<and> Pred (verify pin opt) \<noteq> None")
    case False
    then have "acceptedInputs (pin # provers) opt = acceptedInputs provers opt"
      by (auto simp: acceptedInputs_Cons)
    with False Cons.IH show ?thesis by (auto simp: Let_def)
  next
    case True
    then obtain p where p: "OK (verify pin opt)" "Pred (verify pin opt) = Some p" by auto
    let ?h = "hex_encode (InputHash p)"
    have A: "hex_encode ` acceptedInputs (pin # provers) opt = insert ?h ?A"
      using p by (simp add: acceptedInputs_Cons)
    have ins: "card (insert ?h ?A - set seenInput) = Suc (card (?A - set (?h # seenInput)))"
      if "?h \<notin> set seenInput"
    proof -
      have "insert ?h ?A - set seenInput = insert ?h (?A - set (?h # seenInput))"
        using that by auto
      then show ?thesis using finite_acceptedInputs by simp
    qed
    have "insert ?h ?A - set seenInput = ?A - set seenInput" if "?h \<in> set seenInput"
      using that by auto
    with p ins show ?thesis unfolding A by (simp add: Let_def Cons.IH)
  qed
qed

text \<open>Co-attestation is reported exactly when the threshold is positive and the inputs that
  verify under the options (hence for the same nonce) attest at least that many different
  \<open>input_hash\<close> values; one modality is then listed per attested input.\<close>

theorem coattestation_reached_iff:
  "(COK (coAttestCore provers opt k) \<longleftrightarrow> 0 < k \<and> k \<le> int (card (acceptedInputs provers opt))) \<and>
   length (Modalities (coAttestCore provers opt k)) =
     (if COK (coAttestCore provers opt k) then card (acceptedInputs provers opt) else 0)"
proof -
  have "card (hex_encode ` acceptedInputs provers opt) = card (acceptedInputs provers opt)"
    by (intro card_image inj_onI) simp
  then have "length (modalityLoop opt [] [] provers) = card (acceptedInputs provers opt)"
    by (simp add: length_modalityLoop)
  then show ?thesis by (auto simp: coAttestCore_def Let_def)
qed

end
