(* ===== verification/Quorum_Demo.thy ===== *)
theory Quorum_Demo
  imports Quorum Bound_Demo
begin

text \<open>A quorum of one root over the concrete bundle of \<open>Bound_Demo\<close>.\<close>

definition demoRoot :: Prover where
  "demoRoot = \<lparr> ProverName = ''tee'', ProverX = demoPx, ProverY = demoPy \<rparr>"

definition demoQuorum :: QuorumOptions where
  "demoQuorum = \<lparr> QNonce = [9], Roots = [demoRoot], Threshold = 1, QLastCounter = 4 \<rparr>"

lemma demo_quorum_run: "OK (VerifyBundle demoBundle (rootOptions demoQuorum demoRoot))"
proof -
  have "VerifyBundle demoBundle (rootOptions demoQuorum demoRoot) =
      gatesAfterSig (encodePayload demoPredicate) (rootOptions demoQuorum demoRoot)"
    by (rule VerifyBundle_run [where sig = demoRS and px = demoPx and py = demoPy])
      (simp_all add: demoBundle_def hex_decode_encode demo_signed keyPinned_def rootOptions_def
        demoRoot_def sliceOf_def)
  then show ?thesis
    using DecodePayload_encode [OF demo_valid]
    by (auto simp: gatesAfterSig_ok freshPredicate_def demoPredicate_def rootOptions_def demoQuorum_def)
qed

lemma demo_quorum: "VerifyQuorum [demoBundle] demoQuorum =
    \<lparr> QOK = True, QReason = QuorumReached,
      QEvent = EventName (the (Pred (VerifyBundle demoBundle (rootOptions demoQuorum demoRoot)))),
      PassedRoots = [''tee''] \<rparr>"
proof -
  have "matchKeyHex (PubX demoBundle) (PubY demoBundle) [demoRoot] = Some demoRoot"
    by (simp add: matchKeyHex_def demoBundle_def keyMatches_def demoRoot_def)
  then have "votes demoQuorum [] [rawInput demoBundle] =
      [(''tee'', the (Pred (VerifyBundle demoBundle (rootOptions demoQuorum demoRoot))))]"
    using demo_quorum_run by (simp add: demoQuorum_def demoRoot_def Let_def)
  then show ?thesis
    by (simp add: VerifyQuorum_def quorumCore_def demoQuorum_def)
qed

lemma quorum_independent_roots_witness:
  "QOK (VerifyQuorum [demoBundle] demoQuorum) \<and>
   (\<exists>roots. roots \<noteq> [] \<and> map ProverName roots = [''tee''] \<and> set roots \<subseteq> {demoRoot})"
  using quorum_independent_roots [of "[demoBundle]" demoQuorum]
  by (auto simp: demo_quorum) (auto simp: demoQuorum_def)

end
