(* ===== verification/Checkpoint.thy ===== *)
theory Checkpoint
  imports Quorum Merkle_Proofs
begin

text \<open>
  The signed notes of transparency.go: checkpoints (\<open>CheckpointBody\<close>, \<open>ParseCheckpoint\<close>),
  endorsements and their COSE envelope, the gate \<open>CheckLoggedEndorsement\<close>, and the witness side,
  \<open>VerifyEquivocation\<close> and \<open>VerifyCheckpointWitnesses\<close>. A Go \<open>int\<close> is 64 bits wide here.
\<close>

section \<open>Checkpoints\<close>

definition NL :: char where "NL = CHR 0x0A"

definition CheckpointBody :: "string \<Rightarrow> int \<Rightarrow> bytes \<Rightarrow> bytes" where
  "CheckpointBody origin treeSize root =
     bytes_of_string (origin @ [NL] @ dec_int treeSize @ [NL] @ b64_encode root @ [NL])"

text \<open>The outcome of \<open>ecdsa.Sign\<close> is an argument, as in \<open>SignCOSESign1\<close>.\<close>

definition signNote :: "int option \<Rightarrow> bytes \<Rightarrow> priv_key \<Rightarrow> bytes option" where
  "signNote nonce body key =
     (let h = sha256 body in
      case nonce of
        None \<Rightarrow> None
      | Some k \<Rightarrow> let (r, s) = ecdsaSign k (D key) h in Some (sigBytes r s))"

definition SignCheckpoint :: "int option \<Rightarrow> string \<Rightarrow> int \<Rightarrow> bytes \<Rightarrow> priv_key \<Rightarrow> bytes option" where
  "SignCheckpoint nonce origin treeSize root key = signNote nonce (CheckpointBody origin treeSize root) key"

definition SignNote :: "int option \<Rightarrow> bytes \<Rightarrow> priv_key \<Rightarrow> bytes option" where
  "SignNote nonce body key = signNote nonce body key"

definition VerifyCheckpointSig :: "bytes \<Rightarrow> bytes \<Rightarrow> bytes \<Rightarrow> bytes \<Rightarrow> bool" where
  "VerifyCheckpointSig cpBody sig pubX pubY = isOk (verifySig cpBody sig pubX pubY)"

datatype checkpoint_error = NotThreeLines | BadCheckpointSize | BadCheckpointRoot

definition bodyLines :: "bytes \<Rightarrow> string list" where
  "bodyLines body = split_nl (trim_right_nl (string_of_bytes body))"

definition ParseCheckpoint :: "bytes \<Rightarrow> checkpoint_error + string \<times> int \<times> bytes" where
  "ParseCheckpoint body =
     (let ls = bodyLines body in
      if length ls \<noteq> 3 then Inl NotThreeLines
      else
        case atoi (ls ! 1) of
          None \<Rightarrow> Inl BadCheckpointSize
        | Some treeSize \<Rightarrow>
            if treeSize < 0 then Inl BadCheckpointSize
            else
              case b64_decode (ls ! 2) of
                None \<Rightarrow> Inl BadCheckpointRoot
              | Some raw \<Rightarrow>
                  if length raw \<noteq> 32 then Inl BadCheckpointRoot
                  else Inr (ls ! 0, treeSize, raw))"

section \<open>Endorsements\<close>

definition endorsementSchema :: string where
  "endorsementSchema = ''honest-ear/endorsement/v1''"

datatype endorsement_error =
    EndorserNewline
  | DeviceKeyLength
  | NotEndorsement
  | BadDeviceX
  | BadDeviceY

definition EndorsementBody :: "string \<Rightarrow> bytes \<Rightarrow> bytes \<Rightarrow> endorsement_error + bytes" where
  "EndorsementBody endorser devicePubX devicePubY =
     (if NL \<in> set endorser then Inl EndorserNewline
      else if length devicePubX \<noteq> 32 \<or> length devicePubY \<noteq> 32 then Inl DeviceKeyLength
      else Inr (bytes_of_string (endorsementSchema @ [NL] @ endorser @ [NL] @
             hex_encode devicePubX @ [NL] @ hex_encode devicePubY @ [NL])))"

definition ParseEndorsement :: "bytes \<Rightarrow> endorsement_error + string \<times> bytes \<times> bytes" where
  "ParseEndorsement body =
     (let ls = bodyLines body in
      if length ls \<noteq> 4 \<or> ls ! 0 \<noteq> endorsementSchema then Inl NotEndorsement
      else
        case hex_decode (ls ! 2) of
          Inl _ \<Rightarrow> Inl BadDeviceX
        | Inr x \<Rightarrow>
            if length x \<noteq> 32 then Inl BadDeviceX
            else
              case hex_decode (ls ! 3) of
                Inl _ \<Rightarrow> Inl BadDeviceY
              | Inr y \<Rightarrow>
                  if length y \<noteq> 32 then Inl BadDeviceY
                  else Inr (ls ! 1, x, y))"

datatype sign_error = SignBody endorsement_error | SignFailed

definition SignCOSEEndorsement ::
    "int option \<Rightarrow> string \<Rightarrow> bytes \<Rightarrow> bytes \<Rightarrow> priv_key \<Rightarrow> sign_error + bytes" where
  "SignCOSEEndorsement nonce endorser devicePubX devicePubY key =
     bindE (wrapE SignBody (EndorsementBody endorser devicePubX devicePubY)) (\<lambda>body.
       case SignCOSESign1 nonce body key of None \<Rightarrow> Inl SignFailed | Some c \<Rightarrow> Inr c)"

datatype endorsement_check_error =
    EndorsementCose cose_error
  | EndorserSignature sig_error
  | EndorsementFields endorsement_error

definition VerifyCOSEEndorsement ::
    "bytes \<Rightarrow> bytes \<Rightarrow> bytes \<Rightarrow> endorsement_check_error + string \<times> bytes \<times> bytes" where
  "VerifyCOSEEndorsement cose endorserPubX endorserPubY =
     bindE (wrapE EndorsementCose (parseCOSESign1 cose)) (\<lambda>(protBstr, payload, payloadBstr, sig).
     bindE (wrapE EndorserSignature
              (verifySig (coseSigStruct protBstr payloadBstr) sig endorserPubX endorserPubY)) (\<lambda>_.
     wrapE EndorsementFields (ParseEndorsement payload)))"

datatype logged_error =
    CheckpointSignature sig_error
  | CheckpointParse checkpoint_error
  | NotIncluded

definition CheckLoggedEndorsement ::
    "bytes \<Rightarrow> int \<Rightarrow> bytes list \<Rightarrow> bytes \<Rightarrow> bytes \<Rightarrow> bytes \<Rightarrow> bytes \<Rightarrow> logged_error + unit" where
  "CheckLoggedEndorsement entry index ps cpBody cpSig logPubX logPubY =
     bindE (wrapE CheckpointSignature (verifySig cpBody cpSig logPubX logPubY)) (\<lambda>_.
     bindE (wrapE CheckpointParse (ParseCheckpoint cpBody)) (\<lambda>(_, treeSize, root).
     if \<not> VerifyInclusion entry index treeSize ps root then Inl NotIncluded else Inr ()))"

section \<open>Witnesses\<close>

record Cosignature =
  CoWitness :: string
  CoPubX :: bytes
  CoPubY :: bytes
  CoSig :: bytes

definition CosignCheckpoint :: "int option \<Rightarrow> bytes \<Rightarrow> priv_key \<Rightarrow> bytes option" where
  "CosignCheckpoint nonce cpBody key = signNote nonce cpBody key"

datatype equivocation_verdict =
    CosigAFails
  | CosigBFails
  | ParseA checkpoint_error
  | ParseB checkpoint_error
  | DifferentOrigins string string
  | DifferentSizes int int
  | IdenticalRoots
  | Equivocated string int bytes bytes

definition VerifyEquivocation ::
    "bytes \<Rightarrow> bytes \<Rightarrow> bytes \<Rightarrow> bytes \<Rightarrow> bytes \<Rightarrow> bytes \<Rightarrow> bytes \<Rightarrow> bytes \<Rightarrow>
     bool \<times> equivocation_verdict" where
  "VerifyEquivocation bodyA cosigA aX aY bodyB cosigB bX bY =
     (if \<not> VerifyCheckpointSig bodyA cosigA aX aY then (False, CosigAFails)
      else if \<not> VerifyCheckpointSig bodyB cosigB bX bY then (False, CosigBFails)
      else
        case ParseCheckpoint bodyA of
          Inl e \<Rightarrow> (False, ParseA e)
        | Inr (oA, sA, rA) \<Rightarrow>
            (case ParseCheckpoint bodyB of
               Inl e \<Rightarrow> (False, ParseB e)
             | Inr (oB, sB, rB) \<Rightarrow>
                 if oA \<noteq> oB then (False, DifferentOrigins oA oB)
                 else if sA \<noteq> sB then (False, DifferentSizes sA sB)
                 else if rA = rB then (False, IdenticalRoots)
                 else (True, Equivocated oA sA (take 4 rA) (take 4 rB))))"

definition matchWitness :: "Cosignature \<Rightarrow> Prover list \<Rightarrow> string" where
  "matchWitness c enrolled =
     (case find (\<lambda>w. ProverName w = CoWitness c \<and>
                     constantTimeCompare (CoPubX c) (ProverX w) = 1 \<and>
                     constantTimeCompare (CoPubY c) (ProverY w) = 1) enrolled of
        Some w \<Rightarrow> ProverName w
      | None \<Rightarrow> [])"

fun witnessLoop :: "bytes \<Rightarrow> Prover list \<Rightarrow> string list \<Rightarrow> string list \<Rightarrow> Cosignature list \<Rightarrow> string list" where
  "witnessLoop cpBody enrolled seen ok [] = ok"
| "witnessLoop cpBody enrolled seen ok (c # cosigs) =
     (let name = matchWitness c enrolled in
      if name = [] \<or> name \<in> set seen then witnessLoop cpBody enrolled seen ok cosigs
      else if isOk (verifySig cpBody (CoSig c) (CoPubX c) (CoPubY c))
        then witnessLoop cpBody enrolled (name # seen) (ok @ [name]) cosigs
      else witnessLoop cpBody enrolled seen ok cosigs)"

definition VerifyCheckpointWitnesses :: "bytes \<Rightarrow> Cosignature list \<Rightarrow> Prover list \<Rightarrow> string list" where
  "VerifyCheckpointWitnesses cpBody cosigs enrolled = witnessLoop cpBody enrolled [] [] cosigs"

section \<open>Lines\<close>

fun join :: "string list \<Rightarrow> string" where
  "join [] = []"
| "join [l] = l"
| "join (l # m # ls) = l @ NL # join (m # ls)"

lemma join_Cons: "ls \<noteq> [] \<Longrightarrow> join (l # ls) = l @ NL # join ls"
  by (cases ls) auto

lemma join_split: "join (split_nl s) = s"
proof (induction s)
  case (Cons c s)
  obtain l ls where "split_nl s = l # ls"
    using split_nl_nonempty by (meson neq_Nil_conv)
  with Cons show ?case
    by (cases ls) (auto simp: NL_def)
qed simp

lemma split_join: "ls \<noteq> [] \<Longrightarrow> \<forall>l\<in>set ls. NL \<notin> set l \<Longrightarrow> split_nl (join ls) = ls"
proof (induction ls rule: join.induct)
  case (3 l m ls)
  then show ?case by (simp add: split_nl_append NL_def)
qed (simp_all add: split_nl_no_newline NL_def)

lemma trim_append_newlines: "trim_right_nl (s @ replicate k NL) = trim_right_nl s"
proof (induction k)
  case (Suc k)
  have "s @ replicate (Suc k) NL = (s @ replicate k NL) @ [NL]"
    by (simp add: replicate_append_same)
  with Suc show ?case by (simp only: NL_def trim_right_nl_snoc)
qed simp

lemma trim_newlines: "\<exists>k. s = trim_right_nl s @ replicate k NL"
proof (induction s rule: rev_induct)
  case Nil
  then show ?case by (simp add: trim_right_nl_def)
next
  case (snoc c s)
  then obtain k where k: "s = trim_right_nl s @ replicate k NL" by blast
  show ?case
  proof (cases "c = NL")
    case True
    have "s @ [c] = trim_right_nl s @ replicate k NL @ [NL]"
      using arg_cong [OF k, of "\<lambda>t. t @ [NL]"] True by simp
    then have "s @ [c] = trim_right_nl (s @ [c]) @ replicate (Suc k) NL"
      unfolding True using trim_right_nl_snoc [of s] by (simp add: replicate_append_same NL_def)
    then show ?thesis ..
  next
    case False
    then show ?thesis
      by (intro exI [of _ 0]) (simp add: trim_right_nl_id NL_def)
  qed
qed

lemma last_join: "ls \<noteq> [] \<Longrightarrow> last ls \<noteq> [] \<Longrightarrow> join ls \<noteq> [] \<and> last (join ls) = last (last ls)"
  by (induction ls rule: join.induct) auto

text \<open>The lines of a body, when the last one is not empty: the body joins them and ends in any
  number of newlines.\<close>

lemma bodyLines_iff:
  assumes "ls \<noteq> []" and "last ls \<noteq> []"
  shows "bodyLines body = ls \<longleftrightarrow>
    (\<forall>l\<in>set ls. NL \<notin> set l) \<and> (\<exists>k. body = bytes_of_string (join ls @ replicate k NL))"
proof
  assume ls: "bodyLines body = ls"
  obtain k where k: "string_of_bytes body = trim_right_nl (string_of_bytes body) @ replicate k NL"
    using trim_newlines by blast
  have "string_of_bytes body = join ls @ replicate k NL"
    using k ls join_split [of "trim_right_nl (string_of_bytes body)"] by (simp add: bodyLines_def)
  moreover have "\<forall>l\<in>set ls. NL \<notin> set l"
    using ls split_nl_no_newlineD by (auto simp: bodyLines_def NL_def)
  ultimately show "(\<forall>l\<in>set ls. NL \<notin> set l) \<and> (\<exists>k. body = bytes_of_string (join ls @ replicate k NL))"
    by (auto simp: string_of_bytes_eq_iff)
next
  assume R: "(\<forall>l\<in>set ls. NL \<notin> set l) \<and> (\<exists>k. body = bytes_of_string (join ls @ replicate k NL))"
  then obtain k where body: "body = bytes_of_string (join ls @ replicate k NL)" by blast
  have "last (last ls) \<in> set (last ls)" "last ls \<in> set ls" using assms by simp_all
  then have "last (join ls) \<noteq> NL" using R last_join [OF assms] by metis
  then have "trim_right_nl (join ls) = join ls"
    using last_join [OF assms] by (intro trim_right_nl_id) (simp_all add: NL_def)
  then show "bodyLines body = ls"
    using R assms(1) by (simp add: bodyLines_def body trim_append_newlines split_join)
qed

lemma b64_decode_Nil [simp]: "b64_decode [] = Some []"
  by (simp add: b64_decode_def)

lemma ParseCheckpoint_lines:
  "ParseCheckpoint body = Inr (origin, treeSize, root) \<longleftrightarrow>
     (\<exists>sz rt. bodyLines body = [origin, sz, rt] \<and> atoi sz = Some treeSize \<and> 0 \<le> treeSize \<and>
        b64_decode rt = Some root \<and> length root = 32)"
  by (auto simp: ParseCheckpoint_def Let_def numeral_3_eq_3 length_Suc_conv split: option.splits if_splits)

lemma ParseCheckpoint_shape:
  "ParseCheckpoint body = Inr (origin, treeSize, root) \<longleftrightarrow>
     (\<exists>sz rt k. body = bytes_of_string (origin @ NL # sz @ NL # rt @ replicate k NL) \<and>
        NL \<notin> set origin \<and> NL \<notin> set sz \<and> NL \<notin> set rt \<and>
        atoi sz = Some treeSize \<and> 0 \<le> treeSize \<and> b64_decode rt = Some root \<and> length root = 32)"
proof -
  have "bodyLines body = [origin, sz, rt] \<longleftrightarrow> NL \<notin> set origin \<and> NL \<notin> set sz \<and> NL \<notin> set rt \<and>
      (\<exists>k. body = bytes_of_string (origin @ NL # sz @ NL # rt @ replicate k NL))"
    if "b64_decode rt = Some root" "length root = 32" for sz rt
  proof -
    have "rt \<noteq> []" using that by (cases rt) auto
    then show ?thesis using bodyLines_iff [of "[origin, sz, rt]" body] by auto
  qed
  then show ?thesis unfolding ParseCheckpoint_lines by blast
qed

lemma ParseCheckpoint_body:
  assumes "NL \<notin> set origin" and "0 \<le> treeSize" and "treeSize < 2 ^ 63" and "length root = 32"
  shows "ParseCheckpoint (CheckpointBody origin treeSize root) = Inr (origin, treeSize, root)"
proof -
  have "atoi (dec_int treeSize) = Some treeSize"
    using assms(2,3) atoi_dec [of "nat treeSize"] by (simp add: dec_int_def nat_less_iff)
  moreover have "NL \<notin> set (dec_int treeSize)"
    using assms(2) by (simp add: dec_int_def NL_def)
  moreover have "NL \<notin> set (b64_encode root)"
    by (simp add: NL_def newline_notin_b64)
  ultimately show ?thesis
    unfolding ParseCheckpoint_shape CheckpointBody_def
    using assms by (intro exI [of _ "dec_int treeSize"] exI [of _ "b64_encode root"] exI [of _ 1]) simp
qed

lemma ParseCheckpoint_fields:
  assumes "ParseCheckpoint body = Inr (origin, treeSize, root)"
  shows "NL \<notin> set origin" "0 \<le> treeSize" "treeSize < 2 ^ 63" "length root = 32"
proof -
  have "treeSize < 2 ^ 63" if "atoi sz = Some treeSize" for sz
    using that by (auto simp: atoi_def Let_def split: if_splits option.splits)
  with assms show "NL \<notin> set origin" "0 \<le> treeSize" "treeSize < 2 ^ 63" "length root = 32"
    by (auto simp: ParseCheckpoint_shape)
qed

section \<open>Endorsements\<close>

lemma newline_notin_schema: "NL \<notin> set endorsementSchema"
  by (simp add: endorsementSchema_def NL_def)

lemma ParseEndorsement_lines:
  "ParseEndorsement body = Inr (endorser, x, y) \<longleftrightarrow>
     (\<exists>hx hy. bodyLines body = [endorsementSchema, endorser, hx, hy] \<and>
        hex_decode hx = Inr x \<and> hex_decode hy = Inr y \<and> length x = 32 \<and> length y = 32)"
proof -
  have four: "length ls = 4 \<longleftrightarrow> (\<exists>a b c d. ls = [a, b, c, d])" for ls :: "string list"
    by (auto simp: numeral_eq_Suc length_Suc_conv)
  show ?thesis
    by (auto simp: ParseEndorsement_def Let_def four split: sum.splits if_splits)
qed

lemma ParseEndorsement_shape:
  "ParseEndorsement body = Inr (endorser, x, y) \<longleftrightarrow>
     (\<exists>hx hy k. body = bytes_of_string
          (endorsementSchema @ NL # endorser @ NL # hx @ NL # hy @ replicate k NL) \<and>
        NL \<notin> set endorser \<and> NL \<notin> set hx \<and> NL \<notin> set hy \<and>
        hex_decode hx = Inr x \<and> hex_decode hy = Inr y \<and> length x = 32 \<and> length y = 32)"
proof -
  have "bodyLines body = [endorsementSchema, endorser, hx, hy] \<longleftrightarrow>
      NL \<notin> set endorser \<and> NL \<notin> set hx \<and> NL \<notin> set hy \<and>
      (\<exists>k. body = bytes_of_string
          (endorsementSchema @ NL # endorser @ NL # hx @ NL # hy @ replicate k NL))"
    if "hex_decode hy = Inr y" "length y = 32" for hx hy
  proof -
    have "hy \<noteq> []" using that by (cases hy) auto
    then show ?thesis
      using bodyLines_iff [of "[endorsementSchema, endorser, hx, hy]" body] newline_notin_schema by auto
  qed
  then show ?thesis unfolding ParseEndorsement_lines by blast
qed

lemma EndorsementBody_parse:
  assumes "EndorsementBody endorser x y = Inr body"
  shows "ParseEndorsement body = Inr (endorser, x, y)"
proof -
  have "NL \<notin> set (hex_encode z)" for z by (simp add: NL_def)
  with assms show ?thesis
    unfolding ParseEndorsement_shape EndorsementBody_def
    by (intro exI [of _ "hex_encode x"] exI [of _ "hex_encode y"] exI [of _ 1]) (auto split: if_splits)
qed


section \<open>Cosignatures\<close>

text \<open>A cosignature counts under a name when that name is enrolled with the cosignature's key and
  the signature verifies.\<close>

definition countsAs :: "bytes \<Rightarrow> Prover list \<Rightarrow> Cosignature \<Rightarrow> string \<Rightarrow> bool" where
  "countsAs cpBody enrolled c name \<longleftrightarrow> name \<noteq> [] \<and> CoWitness c = name \<and>
     (\<exists>w\<in>set enrolled. ProverName w = name \<and> ProverX w = CoPubX c \<and> ProverY w = CoPubY c) \<and>
     verifySig cpBody (CoSig c) (CoPubX c) (CoPubY c) = Inr ()"

lemma find_SomeD: "find P xs = Some x \<Longrightarrow> x \<in> set xs \<and> P x"
  by (induction xs) (auto split: if_splits)

lemma matchWitness_iff:
  assumes "name \<noteq> []"
  shows "matchWitness c enrolled = name \<longleftrightarrow> CoWitness c = name \<and>
     (\<exists>w\<in>set enrolled. ProverName w = name \<and> ProverX w = CoPubX c \<and> ProverY w = CoPubY c)"
proof (cases "find (\<lambda>w. ProverName w = CoWitness c \<and> constantTimeCompare (CoPubX c) (ProverX w) = 1 \<and>
    constantTimeCompare (CoPubY c) (ProverY w) = 1) enrolled")
  case None
  then have "matchWitness c enrolled = []" by (simp add: matchWitness_def)
  moreover have "\<not> (\<exists>w\<in>set enrolled. ProverName w = CoWitness c \<and> ProverX w = CoPubX c \<and> ProverY w = CoPubY c)"
    using None unfolding find_None_iff by (metis constantTimeCompare_1(1))
  ultimately show ?thesis using assms by auto
next
  case (Some w)
  with find_SomeD [OF Some] show ?thesis unfolding matchWitness_def by auto
qed

lemma countsAs_iff:
  "countsAs cpBody enrolled c name \<longleftrightarrow> name \<noteq> [] \<and> matchWitness c enrolled = name \<and>
     isOk (verifySig cpBody (CoSig c) (CoPubX c) (CoPubY c))"
  using matchWitness_iff [of name c enrolled] by (auto simp: countsAs_def isOk_verifySig)

lemma witnessLoop_spec:
  "set seen = set ok \<Longrightarrow> distinct ok \<Longrightarrow> distinct (witnessLoop cpBody enrolled seen ok cosigs) \<and>
     set (witnessLoop cpBody enrolled seen ok cosigs) =
       set ok \<union> {name. \<exists>c\<in>set cosigs. countsAs cpBody enrolled c name}"
proof (induction cpBody enrolled seen ok cosigs rule: witnessLoop.induct)
  case (2 cpBody enrolled seen ok c cosigs)
  let ?name = "matchWitness c enrolled"
  let ?v = "isOk (verifySig cpBody (CoSig c) (CoPubX c) (CoPubY c))"
  have one: "{name. \<exists>x\<in>set (c # cosigs). countsAs cpBody enrolled x name} =
      (if ?name \<noteq> [] \<and> ?v then {?name} else {}) \<union> {name. \<exists>x\<in>set cosigs. countsAs cpBody enrolled x name}"
    by (auto simp: countsAs_iff)
  show ?case
  proof (cases "?name = [] \<or> ?name \<in> set seen")
    case True
    then show ?thesis
      unfolding one using 2(1) [OF refl True 2(4,5)] 2(4) by (auto simp: Let_def)
  next
    case new: False
    show ?thesis
    proof (cases ?v)
      case True
      have "set (?name # seen) = set (ok @ [?name])" "distinct (ok @ [?name])"
        using 2(4,5) new by auto
      from 2(2) [OF refl new True this] show ?thesis
        unfolding one using new True by (auto simp: Let_def)
    next
      case False
      then show ?thesis
        unfolding one using 2(3) [OF refl new False 2(4,5)] new by (auto simp: Let_def)
    qed
  qed
qed simp

section \<open>The COSE envelope of an endorsement\<close>

lemma VerifyCOSEEndorsement_ok:
  "VerifyCOSEEndorsement cose px py = Inr f \<longleftrightarrow>
     (\<exists>pb payload plb sig. parseCOSESign1 cose = Inr (pb, payload, plb, sig) \<and>
        verifySig (coseSigStruct pb plb) sig px py = Inr () \<and> ParseEndorsement payload = Inr f)"
  by (auto simp: VerifyCOSEEndorsement_def bindE_Inr_iff)

lemma CheckLoggedEndorsement_ok:
  "CheckLoggedEndorsement entry index ps cpBody cpSig lx ly = Inr () \<longleftrightarrow>
     (\<exists>origin treeSize root. verifySig cpBody cpSig lx ly = Inr () \<and>
        ParseCheckpoint cpBody = Inr (origin, treeSize, root) \<and>
        VerifyInclusion entry index treeSize ps root)"
  by (auto simp: CheckLoggedEndorsement_def bindE_Inr_iff)

section \<open>Properties\<close>

lemma bodyLines_CheckpointBody:
  assumes "b64_encode root \<noteq> []"
  shows "bodyLines (CheckpointBody origin treeSize root) =
     split_nl origin @ [dec_int treeSize, b64_encode root]"
proof -
  have "join (ls @ [m, n]) = join ls @ NL # m @ NL # n" if "ls \<noteq> []" for ls m n
    using that by (induction ls rule: join.induct) simp_all
  then have "join (split_nl origin @ [dec_int treeSize, b64_encode root]) @ replicate 1 NL =
      origin @ NL # dec_int treeSize @ NL # b64_encode root @ [NL]"
    by (simp add: join_split)
  moreover have "NL \<notin> set (dec_int treeSize)" "NL \<notin> set (b64_encode root)"
    by (simp_all add: dec_int_def NL_def newline_notin_b64)
  moreover have "\<forall>l\<in>set (split_nl origin). NL \<notin> set l"
    using split_nl_no_newlineD by (simp add: NL_def)
  ultimately show ?thesis
    using assms by (subst bodyLines_iff) (auto simp: CheckpointBody_def intro!: exI [of _ 1])
qed

lemma length_split_nl: "NL \<in> set s \<Longrightarrow> 1 < length (split_nl s)"
  by (induction s) (auto simp: NL_def split: list.splits)

text \<open>C24: Which bodies are checkpoints, and of what: three newline-free lines, the size a decimal that
  \<open>Atoi\<close> reads as a non-negative int and the root 32 bytes of base64, followed by any number of
  newlines. The body is therefore not determined by the fields.\<close>

theorem ParseCheckpoint_iff:
  "ParseCheckpoint body = Inr (origin, treeSize, root) \<longleftrightarrow>
     (\<exists>sz rt k. body = bytes_of_string (origin @ NL # sz @ NL # rt @ replicate k NL) \<and>
        NL \<notin> set origin \<and> NL \<notin> set sz \<and> NL \<notin> set rt \<and>
        atoi sz = Some treeSize \<and> 0 \<le> treeSize \<and> b64_decode rt = Some root \<and> length root = 32)"
  by (rule ParseCheckpoint_shape)

text \<open>Parsing the body of a checkpoint gives its fields back; an origin with a newline or a
  negative size is refused.\<close>

theorem ParseCheckpoint_CheckpointBody:
  assumes "length root = 32" and "treeSize < 2 ^ 63"
  shows "ParseCheckpoint (CheckpointBody origin treeSize root) =
     (if NL \<in> set origin then Inl NotThreeLines
      else if treeSize < 0 then Inl BadCheckpointSize
      else Inr (origin, treeSize, root))"
proof -
  have "root \<noteq> []" using assms(1) by auto
  then have ls: "bodyLines (CheckpointBody origin treeSize root) =
      split_nl origin @ [dec_int treeSize, b64_encode root]"
    by (simp add: bodyLines_CheckpointBody)
  consider "NL \<in> set origin" | "NL \<notin> set origin" "treeSize < 0" | "NL \<notin> set origin" "0 \<le> treeSize"
    by linarith
  then show ?thesis
  proof cases
    case 1
    then show ?thesis
      using length_split_nl [of origin] by (simp add: ParseCheckpoint_def Let_def ls)
  next
    case 2
    have "atoi (dec_int treeSize) = Some n \<Longrightarrow> n < 0" for n
      using 2 digits_val_dec_gen [of "nat (- treeSize)"]
      by (auto simp: atoi_def dec_int_def Let_def split: if_splits)
    with 2 show ?thesis
      by (auto simp: ParseCheckpoint_def Let_def ls split_nl_no_newline NL_def split: option.splits)
  next
    case 3
    then show ?thesis using ParseCheckpoint_body assms by simp
  qed
qed

lemma ParseCheckpoint_CheckpointBody_witness:
  "ParseCheckpoint (CheckpointBody ''log'' 5 (replicate 32 0)) = Inr (''log'', 5, replicate 32 0)"
  using ParseCheckpoint_CheckpointBody [of "replicate 32 0" 5 "''log''"] by (simp add: NL_def)

text \<open>C25: An endorsement body exists exactly for a newline-free endorser and 32-byte coordinates, and
  parsing it gives the three fields back.\<close>

theorem EndorsementBody_roundtrip:
  "(isOk (EndorsementBody endorser x y) \<longleftrightarrow> NL \<notin> set endorser \<and> length x = 32 \<and> length y = 32) \<and>
   (case EndorsementBody endorser x y of
      Inl e \<Rightarrow> e = (if NL \<in> set endorser then EndorserNewline else DeviceKeyLength)
    | Inr body \<Rightarrow> ParseEndorsement body = Inr (endorser, x, y))"
  using EndorsementBody_parse [of endorser x y]
  by (auto simp: EndorsementBody_def split: sum.splits if_splits)

text \<open>\<open>VerifyEquivocation\<close> convicts exactly when both bodies carry valid signatures under the
  keys pinned for them and parse to the same origin and size with different roots, and the verdict
  does not depend on the order of the two halves.\<close>

theorem VerifyEquivocation_iff:
  "(fst (VerifyEquivocation bodyA cosigA aX aY bodyB cosigB bX bY) \<longleftrightarrow>
     VerifyCheckpointSig bodyA cosigA aX aY \<and> VerifyCheckpointSig bodyB cosigB bX bY \<and>
     (\<exists>origin treeSize rA rB. ParseCheckpoint bodyA = Inr (origin, treeSize, rA) \<and>
        ParseCheckpoint bodyB = Inr (origin, treeSize, rB) \<and> rA \<noteq> rB)) \<and>
   fst (VerifyEquivocation bodyA cosigA aX aY bodyB cosigB bX bY) =
     fst (VerifyEquivocation bodyB cosigB bX bY bodyA cosigA aX aY)"
  by (auto simp: VerifyEquivocation_def split: sum.splits)

text \<open>The names \<open>VerifyCheckpointWitnesses\<close> returns are pairwise different, and they are exactly
  the non-empty enrolled names with a cosignature under the key enrolled for that name that is a
  valid signature of the checkpoint.\<close>

theorem VerifyCheckpointWitnesses_counts:
  "distinct (VerifyCheckpointWitnesses cpBody cosigs enrolled) \<and>
   set (VerifyCheckpointWitnesses cpBody cosigs enrolled) =
     {name. name \<noteq> [] \<and> (\<exists>c\<in>set cosigs. \<exists>w\<in>set enrolled.
        CoWitness c = name \<and> ProverName w = name \<and> ProverX w = CoPubX c \<and> ProverY w = CoPubY c \<and>
        verifySig cpBody (CoSig c) (CoPubX c) (CoPubY c) = Inr ())}"
  using witnessLoop_spec [of "[]" "[]" cpBody enrolled cosigs]
  by (auto simp: VerifyCheckpointWitnesses_def countsAs_def)

text \<open>C23: An endorsement that passes \<open>CheckLoggedEndorsement\<close> under a checkpoint that commits to a
  log is the log's entry at the given index and the checkpoint carries the log's signature, unless
  SHA-256 collides on the strings hashed.\<close>

theorem CheckLoggedEndorsement_sound:
  assumes "CheckLoggedEndorsement entry index ps cpBody cpSig lx ly = Inr ()"
    and "ParseCheckpoint cpBody = Inr (origin, int (length leaves), mth leaves)"
    and "\<forall>p\<in>set ps. length p = 32"
    and "inj_on sha256 (set (treeStrings leaves) \<union>
           set (inclStrings entry (nat index) (length leaves) ps))"
  shows "VerifyCheckpointSig cpBody cpSig lx ly \<and> 0 \<le> index \<and> index < int (length leaves) \<and>
     leaves ! nat index = entry"
proof -
  from assms(1,2) have v: "verifySig cpBody cpSig lx ly = Inr ()"
      "VerifyInclusion entry index (int (length leaves)) ps (mth leaves)"
    by (auto simp: CheckLoggedEndorsement_ok)
  with inclusion_sound [OF v(2) assms(3,4)] show ?thesis
    by (simp add: VerifyCheckpointSig_def VerifyInclusion_iff)
qed

end
