(* ===== verification/Checkpoint_Demo.thy ===== *)
theory Checkpoint_Demo
  imports Checkpoint Merkle_Demo
begin

text \<open>
  A signed checkpoint of the log of \<open>Merkle_Demo\<close>: its body, the kernel-computed digest and a key
  under which (digest, digest) is a valid signature; the entry [1] is logged under it.
\<close>

definition noteBody :: bytes where
  "noteBody = CheckpointBody ''mlog'' 2 (mth demoLog)"

definition noteH :: int where
  "noteH = 14380223045004761725903363160232344396111432454997838468563804924736155377525"

definition noteQx :: int where
  "noteQx = 97205910428301305772176503387526033525480073528370573897029016039647892262079"

definition noteQy :: int where
  "noteQy = 81899052791618112443829180978316516101896154268894476246067858549433519087174"

definition notePx :: bytes where "notePx = be_bytes 32 (nat noteQx)"
definition notePy :: bytes where "notePy = be_bytes 32 (nat noteQy)"
definition noteSig :: bytes where "noteSig = sigBytes noteH noteH"

lemma demo_root_bytes: "mth demoLog = [107, 207, 14, 46, 147, 224, 161, 142, 34, 120, 154, 238, 150, 94, 101, 83, 244, 251, 233,
      63, 10, 207, 196, 167, 5, 214, 145, 200, 49, 28, 73, 101]"
proof -
  have "hashNode (hashLeaf [1]) (hashLeaf [2]) = sha256 demoNode"
    using demo_node by (simp add: hashNode_def nodeString_def)
  then show ?thesis
    unfolding demo_mth by (simp only: demo_root)
qed

lemma note_body: "noteBody =
    [109, 108, 111, 103, 10, 50, 10, 97, 56, 56, 79, 76, 112, 80, 103, 111, 89, 52, 105, 101,
    74, 114, 117, 108, 108, 53, 108, 85, 47, 84, 55, 54, 84, 56, 75, 122, 56, 83, 110, 66, 100,
    97, 82, 121, 68, 69, 99, 83, 87, 85, 61, 10]"
  by (simp add: noteBody_def CheckpointBody_def demo_root_bytes dec_int_def dec.simps digit_char_def
      b64_char_def NL_def bytes_of_string_def byte_of_char_def)

lemma note_sha: "sha256 noteBody =
     [31, 202, 234, 245, 170, 250, 158, 14, 217, 239, 128, 191, 188, 196, 131, 69, 197, 144,
      29, 64, 43, 40, 90, 185, 57, 188, 24, 234, 148, 227, 95, 117]"
proof -
  have pad: "sha_pad [109, 108, 111, 103, 10, 50, 10, 97, 56, 56, 79, 76, 112, 80, 103, 111, 89, 52, 105, 101,
      74, 114, 117, 108, 108, 53, 108, 85, 47, 84, 55, 54, 84, 56, 75, 122, 56, 83, 110, 66,
      100, 97, 82, 121, 68, 69, 99, 83, 87, 85, 61, 10] =
      [109, 108, 111, 103, 10, 50, 10, 97, 56, 56, 79, 76, 112, 80, 103, 111, 89, 52, 105, 101,
      74, 114, 117, 108, 108, 53, 108, 85, 47, 84, 55, 54, 84, 56, 75, 122, 56, 83, 110, 66,
      100, 97, 82, 121, 68, 69, 99, 83, 87, 85, 61, 10, 128, 0, 0, 0, 0, 0, 0, 0, 0, 0, 1, 160]"
    by (simp add: sha_pad_simps)
  show ?thesis
    by (simp only: note_body sha256_bits pad, simp only: sha_bit_simps) (simp add: byte_of_bits_value)
qed

lemma note_hash: "int (be_nat (sha256 noteBody)) = noteH"
  by (simp add: note_sha be_nat_def noteH_def)

lemma note_key: "int (be_nat notePx) = noteQx" "int (be_nat notePy) = noteQy"
proof -
  have "be_nat notePx = nat noteQx" "be_nat notePy = nat noteQy"
    unfolding notePx_def notePy_def
    by (rule be_nat_be_bytes, simp add: noteQx_def noteQy_def)+
  then show "int (be_nat notePx) = noteQx" "int (be_nat notePy) = noteQy"
    by (simp_all add: noteQx_def noteQy_def)
qed

lemma note_onCurve: "onCurve noteQx noteQy"
  by (rule onCurve_hint [where c = 61923328581140010071708056385083960256249823591599617315368647590526652050318
      and ?q1.0 = 57926710657918996347455622850916577493122251526266059469580887736200529866858
      and ?q2.0 = 7932299924745933935478386493051347652812802714216080793098816767514967879044416693061791196434703338181052522864165827463603836763186231782274084421385025])
    (simp_all add: noteQx_def noteQy_def p256_p_def p256_b_def)

lemma note_add: "ec_add p256_G (Affine noteQx noteQy) = Affine noteH
    26340443027389267198349492375031431747631271616851838972904021261942613266550"
  unfolding p256_G_def
  by (rule ec_add_hint [where
        i = 69387701750812229671004355047960004554392249568116853252704397094199005090629
        and ?q0.0 = "29222936664232242482413082199178806656227375305979254132999072817753904068596"
        and l = 95003547086600585807571028752809776714756992708936181888495000386776488089757
        and ?q1.0 = "27424277790117413244763312993484302138651905265614303137357098817493231043528"
        and ?q2.0 = "77947241651709429823317162762014736652047288825913986331723229682889010388609"
        and ?q3.0 = "27944551023599523498834428421961457006662621247076496069518488699097243926318"])
    (simp_all add: noteQx_def noteQy_def noteH_def p256_p_def)

lemma note_verify: "ecdsaVerify noteQx noteQy (sha256 noteBody) noteH noteH"
proof (rule ecdsaVerify_unit)
  show "int (be_nat (sha256 noteBody)) = noteH"
    by (rule note_hash)
  show "noteH * 86268881215947277400908637395194523427704941739722673819841403369135593227241 =
      10713734955370244277244397001648707032037586198461831896682138875011457943996 * p256_n + 1"
    by (simp add: noteH_def p256_n_def)
  show "onCurve noteQx noteQy"
    by (rule note_onCurve)
  show "ec_add p256_G (Affine noteQx noteQy) = Affine noteH
    26340443027389267198349492375031431747631271616851838972904021261942613266550"
    by (rule note_add)
qed (simp_all add: noteH_def p256_n_def)

lemma note_signed: "verifySig noteBody noteSig notePx notePy = Inr ()"
proof -
  have "0 \<le> noteH" "noteH < p256_n"
    by (simp_all add: noteH_def p256_n_def)
  then show ?thesis
    using note_verify by (simp add: verifySig_sigBytes noteSig_def note_key)
qed

lemma note_parse: "ParseCheckpoint noteBody = Inr (''mlog'', 2, mth demoLog)"
proof -
  have "length (mth demoLog) = 32" by (simp add: demo_mth)
  then show ?thesis
    unfolding noteBody_def by (intro ParseCheckpoint_body) (simp_all add: NL_def)
qed

lemma CheckLoggedEndorsement_sound_witness:
  "CheckLoggedEndorsement [1] 0 [hashLeaf [2]] noteBody noteSig notePx notePy = Inr () \<and>
   demoLog ! 0 = [1]"
proof -
  have two: "length demoLog = 2" by (simp add: demoLog_def)
  have ok: "CheckLoggedEndorsement [1] 0 [hashLeaf [2]] noteBody noteSig notePx notePy = Inr ()"
    using note_signed note_parse demo_inclusion by (simp add: CheckLoggedEndorsement_ok)
  have "set (inclStrings [1] (nat 0) (length demoLog) [hashLeaf [2]]) = {[0, 1], demoNode}"
    using demo_node by (simp add: inclStrings_def two)
  then have "inj_on sha256 (set (treeStrings demoLog) \<union>
      set (inclStrings [1] (nat 0) (length demoLog) [hashLeaf [2]]))"
    using demo_clean by (simp add: demo_strings insert_commute)
  then show ?thesis
    using CheckLoggedEndorsement_sound [OF ok, of "''mlog''" demoLog] note_parse
    by (simp add: two ok)
qed

end
