(* ===== verification/Witness.thy ===== *)
theory Witness
  imports Checkpoint
begin

text \<open>
  The transparency-log witness (cmd/he-witness/main.go): fetching and checking a checkpoint
  (\<open>poll\<close>), the comparison with a peer (\<open>crossCheck\<close>) and the persisted view. The network is an
  argument that gives the response to each URL; the parts of \<open>encoding/json\<close> used, decoders from
  bytes to the structs of the source, are a record of parameters.
\<close>

section \<open>Messages\<close>

record witnessState =
  WOrigin :: string
  WSize :: int
  WRoot :: string

record checkpointResp =
  CPBody :: string
  CPSig :: string
  CPLogPubX :: string
  CPLogPubY :: string

record consistencyResp =
  CRNewSize :: int
  CRNewRoot :: string
  CRProof :: "string list"

record peerCosigResp =
  PRWitness :: string
  PRWitnessPubX :: string
  PRWitnessPubY :: string
  PRCosignature :: string
  PRCheckpointBody :: string

record equivCkpt =
  EWitness :: string
  ECheckpointBody :: string
  ECosignature :: string
  EWitnessPubX :: string
  EWitnessPubY :: string

record equivProof =
  ESchema :: string
  EA :: equivCkpt
  EB :: equivCkpt

definition equivProofSchema :: string where
  "equivProofSchema = ''honest-ear/equivocation-proof/v1''"

record json_decoders =
  toCheckpoint :: "bytes \<Rightarrow> checkpointResp option"
  toConsistency :: "bytes \<Rightarrow> consistencyResp option"
  toPeerCosig :: "bytes \<Rightarrow> peerCosigResp option"
  toEquivProof :: "bytes \<Rightarrow> equivProof option"
  toState :: "bytes \<Rightarrow> witnessState option"

section \<open>Fetching\<close>

text \<open>What \<open>client.Get\<close> and reading the body give: an error of either, or a status and a body.\<close>

datatype http_response = GetFailed | ReadFailed | Response int bytes

type_synonym network = "string \<Rightarrow> http_response"

datatype http_error = HttpGet | HttpRead | HttpStatus int bytes | HttpJSON

definition getJSON :: "network \<Rightarrow> (bytes \<Rightarrow> 'a option) \<Rightarrow> string \<Rightarrow> http_error + 'a" where
  "getJSON net decode url =
     (case net url of
        GetFailed \<Rightarrow> Inl HttpGet
      | ReadFailed \<Rightarrow> Inl HttpRead
      | Response status body \<Rightarrow>
          let raw = take (2 ^ 20) body in
          if status \<noteq> 200 then Inl (HttpStatus status raw)
          else case decode raw of None \<Rightarrow> Inl HttpJSON | Some v \<Rightarrow> Inr v)"

definition hexRoot :: "string \<Rightarrow> bytes option" where
  "hexRoot h =
     (case hex_decode h of Inl _ \<Rightarrow> None | Inr b \<Rightarrow> if length b \<noteq> 32 then None else Some b)"

fun decodeProof :: "string list \<Rightarrow> bytes list option" where
  "decodeProof [] = Some []"
| "decodeProof (h # hexes) =
     (case hexRoot h of
        None \<Rightarrow> None
      | Some r \<Rightarrow> map_option (\<lambda>out. r # out) (decodeProof hexes))"

section \<open>One poll\<close>

datatype poll_reason =
    LogSignature
  | OriginMismatch string string
  | FirstSight
  | Rewound int int
  | ForkSameSize
  | Unchanged
  | NotExtension int int
  | Extension
  | CosignError

record pollResult =
  Accepted :: bool
  PollReason :: poll_reason
  Body :: bytes
  Cosig :: Cosignature

datatype poll_error =
    FetchCheckpoint http_error
  | BadSigHex hex_error
  | ParseFailed checkpoint_error
  | BadPersistedRoot
  | FetchConsistency http_error
  | BadConsistencyProof

definition noCosig :: Cosignature where
  "noCosig = \<lparr> CoWitness = [], CoPubX = [], CoPubY = [], CoSig = [] \<rparr>"

definition refused :: "poll_reason \<Rightarrow> pollResult" where
  "refused why = \<lparr> Accepted = False, PollReason = why, Body = [], Cosig = noCosig \<rparr>"

definition accept :: "int option \<Rightarrow> bytes \<Rightarrow> priv_key \<Rightarrow> string \<Rightarrow> poll_reason \<Rightarrow> pollResult" where
  "accept nonce body key name why =
     (case CosignCheckpoint nonce body key of
        None \<Rightarrow> refused CosignError
      | Some sig \<Rightarrow>
          let (px, py) = PubXY key in
          \<lparr> Accepted = True, PollReason = why, Body = body,
            Cosig = \<lparr> CoWitness = name, CoPubX = px, CoPubY = py, CoSig = sig \<rparr> \<rparr>)"

definition advance :: "string \<Rightarrow> int \<Rightarrow> bytes \<Rightarrow> witnessState \<Rightarrow> witnessState" where
  "advance origin treeSize root st =
     st\<lparr> WOrigin := origin, WSize := treeSize, WRoot := hex_encode root \<rparr>"

text \<open>The log and the signer: the base URL, the expected origin and the pinned log key, the
  witness's key and name.\<close>

record config =
  CName :: string
  COrigin :: string
  CLogURL :: string
  CStatePath :: string
  CKey :: priv_key
  CLogX :: bytes
  CLogY :: bytes

definition poll :: "json_decoders \<Rightarrow> network \<Rightarrow> int option \<Rightarrow> config \<Rightarrow> witnessState \<Rightarrow>
    (poll_error + pollResult) \<times> witnessState" where
  "poll js net nonce cfg st =
     (let base = CLogURL cfg; origin = COrigin cfg; key = CKey cfg; name = CName cfg in
      case getJSON net (toCheckpoint js) (base @ ''/checkpoint'') of
        Inl e \<Rightarrow> (Inl (FetchCheckpoint e), st)
      | Inr cp \<Rightarrow>
      let body = bytes_of_string (CPBody cp) in
      case hex_decode (CPSig cp) of
        Inl e \<Rightarrow> (Inl (BadSigHex e), st)
      | Inr sig \<Rightarrow>
      if \<not> VerifyCheckpointSig body sig (CLogX cfg) (CLogY cfg) then (Inr (refused LogSignature), st)
      else
      case ParseCheckpoint body of
        Inl e \<Rightarrow> (Inl (ParseFailed e), st)
      | Inr (org, treeSize, root) \<Rightarrow>
      if org \<noteq> origin then (Inr (refused (OriginMismatch org origin)), st)
      else if WRoot st = [] then
        (Inr (accept nonce body key name FirstSight), advance origin treeSize root st)
      else
      case hexRoot (WRoot st) of
        None \<Rightarrow> (Inl BadPersistedRoot, st)
      | Some oldRoot \<Rightarrow>
      if treeSize < WSize st then (Inr (refused (Rewound treeSize (WSize st))), st)
      else if treeSize = WSize st then
        (if root \<noteq> oldRoot then (Inr (refused ForkSameSize), st)
         else (Inr (accept nonce body key name Unchanged), st))
      else
      case getJSON net (toConsistency js) (base @ ''/consistency?from='' @ dec_int (WSize st)) of
        Inl e \<Rightarrow> (Inl (FetchConsistency e), st)
      | Inr cr \<Rightarrow>
      case decodeProof (CRProof cr) of
        None \<Rightarrow> (Inl BadConsistencyProof, st)
      | Some ps \<Rightarrow>
      if \<not> VerifyConsistency (WSize st) treeSize ps oldRoot root
        then (Inr (refused (NotExtension treeSize (WSize st))), st)
      else (Inr (accept nonce body key name Extension), advance origin treeSize root st))"

section \<open>Comparing with a peer\<close>

datatype crossVerdict = CrossAgree | CrossEquivocation | CrossInconclusive

datatype cross_reason =
    NoView
  | SameView int
  | SplitView int bytes bytes
  | PeerAhead int int
  | PeerExtends int int
  | PeerForks int int
  | WeAreAhead int int

definition crossCheck :: "bool \<Rightarrow> int \<Rightarrow> bytes \<Rightarrow> int \<Rightarrow> bytes \<Rightarrow> bytes list option \<Rightarrow>
    crossVerdict \<times> cross_reason" where
  "crossCheck hasView ourSize ourRoot peerSize peerRoot peerProof =
     (if \<not> hasView then (CrossInconclusive, NoView)
      else if peerSize = ourSize then
        (if peerRoot = ourRoot then (CrossAgree, SameView ourSize)
         else (CrossEquivocation, SplitView ourSize (take 4 peerRoot) (take 4 ourRoot)))
      else if peerSize > ourSize then
        (case peerProof of
           None \<Rightarrow> (CrossInconclusive, PeerAhead peerSize ourSize)
         | Some ps \<Rightarrow>
             if VerifyConsistency ourSize peerSize ps ourRoot peerRoot
             then (CrossAgree, PeerExtends peerSize ourSize)
             else (CrossEquivocation, PeerForks peerSize ourSize))
      else (CrossInconclusive, WeAreAhead ourSize peerSize))"

section \<open>The persisted view\<close>

text \<open>What \<open>os.ReadFile\<close> gives for the state file.\<close>

datatype disk_file = FileMissing | FileUnreadable | FileContents bytes

datatype state_error = StateUnreadable | StateCorrupt | StateBadRoot

definition baseline :: witnessState where
  "baseline = \<lparr> WOrigin = [], WSize = 0, WRoot = [] \<rparr>"

definition loadState :: "json_decoders \<Rightarrow> string \<Rightarrow> disk_file \<Rightarrow> state_error + witnessState" where
  "loadState js statePath disk =
     (if statePath = [] then Inr baseline
      else case disk of
        FileMissing \<Rightarrow> Inr baseline
      | FileUnreadable \<Rightarrow> Inl StateUnreadable
      | FileContents raw \<Rightarrow>
          (case toState js raw of
             None \<Rightarrow> Inl StateCorrupt
           | Some st \<Rightarrow>
               if WRoot st \<noteq> [] \<and> hexRoot (WRoot st) = None then Inl StateBadRoot
               else Inr st))"

text \<open>\<open>os.WriteFile\<close> succeeds with the encoded state on the disk, or fails and leaves the file in
  some state, which is an argument.\<close>

definition saveState :: "(witnessState \<Rightarrow> bytes) \<Rightarrow> string \<Rightarrow> disk_file option \<Rightarrow> witnessState \<Rightarrow> disk_file \<Rightarrow>
    bool \<times> disk_file" where
  "saveState marshal statePath failure st disk =
     (if statePath = [] then (True, disk)
      else case failure of
        None \<Rightarrow> (True, FileContents (marshal st))
      | Some left \<Rightarrow> (False, left))"

section \<open>What a poll accepts\<close>

lemma hexRoot_hex_encode [simp]: "length r = 32 \<Longrightarrow> hexRoot (hex_encode r) = Some r"
  by (simp add: hexRoot_def)

lemma hexRoot_Nil [simp]: "hexRoot [] = None"
  by (simp add: hexRoot_def)

lemma hexRoot_length: "hexRoot h = Some r \<Longrightarrow> length r = 32"
  by (auto simp: hexRoot_def split: sum.splits if_splits)

lemma decodeProof_lengths: "decodeProof hs = Some ps \<Longrightarrow> \<forall>p\<in>set ps. length p = 32"
  by (induction hs arbitrary: ps) (auto simp: hexRoot_length split: option.splits)

lemma decodeProof_hex: "\<forall>p\<in>set ps. length p = 32 \<Longrightarrow> decodeProof (map hex_encode ps) = Some ps"
  by (induction ps) simp_all

text \<open>The checkpoint the log serves, signed under the pinned key and for the watched origin.\<close>

definition servedCheckpoint :: "json_decoders \<Rightarrow> network \<Rightarrow> config \<Rightarrow> bytes \<Rightarrow> int \<Rightarrow> bytes \<Rightarrow> bool" where
  "servedCheckpoint js net cfg body treeSize root \<longleftrightarrow>
     (\<exists>cp sig. getJSON net (toCheckpoint js) (CLogURL cfg @ ''/checkpoint'') = Inr cp \<and>
        body = bytes_of_string (CPBody cp) \<and> hex_decode (CPSig cp) = Inr sig \<and>
        VerifyCheckpointSig body sig (CLogX cfg) (CLogY cfg) \<and>
        ParseCheckpoint body = Inr (COrigin cfg, treeSize, root))"

text \<open>A checkpoint extends a view: there is none yet, or it is the same tree, or the served proof
  shows it to be an extension.\<close>

definition extendsView :: "json_decoders \<Rightarrow> network \<Rightarrow> config \<Rightarrow> witnessState \<Rightarrow> int \<Rightarrow> bytes \<Rightarrow> bool" where
  "extendsView js net cfg st treeSize root \<longleftrightarrow> WRoot st = [] \<or>
     (\<exists>old. hexRoot (WRoot st) = Some old \<and>
        ((treeSize = WSize st \<and> root = old) \<or>
         (WSize st < treeSize \<and>
          (\<exists>cr ps. getJSON net (toConsistency js)
               (CLogURL cfg @ ''/consistency?from='' @ dec_int (WSize st)) = Inr cr \<and>
             decodeProof (CRProof cr) = Some ps \<and> VerifyConsistency (WSize st) treeSize ps old root))))"

lemma accept_Some:
  "Accepted (accept nonce body key name why) \<longleftrightarrow> nonce \<noteq> None"
  "nonce \<noteq> None \<Longrightarrow> Body (accept nonce body key name why) = body"
  by (auto simp: accept_def CosignCheckpoint_def signNote_def Let_def refused_def
      split: option.splits prod.splits)

lemma not_accepted_refused [simp]: "\<not> Accepted (refused why)"
  by (simp add: refused_def)

text \<open>The view is replaced only by a served checkpoint that extends it, also when the cosigning
  itself then fails.\<close>

lemma poll_view:
  assumes "poll js net nonce cfg st = (res, st')"
  shows "st' = st \<and> \<not> (\<exists>r. res = Inr r \<and> Accepted r) \<or>
     (\<exists>body treeSize root why. servedCheckpoint js net cfg body treeSize root \<and>
        extendsView js net cfg st treeSize root \<and>
        (st' = advance (COrigin cfg) treeSize root st \<or>
         st' = st \<and> WSize st = treeSize \<and> hexRoot (WRoot st) = Some root) \<and>
        res = Inr (accept nonce body (CKey cfg) (CName cfg) why))"
  using assms unfolding servedCheckpoint_def extendsView_def
  by (auto simp: poll_def Let_def split: sum.splits option.splits if_splits)

text \<open>A served checkpoint that extends the view is accepted, and the view is then that checkpoint.\<close>

lemma poll_extends:
  assumes "servedCheckpoint js net cfg body treeSize root" and "extendsView js net cfg st treeSize root"
  shows "\<exists>why st'. poll js net nonce cfg st = (Inr (accept nonce body (CKey cfg) (CName cfg) why), st') \<and>
     WSize st' = treeSize \<and> hexRoot (WRoot st') = Some root"
proof -
  from assms(1) obtain cp sig where cp: "getJSON net (toCheckpoint js) (CLogURL cfg @ ''/checkpoint'') = Inr cp"
      "body = bytes_of_string (CPBody cp)" "hex_decode (CPSig cp) = Inr sig"
      "VerifyCheckpointSig body sig (CLogX cfg) (CLogY cfg)"
      "ParseCheckpoint body = Inr (COrigin cfg, treeSize, root)"
    by (auto simp: servedCheckpoint_def)
  have len: "length root = 32" by (rule ParseCheckpoint_fields(4) [OF cp(5)])
  from assms(2) show ?thesis
    unfolding extendsView_def
    using cp len by (elim disjE exE conjE) (auto simp: poll_def Let_def advance_def)
qed

section \<open>Properties of a poll\<close>

text \<open>A poll is accepted exactly when the signature can be made and the log serves a checkpoint,
  signed under the pinned key for the watched origin, that extends the view: it is the first one,
  or the same one, or comes with a valid consistency proof from the view.\<close>

theorem poll_accepts_iff:
  "(case fst (poll js net nonce cfg st) of Inl _ \<Rightarrow> False | Inr r \<Rightarrow> Accepted r) \<longleftrightarrow>
     nonce \<noteq> None \<and>
     (\<exists>body treeSize root. servedCheckpoint js net cfg body treeSize root \<and>
        extendsView js net cfg st treeSize root)" (is "?L \<longleftrightarrow> ?R")
proof
  assume ?L
  then obtain r where r: "fst (poll js net nonce cfg st) = Inr r" "Accepted r"
    by (auto split: sum.splits)
  with poll_view [of js net nonce cfg st "Inr r" "snd (poll js net nonce cfg st)"] show ?R
    by (cases "poll js net nonce cfg st") (auto simp: accept_Some)
next
  assume ?R
  then obtain body treeSize root where "nonce \<noteq> None" "servedCheckpoint js net cfg body treeSize root"
      "extendsView js net cfg st treeSize root" by blast
  with poll_extends [of js net cfg body treeSize root st nonce] show ?L
    by (auto simp: accept_Some)
qed

section \<open>Properties of the comparison\<close>

lemma crossCheck_verdict:
  "fst (crossCheck hasView ourSize ourRoot peerSize peerRoot peerProof) = CrossEquivocation \<longleftrightarrow>
     hasView \<and> (peerSize = ourSize \<and> peerRoot \<noteq> ourRoot \<or>
       ourSize < peerSize \<and>
       (\<exists>ps. peerProof = Some ps \<and> \<not> VerifyConsistency ourSize peerSize ps ourRoot peerRoot))"
  by (auto simp: crossCheck_def split: option.splits)

text \<open>No false alarm on an honest log: two views of prefixes of one log never count as an
  equivocation, when the proof (if the peer is ahead) is the one the log gave when it had the
  peer's size.\<close>

theorem crossCheck_honest:
  assumes "0 \<le> m" and "n \<le> length leaves" and "0 < n"
    and "\<And>ps. peerProof = Some ps \<Longrightarrow> ConsistencyProof \<lparr> Leaves = take n leaves \<rparr> m = Inr ps"
  shows "fst (crossCheck True m (mth (take (nat m) leaves)) (int n) (mth (take n leaves)) peerProof)
    \<noteq> CrossEquivocation"
proof -
  have "VerifyConsistency m (int n) ps (mth (take (nat m) leaves)) (mth (take n leaves))"
    if "peerProof = Some ps" "m < int n" for ps
  proof -
    have "take (nat m) (take n leaves) = take (nat m) leaves"
      using that(2) assms(1) by (simp add: min_absorb1)
    then show ?thesis
      using consistency_complete [OF assms(4) [OF that(1)]] assms(2,3)
      by (cases leaves) (auto simp: Size_def Root_def min_absorb2)
  qed
  then show ?thesis by (auto simp: crossCheck_verdict)
qed

lemma crossCheck_honest_witness:
  "fst (crossCheck True 2 (mth (take 2 [[1], [2], [3]])) 2 (mth (take 2 [[1], [2], [3]])) None)
    \<noteq> CrossEquivocation"
  using crossCheck_honest [of 2 2 "[[1], [2], [3]]" None] by simp

end
