(* ===== verification/Witness_Daemon.thy ===== *)
theory Witness_Daemon
  imports Witness
begin

text \<open>
  The witness daemon of cmd/he-witness/main.go: its state, the ticker's operations \<open>once\<close>,
  \<open>checkPeers\<close> and \<open>pullPeerProofs\<close>, the HTTP handlers, and the adoption of equivocation proofs
  (\<open>tryAdopt\<close>). Proofs pushed to peers are part of an operation's result, as pairs of a URL and a
  proof. While \<open>checkPeers\<close> talks to the network it does not hold the lock: it is a scan of the
  peers against the view it read, and a commit.
\<close>

section \<open>The state\<close>

record peer =
  PName :: string
  PURL :: string
  PX :: bytes
  PY :: bytes

datatype last_error =
    NoError
  | PollError poll_error
  | SaveFailed
  | Refused poll_reason

datatype peer_status =
    Unreachable http_error
  | BadCosigHex
  | NotPinnedKey
  | ParseOrOrigin
  | Agree cross_reason
  | Equivocation cross_reason
  | Inconclusive cross_reason

record daemon =
  Cfg :: config
  Peers :: "peer list"
  St :: witnessState
  Latest :: "pollResult option"
  LastErr :: last_error
  HealthOK :: bool
  PeerStatus :: "string \<rightharpoonup> peer_status"
  Equivoc :: bool
  Proof :: "equivProof option"
  Proofs :: "equivProof list"
  SeenProof :: "string list"

definition maxRetainedProofs :: nat where
  "maxRetainedProofs = 64"

definition proofKey :: "equivProof \<Rightarrow> string" where
  "proofKey p =
     (let a = ECheckpointBody (EA p); b = ECheckpointBody (EB p);
          (a, b) = (if a > b then (b, a) else (a, b))
      in hex_encode (sha256 (bytes_of_string (a @ ''||'' @ b))))"

definition recordProofLocked :: "equivProof \<Rightarrow> daemon \<Rightarrow> daemon" where
  "recordProofLocked p d =
     (let k = proofKey p in
      if k \<in> set (SeenProof d) \<or> length (Proofs d) \<ge> maxRetainedProofs then d
      else d\<lparr> SeenProof := k # SeenProof d, Proofs := Proofs d @ [p] \<rparr>)"

section \<open>Polling the log\<close>

definition once :: "json_decoders \<Rightarrow> (witnessState \<Rightarrow> bytes) \<Rightarrow> network \<Rightarrow> int option \<Rightarrow>
    disk_file option \<Rightarrow> daemon \<Rightarrow> disk_file \<Rightarrow> daemon \<times> disk_file" where
  "once js marshal net nonce failure d disk =
     (case poll js net nonce (Cfg d) (St d) of
        (Inl e, st) \<Rightarrow> (d\<lparr> St := st, LastErr := PollError e, HealthOK := False \<rparr>, disk)
      | (Inr res, st) \<Rightarrow>
          let d = d\<lparr> St := st, LastErr := NoError \<rparr> in
          if Accepted res then
            let d = d\<lparr> Latest := Some res, HealthOK := True \<rparr>;
                (saved, disk) = saveState marshal (CStatePath (Cfg d)) failure (St d) disk
            in if \<not> saved then (d\<lparr> LastErr := SaveFailed, HealthOK := False \<rparr>, disk)
               else (d, disk)
          else (d\<lparr> LastErr := Refused (PollReason res), HealthOK := False \<rparr>, disk))"

section \<open>Cross-checking the peers\<close>

text \<open>The view \<open>checkPeers\<close> reads under the lock, and what the scan of the peers finds.\<close>

record view =
  HasView :: bool
  OurSize :: int
  OurRoot :: bytes

definition readView :: "daemon \<Rightarrow> view" where
  "readView d =
     (let hasView = (WRoot (St d) \<noteq> []) in
      \<lparr> HasView = hasView, OurSize = WSize (St d),
        OurRoot = (if hasView then case hexRoot (WRoot (St d)) of None \<Rightarrow> replicate 32 0 | Some r \<Rightarrow> r
                   else replicate 32 0) \<rparr>)"

record scan =
  Status :: "string \<rightharpoonup> peer_status"
  AnyEquiv :: bool
  ProofPeer :: "equivCkpt option"

text \<open>One peer. The network is the responses met while this peer is handled.\<close>

definition scanPeer :: "json_decoders \<Rightarrow> network \<Rightarrow> config \<Rightarrow> view \<Rightarrow> peer \<Rightarrow> scan \<Rightarrow> scan" where
  "scanPeer js net cfg v p acc =
     (let report = (\<lambda>s. acc\<lparr> Status := (Status acc)(PName p \<mapsto> s) \<rparr>) in
      case getJSON net (toPeerCosig js) (PURL p @ ''/cosignature'') of
        Inl e \<Rightarrow> report (Unreachable e)
      | Inr pr \<Rightarrow>
      let body = bytes_of_string (PRCheckpointBody pr) in
      case hex_decode (PRCosignature pr) of
        Inl _ \<Rightarrow> report BadCosigHex
      | Inr sig \<Rightarrow>
      if \<not> VerifyCheckpointSig body sig (PX p) (PY p) then report NotPinnedKey
      else
      case ParseCheckpoint body of
        Inl _ \<Rightarrow> report ParseOrOrigin
      | Inr (porg, psize, proot) \<Rightarrow>
      if porg \<noteq> COrigin cfg then report ParseOrOrigin
      else
      let peerProof =
            (if HasView v \<and> psize > OurSize v then
               case getJSON net (toConsistency js)
                      (CLogURL cfg @ ''/consistency?from='' @ dec_int (OurSize v)) of
                 Inl _ \<Rightarrow> None
               | Inr cr \<Rightarrow> decodeProof (CRProof cr)
             else None)
      in
      case crossCheck (HasView v) (OurSize v) (OurRoot v) psize proot peerProof of
        (CrossAgree, why) \<Rightarrow> report (Agree why)
      | (CrossEquivocation, why) \<Rightarrow>
          (report (Equivocation why))\<lparr> AnyEquiv := True,
             ProofPeer :=
               (if ProofPeer acc = None \<and> psize = OurSize v
                then Some \<lparr> EWitness = PName p, ECheckpointBody = PRCheckpointBody pr,
                            ECosignature = PRCosignature pr, EWitnessPubX = hex_encode (PX p),
                            EWitnessPubY = hex_encode (PY p) \<rparr>
                else ProofPeer acc) \<rparr>
      | (CrossInconclusive, why) \<Rightarrow> report (Inconclusive why))"

definition scanPeers :: "json_decoders \<Rightarrow> (string \<Rightarrow> network) \<Rightarrow> config \<Rightarrow> view \<Rightarrow> peer list \<Rightarrow> scan" where
  "scanPeers js nets cfg v ps =
     fold (\<lambda>p. scanPeer js (nets (PName p)) cfg v p) ps
       \<lparr> Status = Map.empty, AnyEquiv = False, ProofPeer = None \<rparr>"

definition ownCheckpoint :: "pollResult \<Rightarrow> equivCkpt" where
  "ownCheckpoint r =
     (let c = Cosig r in
      \<lparr> EWitness = CoWitness c, ECheckpointBody = string_of_bytes (Body r),
        ECosignature = hex_encode (CoSig c), EWitnessPubX = hex_encode (CoPubX c),
        EWitnessPubY = hex_encode (CoPubY c) \<rparr>)"

type_synonym pushes = "(string \<times> equivProof) list"

definition pushAll :: "peer list \<Rightarrow> equivProof \<Rightarrow> pushes" where
  "pushAll ps p = map (\<lambda>peer. (PURL peer @ ''/equivocation-intake'', p)) ps"

definition commitScan :: "scan \<Rightarrow> daemon \<Rightarrow> daemon \<times> pushes" where
  "commitScan sc d =
     (let d = d\<lparr> PeerStatus := Status sc \<rparr>;
          d = (if AnyEquiv sc then d\<lparr> Equivoc := True, HealthOK := False \<rparr> else d)
      in
      case (ProofPeer sc, Proof d, Latest d) of
        (Some b, None, Some r) \<Rightarrow>
          let fresh = \<lparr> ESchema = equivProofSchema, EA = ownCheckpoint r, EB = b \<rparr> in
          (recordProofLocked fresh (d\<lparr> Proof := Some fresh \<rparr>), pushAll (Peers d) fresh)
      | _ \<Rightarrow> (d, []))"

definition checkPeers :: "json_decoders \<Rightarrow> (string \<Rightarrow> network) \<Rightarrow> daemon \<Rightarrow> daemon \<times> pushes" where
  "checkPeers js nets d =
     (if length (Peers d) = 0 then (d, [])
      else commitScan (scanPeers js nets (Cfg d) (readView d) (Peers d)) d)"

section \<open>Adopting proofs\<close>

definition pinnedKey :: "daemon \<Rightarrow> string \<Rightarrow> (bytes \<times> bytes) option" where
  "pinnedKey d name =
     (if name = CName (Cfg d) then Some (PubXY (CKey (Cfg d)))
      else map_option (\<lambda>p. (PX p, PY p)) (find (\<lambda>p. PName p = name) (Peers d)))"

datatype adopt_reason =
    UnpinnedWitness
  | BadCosignatureHex
  | ProofFails equivocation_verdict
  | OtherLog
  | Adopted equivocation_verdict

definition verifyProof :: "daemon \<Rightarrow> equivProof \<Rightarrow> bool \<times> adopt_reason" where
  "verifyProof d p =
     (case (pinnedKey d (EWitness (EA p)), pinnedKey d (EWitness (EB p))) of
        (Some (aX, aY), Some (bX, bY)) \<Rightarrow>
          (case (hex_decode (ECosignature (EA p)), hex_decode (ECosignature (EB p))) of
             (Inr cosigA, Inr cosigB) \<Rightarrow>
               let (ok, why) = VerifyEquivocation
                     (bytes_of_string (ECheckpointBody (EA p))) cosigA aX aY
                     (bytes_of_string (ECheckpointBody (EB p))) cosigB bX bY
               in
               if \<not> ok then (False, ProofFails why)
               else
                 (case ParseCheckpoint (bytes_of_string (ECheckpointBody (EA p))) of
                    Inl _ \<Rightarrow> (False, OtherLog)
                  | Inr (porg, _, _) \<Rightarrow>
                      if porg \<noteq> COrigin (Cfg d) then (False, OtherLog) else (True, Adopted why))
           | _ \<Rightarrow> (False, BadCosignatureHex))
      | _ \<Rightarrow> (False, UnpinnedWitness))"

definition adopt :: "equivProof \<Rightarrow> daemon \<Rightarrow> daemon \<times> pushes" where
  "adopt p d =
     (let first = (Proof d = None);
          d = (if first then d\<lparr> Proof := Some p \<rparr> else d);
          d = recordProofLocked p (d\<lparr> Equivoc := True, HealthOK := False \<rparr>)
      in (d, if first then pushAll (Peers d) p else []))"

definition tryAdopt :: "equivProof \<Rightarrow> daemon \<Rightarrow> (bool \<times> adopt_reason) \<times> daemon \<times> pushes" where
  "tryAdopt p d =
     (let (ok, why) = verifyProof d p in
      if ok then ((True, why), adopt p d) else ((False, why), d, []))"

fun pullLoop :: "json_decoders \<Rightarrow> (string \<Rightarrow> network) \<Rightarrow> peer list \<Rightarrow> daemon \<Rightarrow> daemon \<times> pushes" where
  "pullLoop js nets [] d = (d, [])"
| "pullLoop js nets (p # ps) d =
     (case getJSON (nets (PName p)) (toEquivProof js) (PURL p @ ''/equivocation-proof'') of
        Inl _ \<Rightarrow> pullLoop js nets ps d
      | Inr pr \<Rightarrow>
          let ((ok, _), d', out) = tryAdopt pr d in
          if ok then (d', out) else pullLoop js nets ps d')"

definition pullPeerProofs :: "json_decoders \<Rightarrow> (string \<Rightarrow> network) \<Rightarrow> daemon \<Rightarrow> daemon \<times> pushes" where
  "pullPeerProofs js nets d =
     (if Proof d \<noteq> None \<or> length (Peers d) = 0 then (d, []) else pullLoop js nets (Peers d) d)"

section \<open>The handlers\<close>

datatype payload =
    NoCheckpointYet
  | CosignaturePayload string string string string string
  | NoEquivocation
  | ProofPayload equivProof
  | ProofsPayload nat "equivProof list"
  | PostAProof
  | BadProof
  | AdoptedPayload adopt_reason
  | RejectedPayload adopt_reason

definition handleCosignature :: "daemon \<Rightarrow> int \<times> payload" where
  "handleCosignature d =
     (case Latest d of
        None \<Rightarrow> (503, NoCheckpointYet)
      | Some r \<Rightarrow>
          let c = Cosig r in
          (200, CosignaturePayload (CoWitness c) (hex_encode (CoPubX c)) (hex_encode (CoPubY c))
                  (hex_encode (CoSig c)) (string_of_bytes (Body r))))"

definition handleEquivocationProof :: "daemon \<Rightarrow> int \<times> payload" where
  "handleEquivocationProof d =
     (case Proof d of None \<Rightarrow> (404, NoEquivocation) | Some p \<Rightarrow> (200, ProofPayload p))"

definition handleEquivocationProofs :: "daemon \<Rightarrow> int \<times> payload" where
  "handleEquivocationProofs d = (200, ProofsPayload (length (Proofs d)) (Proofs d))"

text \<open>\<open>decoded\<close> is what decoding the body, cut off after 1 MiB, gives.\<close>

definition handleEquivocationIntake :: "string \<Rightarrow> equivProof option \<Rightarrow> daemon \<Rightarrow>
    (int \<times> payload) \<times> daemon \<times> pushes" where
  "handleEquivocationIntake httpMethod decoded d =
     (if httpMethod \<noteq> ''POST'' then ((405, PostAProof), d, [])
      else case decoded of
        None \<Rightarrow> ((400, BadProof), d, [])
      | Some p \<Rightarrow>
          let ((ok, why), d', out) = tryAdopt p d in
          ((if ok then (200, AdoptedPayload why) else (400, RejectedPayload why)), d', out))"

record health =
  HWitness :: string
  HOk :: bool
  HSize :: int
  HRoot :: string
  HLastError :: last_error
  HPeers :: "((string \<rightharpoonup> peer_status) \<times> bool) option"

definition handleHealth :: "daemon \<Rightarrow> int \<times> health" where
  "handleHealth d =
     (let healthy = (HealthOK d \<and> \<not> Equivoc d); code = (if healthy then 200 else 503) in
      (code, \<lparr> HWitness = CName (Cfg d), HOk = healthy, HSize = WSize (St d), HRoot = WRoot (St d),
               HLastError = LastErr d,
               HPeers = (if length (Peers d) > 0 then Some (PeerStatus d, Equivoc d) else None) \<rparr>))"

end
