(* ===== verification/Witness_Cli.thy ===== *)
theory Witness_Cli
  imports Witness_Daemon
begin

text \<open>
  The command line of cmd/he-witness/main.go: the flag parser, and the subcommands as functions
  from the arguments, the files and the network to what is printed and the exit status. \<open>cli.Die\<close>
  exits with status 2; its messages are constructors of \<open>die\<close>.
\<close>

datatype die =
    UnexpectedArgument string
  | FlagNeedsValue string
  | FlagRequired string
  | BadKeyFlag key_error
  | BadHexFlag string hex_error
  | StateError state_error
  | PollFails poll_error
  | SaveStateFails
  | PeerSpec string
  | PeerNameEmpty
  | DuplicatePeer string
  | BadPeerX string hex_error
  | BadPeerY string hex_error
  | FetchPeer http_error
  | PeerNameMismatch string string
  | BadPeerCosignature hex_error
  | PeerCosigUnverified
  | PeerCheckpoint checkpoint_error
  | PeerOrigin string string
  | PersistedRootBad
  | FetchConsistencyFails http_error
  | ConsistencyProofBad
  | ReadProof
  | ProofJSON
  | BadCosigA hex_error
  | BadCosigB hex_error
  | NotEquivocation equivocation_verdict
  | ProofOrigin string
  | UsageError
  | UnknownSubcommand string

section \<open>Flags\<close>

definition helpRequested :: "string list \<Rightarrow> bool" where
  "helpRequested args =
     (length args > 0 \<and> (args ! 0 = ''-h'' \<or> args ! 0 = ''--help'' \<or> args ! 0 = ''help''))"

fun flagLoop :: "(string \<rightharpoonup> string) \<Rightarrow> string list \<Rightarrow> die + (string \<rightharpoonup> string)" where
  "flagLoop m [] = Inr m"
| "flagLoop m (a # rest) =
     (if length a < 2 \<or> take 2 a \<noteq> ''--'' then Inl (UnexpectedArgument a)
      else
        let k = drop 2 a in
        if CHR ''='' \<in> set k then
          flagLoop (m(takeWhile (\<lambda>c. c \<noteq> CHR ''='') k \<mapsto> tl (dropWhile (\<lambda>c. c \<noteq> CHR ''='') k))) rest
        else case rest of
          [] \<Rightarrow> Inl (FlagNeedsValue k)
        | v # rest' \<Rightarrow> flagLoop (m(k \<mapsto> v)) rest')"

definition flagMap :: "string list \<Rightarrow> die + (string \<rightharpoonup> string)" where
  "flagMap fs = flagLoop Map.empty fs"

text \<open>\<open>m[k]\<close> of a Go map, and the closures \<open>need\<close> and \<open>hx\<close> of the subcommands.\<close>

definition flagValue :: "(string \<rightharpoonup> string) \<Rightarrow> string \<Rightarrow> string" where
  "flagValue m k = (case m k of None \<Rightarrow> [] | Some v \<Rightarrow> v)"

definition need :: "(string \<rightharpoonup> string) \<Rightarrow> string \<Rightarrow> die + string" where
  "need m k =
     (case m k of
        None \<Rightarrow> Inl (FlagRequired k)
      | Some v \<Rightarrow> if v = [] then Inl (FlagRequired k) else Inr v)"

definition needHex :: "(string \<rightharpoonup> string) \<Rightarrow> string \<Rightarrow> die + bytes" where
  "needHex m k = bindE (need m k) (\<lambda>v. wrapE (BadHexFlag k) (hex_decode v))"

definition defaultOrigin :: string where
  "defaultOrigin = ''honest-ear.log/v1''"

definition originFlag :: "(string \<rightharpoonup> string) \<Rightarrow> string" where
  "originFlag m = (let origin = flagValue m ''origin'' in if origin = [] then defaultOrigin else origin)"

definition parseCommon :: "string list \<Rightarrow> die + config" where
  "parseCommon fs =
     bindE (flagMap fs) (\<lambda>m.
     bindE (need m ''key'') (\<lambda>k.
     bindE (wrapE BadKeyFlag (PrivKeyFromHex k)) (\<lambda>key.
     bindE (needHex m ''log-pub-x'') (\<lambda>lx.
     bindE (needHex m ''log-pub-y'') (\<lambda>ly.
     bindE (need m ''name'') (\<lambda>name.
     bindE (need m ''log-url'') (\<lambda>logURL.
       Inr \<lparr> CName = name, COrigin = originFlag m, CLogURL = logURL,
             CStatePath = flagValue m ''state'', CKey = key, CLogX = lx, CLogY = ly \<rparr>)))))))"

fun peerSpecs :: "string list \<Rightarrow> string list" where
  "peerSpecs [] = []"
| "peerSpecs (a # rest) =
     (if a = ''--peer'' \<and> rest \<noteq> [] then hd rest # peerSpecs (tl rest)
      else if take 7 a = ''--peer='' then drop 7 a # peerSpecs rest
      else peerSpecs rest)"

fun splitComma :: "string \<Rightarrow> string list" where
  "splitComma [] = [[]]"
| "splitComma (c # s) =
     (if c = CHR '','' then [] # splitComma s
      else case splitComma s of [] \<Rightarrow> [[c]] | l # ls \<Rightarrow> (c # l) # ls)"

definition trimSlash :: "string \<Rightarrow> string" where
  "trimSlash s = rev (dropWhile (\<lambda>c. c = CHR ''/'') (rev s))"

fun peerLoop :: "string list \<Rightarrow> string list \<Rightarrow> die + peer list" where
  "peerLoop seen [] = Inr []"
| "peerLoop seen (s # specs) =
     (let f = splitComma s in
      if length f \<noteq> 4 then Inl (PeerSpec s)
      else if f ! 0 = [] then Inl PeerNameEmpty
      else if f ! 0 \<in> set seen then Inl (DuplicatePeer (f ! 0))
      else
        bindE (wrapE (BadPeerX (f ! 0)) (hex_decode (f ! 2))) (\<lambda>px.
        bindE (wrapE (BadPeerY (f ! 0)) (hex_decode (f ! 3))) (\<lambda>py.
        bindE (peerLoop (f ! 0 # seen) specs) (\<lambda>peers.
          Inr (\<lparr> PName = f ! 0, PURL = trimSlash (f ! 1), PX = px, PY = py \<rparr> # peers)))))"

definition parsePeers :: "string list \<Rightarrow> die + peer list" where
  "parsePeers args = peerLoop [] (peerSpecs args)"

section \<open>Subcommands\<close>

text \<open>What a subcommand ends with: its usage, an error (status 2), or its own output and status.\<close>

datatype 'a outcome = Usage | Dies die | Exits int 'a

definition orDie :: "die + 'a outcome \<Rightarrow> 'a outcome" where
  "orDie r = (case r of Inl e \<Rightarrow> Dies e | Inr x \<Rightarrow> x)"

datatype check_output = Cosigned Cosignature | RefusedToCosign poll_reason

definition runCheck :: "json_decoders \<Rightarrow> (witnessState \<Rightarrow> bytes) \<Rightarrow> network \<Rightarrow> int option \<Rightarrow>
    (string \<Rightarrow> disk_file) \<Rightarrow> disk_file option \<Rightarrow> string list \<Rightarrow> check_output outcome \<times> (string \<Rightarrow> disk_file)" where
  "runCheck js marshal net nonce disk failure args =
     (if helpRequested args then (Usage, disk)
      else case parseCommon args of
        Inl e \<Rightarrow> (Dies e, disk)
      | Inr cfg \<Rightarrow>
      case loadState js (CStatePath cfg) (disk (CStatePath cfg)) of
        Inl e \<Rightarrow> (Dies (StateError e), disk)
      | Inr st \<Rightarrow>
      case poll js net nonce cfg st of
        (Inl e, _) \<Rightarrow> (Dies (PollFails e), disk)
      | (Inr res, st') \<Rightarrow>
      if \<not> Accepted res then (Exits 1 (RefusedToCosign (PollReason res)), disk)
      else
        let (saved, f) = saveState marshal (CStatePath cfg) failure st' (disk (CStatePath cfg));
            disk' = disk(CStatePath cfg := f)
        in if \<not> saved then (Dies SaveStateFails, disk')
           else (Exits 0 (Cosigned (Cosig res)), disk'))"

definition verdictStatus :: "crossVerdict \<Rightarrow> int" where
  "verdictStatus v = (case v of CrossAgree \<Rightarrow> 0 | CrossEquivocation \<Rightarrow> 1 | CrossInconclusive \<Rightarrow> 2)"

definition runCompare :: "json_decoders \<Rightarrow> network \<Rightarrow> (string \<Rightarrow> disk_file) \<Rightarrow> string list \<Rightarrow>
    (string \<times> cross_reason) outcome" where
  "runCompare js net disk args =
     (if helpRequested args then Usage
      else orDie (
        bindE (flagMap args) (\<lambda>m.
        let origin = originFlag m in
        bindE (need m ''peer-url'') (\<lambda>url.
        let peerURL = trimSlash url in
        bindE (need m ''peer-name'') (\<lambda>peerName.
        bindE (needHex m ''peer-pub-x'') (\<lambda>px.
        bindE (needHex m ''peer-pub-y'') (\<lambda>py.
        bindE (wrapE StateError (loadState js (flagValue m ''state'') (disk (flagValue m ''state'')))) (\<lambda>st.
        bindE (wrapE FetchPeer (getJSON net (toPeerCosig js) (peerURL @ ''/cosignature''))) (\<lambda>pr.
        if PRWitness pr \<noteq> peerName then Inl (PeerNameMismatch (PRWitness pr) peerName)
        else
        let body = bytes_of_string (PRCheckpointBody pr) in
        bindE (wrapE BadPeerCosignature (hex_decode (PRCosignature pr))) (\<lambda>sig.
        if \<not> VerifyCheckpointSig body sig px py then Inl PeerCosigUnverified
        else
        bindE (wrapE PeerCheckpoint (ParseCheckpoint body)) (\<lambda>(porg, psize, proot).
        if porg \<noteq> origin then Inl (PeerOrigin porg origin)
        else
        let hasView = (WRoot st \<noteq> []) in
        bindE (if hasView then case hexRoot (WRoot st) of None \<Rightarrow> Inl PersistedRootBad | Some r \<Rightarrow> Inr r
               else Inr (replicate 32 0)) (\<lambda>ourRoot.
        bindE (if hasView \<and> psize > WSize st \<and> flagValue m ''log-url'' \<noteq> [] then
                 bindE (wrapE FetchConsistencyFails (getJSON net (toConsistency js)
                     (trimSlash (flagValue m ''log-url'') @ ''/consistency?from='' @ dec_int (WSize st)))) (\<lambda>cr.
                 case decodeProof (CRProof cr) of
                   None \<Rightarrow> Inl ConsistencyProofBad
                 | Some ps \<Rightarrow> Inr (Some ps))
               else Inr None) (\<lambda>peerProof.
        let (v, why) = crossCheck hasView (WSize st) ourRoot psize proot peerProof in
        Inr (Exits (verdictStatus v) (peerName, why)))))))))))))))"

text \<open>The two proof checkers share the four pinned keys and the verification.\<close>

definition pinnedKeys :: "(string \<rightharpoonup> string) \<Rightarrow> die + bytes \<times> bytes \<times> bytes \<times> bytes" where
  "pinnedKeys m =
     bindE (needHex m ''a-pub-x'') (\<lambda>aX.
     bindE (needHex m ''a-pub-y'') (\<lambda>aY.
     bindE (needHex m ''b-pub-x'') (\<lambda>bX.
     bindE (needHex m ''b-pub-y'') (\<lambda>bY. Inr (aX, aY, bX, bY)))))"

definition checkProof :: "equivProof \<Rightarrow> bytes \<times> bytes \<times> bytes \<times> bytes \<Rightarrow> die + equivocation_verdict" where
  "checkProof p keys =
     (let (aX, aY, bX, bY) = keys in
      bindE (wrapE BadCosigA (hex_decode (ECosignature (EA p)))) (\<lambda>cosigA.
      bindE (wrapE BadCosigB (hex_decode (ECosignature (EB p)))) (\<lambda>cosigB.
      let (ok, why) = VerifyEquivocation (bytes_of_string (ECheckpointBody (EA p))) cosigA aX aY
                        (bytes_of_string (ECheckpointBody (EB p))) cosigB bX bY
      in if \<not> ok then Inl (NotEquivocation why) else Inr why)))"

definition runVerifyEquivocation :: "json_decoders \<Rightarrow> (string \<Rightarrow> disk_file) \<Rightarrow> string list \<Rightarrow>
    (equivocation_verdict \<times> string \<times> string) outcome" where
  "runVerifyEquivocation js disk args =
     (if helpRequested args then Usage
      else orDie (
        bindE (flagMap args) (\<lambda>m.
        bindE (need m ''file'') (\<lambda>name.
        bindE (case disk name of FileContents raw \<Rightarrow> Inr raw | _ \<Rightarrow> Inl ReadProof) (\<lambda>raw.
        bindE (case toEquivProof js raw of None \<Rightarrow> Inl ProofJSON | Some p \<Rightarrow> Inr p) (\<lambda>p.
        bindE (pinnedKeys m) (\<lambda>keys.
        bindE (checkProof p keys) (\<lambda>why.
          Inr (Exits 0 (why, EWitness (EA p), EWitness (EB p)))))))))))"

definition runFetchProof :: "json_decoders \<Rightarrow> network \<Rightarrow> string list \<Rightarrow>
    (equivocation_verdict \<times> string \<times> string \<times> string) outcome" where
  "runFetchProof js net args =
     (if helpRequested args then Usage
      else orDie (
        bindE (flagMap args) (\<lambda>m.
        bindE (need m ''peer-url'') (\<lambda>u.
        let url = trimSlash u in
        bindE (pinnedKeys m) (\<lambda>keys.
        bindE (wrapE FetchPeer (getJSON net (toEquivProof js) (url @ ''/equivocation-proof''))) (\<lambda>p.
        bindE (checkProof p keys) (\<lambda>why.
        let wanted = flagValue m ''origin'' in
        if wanted \<noteq> [] \<and>
           (case ParseCheckpoint (bytes_of_string (ECheckpointBody (EA p))) of
              Inl _ \<Rightarrow> True | Inr (porg, _, _) \<Rightarrow> porg \<noteq> wanted)
          then Inl (ProofOrigin wanted)
        else Inr (Exits 0 (why, url, EWitness (EA p), EWitness (EB p))))))))))"

text \<open>The daemon \<open>runServe\<close> starts with: the configuration, the peers and the persisted view.\<close>

definition runServe :: "json_decoders \<Rightarrow> (string \<Rightarrow> disk_file) \<Rightarrow> string list \<Rightarrow>
    (config \<times> peer list \<times> witnessState) outcome" where
  "runServe js disk args =
     (if helpRequested args then Usage
      else orDie (
        bindE (parseCommon args) (\<lambda>cfg.
        bindE (wrapE StateError (loadState js (CStatePath cfg) (disk (CStatePath cfg)))) (\<lambda>st.
        bindE (parsePeers args) (\<lambda>peers.
          Inr (Exits 0 (cfg, peers, st)))))))"

section \<open>Properties of the flag parser\<close>

lemma flagLoop_pairs:
  "list_all (\<lambda>(k, v). CHR ''='' \<notin> set k) kvs \<Longrightarrow>
   flagLoop m (concat (map (\<lambda>(k, v). [''--'' @ k, v]) kvs)) = Inr (m ++ map_of (rev kvs))"
proof (induction kvs arbitrary: m)
  case (Cons kv kvs)
  then show ?case by (cases kv) (simp add: Let_def map_add_def fun_eq_iff split: option.split)
qed simp

lemma flagLoop_equals:
  "list_all (\<lambda>(k, v). CHR ''='' \<notin> set k) kvs \<Longrightarrow>
   flagLoop m (map (\<lambda>(k, v). ''--'' @ k @ ''='' @ v) kvs) = Inr (m ++ map_of (rev kvs))"
proof (induction kvs arbitrary: m)
  case (Cons kv kvs)
  obtain k v where kv: "kv = (k, v)" by (cases kv)
  with Cons.prems have k: "CHR ''='' \<notin> set k" by simp
  then have "takeWhile (\<lambda>c. c \<noteq> CHR ''='') (k @ CHR ''='' # v) = k"
      "dropWhile (\<lambda>c. c \<noteq> CHR ''='') (k @ CHR ''='' # v) = CHR ''='' # v"
    by (induction k) auto
  then show ?case
    using Cons by (simp add: kv Let_def map_add_def fun_eq_iff split: option.split)
qed simp

text \<open>The flag parser reads pairs \<open>--k v\<close> and \<open>--k=v\<close> alike, with any value (one that starts with
  dashes too), and keeps the last value of each flag.\<close>

theorem flagMap_pairs:
  assumes "list_all (\<lambda>(k, v). CHR ''='' \<notin> set k) kvs"
  shows "flagMap (concat (map (\<lambda>(k, v). [''--'' @ k, v]) kvs)) = Inr (map_of (rev kvs)) \<and>
     flagMap (map (\<lambda>(k, v). ''--'' @ k @ ''='' @ v) kvs) = Inr (map_of (rev kvs))"
  using flagLoop_pairs [OF assms, of Map.empty] flagLoop_equals [OF assms, of Map.empty]
  by (simp add: flagMap_def)

lemma flagMap_pairs_witness:
  "flagMap [''--name'', ''--x'', ''--name'', ''w''] = Inr [''name'' \<mapsto> ''w''] \<and>
   flagMap [''--name=--x'', ''--name=w''] = Inr [''name'' \<mapsto> ''w'']"
  using flagMap_pairs [of "[(''name'', ''--x''), (''name'', ''w'')]"] by simp

section \<open>Properties of the comparison command\<close>

lemma orDie_Exits [simp]: "orDie r = Exits n x \<longleftrightarrow> r = Inr (Exits n x)"
  by (auto simp: orDie_def split: sum.splits)

lemma needHex_Inr: "needHex m k = Inr b \<Longrightarrow> hex_decode (flagValue m k) = Inr b"
  by (auto simp: needHex_def need_def flagValue_def bindE_Inr_iff split: option.splits if_splits)

lemma verdictStatus_0 [simp]: "verdictStatus v = 0 \<longleftrightarrow> v = CrossAgree"
  by (simp add: verdictStatus_def split: crossVerdict.splits)

lemma crossCheck_agree:
  "crossCheck hasView m r n root peerProof = (CrossAgree, why) \<Longrightarrow>
     hasView \<and> (n = m \<and> root = r \<or> m < n \<and> (\<exists>ps. peerProof = Some ps \<and> VerifyConsistency m n ps r root))"
  by (auto simp: crossCheck_def split: if_splits option.splits)

text \<open>The part of \<open>runCompare\<close> after the peer's checkpoint is fetched and verified.\<close>

lemma runCompare_exits:
  assumes "runCompare js net disk args = Exits status (peerName, why)"
  shows "\<exists>m px py st (pr :: peerCosigResp) sig n root ourRoot peerProof v. flagMap args = Inr m \<and>
     needHex m ''peer-pub-x'' = Inr px \<and> needHex m ''peer-pub-y'' = Inr py \<and>
     loadState js (flagValue m ''state'') (disk (flagValue m ''state'')) = Inr st \<and>
     PRWitness pr = peerName \<and>
     VerifyCheckpointSig (bytes_of_string (PRCheckpointBody pr)) sig px py \<and>
     ParseCheckpoint (bytes_of_string (PRCheckpointBody pr)) = Inr (originFlag m, n, root) \<and>
     (WRoot st \<noteq> [] \<longrightarrow> hexRoot (WRoot st) = Some ourRoot) \<and>
     crossCheck (WRoot st \<noteq> []) (WSize st) ourRoot n root peerProof = (v, why) \<and>
     status = verdictStatus v"
  using assms unfolding runCompare_def
  by (auto simp: bindE_Inr_iff Let_def split: if_splits option.splits prod.splits) blast+

text \<open>\<open>he-witness compare\<close> exits with status 0 only if the peer's checkpoint is signed under the
  pinned peer key for the expected origin, and it is our persisted view or comes with a valid
  consistency proof from it.\<close>

theorem runCompare_exit_0:
  assumes "runCompare js net disk args = Exits 0 (peerName, why)"
  shows "\<exists>m px py st body sig n root ourRoot. flagMap args = Inr m \<and>
     hex_decode (flagValue m ''peer-pub-x'') = Inr px \<and> hex_decode (flagValue m ''peer-pub-y'') = Inr py \<and>
     loadState js (flagValue m ''state'') (disk (flagValue m ''state'')) = Inr st \<and>
     VerifyCheckpointSig body sig px py \<and> ParseCheckpoint body = Inr (originFlag m, n, root) \<and>
     hexRoot (WRoot st) = Some ourRoot \<and>
     (n = WSize st \<and> root = ourRoot \<or>
      WSize st < n \<and> (\<exists>ps. VerifyConsistency (WSize st) n ps ourRoot root))"
proof -
  from runCompare_exits [OF assms] obtain m px py st and pr :: peerCosigResp and sig n root ourRoot peerProof v where
    h: "flagMap args = Inr m" "needHex m ''peer-pub-x'' = Inr px" "needHex m ''peer-pub-y'' = Inr py"
      "loadState js (flagValue m ''state'') (disk (flagValue m ''state'')) = Inr st"
      "VerifyCheckpointSig (bytes_of_string (PRCheckpointBody pr)) sig px py"
      "ParseCheckpoint (bytes_of_string (PRCheckpointBody pr)) = Inr (originFlag m, n, root)"
    and view: "WRoot st \<noteq> [] \<longrightarrow> hexRoot (WRoot st) = Some ourRoot"
    and cc: "crossCheck (WRoot st \<noteq> []) (WSize st) ourRoot n root peerProof = (v, why)" "0 = verdictStatus v"
    by blast
  have "v = CrossAgree" using cc(2) verdictStatus_0 by metis
  with cc(1) crossCheck_agree view have "hexRoot (WRoot st) = Some ourRoot"
      "n = WSize st \<and> root = ourRoot \<or> WSize st < n \<and> (\<exists>ps. VerifyConsistency (WSize st) n ps ourRoot root)"
    by blast+
  with h needHex_Inr show ?thesis by blast
qed

text \<open>\<open>he-witness fetch-proof\<close> exits with status 0 only for a proof that convicts under the four
  pinned keys, of the log named by \<open>--origin\<close> if that flag is given.\<close>

theorem runFetchProof_exit_0:
  assumes "runFetchProof js net args = Exits 0 out"
  shows "\<exists>m aX aY bX bY (p :: equivProof) cosigA cosigB origin n rA rB. flagMap args = Inr m \<and>
     pinnedKeys m = Inr (aX, aY, bX, bY) \<and>
     VerifyCheckpointSig (bytes_of_string (ECheckpointBody (EA p))) cosigA aX aY \<and>
     VerifyCheckpointSig (bytes_of_string (ECheckpointBody (EB p))) cosigB bX bY \<and>
     ParseCheckpoint (bytes_of_string (ECheckpointBody (EA p))) = Inr (origin, n, rA) \<and>
     ParseCheckpoint (bytes_of_string (ECheckpointBody (EB p))) = Inr (origin, n, rB) \<and> rA \<noteq> rB \<and>
     flagValue m ''origin'' \<in> {[], origin}"
proof -
  from assms obtain m and p :: equivProof and aX aY bX bY why where h: "flagMap args = Inr m" "pinnedKeys m = Inr (aX, aY, bX, bY)"
      "checkProof p (aX, aY, bX, bY) = Inr why"
      "flagValue m ''origin'' = [] \<or>
        (\<exists>s r. ParseCheckpoint (bytes_of_string (ECheckpointBody (EA p))) = Inr (flagValue m ''origin'', s, r))"
    unfolding runFetchProof_def
    by (auto simp: bindE_Inr_iff Let_def split: if_splits sum.splits) blast
  from h(3) obtain cosigA cosigB where
    "fst (VerifyEquivocation (bytes_of_string (ECheckpointBody (EA p))) cosigA aX aY
        (bytes_of_string (ECheckpointBody (EB p))) cosigB bX bY)"
    by (fastforce simp: checkProof_def bindE_Inr_iff Let_def case_prod_unfold split: if_splits)
  then obtain origin n rA rB where
    "VerifyCheckpointSig (bytes_of_string (ECheckpointBody (EA p))) cosigA aX aY"
    "VerifyCheckpointSig (bytes_of_string (ECheckpointBody (EB p))) cosigB bX bY"
    "ParseCheckpoint (bytes_of_string (ECheckpointBody (EA p))) = Inr (origin, n, rA)"
    "ParseCheckpoint (bytes_of_string (ECheckpointBody (EB p))) = Inr (origin, n, rB)" "rA \<noteq> rB"
    by (auto simp: VerifyEquivocation_def split: sum.splits if_splits)
  moreover from this(3) h(4) have "flagValue m ''origin'' \<in> {[], origin}" by auto
  ultimately show ?thesis using h(1,2) by blast
qed

end
