(* ===== verification/Witness_Machine.thy ===== *)
theory Witness_Machine
  imports Witness_Daemon
begin

text \<open>
  The witness as a state machine. The ticker goroutine runs \<open>once\<close>, \<open>checkPeers\<close> (a scan, then a
  commit) and \<open>pullPeerProofs\<close> in turn; the intake handler may run between any two of these, in
  particular between a scan and its commit; a restart loads the persisted view. Invariants are
  proved by rule induction on runs. \<open>Published\<close> is a ghost field, the bodies cosigned so far.
\<close>

section \<open>Steps and runs\<close>

record system =
  Daemon :: daemon
  Disk :: disk_file
  Pending :: "scan option"
  Published :: "bytes list"

datatype event =
    Poll network "int option" "disk_file option"
  | Scan "string \<Rightarrow> network"
  | Commit
  | Pull "string \<Rightarrow> network"
  | Intake string "equivProof option"
  | Restart

definition start :: "config \<Rightarrow> peer list \<Rightarrow> witnessState \<Rightarrow> daemon" where
  "start cfg ps st = \<lparr> Cfg = cfg, Peers = ps, St = st, Latest = None, LastErr = NoError,
     HealthOK = False, PeerStatus = Map.empty, Equivoc = False, Proof = None, Proofs = [],
     SeenProof = [] \<rparr>"

definition cosignedBy :: "json_decoders \<Rightarrow> network \<Rightarrow> int option \<Rightarrow> daemon \<Rightarrow> bytes list" where
  "cosignedBy js net nonce d =
     (case fst (poll js net nonce (Cfg d) (St d)) of
        Inl _ \<Rightarrow> []
      | Inr r \<Rightarrow> if Accepted r then [Body r] else [])"

inductive step :: "json_decoders \<Rightarrow> (witnessState \<Rightarrow> bytes) \<Rightarrow> system \<Rightarrow> event \<Rightarrow> system \<Rightarrow> bool"
  for js marshal where
  poll_step: "step js marshal s (Poll net nonce failure)
      (s\<lparr> Daemon := d, Disk := disk, Published := Published s @ cosignedBy js net nonce (Daemon s) \<rparr>)"
  if "Pending s = None" and "once js marshal net nonce failure (Daemon s) (Disk s) = (d, disk)"
| scan_step: "step js marshal s (Scan nets)
      (s\<lparr> Pending := Some (scanPeers js nets (Cfg (Daemon s)) (readView (Daemon s)) (Peers (Daemon s))) \<rparr>)"
  if "Pending s = None" and "Peers (Daemon s) \<noteq> []"
| commit_step: "step js marshal s Commit (s\<lparr> Daemon := fst (commitScan sc (Daemon s)), Pending := None \<rparr>)"
  if "Pending s = Some sc"
| pull_step: "step js marshal s (Pull nets) (s\<lparr> Daemon := fst (pullPeerProofs js nets (Daemon s)) \<rparr>)"
  if "Pending s = None"
| intake_step: "step js marshal s (Intake httpMethod decoded)
      (s\<lparr> Daemon := fst (snd (handleEquivocationIntake httpMethod decoded (Daemon s))) \<rparr>)"
| restart_step: "step js marshal s Restart
      (s\<lparr> Daemon := start (Cfg (Daemon s)) (Peers (Daemon s)) st, Pending := None \<rparr>)"
  if "loadState js (CStatePath (Cfg (Daemon s))) (Disk s) = Inr st"

inductive_cases stepE: "step js marshal s e s'"

inductive run :: "json_decoders \<Rightarrow> (witnessState \<Rightarrow> bytes) \<Rightarrow> system \<Rightarrow> event list \<Rightarrow> system \<Rightarrow> bool"
  for js marshal where
  run_nil: "run js marshal s [] s"
| run_snoc: "run js marshal s es s' \<Longrightarrow> step js marshal s' e s'' \<Longrightarrow> run js marshal s (es @ [e]) s''"

inductive_simps run_Nil_iff: "run js marshal s [] s'"

text \<open>Invariants of steps hold along runs.\<close>

lemma run_invariant:
  assumes "run js marshal s es s'" and "Q s"
    and "\<And>s e s'. step js marshal s e s' \<Longrightarrow> e \<in> set es \<Longrightarrow> Q s \<Longrightarrow> Q s'"
  shows "Q s'"
  using assms
proof (induction rule: run.induct)
  case (run_snoc s es s' e s'')
  have "Q s'" by (rule run_snoc.IH) (use run_snoc.prems in auto)
  then show ?case using run_snoc.hyps(2) run_snoc.prems(2) by simp
qed

lemma run_no_restart:
  assumes "run js marshal s es s'" and "Restart \<notin> set es" and "Q s"
    and "\<And>s e s'. step js marshal s e s' \<Longrightarrow> e \<noteq> Restart \<Longrightarrow> Q s \<Longrightarrow> Q s'"
  shows "Q s'"
  by (rule run_invariant [OF assms(1), where Q = Q, OF assms(3)]) (metis assms(2,4))

section \<open>What the operations leave alone\<close>

lemma recordProofLocked_fields [simp]:
  "Cfg (recordProofLocked p d) = Cfg d" "Peers (recordProofLocked p d) = Peers d"
  "St (recordProofLocked p d) = St d" "Latest (recordProofLocked p d) = Latest d"
  "HealthOK (recordProofLocked p d) = HealthOK d" "Equivoc (recordProofLocked p d) = Equivoc d"
  "Proof (recordProofLocked p d) = Proof d" "PeerStatus (recordProofLocked p d) = PeerStatus d"
  by (simp_all add: recordProofLocked_def Let_def)

lemma commitScan_fields [simp]:
  "Cfg (fst (commitScan sc d)) = Cfg d" "Peers (fst (commitScan sc d)) = Peers d"
  "St (fst (commitScan sc d)) = St d" "Latest (fst (commitScan sc d)) = Latest d"
  "Equivoc (fst (commitScan sc d)) = (Equivoc d \<or> AnyEquiv sc)"
  by (simp_all add: commitScan_def Let_def split: option.splits)

lemma adopt_fields [simp]:
  "Cfg (fst (adopt p d)) = Cfg d" "Peers (fst (adopt p d)) = Peers d" "St (fst (adopt p d)) = St d"
  "Latest (fst (adopt p d)) = Latest d" "Equivoc (fst (adopt p d))"
  "Proof (fst (adopt p d)) = (case Proof d of None \<Rightarrow> Some p | Some q \<Rightarrow> Some q)"
  by (simp_all add: adopt_def Let_def split: option.splits)

lemma tryAdopt_cases:
  "tryAdopt p d = ((True, snd (verifyProof d p)), adopt p d) \<and> fst (verifyProof d p) \<or>
   tryAdopt p d = ((False, snd (verifyProof d p)), d, []) \<and> \<not> fst (verifyProof d p)"
  by (cases "verifyProof d p") (simp add: tryAdopt_def)

lemma pullLoop_cases: "fst (pullLoop js nets ps d) = d \<or>
    (\<exists>p. fst (verifyProof d p) \<and> fst (pullLoop js nets ps d) = fst (adopt p d))"
proof (induction ps)
  case (Cons q ps)
  show ?case
  proof (cases "getJSON (nets (PName q)) (toEquivProof js) (PURL q @ ''/equivocation-proof'')")
    case (Inr pr)
    then show ?thesis using tryAdopt_cases [of pr d] Cons.IH by auto
  qed (use Cons.IH in simp)
qed simp

lemma pullPeerProofs_cases: "fst (pullPeerProofs js nets d) = d \<or>
    (\<exists>p. fst (verifyProof d p) \<and> fst (pullPeerProofs js nets d) = fst (adopt p d))"
  using pullLoop_cases by (simp add: pullPeerProofs_def)

lemma intake_cases: "fst (snd (handleEquivocationIntake httpMethod decoded d)) = d \<or>
    (\<exists>p. decoded = Some p \<and> fst (verifyProof d p) \<and>
       fst (snd (handleEquivocationIntake httpMethod decoded d)) = fst (adopt p d))"
proof (cases decoded)
  case (Some p)
  then show ?thesis
    using tryAdopt_cases [of p d] by (auto simp: handleEquivocationIntake_def)
qed (simp add: handleEquivocationIntake_def)

lemma once_fields:
  assumes "once js marshal net nonce failure d disk = (d', disk')"
  shows "Cfg d' = Cfg d" "Peers d' = Peers d" "Equivoc d' = Equivoc d" "Proof d' = Proof d"
    "Proofs d' = Proofs d" "SeenProof d' = SeenProof d"
    "St d' = snd (poll js net nonce (Cfg d) (St d))"
  using assms by (auto simp: once_def Let_def split: prod.splits sum.splits if_splits)

text \<open>A step either polls, or changes only the alarm part of the daemon, or restarts it.\<close>

lemma step_view:
  assumes "step js marshal s e s'"
  shows "Cfg (Daemon s') = Cfg (Daemon s) \<and> Peers (Daemon s') = Peers (Daemon s) \<and>
    (case e of
       Poll net nonce failure \<Rightarrow> St (Daemon s') = snd (poll js net nonce (Cfg (Daemon s)) (St (Daemon s))) \<and>
         Published s' = Published s @ cosignedBy js net nonce (Daemon s)
     | Restart \<Rightarrow> loadState js (CStatePath (Cfg (Daemon s))) (Disk s) = Inr (St (Daemon s')) \<and>
         Published s' = Published s \<and> Disk s' = Disk s
     | _ \<Rightarrow> St (Daemon s') = St (Daemon s) \<and> Published s' = Published s \<and> Disk s' = Disk s)"
  using assms
proof (cases rule: step.cases)
  case (poll_step net nonce failure d disk)
  then show ?thesis using once_fields [OF poll_step(4)] by simp
next
  case (pull_step nets)
  then show ?thesis using pullPeerProofs_cases [of js nets "Daemon s"] by auto
next
  case (intake_step httpMethod decoded)
  then show ?thesis using intake_cases [of httpMethod decoded "Daemon s"] by auto
qed (simp_all add: start_def)

section \<open>The alarm\<close>

lemma step_latch:
  assumes "step js marshal s e s'" and "e \<noteq> Restart" and "Equivoc (Daemon s)"
  shows "Equivoc (Daemon s')"
  using assms
proof (cases rule: step.cases)
  case (poll_step net nonce failure d disk)
  then show ?thesis using once_fields [OF poll_step(4)] assms(3) by simp
next
  case (pull_step nets)
  then show ?thesis using pullPeerProofs_cases [of js nets "Daemon s"] assms(3) by auto
next
  case (intake_step httpMethod decoded)
  then show ?thesis using intake_cases [of httpMethod decoded "Daemon s"] assms(3) by auto
qed (use assms in simp_all)

text \<open>The forensic set: at most 64 proofs, of pairwise different fingerprints, remembered as seen; there is
  a representative exactly when there is any, and holding one means the alarm is latched.\<close>

definition proofsInv :: "daemon \<Rightarrow> bool" where
  "proofsInv d \<longleftrightarrow> length (Proofs d) \<le> maxRetainedProofs \<and> distinct (map proofKey (Proofs d)) \<and>
     set (SeenProof d) = proofKey ` set (Proofs d) \<and> (Proofs d = [] \<longleftrightarrow> Proof d = None) \<and>
     set_option (Proof d) \<subseteq> set (Proofs d) \<and> (Proof d = None \<or> Equivoc d)"

lemma proofsInv_start: "proofsInv (start cfg ps st)"
  by (simp add: proofsInv_def start_def)

lemma proofsInv_update:
  "proofsInv d \<Longrightarrow> Proofs d' = Proofs d \<Longrightarrow> SeenProof d' = SeenProof d \<Longrightarrow> Proof d' = Proof d \<Longrightarrow>
   Equivoc d \<Longrightarrow> Equivoc d' \<Longrightarrow> proofsInv d'"
  by (simp add: proofsInv_def)

lemma recordProofLocked_first:
  "Proofs d = [] \<Longrightarrow> SeenProof d = [] \<Longrightarrow> Proofs (recordProofLocked p d) = [p] \<and>
     SeenProof (recordProofLocked p d) = [proofKey p]"
  by (simp add: recordProofLocked_def Let_def maxRetainedProofs_def)

lemma proofsInv_record:
  assumes "proofsInv d" and "Proof d \<noteq> None"
  shows "proofsInv (recordProofLocked p d)"
  using assms by (auto simp: proofsInv_def recordProofLocked_def Let_def)

lemma proofsInv_first:
  assumes "proofsInv d" and "Proof d = None" and "Equivoc d'" and "Proof d' = Some p"
    and "Proofs d' = Proofs d" and "SeenProof d' = SeenProof d"
  shows "proofsInv (recordProofLocked p d')"
proof -
  have "Proofs d' = []" "SeenProof d' = []"
    using assms by (auto simp: proofsInv_def)
  from recordProofLocked_first [OF this, of p] assms(3,4) show ?thesis
    by (simp add: proofsInv_def maxRetainedProofs_def)
qed

lemma proofsInv_adopt:
  assumes "proofsInv d"
  shows "proofsInv (fst (adopt p d))"
proof (cases "Proof d")
  case None
  then show ?thesis
    using proofsInv_first [OF assms None] by (simp add: adopt_def Let_def)
next
  case (Some q)
  have "proofsInv (d\<lparr> Equivoc := True, HealthOK := False \<rparr>)"
    using assms by (simp add: proofsInv_def)
  then show ?thesis
    using proofsInv_record [of "d\<lparr> Equivoc := True, HealthOK := False \<rparr>" p] Some
    by (simp add: adopt_def Let_def)
qed

text \<open>A fingerprint depends only on the unordered pair of bodies.\<close>

lemma proofKey_bodies:
  assumes "{ECheckpointBody (EA p), ECheckpointBody (EB p)} = {ECheckpointBody (EA q), ECheckpointBody (EB q)}"
  shows "proofKey p = proofKey q"
proof -
  have "(ECheckpointBody (EA p) = ECheckpointBody (EA q) \<and> ECheckpointBody (EB p) = ECheckpointBody (EB q)) \<or>
      (ECheckpointBody (EA p) = ECheckpointBody (EB q) \<and> ECheckpointBody (EB p) = ECheckpointBody (EA q))"
    using assms by (simp only: doubleton_eq_iff)
  then show ?thesis
    by (elim disjE conjE; cases "ECheckpointBody (EA q)" "ECheckpointBody (EB q)" rule: linorder_cases)
      (auto simp: proofKey_def Let_def dest: less_asym)
qed

lemma distinct_bodies:
  "distinct (map proofKey ps) \<Longrightarrow>
   distinct (map (\<lambda>p. {ECheckpointBody (EA p), ECheckpointBody (EB p)}) ps)"
proof (induction ps)
  case (Cons p ps)
  have "{ECheckpointBody (EA p), ECheckpointBody (EB p)} \<noteq> {ECheckpointBody (EA q), ECheckpointBody (EB q)}"
    if "q \<in> set ps" for q
    using Cons.prems that proofKey_bodies [of p q] by (metis distinct.simps(2) image_eqI list.map(2) list.set_map)
  then show ?case using Cons by auto
qed simp

lemma recordProofLocked_Proofs:
  "Proofs (recordProofLocked p d) = Proofs d @
     (if proofKey p \<notin> set (SeenProof d) \<and> length (Proofs d) < maxRetainedProofs then [p] else [])"
  by (simp add: recordProofLocked_def Let_def not_le)

lemma adopt_Proofs:
  "proofsInv d \<Longrightarrow> Proofs (fst (adopt p d)) = Proofs d @
     (if proofKey p \<notin> proofKey ` set (Proofs d) \<and> length (Proofs d) < maxRetainedProofs then [p] else [])"
  by (simp add: adopt_def Let_def recordProofLocked_Proofs proofsInv_def)

lemma intake_Proofs:
  assumes "proofsInv d"
  shows "case handleEquivocationIntake ''POST'' (Some p) d of
     ((status, _), d', _) \<Rightarrow> Proofs d' = Proofs d @
       (if status = 200 \<and> proofKey p \<notin> proofKey ` set (Proofs d) \<and> length (Proofs d) < 64 then [p] else [])"
  using tryAdopt_cases [of p d] adopt_Proofs [OF assms, of p]
  by (cases "adopt p d") (auto simp: handleEquivocationIntake_def maxRetainedProofs_def)

text \<open>A scan only ever names a peer for the proof after it has seen a divergence.\<close>

definition scanInv :: "scan \<Rightarrow> bool" where
  "scanInv sc \<longleftrightarrow> ProofPeer sc = None \<or> AnyEquiv sc"

lemma scanPeer_inv: "scanInv acc \<Longrightarrow> scanInv (scanPeer js net cfg v p acc)"
  by (auto simp: scanInv_def scanPeer_def Let_def
      split: sum.splits prod.splits crossVerdict.splits if_splits)

lemma scanPeers_inv: "scanInv (scanPeers js nets cfg v ps)"
proof -
  have "scanInv (fold (\<lambda>p. scanPeer js (nets (PName p)) cfg v p) ps acc)" if "scanInv acc" for acc
    using that by (induction ps arbitrary: acc) (simp_all add: scanPeer_inv)
  then show ?thesis by (simp add: scanPeers_def scanInv_def)
qed

lemma proofsInv_commit:
  assumes "proofsInv d" and "scanInv sc"
  shows "proofsInv (fst (commitScan sc d))"
proof (cases "ProofPeer sc \<noteq> None \<and> Proof d = None \<and> Latest d \<noteq> None")
  case True
  then obtain b r where br: "ProofPeer sc = Some b" "Latest d = Some r" "AnyEquiv sc"
    using assms(2) by (auto simp: scanInv_def)
  then show ?thesis
    using proofsInv_first [OF assms(1)] True by (simp add: commitScan_def Let_def)
next
  case False
  then have "fst (commitScan sc d) = (let d = d\<lparr> PeerStatus := Status sc \<rparr>
      in if AnyEquiv sc then d\<lparr> Equivoc := True, HealthOK := False \<rparr> else d)"
    by (auto simp: commitScan_def Let_def split: option.splits)
  then show ?thesis using assms(1) by (auto simp: proofsInv_def Let_def)
qed

lemma step_proofsInv:
  assumes "step js marshal s e s'" and "proofsInv (Daemon s) \<and> (\<forall>sc. Pending s = Some sc \<longrightarrow> scanInv sc)"
  shows "proofsInv (Daemon s') \<and> (\<forall>sc. Pending s' = Some sc \<longrightarrow> scanInv sc)"
  using assms
proof (cases rule: step.cases)
  case (poll_step net nonce failure d disk)
  then show ?thesis
    using once_fields [OF poll_step(4)] assms(2) by (auto simp: proofsInv_def)
next
  case (pull_step nets)
  then show ?thesis
    using pullPeerProofs_cases [of js nets "Daemon s"] assms(2) proofsInv_adopt by auto
next
  case (intake_step httpMethod decoded)
  then show ?thesis
    using intake_cases [of httpMethod decoded "Daemon s"] assms(2) proofsInv_adopt by auto
qed (use assms in \<open>simp_all add: scanPeers_inv proofsInv_commit proofsInv_start\<close>)

section \<open>The cosigned history\<close>

text \<open>The view is at least as new as every cosigned checkpoint, and the root cosigned at its size is
  its root; and the history has one root per size.\<close>

definition covers :: "string \<Rightarrow> witnessState \<Rightarrow> bytes list \<Rightarrow> bool" where
  "covers origin st bodies \<longleftrightarrow> (bodies = [] \<or> hexRoot (WRoot st) \<noteq> None) \<and>
     (\<forall>b\<in>set bodies. \<exists>n r. ParseCheckpoint b = Inr (origin, n, r) \<and>
        (n < WSize st \<or> n = WSize st \<and> hexRoot (WRoot st) = Some r))"

definition oneRoot :: "bytes list \<Rightarrow> bool" where
  "oneRoot bodies \<longleftrightarrow> (\<forall>a\<in>set bodies. \<forall>b\<in>set bodies. \<forall>origin n r r'.
     ParseCheckpoint a = Inr (origin, n, r) \<longrightarrow> ParseCheckpoint b = Inr (origin, n, r') \<longrightarrow> r = r')"

lemma covers_origin:
  "covers origin st bodies \<Longrightarrow> b \<in> set bodies \<Longrightarrow> ParseCheckpoint b = Inr (origin', n, r) \<Longrightarrow> origin' = origin"
  by (fastforce simp: covers_def)

lemma oneRootD:
  "oneRoot bodies \<Longrightarrow> a \<in> set bodies \<Longrightarrow> b \<in> set bodies \<Longrightarrow> ParseCheckpoint a = Inr (origin, n, r) \<Longrightarrow>
   ParseCheckpoint b = Inr (origin, n, r') \<Longrightarrow> r = r'"
  by (simp add: oneRoot_def)

lemma view_after:
  assumes "servedCheckpoint js net cfg body n root"
    and "st' = advance (COrigin cfg) n root st \<or> st' = st \<and> WSize st = n \<and> hexRoot (WRoot st) = Some root"
  shows "WSize st' = n" "hexRoot (WRoot st') = Some root" "ParseCheckpoint body = Inr (COrigin cfg, n, root)"
    "0 \<le> n"
proof -
  from assms(1) show p: "ParseCheckpoint body = Inr (COrigin cfg, n, root)"
    by (auto simp: servedCheckpoint_def)
  from ParseCheckpoint_fields [OF p] assms(2)
  show "WSize st' = n" "hexRoot (WRoot st') = Some root" "0 \<le> n"
    by (auto simp: advance_def)
qed

lemma covers_extend:
  assumes "covers (COrigin cfg) st bodies" and "extendsView js net cfg st n root"
    and "WSize st' = n" and "hexRoot (WRoot st') = Some root"
  shows "covers (COrigin cfg) st' bodies"
proof -
  have "WRoot st \<noteq> []" if "bodies \<noteq> []" using assms(1) that by (auto simp: covers_def)
  then have "WSize st < n \<or> (WSize st = n \<and> hexRoot (WRoot st) = Some root)" if "bodies \<noteq> []"
    using assms(2) that by (auto simp: extendsView_def)
  then show ?thesis
    using assms(1,3,4) by (cases "bodies = []") (fastforce simp: covers_def)+
qed

lemma covers_publish:
  assumes "covers origin st bodies" and "oneRoot bodies"
    and "ParseCheckpoint body = Inr (origin, n, root)" "WSize st = n" "hexRoot (WRoot st) = Some root"
  shows "covers origin st (bodies @ [body]) \<and> oneRoot (bodies @ [body])"
proof
  show "covers origin st (bodies @ [body])"
    using assms by (auto simp: covers_def)
  have new: "r = root" if "b \<in> set bodies" "ParseCheckpoint b = Inr (origin', n, r)" for b origin' r
    using assms(1,4,5) that by (fastforce simp: covers_def)
  show "oneRoot (bodies @ [body])"
    using assms(2,3) new by (auto simp: oneRoot_def)
qed

lemma poll_history:
  assumes "covers (COrigin (Cfg d)) (St d) bodies" and "oneRoot bodies"
    and "poll js net nonce (Cfg d) (St d) = (res, st')"
  shows "covers (COrigin (Cfg d)) st' (bodies @ cosignedBy js net nonce d) \<and>
     oneRoot (bodies @ cosignedBy js net nonce d) \<and> covers (COrigin (Cfg d)) st' bodies"
proof -
  from poll_view [OF assms(3)] consider
      "st' = St d" "\<not> (\<exists>r. res = Inr r \<and> Accepted r)"
    | body n root why where "servedCheckpoint js net (Cfg d) body n root"
        "extendsView js net (Cfg d) (St d) n root"
        "st' = advance (COrigin (Cfg d)) n root (St d) \<or>
           st' = St d \<and> WSize (St d) = n \<and> hexRoot (WRoot (St d)) = Some root"
        "res = Inr (accept nonce body (CKey (Cfg d)) (CName (Cfg d)) why)"
    by blast
  then show ?thesis
  proof cases
    case 1
    then have "cosignedBy js net nonce d = []"
      using assms(3) by (auto simp: cosignedBy_def split: sum.splits)
    with 1 assms(1,2) show ?thesis by simp
  next
    case 2
    note view = view_after [OF 2(1,3)]
    have cov: "covers (COrigin (Cfg d)) st' bodies"
      by (rule covers_extend [OF assms(1) 2(2) view(1,2)])
    have "cosignedBy js net nonce d = [] \<or> cosignedBy js net nonce d = [body]"
      using assms(3) 2(4) by (auto simp: cosignedBy_def accept_Some)
    then show ?thesis
      using covers_publish [OF cov assms(2) view(3,1,2)] cov assms(2) by auto
  qed
qed

text \<open>The state on disk, when there is one to come back to, covers the history too.\<close>

definition saved :: "json_decoders \<Rightarrow> system \<Rightarrow> bool" where
  "saved js s \<longleftrightarrow> Published s = [] \<or>
     (\<exists>raw st. Disk s = FileContents raw \<and> toState js raw = Some st \<and>
        covers (COrigin (Cfg (Daemon s))) st (Published s))"

definition historyInv :: "system \<Rightarrow> bool" where
  "historyInv s \<longleftrightarrow> covers (COrigin (Cfg (Daemon s))) (St (Daemon s)) (Published s) \<and>
     oneRoot (Published s)"

lemma covers_Nil [simp]: "covers origin st []"
  by (simp add: covers_def)

lemma step_history:
  assumes "step js marshal s e s'" and "e \<noteq> Restart" and "historyInv s"
  shows "historyInv s'"
proof -
  note v = step_view [OF assms(1)]
  show ?thesis
  proof (cases e)
    case (Poll net nonce failure)
    then show ?thesis
      using v assms(3) poll_history [of "Daemon s" "Published s" js net nonce]
      by (cases "poll js net nonce (Cfg (Daemon s)) (St (Daemon s))") (auto simp: historyInv_def)
  qed (use v assms in \<open>auto simp: historyInv_def\<close>)
qed

text \<open>Events under which the view survives restarts: the state has a file, and it is written.\<close>

fun durable :: "event \<Rightarrow> bool" where
  "durable (Poll net nonce failure) \<longleftrightarrow> failure = None"
| "durable _ \<longleftrightarrow> True"

lemma once_disk:
  assumes "once js marshal net nonce None d disk = (d', disk')" and "CStatePath (Cfg d) \<noteq> []"
  shows "disk' = (if cosignedBy js net nonce d = [] then disk else FileContents (marshal (St d')))"
  using assms by (auto simp: once_def Let_def saveState_def cosignedBy_def split: prod.splits sum.splits)

text \<open>What the code relies on of \<open>encoding/json\<close> for its state file. A state whose strings are valid
  UTF-8 and whose size is a 64-bit int is decoded from what it was encoded to, and only such states
  are ever decoded: the decoder replaces invalid UTF-8 and refuses numbers that do not fit.\<close>

definition storable :: "witnessState \<Rightarrow> bool" where
  "storable st \<longleftrightarrow> validUTF8 (WOrigin st) \<and> validUTF8 (WRoot st) \<and> int64 (WSize st)"

definition stateCodec :: "json_decoders \<Rightarrow> (witnessState \<Rightarrow> bytes) \<Rightarrow> bool" where
  "stateCodec js marshal \<longleftrightarrow> (\<forall>st. storable st \<longrightarrow> toState js (marshal st) = Some st) \<and>
     (\<forall>raw st. toState js raw = Some st \<longrightarrow> storable st)"

lemma storable_baseline: "storable baseline"
  by (simp add: storable_def baseline_def int64_def validUTF8.simps)

lemma ParseCheckpoint_int64: "ParseCheckpoint body = Inr (origin, n, root) \<Longrightarrow> int64 n"
  by (auto simp: ParseCheckpoint_lines intro: atoi_int64)

lemma storable_poll:
  assumes "poll js net nonce cfg st = (res, st')" and "validUTF8 (COrigin cfg)" and "storable st"
  shows "storable st'"
proof -
  from poll_view [OF assms(1)] consider "st' = st"
    | body n root where "servedCheckpoint js net cfg body n root" "st' = advance (COrigin cfg) n root st"
    by blast
  then show ?thesis
  proof cases
    case 2
    then have "int64 n" using ParseCheckpoint_int64 by (auto simp: servedCheckpoint_def)
    with 2 assms(2) show ?thesis by (simp add: storable_def advance_def)
  qed (use assms(3) in simp)
qed

text \<open>The invariant of durable runs: the history, the state on disk, and that the view can be stored.\<close>

definition durableInv :: "json_decoders \<Rightarrow> system \<Rightarrow> bool" where
  "durableInv js s \<longleftrightarrow> CStatePath (Cfg (Daemon s)) \<noteq> [] \<and> validUTF8 (COrigin (Cfg (Daemon s))) \<and>
     storable (St (Daemon s)) \<and> historyInv s \<and> saved js s"

lemma loadState_storable:
  assumes "loadState js statePath disk = Inr st" and "stateCodec js marshal"
  shows "storable st"
  using assms storable_baseline
  by (auto simp: loadState_def stateCodec_def split: if_splits disk_file.splits option.splits)

lemma step_storable:
  assumes "step js marshal s e s'" and "stateCodec js marshal" and "validUTF8 (COrigin (Cfg (Daemon s)))"
    and "storable (St (Daemon s))"
  shows "storable (St (Daemon s'))"
proof -
  note v = step_view [OF assms(1)]
  show ?thesis
  proof (cases e)
    case (Poll net nonce failure)
    then have "St (Daemon s') = snd (poll js net nonce (Cfg (Daemon s)) (St (Daemon s)))" using v by simp
    then show ?thesis using storable_poll [OF prod.collapse [symmetric] assms(3,4)] by simp
  next
    case Restart
    with v have "loadState js (CStatePath (Cfg (Daemon s))) (Disk s) = Inr (St (Daemon s'))" by simp
    then show ?thesis by (rule loadState_storable [OF _ assms(2)])
  qed (use v assms(4) in simp_all)
qed

lemma saved_step:
  assumes "step js marshal s e s'" and "durable e" and "stateCodec js marshal" and "durableInv js s"
    and "historyInv s'" and "storable (St (Daemon s'))"
  shows "saved js s'"
proof (cases e)
  case (Poll net nonce failure)
  then have f: "failure = None" using assms(2) by simp
  note v = step_view [OF assms(1)]
  have path: "CStatePath (Cfg (Daemon s)) \<noteq> []" using assms(4) by (simp add: durableInv_def)
  have "Disk s' = (if cosignedBy js net nonce (Daemon s) = [] then Disk s
      else FileContents (marshal (St (Daemon s'))))"
    using assms(1) unfolding Poll f
    by (auto elim!: stepE dest: once_disk [OF _ path])
  moreover have "toState js (marshal (St (Daemon s'))) = Some (St (Daemon s'))"
    using assms(3,6) by (simp add: stateCodec_def)
  ultimately show ?thesis
    using assms(4,5) v Poll by (cases "cosignedBy js net nonce (Daemon s) = []")
      (auto simp: saved_def historyInv_def durableInv_def)
qed (use step_view [OF assms(1)] assms(4) in \<open>auto simp: saved_def durableInv_def\<close>)

lemma step_durable:
  assumes "step js marshal s e s'" and "durable e" and "stateCodec js marshal" and "durableInv js s"
  shows "durableInv js s'"
proof -
  note v = step_view [OF assms(1)]
  have st: "storable (St (Daemon s'))"
    by (rule step_storable [OF assms(1,3)]) (use assms(4) in \<open>simp_all add: durableInv_def\<close>)
  have h: "historyInv s'"
  proof (cases "e = Restart")
    case True
    then have "covers (COrigin (Cfg (Daemon s))) (St (Daemon s')) (Published s)"
      using v assms(4) by (auto simp: durableInv_def saved_def loadState_def split: if_splits)
    then show ?thesis using v True assms(4) by (simp add: durableInv_def historyInv_def)
  next
    case False
    then show ?thesis by (rule step_history [OF assms(1)]) (use assms(4) in \<open>simp add: durableInv_def\<close>)
  qed
  have "saved js s'" by (rule saved_step [OF assms h st])
  with v st h assms(4) show ?thesis by (simp add: durableInv_def)
qed

section \<open>The view as an append-only chain\<close>

text \<open>The abstract witness holds a checkpoint and replaces it only along accepted consistency checks.
  \<open>viewOf\<close> is the abstraction; a poll refines at most one such step.\<close>

definition viewOf :: "witnessState \<Rightarrow> (nat \<times> bytes) option" where
  "viewOf st = (if WSize st < 0 then None else map_option (\<lambda>r. (nat (WSize st), r)) (hexRoot (WRoot st)))"

definition chained :: "nat \<times> bytes \<Rightarrow> nat \<times> bytes \<Rightarrow> bool" where
  "chained c c' \<longleftrightarrow> (\<exists>steps. mlog.linked c steps \<and> mlog.final c steps = c')"

lemma linked_append:
  "mlog.linked c (xs @ ys) \<longleftrightarrow> mlog.linked c xs \<and> mlog.linked (mlog.final c xs) ys"
  by (induction c xs rule: mlog.linked.induct) auto

lemma final_append: "mlog.final c (xs @ ys) = mlog.final (mlog.final c xs) ys"
  by (induction c xs rule: mlog.final.induct) auto

lemma chained_refl: "chained c c"
  unfolding chained_def by (intro exI [of _ "[]"]) simp

lemma chained_step:
  assumes "chained c (m, r)" and "VerifyConsistency (int m) (int n) ps r root"
  shows "chained c (n, root)"
proof -
  from assms(1) obtain steps where "mlog.linked c steps" "mlog.final c steps = (m, r)"
    by (auto simp: chained_def)
  with assms(2) show ?thesis
    unfolding chained_def
    by (intro exI [of _ "steps @ [(ps, n, root)]"]) (simp add: linked_append final_append mcheck_def)
qed

lemma poll_chain:
  assumes "viewOf st = Some (m, r)" and "poll js net nonce cfg st = (res, st')" and "chained c (m, r)"
  shows "\<exists>c'. viewOf st' = Some c' \<and> chained c c'"
proof -
  from poll_view [OF assms(2)] consider "st' = st"
    | body n root where "servedCheckpoint js net cfg body n root" "extendsView js net cfg st n root"
        "st' = advance (COrigin cfg) n root st \<or> st' = st \<and> WSize st = n \<and> hexRoot (WRoot st) = Some root"
    by blast
  then show ?thesis
  proof cases
    case 1
    then show ?thesis using assms(1,3) by simp
  next
    case 2
    note view = view_after [OF 2(1,3)]
    from assms(1) have v: "WSize st = int m" "hexRoot (WRoot st) = Some r"
      by (auto simp: viewOf_def split: if_splits)
    then have "WRoot st \<noteq> []" by auto
    then have "n = int m \<and> root = r \<or> (\<exists>ps. VerifyConsistency (int m) n ps r root)"
      using 2(2) v by (auto simp: extendsView_def)
    moreover have "viewOf st' = Some (nat n, root)"
      using view by (simp add: viewOf_def)
    moreover have "chained c (nat n, root)" if "VerifyConsistency (int m) n ps r root" for ps
      using chained_step [OF assms(3), of "nat n" ps root] that view(4) by simp
    ultimately show ?thesis using assms(3) by auto
  qed
qed

lemma step_chain:
  assumes "step js marshal s e s'" and "e \<noteq> Restart"
    and "\<exists>c'. viewOf (St (Daemon s)) = Some c' \<and> chained c c'"
  shows "\<exists>c'. viewOf (St (Daemon s')) = Some c' \<and> chained c c'"
proof -
  note v = step_view [OF assms(1)]
  show ?thesis
  proof (cases e)
    case (Poll net nonce failure)
    obtain m r where c: "viewOf (St (Daemon s)) = Some (m, r)" "chained c (m, r)"
      using assms(3) by auto
    obtain res st' where poll: "poll js net nonce (Cfg (Daemon s)) (St (Daemon s)) = (res, st')"
      by (cases "poll js net nonce (Cfg (Daemon s)) (St (Daemon s))")
    then have "St (Daemon s') = st'" using v Poll by simp
    then show ?thesis using poll_chain [OF c(1) poll c(2)] by simp
  qed (use v assms in auto)
qed

section \<open>Properties of the machine\<close>

text \<open>C15: A witness never cosigns two checkpoints of the same size with different roots: not while it
  runs, whatever its peers, the network and the intake do, and not across restarts either if the
  state has a file, every save succeeds, the watched origin is valid UTF-8, the run starts with a
  state that JSON can carry (the baseline, or any state that was loaded), and \<open>encoding/json\<close> reads
  such states back (\<open>stateCodec\<close>).\<close>

theorem witness_cosigns_one_root_per_size:
  assumes "run js marshal s es s'" and "Published s = []"
    and "Restart \<notin> set es \<or> (CStatePath (Cfg (Daemon s)) \<noteq> [] \<and> list_all durable es \<and>
           stateCodec js marshal \<and> validUTF8 (COrigin (Cfg (Daemon s))) \<and> storable (St (Daemon s)))"
    and "a \<in> set (Published s')" "b \<in> set (Published s')"
    and "ParseCheckpoint a = Inr (origin, n, r)" "ParseCheckpoint b = Inr (origin', n, r')"
  shows "origin = COrigin (Cfg (Daemon s')) \<and> origin' = origin \<and> r = r'"
proof -
  have start: "historyInv s" "saved js s"
    using assms(2) by (simp_all add: historyInv_def saved_def oneRoot_def)
  have "historyInv s'"
    using assms(3)
  proof
    assume "Restart \<notin> set es"
    then show ?thesis
      by (rule run_no_restart [OF assms(1), where Q = historyInv]) (use start(1) step_history in blast)+
  next
    assume d: "CStatePath (Cfg (Daemon s)) \<noteq> [] \<and> list_all durable es \<and>
        stateCodec js marshal \<and> validUTF8 (COrigin (Cfg (Daemon s))) \<and> storable (St (Daemon s))"
    have "durableInv js s'"
      by (rule run_invariant [OF assms(1), of "durableInv js"])
        (use d start step_durable in \<open>auto simp: durableInv_def [of js s] list_all_iff\<close>)
    then show ?thesis by (simp add: durableInv_def)
  qed
  then have "covers (COrigin (Cfg (Daemon s'))) (St (Daemon s')) (Published s')" "oneRoot (Published s')"
    by (simp_all add: historyInv_def)
  moreover have "origin = COrigin (Cfg (Daemon s'))" "origin' = COrigin (Cfg (Daemon s'))"
    using covers_origin [OF calculation(1)] assms(4-7) by blast+
  ultimately show ?thesis using oneRootD assms(4-7) by blast
qed

text \<open>C16: The alarm is permanent while the witness runs: once an equivocation is latched, every later
  health check reports 503, whatever the log, the peers and the intake do.\<close>

theorem equivocation_alarm_is_permanent:
  assumes "run js marshal s es s'" and "Restart \<notin> set es" and "Equivoc (Daemon s)"
  shows "Equivoc (Daemon s') \<and> fst (handleHealth (Daemon s')) = 503"
proof -
  have "Equivoc (Daemon s')"
    by (rule run_no_restart [where Q = "\<lambda>s. Equivoc (Daemon s)", OF assms]) (rule step_latch)
  then show ?thesis by (simp add: handleHealth_def Let_def)
qed

text \<open>C21: The forensic set of a witness that started empty keeps at most 64 proofs, whatever is
  posted to it, and no two of them carry the same unordered pair of checkpoint bodies (nor the same
  fingerprint). It grows only at its end: a posted proof is kept exactly when it is answered 200,
  its fingerprint is new and there is room. The set is empty exactly when no proof is served (404);
  when it is not, the health check reports 503. (Two proofs of one fork may both be kept when the
  bodies spell it differently: the fingerprint is of the bytes.)\<close>

theorem forensic_set_bounded:
  assumes "run js marshal s es s'" and "Pending s = None" and "Daemon s = start cfg ps st"
  shows "length (Proofs (Daemon s')) \<le> 64 \<and> distinct (map proofKey (Proofs (Daemon s'))) \<and>
     distinct (map (\<lambda>q. {ECheckpointBody (EA q), ECheckpointBody (EB q)}) (Proofs (Daemon s'))) \<and>
     (Proofs (Daemon s') = [] \<longleftrightarrow> handleEquivocationProof (Daemon s') = (404, NoEquivocation)) \<and>
     (Proofs (Daemon s') = [] \<or> fst (handleHealth (Daemon s')) = 503) \<and>
     (case handleEquivocationIntake ''POST'' (Some p) (Daemon s') of
        ((status, _), d', _) \<Rightarrow> Proofs d' = Proofs (Daemon s') @
          (if status = 200 \<and> proofKey p \<notin> proofKey ` set (Proofs (Daemon s')) \<and>
              length (Proofs (Daemon s')) < 64 then [p] else []))"
proof -
  have "proofsInv (Daemon s') \<and> (\<forall>sc. Pending s' = Some sc \<longrightarrow> scanInv sc)"
  proof (rule run_invariant [where Q = "\<lambda>s. proofsInv (Daemon s) \<and> (\<forall>sc. Pending s = Some sc \<longrightarrow> scanInv sc)",
        OF assms(1)])
    show "proofsInv (Daemon s) \<and> (\<forall>sc. Pending s = Some sc \<longrightarrow> scanInv sc)"
      using assms(2,3) proofsInv_start by simp
  qed (rule step_proofsInv)
  then have inv: "proofsInv (Daemon s')" by blast
  then have keys: "distinct (map proofKey (Proofs (Daemon s')))" "length (Proofs (Daemon s')) \<le> 64"
    by (simp_all add: proofsInv_def maxRetainedProofs_def)
  from inv have "Proofs (Daemon s') = [] \<longleftrightarrow> handleEquivocationProof (Daemon s') = (404, NoEquivocation)"
      "Proofs (Daemon s') = [] \<or> fst (handleHealth (Daemon s')) = 503"
    by (auto simp: proofsInv_def handleEquivocationProof_def handleHealth_def Let_def split: option.splits)
  with keys distinct_bodies [OF keys(1)] intake_Proofs [OF inv, of p] show ?thesis by simp
qed

text \<open>C17: The view refines an append-only chain: from a view on, a running witness only ever moves to
  a checkpoint along consistency checks it has verified; so if the view it ends with is the root of a
  log and SHA-256 has no collision on the strings of those checks, the view it started from is the
  root of that log's prefix.\<close>

theorem witness_view_is_a_prefix:
  assumes "run js marshal s es s'" and "Restart \<notin> set es" and "viewOf (St (Daemon s)) = Some (m, r)"
    and "viewOf (St (Daemon s')) = Some (length leaves, mth leaves)"
  shows "\<exists>steps. mlog.linked (m, r) steps \<and> mlog.final (m, r) steps = (length leaves, mth leaves) \<and>
     (mlog.all_clean leaves (m, r) steps \<longrightarrow> m \<le> length leaves \<and> r = mth (take m leaves))"
proof -
  have "\<exists>c'. viewOf (St (Daemon s')) = Some c' \<and> chained (m, r) c'"
  proof (rule run_no_restart [where Q = "\<lambda>s. \<exists>c'. viewOf (St (Daemon s)) = Some c' \<and> chained (m, r) c'",
        OF assms(1,2)])
    show "\<exists>c'. viewOf (St (Daemon s)) = Some c' \<and> chained (m, r) c'"
      using assms(3) chained_refl by blast
  qed (rule step_chain)
  with assms(4) obtain steps where "mlog.linked (m, r) steps"
      "mlog.final (m, r) steps = (length leaves, mth leaves)"
    by (auto simp: chained_def)
  then show ?thesis using mlog.linked_prefix by blast
qed

text \<open>A proof is adopted exactly when both its witnesses are pinned, both halves verify under the
  keys pinned for them, and they show the watched log at one size with two roots; anything else
  leaves the daemon as it was and is pushed to nobody.\<close>

theorem tryAdopt_iff:
  "(fst (fst (tryAdopt p d)) \<longleftrightarrow>
     (\<exists>aX aY bX bY cosigA cosigB n rA rB.
        pinnedKey d (EWitness (EA p)) = Some (aX, aY) \<and> pinnedKey d (EWitness (EB p)) = Some (bX, bY) \<and>
        hex_decode (ECosignature (EA p)) = Inr cosigA \<and> hex_decode (ECosignature (EB p)) = Inr cosigB \<and>
        VerifyCheckpointSig (bytes_of_string (ECheckpointBody (EA p))) cosigA aX aY \<and>
        VerifyCheckpointSig (bytes_of_string (ECheckpointBody (EB p))) cosigB bX bY \<and>
        ParseCheckpoint (bytes_of_string (ECheckpointBody (EA p))) = Inr (COrigin (Cfg d), n, rA) \<and>
        ParseCheckpoint (bytes_of_string (ECheckpointBody (EB p))) = Inr (COrigin (Cfg d), n, rB) \<and>
        rA \<noteq> rB)) \<and>
   snd (tryAdopt p d) = (if fst (fst (tryAdopt p d)) then adopt p d else (d, []))"
proof -
  have "fst (fst (tryAdopt p d)) = fst (verifyProof d p) \<and>
      snd (tryAdopt p d) = (if fst (verifyProof d p) then adopt p d else (d, []))"
    using tryAdopt_cases [of p d] by auto
  moreover have "fst (verifyProof d p) \<longleftrightarrow>
     (\<exists>aX aY bX bY cosigA cosigB n rA rB.
        pinnedKey d (EWitness (EA p)) = Some (aX, aY) \<and> pinnedKey d (EWitness (EB p)) = Some (bX, bY) \<and>
        hex_decode (ECosignature (EA p)) = Inr cosigA \<and> hex_decode (ECosignature (EB p)) = Inr cosigB \<and>
        VerifyCheckpointSig (bytes_of_string (ECheckpointBody (EA p))) cosigA aX aY \<and>
        VerifyCheckpointSig (bytes_of_string (ECheckpointBody (EB p))) cosigB bX bY \<and>
        ParseCheckpoint (bytes_of_string (ECheckpointBody (EA p))) = Inr (COrigin (Cfg d), n, rA) \<and>
        ParseCheckpoint (bytes_of_string (ECheckpointBody (EB p))) = Inr (COrigin (Cfg d), n, rB) \<and>
        rA \<noteq> rB)"
    by (auto simp: verifyProof_def VerifyEquivocation_def Let_def
        split: option.splits sum.splits if_splits)
  ultimately show ?thesis by simp
qed

end
