(* ===== verification/Witness_Demo.thy ===== *)
theory Witness_Demo
  imports Witness_Machine Checkpoint_Demo
begin

text \<open>
  A witness that polls a log serving the signed checkpoint of \<open>Checkpoint_Demo\<close>: the concrete
  instances of the properties of the machine.
\<close>

definition demoConfig :: config where
  "demoConfig = \<lparr> CName = ''w1'', COrigin = ''mlog'', CLogURL = ''http://log'', CStatePath = [],
     CKey = \<lparr> D = 1, X = 0, Y = 0 \<rparr>, CLogX = notePx, CLogY = notePy \<rparr>"

definition demoJson :: json_decoders where
  "demoJson = \<lparr> toCheckpoint = (\<lambda>_. Some \<lparr> CPBody = string_of_bytes noteBody,
       CPSig = hex_encode noteSig, CPLogPubX = [], CPLogPubY = [] \<rparr>),
     toConsistency = (\<lambda>_. None), toPeerCosig = (\<lambda>_. None), toEquivProof = (\<lambda>_. None),
     toState = (\<lambda>_. None) \<rparr>"

definition demoNet :: network where
  "demoNet = (\<lambda>_. Response 200 [])"

definition demoPoll :: event where
  "demoPoll = Poll demoNet (Some 1) None"

definition demoStart :: system where
  "demoStart = \<lparr> Daemon = start demoConfig [] baseline, Disk = FileMissing, Pending = None, Published = [] \<rparr>"

lemma demo_served: "servedCheckpoint demoJson demoNet demoConfig noteBody 2 (mth demoLog)"
  using note_signed note_parse
  by (simp add: servedCheckpoint_def getJSON_def demoJson_def demoNet_def demoConfig_def
      VerifyCheckpointSig_def)

text \<open>A poll of the demo log, for any configuration and decoders it serves.\<close>

lemma served_poll_step:
  assumes "Pending s = None" and "servedCheckpoint js demoNet (Cfg (Daemon s)) noteBody 2 (mth demoLog)"
    and "extendsView js demoNet (Cfg (Daemon s)) (St (Daemon s)) 2 (mth demoLog)"
  shows "\<exists>s'. step js marshal s demoPoll s' \<and> Published s' = Published s @ [noteBody] \<and>
     Pending s' = None \<and> Cfg (Daemon s') = Cfg (Daemon s) \<and>
     WSize (St (Daemon s')) = 2 \<and> hexRoot (WRoot (St (Daemon s'))) = Some (mth demoLog) \<and>
     HealthOK (Daemon s')"
proof -
  let ?cfg = "Cfg (Daemon s)"
  from poll_extends [OF assms(2,3), of "Some 1"] obtain why st' where
    p: "poll js demoNet (Some 1) ?cfg (St (Daemon s)) =
        (Inr (accept (Some 1) noteBody (CKey ?cfg) (CName ?cfg) why), st')"
    and v: "WSize st' = 2" "hexRoot (WRoot st') = Some (mth demoLog)"
    by blast
  obtain d disk where o: "once js marshal demoNet (Some 1) None (Daemon s) (Disk s) = (d, disk)"
    by fastforce
  have "cosignedBy js demoNet (Some 1) (Daemon s) = [noteBody]"
    using p by (simp add: cosignedBy_def accept_Some)
  moreover have "HealthOK d"
    using o p by (auto simp: once_def accept_Some Let_def saveState_def split: if_splits)
  moreover define s' where
    "s' = s\<lparr> Daemon := d, Disk := disk, Published := Published s @ cosignedBy js demoNet (Some 1) (Daemon s) \<rparr>"
  moreover have "step js marshal s demoPoll s'"
    unfolding demoPoll_def s'_def by (rule poll_step [OF assms(1) o])
  ultimately show ?thesis
    using o p v assms(1) once_fields [OF o] by (intro exI [of _ s']) simp
qed

lemma demo_poll_step:
  assumes "Pending s = None" and "Cfg (Daemon s) = demoConfig"
    and "extendsView demoJson demoNet demoConfig (St (Daemon s)) 2 (mth demoLog)"
  shows "\<exists>s'. step demoJson (\<lambda>_. []) s demoPoll s' \<and> Published s' = Published s @ [noteBody] \<and>
     Pending s' = None \<and> Cfg (Daemon s') = demoConfig \<and>
     WSize (St (Daemon s')) = 2 \<and> hexRoot (WRoot (St (Daemon s'))) = Some (mth demoLog) \<and>
     HealthOK (Daemon s')"
  using served_poll_step [of s demoJson "\<lambda>_. []"] assms demo_served by simp

lemma demo_first: "extendsView demoJson demoNet demoConfig baseline 2 (mth demoLog)"
  by (simp add: extendsView_def baseline_def)

lemma demo_again:
  "WSize st = 2 \<Longrightarrow> hexRoot (WRoot st) = Some (mth demoLog) \<Longrightarrow>
   extendsView demoJson demoNet demoConfig st 2 (mth demoLog)"
  by (simp add: extendsView_def)

lemma run_single: "step js marshal s e s' \<Longrightarrow> run js marshal s [e] s'"
  using run_snoc [OF run_nil] by fastforce

text \<open>Two polls: the second finds the checkpoint unchanged.\<close>

lemma demo_two_polls:
  "\<exists>s1 s2. step demoJson (\<lambda>_. []) demoStart demoPoll s1 \<and> step demoJson (\<lambda>_. []) s1 demoPoll s2 \<and>
     run demoJson (\<lambda>_. []) demoStart [demoPoll, demoPoll] s2 \<and> Published s1 = [noteBody] \<and>
     Published s2 = [noteBody, noteBody] \<and> viewOf (St (Daemon s1)) = Some (2, mth demoLog) \<and> viewOf (St (Daemon s2)) = Some (2, mth demoLog)"
proof -
  obtain s1 where s1: "step demoJson (\<lambda>_. []) demoStart demoPoll s1" "Published s1 = [noteBody]"
      "Pending s1 = None" "Cfg (Daemon s1) = demoConfig" "WSize (St (Daemon s1)) = 2"
      "hexRoot (WRoot (St (Daemon s1))) = Some (mth demoLog)"
    using demo_poll_step [of demoStart] demo_first by (auto simp: demoStart_def start_def)
  obtain s2 where s2: "step demoJson (\<lambda>_. []) s1 demoPoll s2" "Published s2 = [noteBody, noteBody]"
      "WSize (St (Daemon s2)) = 2" "hexRoot (WRoot (St (Daemon s2))) = Some (mth demoLog)"
    using demo_poll_step [OF s1(3,4) demo_again [OF s1(5,6)]] s1(2) by auto
  have "run demoJson (\<lambda>_. []) demoStart ([demoPoll] @ [demoPoll]) s2"
    using run_snoc [OF run_single [OF s1(1)] s2(1)] by simp
  moreover have "viewOf (St (Daemon s1)) = Some (2, mth demoLog)" "viewOf (St (Daemon s2)) = Some (2, mth demoLog)"
    using s1 s2 by (simp_all add: viewOf_def)
  ultimately show ?thesis using s1(1,2) s2(1,2) by auto
qed

text \<open>A state file of three lines, and a witness that keeps one: it polls, is restarted from its file,
  and polls again.\<close>

definition writeState :: "witnessState \<Rightarrow> bytes" where
  "writeState st = bytes_of_string (hex_encode (bytes_of_string (WOrigin st)) @ [NL] @
     dec_int (WSize st) @ [NL] @ hex_encode (bytes_of_string (WRoot st)))"

definition readState :: "bytes \<Rightarrow> witnessState option" where
  "readState raw =
     (case split_nl (string_of_bytes raw) of
        [a, b, c] \<Rightarrow>
          (case (hex_decode a, atoi b, hex_decode c) of
             (Inr origin, Some n, Inr root) \<Rightarrow>
               (let st = \<lparr> WOrigin = string_of_bytes origin, WSize = n, WRoot = string_of_bytes root \<rparr>
                in if storable st then Some st else None)
           | _ \<Rightarrow> None)
      | _ \<Rightarrow> None)"

definition fileJson :: json_decoders where
  "fileJson = demoJson\<lparr> toState := readState \<rparr>"

definition fileConfig :: config where
  "fileConfig = demoConfig\<lparr> CStatePath := ''w1.json'' \<rparr>"

definition fileStart :: system where
  "fileStart = \<lparr> Daemon = start fileConfig [] baseline, Disk = FileMissing, Pending = None, Published = [] \<rparr>"

lemma newline_notin_dec_int: "CHR 0x0A \<notin> set (dec_int i)"
  using newline_notin_dec by (simp add: dec_int_def)

lemma readState_writeState: "storable st \<Longrightarrow> readState (writeState st) = Some st"
  by (simp add: readState_def writeState_def split_nl_append split_nl_no_newline newline_notin_dec_int
      newline_notin_hex NL_def storable_def atoi_dec_int64 Let_def)

lemma file_codec: "stateCodec fileJson writeState"
proof -
  have "storable st" if "readState raw = Some st" for raw st
    using that by (auto simp: readState_def Let_def split: list.splits sum.splits option.splits if_splits)
  then show ?thesis by (simp add: stateCodec_def fileJson_def readState_writeState)
qed

lemma file_served: "servedCheckpoint fileJson demoNet fileConfig noteBody 2 (mth demoLog)"
  using demo_served by (simp add: servedCheckpoint_def fileJson_def fileConfig_def)

lemma file_polls_restart:
  "\<exists>s'. run fileJson writeState fileStart [demoPoll, Restart, demoPoll] s' \<and>
     Published s' = [noteBody, noteBody] \<and> Cfg (Daemon s') = fileConfig"
proof -
  have start: "Pending fileStart = None" "Cfg (Daemon fileStart) = fileConfig" "St (Daemon fileStart) = baseline"
      "Published fileStart = []"
    by (simp_all add: fileStart_def start_def)
  have "extendsView fileJson demoNet fileConfig baseline 2 (mth demoLog)"
    by (simp add: extendsView_def baseline_def)
  then obtain s1 where s1: "step fileJson writeState fileStart demoPoll s1" "Published s1 = [noteBody]"
      "Pending s1 = None" "Cfg (Daemon s1) = fileConfig" "WSize (St (Daemon s1)) = 2"
      "hexRoot (WRoot (St (Daemon s1))) = Some (mth demoLog)"
    using served_poll_step [of fileStart fileJson writeState] start file_served by auto
  have codec: "durableInv fileJson s1"
    by (rule step_durable [OF s1(1) _ file_codec])
      (simp_all add: demoPoll_def durableInv_def start, simp_all add: fileConfig_def demoConfig_def
        storable_baseline historyInv_def saved_def oneRoot_def validUTF8_ascii start)
  have disk: "Disk s1 = FileContents (writeState (St (Daemon s1)))"
  proof -
    obtain d disk where o: "once fileJson writeState demoNet (Some 1) None (Daemon fileStart) (Disk fileStart) = (d, disk)"
        "s1 = fileStart\<lparr> Daemon := d, Disk := disk,
           Published := Published fileStart @ cosignedBy fileJson demoNet (Some 1) (Daemon fileStart) \<rparr>"
      using s1(1) by (auto simp: demoPoll_def elim!: stepE)
    then have "cosignedBy fileJson demoNet (Some 1) (Daemon fileStart) \<noteq> []"
      using s1(2) start(4) by simp
    then show ?thesis
      using once_disk [OF o(1)] o(2) start(2) by (simp add: fileConfig_def)
  qed
  let ?s2 = "s1\<lparr> Daemon := start (Cfg (Daemon s1)) (Peers (Daemon s1)) (St (Daemon s1)), Pending := None \<rparr>"
  have "loadState fileJson (CStatePath (Cfg (Daemon s1))) (Disk s1) = Inr (St (Daemon s1))"
    using codec s1(6) by (simp add: loadState_def disk fileJson_def readState_writeState durableInv_def)
  from restart_step [OF this, of writeState]
  have s2: "step fileJson writeState s1 Restart ?s2" by simp
  have "extendsView fileJson demoNet fileConfig (St (Daemon s1)) 2 (mth demoLog)"
    using s1(5,6) by (simp add: extendsView_def)
  then obtain s3 where s3: "step fileJson writeState ?s2 demoPoll s3" "Published s3 = [noteBody, noteBody]"
      "Cfg (Daemon s3) = fileConfig"
    using served_poll_step [of ?s2 fileJson writeState] s1(2,4) file_served by (auto simp: start_def)
  have "run fileJson writeState fileStart (([demoPoll] @ [Restart]) @ [demoPoll]) s3"
    by (rule run_snoc [OF run_snoc [OF run_single [OF s1(1)] s2] s3(1)])
  with s3(2,3) show ?thesis by auto
qed

lemma witness_cosigns_one_root_per_size_witness:
  "\<exists>s'. run fileJson writeState fileStart [demoPoll, Restart, demoPoll] s' \<and> Published s' = [noteBody, noteBody] \<and>
     COrigin (Cfg (Daemon s')) = ''mlog''"
proof -
  obtain s' where s': "run fileJson writeState fileStart [demoPoll, Restart, demoPoll] s'"
      "Published s' = [noteBody, noteBody]"
    using file_polls_restart by blast
  have first: "Published fileStart = []" by (simp add: fileStart_def)
  have "CStatePath (Cfg (Daemon fileStart)) \<noteq> [] \<and> list_all durable [demoPoll, Restart, demoPoll] \<and>
      stateCodec fileJson writeState \<and> validUTF8 (COrigin (Cfg (Daemon fileStart))) \<and>
      storable (St (Daemon fileStart))"
    using file_codec storable_baseline
    by (simp add: fileStart_def start_def fileConfig_def demoConfig_def demoPoll_def validUTF8_ascii)
  from witness_cosigns_one_root_per_size [OF s'(1) first disjI2 [OF this] _ _ note_parse note_parse]
  have "COrigin (Cfg (Daemon s')) = ''mlog''" using s'(2) by simp
  with s' show ?thesis by blast
qed

lemma witness_view_is_a_prefix_witness:
  "\<exists>s1 s2 steps. run demoJson (\<lambda>_. []) s1 [demoPoll] s2 \<and> viewOf (St (Daemon s1)) = Some (2, mth demoLog) \<and>
     mlog.linked (2, mth demoLog) steps \<and> mlog.final (2, mth demoLog) steps = (2, mth demoLog)"
proof -
  obtain s1 s2 where s: "step demoJson (\<lambda>_. []) s1 demoPoll s2"
      "viewOf (St (Daemon s1)) = Some (2, mth demoLog)" "viewOf (St (Daemon s2)) = Some (2, mth demoLog)"
    using demo_two_polls by blast
  have two: "length demoLog = 2" by (simp add: demoLog_def)
  have "Restart \<notin> set [demoPoll]" by (simp add: demoPoll_def)
  from witness_view_is_a_prefix [OF run_single [OF s(1)] this s(2), of demoLog] s
  show ?thesis unfolding two using run_single [OF s(1)] by blast
qed

text \<open>A latched witness stays unhealthy although its poll succeeds.\<close>

definition latchedStart :: system where
  "latchedStart = demoStart\<lparr> Daemon := (start demoConfig [] baseline)\<lparr> Equivoc := True \<rparr> \<rparr>"

lemma equivocation_alarm_is_permanent_witness:
  "\<exists>s'. run demoJson (\<lambda>_. []) latchedStart [demoPoll] s' \<and> HealthOK (Daemon s') \<and>
     fst (handleHealth (Daemon s')) = 503"
proof -
  obtain s' where s': "step demoJson (\<lambda>_. []) latchedStart demoPoll s'" "HealthOK (Daemon s')"
    using demo_poll_step [of latchedStart] demo_first
    by (auto simp: latchedStart_def demoStart_def start_def)
  have "Restart \<notin> set [demoPoll]" "Equivoc (Daemon latchedStart)"
    by (simp_all add: demoPoll_def latchedStart_def)
  from equivocation_alarm_is_permanent [OF run_single [OF s'(1)] this] s' show ?thesis
    using run_single by blast
qed

end
