(* ===== verification/Witness_Cli_Demo.thy ===== *)
theory Witness_Cli_Demo
  imports Witness_Cli Witness_Demo
begin

text \<open>
  A second checkpoint of the same origin and size with another root, signed under another key: the
  concrete equivocation on which the command line's properties are instantiated.
\<close>

definition forkRoot :: bytes where "forkRoot = replicate 32 2"

definition forkBody :: bytes where
  "forkBody = CheckpointBody ''mlog'' 2 forkRoot"

definition forkH :: int where
  "forkH = 1733492927484132219873030170777615432529745882483513523139925817921603470904"

definition forkQx :: int where
  "forkQx = 9784448957733174366140693024901985957914803618203400379474788140971999734095"

definition forkQy :: int where
  "forkQy = 68680319362015375511327728958322656315725763507014904137746697286137263473530"

definition forkPx :: bytes where "forkPx = be_bytes 32 (nat forkQx)"
definition forkPy :: bytes where "forkPy = be_bytes 32 (nat forkQy)"
definition forkSig :: bytes where "forkSig = sigBytes forkH forkH"

lemma fork_body: "forkBody =
    [109, 108, 111, 103, 10, 50, 10, 65, 103, 73, 67, 65, 103, 73, 67, 65, 103, 73, 67, 65, 103,
    73, 67, 65, 103, 73, 67, 65, 103, 73, 67, 65, 103, 73, 67, 65, 103, 73, 67, 65, 103, 73, 67,
    65, 103, 73, 67, 65, 103, 73, 61, 10]"
  by (simp add: forkBody_def CheckpointBody_def forkRoot_def dec_int_def dec.simps digit_char_def
      b64_char_def NL_def bytes_of_string_def byte_of_char_def replicate_literal)

lemma fork_sha: "sha256 forkBody =
     [3, 213, 31, 74, 73, 184, 151, 26, 148, 76, 141, 106, 247, 160, 146, 123, 43, 219, 151,
      205, 50, 82, 32, 194, 229, 164, 161, 156, 37, 9, 134, 56]"
proof -
  have pad: "sha_pad [109, 108, 111, 103, 10, 50, 10, 65, 103, 73, 67, 65, 103, 73, 67, 65, 103, 73, 67, 65,
      103, 73, 67, 65, 103, 73, 67, 65, 103, 73, 67, 65, 103, 73, 67, 65, 103, 73, 67, 65, 103,
      73, 67, 65, 103, 73, 67, 65, 103, 73, 61, 10] =
      [109, 108, 111, 103, 10, 50, 10, 65, 103, 73, 67, 65, 103, 73, 67, 65, 103, 73, 67, 65,
      103, 73, 67, 65, 103, 73, 67, 65, 103, 73, 67, 65, 103, 73, 67, 65, 103, 73, 67, 65, 103,
      73, 67, 65, 103, 73, 67, 65, 103, 73, 61, 10, 128, 0, 0, 0, 0, 0, 0, 0, 0, 0, 1, 160]"
    by (simp add: sha_pad_simps)
  show ?thesis
    by (simp only: fork_body sha256_bits pad, simp only: sha_bit_simps) (simp add: byte_of_bits_value)
qed

lemma fork_hash: "int (be_nat (sha256 forkBody)) = forkH"
  by (simp add: fork_sha be_nat_def forkH_def)

lemma fork_key: "int (be_nat forkPx) = forkQx" "int (be_nat forkPy) = forkQy"
proof -
  have "be_nat forkPx = nat forkQx" "be_nat forkPy = nat forkQy"
    unfolding forkPx_def forkPy_def
    by (rule be_nat_be_bytes, simp add: forkQx_def forkQy_def)+
  then show "int (be_nat forkPx) = forkQx" "int (be_nat forkPy) = forkQy"
    by (simp_all add: forkQx_def forkQy_def)
qed

lemma fork_onCurve: "onCurve forkQx forkQy"
  by (rule onCurve_hint [where c = 16520265154191182884605974033545227690913071774261485228734147889829029985977
      and ?q1.0 = 40736688489135100581108510377014040901074646775611938183745058670381511911573
      and ?q2.0 = 8089659201036653103179780854627623573787036410958729389115096434816244480032862236144737196878043319161451448796262546031480122203764286284867009034604])
    (simp_all add: forkQx_def forkQy_def p256_p_def p256_b_def)

lemma fork_add: "ec_add p256_G (Affine forkQx forkQy) = Affine forkH
    18090261158229378428524241333849536670807383365129483049809415978181398525594"
  unfolding p256_G_def
  by (rule ec_add_hint [where
        i = 50693218957167963928476621378621607053243669603368643835350823138173382420251
        and ?q0.0 = "-16923022002925372394230640475420874603726280844653195793506399887183905703042"
        and l = 104389513806350213085049408235005795688674619109805039784117270234652296649998
        and ?q1.0 = "14248511993473326802335018393311009311393564070631404388309231752032008642823"
        and ?q2.0 = "94109802034313387551471668755393160456051834035873776233052249904767067342169"
        and ?q3.0 = "42106708686459317454991173182914040457942384658259143649143420716183022392683"])
    (simp_all add: forkQx_def forkQy_def forkH_def p256_p_def)

lemma fork_verify: "ecdsaVerify forkQx forkQy (sha256 forkBody) forkH forkH"
proof (rule ecdsaVerify_unit)
  show "int (be_nat (sha256 forkBody)) = forkH"
    by (rule fork_hash)
  show "forkH * 100641729131012169466227184423362136184374983383913059743653829779778129565231 =
      1506680869549245458865406084284613306053323941860318106767571942321991186967 * p256_n + 1"
    by (simp add: forkH_def p256_n_def)
  show "onCurve forkQx forkQy"
    by (rule fork_onCurve)
  show "ec_add p256_G (Affine forkQx forkQy) = Affine forkH
    18090261158229378428524241333849536670807383365129483049809415978181398525594"
    by (rule fork_add)
qed (simp_all add: forkH_def p256_n_def)

lemma fork_signed: "verifySig forkBody forkSig forkPx forkPy = Inr ()"
proof -
  have "0 \<le> forkH" "forkH < p256_n"
    by (simp_all add: forkH_def p256_n_def)
  then show ?thesis
    using fork_verify by (simp add: verifySig_sigBytes forkSig_def fork_key)
qed

lemma fork_parse: "ParseCheckpoint forkBody = Inr (''mlog'', 2, forkRoot)"
  unfolding forkBody_def by (rule ParseCheckpoint_body) (simp_all add: NL_def forkRoot_def)

lemma fork_differs: "mth demoLog \<noteq> forkRoot"
  by (simp add: demo_root_bytes forkRoot_def replicate_literal)

section \<open>Fetching the proof of the fork\<close>

definition forkProof :: equivProof where
  "forkProof = \<lparr> ESchema = equivProofSchema,
     EA = \<lparr> EWitness = ''w1'', ECheckpointBody = string_of_bytes noteBody,
            ECosignature = hex_encode noteSig, EWitnessPubX = [], EWitnessPubY = [] \<rparr>,
     EB = \<lparr> EWitness = ''w2'', ECheckpointBody = string_of_bytes forkBody,
            ECosignature = hex_encode forkSig, EWitnessPubX = [], EWitnessPubY = [] \<rparr> \<rparr>"

definition forkState :: witnessState where
  "forkState = \<lparr> WOrigin = ''mlog'', WSize = 2, WRoot = hex_encode (mth demoLog) \<rparr>"

definition forkJson :: json_decoders where
  "forkJson = demoJson\<lparr> toEquivProof := (\<lambda>_. Some forkProof), toState := (\<lambda>_. Some forkState),
     toPeerCosig := (\<lambda>_. Some \<lparr> PRWitness = ''w1'', PRWitnessPubX = [], PRWitnessPubY = [],
       PRCosignature = hex_encode noteSig, PRCheckpointBody = string_of_bytes noteBody \<rparr>) \<rparr>"

lemma demo_keys_nonempty: "notePx \<noteq> []" "notePy \<noteq> []" "forkPx \<noteq> []" "forkPy \<noteq> []"
proof -
  have "length notePx = 32" "length notePy = 32" "length forkPx = 32" "length forkPy = 32"
    by (simp_all add: notePx_def notePy_def forkPx_def forkPy_def)
  then show "notePx \<noteq> []" "notePy \<noteq> []" "forkPx \<noteq> []" "forkPy \<noteq> []" by auto
qed

definition fetchArgs :: "string list" where
  "fetchArgs = concat (map (\<lambda>(k, v). [''--'' @ k, v])
     [(''peer-url'', ''http://w1''), (''origin'', ''mlog''),
      (''a-pub-x'', hex_encode notePx), (''a-pub-y'', hex_encode notePy),
      (''b-pub-x'', hex_encode forkPx), (''b-pub-y'', hex_encode forkPy)])"

lemma demo_fetch:
  "runFetchProof forkJson demoNet fetchArgs =
     Exits 0 (Equivocated ''mlog'' 2 (take 4 (mth demoLog)) (take 4 forkRoot), ''http://w1'', ''w1'', ''w2'')"
proof -
  have flags: "flagMap fetchArgs = Inr (map_of (rev
     [(''peer-url'', ''http://w1''), (''origin'', ''mlog''),
      (''a-pub-x'', hex_encode notePx), (''a-pub-y'', hex_encode notePy),
      (''b-pub-x'', hex_encode forkPx), (''b-pub-y'', hex_encode forkPy)]))"
    unfolding flagMap_def fetchArgs_def by (subst flagLoop_pairs) simp_all
  have no_help: "\<not> helpRequested fetchArgs"
    by (simp add: helpRequested_def fetchArgs_def)
  have "VerifyEquivocation noteBody noteSig notePx notePy forkBody forkSig forkPx forkPy =
      (True, Equivocated ''mlog'' 2 (take 4 (mth demoLog)) (take 4 forkRoot))"
    using note_signed fork_signed note_parse fork_parse fork_differs
    by (simp add: VerifyEquivocation_def VerifyCheckpointSig_def)
  then show ?thesis
    using note_parse demo_keys_nonempty
    by (simp add: runFetchProof_def no_help flags need_def pinnedKeys_def needHex_def flagValue_def
        getJSON_def demoNet_def forkJson_def forkProof_def checkProof_def orDie_def trimSlash_def
        hex_encode_nonempty)
qed

lemma runFetchProof_exit_0_witness:
  "\<exists>m aX aY bX bY. flagMap fetchArgs = Inr m \<and> pinnedKeys m = Inr (aX, aY, bX, bY)"
  using runFetchProof_exit_0 [OF demo_fetch] by blast

section \<open>Comparing with a peer that agrees\<close>

definition compareArgs :: "string list" where
  "compareArgs = concat (map (\<lambda>(k, v). [''--'' @ k, v])
     [(''peer-url'', ''http://w1''), (''peer-name'', ''w1''), (''origin'', ''mlog''), (''state'', ''s''),
      (''peer-pub-x'', hex_encode notePx), (''peer-pub-y'', hex_encode notePy)])"

lemma demo_compare:
  "runCompare forkJson demoNet (\<lambda>_. FileContents []) compareArgs = Exits 0 (''w1'', SameView 2)"
proof -
  have flags: "flagMap compareArgs = Inr (map_of (rev
     [(''peer-url'', ''http://w1''), (''peer-name'', ''w1''), (''origin'', ''mlog''), (''state'', ''s''),
      (''peer-pub-x'', hex_encode notePx), (''peer-pub-y'', hex_encode notePy)]))"
    unfolding flagMap_def compareArgs_def by (subst flagLoop_pairs) simp_all
  have no_help: "\<not> helpRequested compareArgs"
    by (simp add: helpRequested_def compareArgs_def)
  have len: "length (mth demoLog) = 32" "mth demoLog \<noteq> []"
    by (simp_all add: demo_root_bytes)
  show ?thesis
    using note_parse note_signed demo_keys_nonempty len
    by (simp add: runCompare_def no_help flags need_def needHex_def flagValue_def originFlag_def
        getJSON_def demoNet_def forkJson_def orDie_def trimSlash_def loadState_def forkState_def
        hex_encode_nonempty VerifyCheckpointSig_def crossCheck_def verdictStatus_def)
qed

lemma runCompare_exit_0_witness:
  "\<exists>m px py st. flagMap compareArgs = Inr m \<and> hex_decode (flagValue m ''peer-pub-x'') = Inr px \<and>
     hex_decode (flagValue m ''peer-pub-y'') = Inr py \<and>
     loadState forkJson (flagValue m ''state'') (FileContents []) = Inr st"
  using runCompare_exit_0 [OF demo_compare] by blast

end
