(* ===== verification/Receipt.thy ===== *)
theory Receipt
  imports Checkpoint
begin

text \<open>
  Restraint receipts (receipt.go): the canonical body, its parser, and \<open>VerifyReceipt\<close> with the
  key pin, the prev-digest chain and the retention gate. The parser is the inverse of the body
  printer; receipts accepted in turn form a chain whose predecessors are determined.
\<close>

definition ReceiptOrigin :: string where
  "ReceiptOrigin = ''honest-ear/restraint-receipt/v1''"

record Receipt =
  ROrigin :: string
  RSession :: string
  RBatch :: u64
  RInputHash :: bytes
  ROutputHash :: bytes
  RRetained :: bool
  RPrevDigest :: bytes

definition ReceiptBody :: "Receipt \<Rightarrow> bytes" where
  "ReceiptBody r =
     (let retained = (if RRetained r then ''1'' else ''0'') in
      bytes_of_string (ROrigin r @ [NL] @ RSession r @ [NL] @ dec (unat (RBatch r)) @ [NL] @
        hex_encode (RInputHash r) @ [NL] @ hex_encode (ROutputHash r) @ [NL] @
        retained @ [NL] @ hex_encode (RPrevDigest r) @ [NL]))"

definition ReceiptDigest :: "bytes \<Rightarrow> bytes" where
  "ReceiptDigest body = sha256 body"

datatype hex_len_error = HexBad hex_error | HexWrongLength nat nat

definition hexLen :: "string \<Rightarrow> nat \<Rightarrow> hex_len_error + bytes" where
  "hexLen s n =
     (case hex_decode s of
        Inl e \<Rightarrow> Inl (HexBad e)
      | Inr b \<Rightarrow> if length b \<noteq> n then Inl (HexWrongLength n (length b)) else Inr b)"

datatype receipt_error =
    NotSevenLines
  | UnexpectedOrigin string
  | BadBatch
  | BadInputHash hex_len_error
  | BadOutputHash hex_len_error
  | BadRetained
  | BadPrevDigest hex_len_error

text \<open>The loop that cuts the string at each newline; \<open>cur\<close> is \<open>s[start:i]\<close>.\<close>

fun cutLoop :: "string list \<Rightarrow> string \<Rightarrow> string \<Rightarrow> string list" where
  "cutLoop parts cur [] = parts @ [cur]"
| "cutLoop parts cur (c # s) =
     (if c = NL then cutLoop (parts @ [cur]) [] s else cutLoop parts (cur @ [c]) s)"

definition ParseReceipt :: "bytes \<Rightarrow> receipt_error + Receipt" where
  "ParseReceipt body =
     (let parts = cutLoop [] [] (string_of_bytes body) in
      if length parts \<noteq> 8 \<or> parts ! 7 \<noteq> [] then Inl NotSevenLines
      else if parts ! 0 \<noteq> ReceiptOrigin then Inl (UnexpectedOrigin (parts ! 0))
      else
        case parse_uint64 (parts ! 2) of
          None \<Rightarrow> Inl BadBatch
        | Some batch \<Rightarrow>
            bindE (wrapE BadInputHash (hexLen (parts ! 3) 32)) (\<lambda>ih.
            bindE (wrapE BadOutputHash (hexLen (parts ! 4) 32)) (\<lambda>oh.
            bindE (if parts ! 5 = ''0'' then Inr False
                   else if parts ! 5 = ''1'' then Inr True else Inl BadRetained) (\<lambda>retained.
            bindE (wrapE BadPrevDigest (hexLen (parts ! 6) 32)) (\<lambda>pd.
              Inr \<lparr> ROrigin = parts ! 0, RSession = parts ! 1, RBatch = batch, RInputHash = ih,
                    ROutputHash = oh, RRetained = retained, RPrevDigest = pd \<rparr>)))))"

section \<open>Verification\<close>

record ReceiptBundle =
  RBSchema :: string
  RBBody :: string
  RBSig :: string
  RBPubX :: string
  RBPubY :: string

record ReceiptOptions =
  ROPrevDigest :: "bytes option"
  ROPinPubX :: "bytes option"
  ROPinPubY :: "bytes option"
  RequireNotRetained :: bool

datatype receipt_reason =
    ReceiptSigHex hex_error
  | ReceiptPubXHex hex_error
  | ReceiptPubYHex hex_error
  | ReceiptPinMismatch
  | ReceiptSignature
  | ReceiptDecode receipt_error
  | InputRetained
  | ReceiptChain
  | ReceiptVerified

record ReceiptResult =
  RRReceipt :: "Receipt option"
  RROK :: bool
  RRReason :: receipt_reason
  RRNextDigest :: "bytes option"

definition VerifyReceipt :: "ReceiptBundle \<Rightarrow> ReceiptOptions \<Rightarrow> ReceiptResult" where
  "VerifyReceipt b opt =
     (let body = bytes_of_string (RBBody b);
          failed = (\<lambda>r why. \<lparr> RRReceipt = r, RROK = False, RRReason = why, RRNextDigest = None \<rparr>)
      in
      case hex_decode (RBSig b) of Inl e \<Rightarrow> failed None (ReceiptSigHex e) | Inr sig \<Rightarrow>
      (case hex_decode (RBPubX b) of Inl e \<Rightarrow> failed None (ReceiptPubXHex e) | Inr px \<Rightarrow>
      (case hex_decode (RBPubY b) of Inl e \<Rightarrow> failed None (ReceiptPubYHex e) | Inr py \<Rightarrow>
       if \<not> pinOK px py \<lparr> ExpectedNonce = [], PinPubX = ROPinPubX opt, PinPubY = ROPinPubY opt,
               LastCounter = 0, ExpectedPrevDigest = None \<rparr>
         then failed None ReceiptPinMismatch
       else if \<not> VerifyCheckpointSig body sig px py then failed None ReceiptSignature
       else case ParseReceipt body of
         Inl e \<Rightarrow> failed None (ReceiptDecode e)
       | Inr r \<Rightarrow>
           if RequireNotRetained opt \<and> RRetained r then failed (Some r) InputRetained
           else if ROPrevDigest opt \<noteq> None \<and>
               constantTimeCompare (RPrevDigest r) (the (ROPrevDigest opt)) \<noteq> 1
             then failed (Some r) ReceiptChain
           else \<lparr> RRReceipt = Some r, RROK = True, RRReason = ReceiptVerified,
                  RRNextDigest = Some (ReceiptDigest body) \<rparr>)))"

section \<open>Printing and parsing\<close>

lemma cutLoop_split: "cutLoop parts cur s =
    parts @ (case split_nl s of [] \<Rightarrow> [cur] | l # ls \<Rightarrow> (cur @ l) # ls)"
proof (induction parts cur s rule: cutLoop.induct)
  case (2 parts cur c s)
  then show ?case
    using split_nl_nonempty [of s] by (auto simp: NL_def split: list.splits)
qed simp

lemma cutLoop_split_nl: "cutLoop [] [] s = split_nl s"
  using split_nl_nonempty [of s] by (auto simp: cutLoop_split split: list.splits)

text \<open>The receipts that have a body the parser reads back.\<close>

definition validReceipt :: "Receipt \<Rightarrow> bool" where
  "validReceipt r \<longleftrightarrow> ROrigin r = ReceiptOrigin \<and> NL \<notin> set (RSession r) \<and>
     length (RInputHash r) = 32 \<and> length (ROutputHash r) = 32 \<and> length (RPrevDigest r) = 32"

lemma eight_parts: "length ps = 8 \<longleftrightarrow> (\<exists>a b c d e f g h. ps = [a, b, c, d, e, f, g, h])"
  by (auto simp: numeral_eq_Suc length_Suc_conv)

lemma receipt_lines:
  assumes "ROrigin r = ReceiptOrigin" "NL \<notin> set (RSession r)"
  shows "split_nl (string_of_bytes (ReceiptBody r)) =
     [ROrigin r, RSession r, dec (unat (RBatch r)), hex_encode (RInputHash r), hex_encode (ROutputHash r),
      if RRetained r then ''1'' else ''0'', hex_encode (RPrevDigest r), []]"
proof -
  have "NL \<notin> set (ROrigin r)" by (simp add: assms(1) ReceiptOrigin_def NL_def)
  then show ?thesis
    using assms(2) by (simp add: ReceiptBody_def Let_def split_nl_append NL_def)
qed

lemma hexLen_encode [simp]: "length b = n \<Longrightarrow> hexLen (hex_encode b) n = Inr b"
  by (simp add: hexLen_def)

lemma hexLen_Inr: "hexLen s n = Inr b \<longleftrightarrow> hex_decode s = Inr b \<and> length b = n"
  by (auto simp: hexLen_def split: sum.splits)

lemma ParseReceipt_body: "validReceipt r \<Longrightarrow> ParseReceipt (ReceiptBody r) = Inr r"
  by (simp add: validReceipt_def ParseReceipt_def cutLoop_split_nl receipt_lines Let_def)

lemma ParseReceipt_valid: "ParseReceipt body = Inr r \<Longrightarrow> validReceipt r"
proof -
  assume p: "ParseReceipt body = Inr r"
  let ?parts = "split_nl (string_of_bytes body)"
  from p have "length ?parts = 8"
    by (auto simp: ParseReceipt_def cutLoop_split_nl Let_def split: if_splits)
  then have "NL \<notin> set (?parts ! 1)"
    using split_nl_no_newlineD [of "?parts ! 1" "string_of_bytes body"] by (simp add: NL_def)
  with p show ?thesis
    by (auto simp: ParseReceipt_def cutLoop_split_nl Let_def bindE_Inr_iff hexLen_Inr validReceipt_def
        split: if_splits option.splits)
qed

text \<open>The gates of a receipt, stated without the verifier, and the result of acceptance.\<close>

definition receiptGates :: "ReceiptBundle \<Rightarrow> ReceiptOptions \<Rightarrow> Receipt \<Rightarrow> bool" where
  "receiptGates b opt r \<longleftrightarrow>
     (\<exists>sig px py. hex_decode (RBSig b) = Inr sig \<and> hex_decode (RBPubX b) = Inr px \<and>
        hex_decode (RBPubY b) = Inr py \<and>
        (ROPinPubX opt = None \<and> ROPinPubY opt = None \<or>
         px = sliceOf (ROPinPubX opt) \<and> py = sliceOf (ROPinPubY opt)) \<and>
        VerifyCheckpointSig (bytes_of_string (RBBody b)) sig px py \<and>
        ParseReceipt (bytes_of_string (RBBody b)) = Inr r \<and>
        \<not> (RequireNotRetained opt \<and> RRetained r) \<and> ROPrevDigest opt \<in> {None, Some (RPrevDigest r)})"

definition acceptedReceipt :: "ReceiptBundle \<Rightarrow> Receipt \<Rightarrow> ReceiptResult" where
  "acceptedReceipt b r = \<lparr> RRReceipt = Some r, RROK = True, RRReason = ReceiptVerified,
     RRNextDigest = Some (sha256 (bytes_of_string (RBBody b))) \<rparr>"

lemma acceptedReceipt_RROK [simp]: "RROK (acceptedReceipt b r)"
  by (simp add: acceptedReceipt_def)

lemma acceptedReceipt_inject [simp]: "acceptedReceipt b r = acceptedReceipt b q \<longleftrightarrow> r = q"
  by (simp add: acceptedReceipt_def)

lemma receiptGates_accepted:
  assumes "receiptGates b opt r"
  shows "VerifyReceipt b opt = acceptedReceipt b r"
  using assms
  by (auto simp: receiptGates_def VerifyReceipt_def acceptedReceipt_def Let_def pinOK_def ReceiptDigest_def)

lemma accepted_receiptGates:
  assumes "RROK (VerifyReceipt b opt)"
  shows "\<exists>r. receiptGates b opt r \<and> VerifyReceipt b opt = acceptedReceipt b r"
proof -
  from assms obtain sig px py r where h: "hex_decode (RBSig b) = Inr sig" "hex_decode (RBPubX b) = Inr px"
      "hex_decode (RBPubY b) = Inr py" "VerifyCheckpointSig (bytes_of_string (RBBody b)) sig px py"
      "ParseReceipt (bytes_of_string (RBBody b)) = Inr r"
    unfolding VerifyReceipt_def Let_def by (simp split: sum.splits if_splits)
  with assms have "receiptGates b opt r"
    by (cases "ROPrevDigest opt") (auto simp: receiptGates_def VerifyReceipt_def Let_def pinOK_def split: if_splits)
  then show ?thesis using receiptGates_accepted by blast
qed

section \<open>Properties\<close>

text \<open>Parsing the body of a receipt gives the receipt back, for the receipts the parser can ever
  return: v1 origin, newline-free session, 32-byte hashes.\<close>

theorem ParseReceipt_ReceiptBody:
  "(ParseReceipt (ReceiptBody r) = Inr r \<longleftrightarrow> validReceipt r) \<and>
   (case ParseReceipt body of Inl _ \<Rightarrow> True | Inr q \<Rightarrow> ParseReceipt (ReceiptBody q) = Inr q)"
  using ParseReceipt_body ParseReceipt_valid by (auto split: sum.splits)

text \<open>Receipts verified in turn, as a session is followed: each must chain onto the digest the
  previous one gave, the first onto \<open>prev\<close>.\<close>

fun followChain :: "ReceiptOptions \<Rightarrow> bytes \<Rightarrow> ReceiptBundle list \<Rightarrow> bool" where
  "followChain opt prev [] \<longleftrightarrow> True"
| "followChain opt prev (b # bs) \<longleftrightarrow>
     (let res = VerifyReceipt b (opt\<lparr> ROPrevDigest := Some prev \<rparr>) in
      RROK res \<and> followChain opt (sliceOf (RRNextDigest res)) bs)"

lemma followChain_Cons:
  "followChain opt prev (b # bs) \<longleftrightarrow> RROK (VerifyReceipt b (opt\<lparr> ROPrevDigest := Some prev \<rparr>)) \<and>
     followChain opt (sha256 (bytes_of_string (RBBody b))) bs"
proof -
  have "sliceOf (RRNextDigest (VerifyReceipt b o')) = sha256 (bytes_of_string (RBBody b))"
    if "RROK (VerifyReceipt b o')" for o'
    using accepted_receiptGates [OF that] by (auto simp: sliceOf_def acceptedReceipt_def)
  then show ?thesis by (auto simp: Let_def)
qed

declare followChain.simps(2) [simp del]

lemma followChain_append: "followChain opt prev (xs @ [b]) \<longleftrightarrow> followChain opt prev xs \<and>
    RROK (VerifyReceipt b (opt\<lparr> ROPrevDigest := Some
      (if xs = [] then prev else sha256 (bytes_of_string (RBBody (last xs)))) \<rparr>))"
  by (induction xs arbitrary: prev) (auto simp: followChain_Cons)

lemma prev_determined:
  assumes "RROK (VerifyReceipt b (opt\<lparr> ROPrevDigest := Some d \<rparr>))"
    and "RROK (VerifyReceipt b' (opt'\<lparr> ROPrevDigest := Some d' \<rparr>))" and "RBBody b = RBBody b'"
  shows "d = d'"
  using assms(1,2) [THEN accepted_receiptGates] assms(3) by (auto simp: receiptGates_def)

lemma followChain_prev:
  assumes "followChain opt g (xs @ [b])" and "followChain opt' g (ys @ [b'])" and "RBBody b = RBBody b'"
  shows "(if xs = [] then g else sha256 (bytes_of_string (RBBody (last xs)))) =
    (if ys = [] then g else sha256 (bytes_of_string (RBBody (last ys))))"
  using assms(1,2) unfolding followChain_append
  by (elim conjE) (rule prev_determined [OF _ _ assms(3)])

text \<open>C31: A verified session has no gap and no fork: two sessions followed from the genesis digest that
  end in the same receipt consist of the same receipts, unless SHA-256 collides on their bodies
  or maps one of them to the genesis digest.\<close>

theorem receipt_history_is_determined:
  assumes "followChain opt genesis (xs @ [b])" and "followChain opt' genesis (ys @ [b'])"
    and "RBBody b = RBBody b'"
    and "inj_on (\<lambda>r. sha256 (bytes_of_string r)) (RBBody ` (set xs \<union> set ys))"
    and "genesis \<notin> (\<lambda>r. sha256 (bytes_of_string (RBBody r))) ` (set xs \<union> set ys)"
  shows "map RBBody xs = map RBBody ys"
  using assms
proof (induction xs arbitrary: ys b b' rule: rev_induct)
  case Nil
  show ?case
  proof (cases ys rule: rev_cases)
    case (snoc ys' y)
    then have "genesis = sha256 (bytes_of_string (RBBody y))"
      using followChain_prev [OF Nil.prems(1-3)] by simp
    then show ?thesis using Nil.prems(5) snoc by auto
  qed simp
next
  case (snoc x xs)
  show ?case
  proof (cases ys rule: rev_cases)
    case Nil
    then have "sha256 (bytes_of_string (RBBody x)) = genesis"
      using followChain_prev [OF snoc.prems(1-3)] by simp
    then show ?thesis using snoc.prems(5) by auto
  next
    case (snoc ys' y)
    note ys = snoc
    have eq: "sha256 (bytes_of_string (RBBody x)) = sha256 (bytes_of_string (RBBody y))"
      using followChain_prev [OF snoc.prems(1-3)] by (simp add: ys)
    have body: "RBBody x = RBBody y"
      by (rule inj_onD [OF snoc.prems(4) eq]) (auto simp: ys)
    have "map RBBody xs = map RBBody ys'"
    proof (rule snoc.IH)
      show "followChain opt genesis (xs @ [x])" "followChain opt' genesis (ys' @ [y])"
        using snoc.prems(1,2) unfolding ys
        by (simp_all only: followChain_append [of _ _ "xs @ [x]"] followChain_append [of _ _ "ys' @ [y]"])
      show "inj_on (\<lambda>r. sha256 (bytes_of_string r)) (RBBody ` (set xs \<union> set ys'))"
        by (rule inj_on_subset [OF snoc.prems(4)]) (auto simp: ys)
      show "genesis \<notin> (\<lambda>r. sha256 (bytes_of_string (RBBody r))) ` (set xs \<union> set ys')"
        using snoc.prems(5) by (auto simp: ys)
    qed (rule body)
    then show ?thesis by (simp add: ys body)
  qed
qed

text \<open>C30: A receipt is accepted exactly when its fields are hex, the key is the pinned one if there is a
  pin, the body is signed under it and parses, it does not admit retaining the input when that is
  required, and it chains onto the expected digest if one is given. And the result is the accepting
  one for receipt \<open>q\<close> (that receipt, and the digest of this body for the next receipt to chain
  onto) exactly when those gates hold for \<open>q\<close>. The right-hand sides do not mention the verifier.\<close>

theorem VerifyReceipt_accepts_iff:
  "(RROK (VerifyReceipt b opt) \<longleftrightarrow>
     (\<exists>sig px py r. hex_decode (RBSig b) = Inr sig \<and> hex_decode (RBPubX b) = Inr px \<and>
        hex_decode (RBPubY b) = Inr py \<and>
        (ROPinPubX opt = None \<and> ROPinPubY opt = None \<or>
         px = sliceOf (ROPinPubX opt) \<and> py = sliceOf (ROPinPubY opt)) \<and>
        VerifyCheckpointSig (bytes_of_string (RBBody b)) sig px py \<and>
        ParseReceipt (bytes_of_string (RBBody b)) = Inr r \<and>
        \<not> (RequireNotRetained opt \<and> RRetained r) \<and> ROPrevDigest opt \<in> {None, Some (RPrevDigest r)})) \<and>
   (VerifyReceipt b opt = \<lparr> RRReceipt = Some q, RROK = True, RRReason = ReceiptVerified,
        RRNextDigest = Some (sha256 (bytes_of_string (RBBody b))) \<rparr> \<longleftrightarrow>
     (\<exists>sig px py. hex_decode (RBSig b) = Inr sig \<and> hex_decode (RBPubX b) = Inr px \<and>
        hex_decode (RBPubY b) = Inr py \<and>
        (ROPinPubX opt = None \<and> ROPinPubY opt = None \<or>
         px = sliceOf (ROPinPubX opt) \<and> py = sliceOf (ROPinPubY opt)) \<and>
        VerifyCheckpointSig (bytes_of_string (RBBody b)) sig px py \<and>
        ParseReceipt (bytes_of_string (RBBody b)) = Inr q \<and>
        \<not> (RequireNotRetained opt \<and> RRetained q) \<and> ROPrevDigest opt \<in> {None, Some (RPrevDigest q)}))"
proof -
  have ok: "RROK (VerifyReceipt b opt) \<longleftrightarrow> (\<exists>r. receiptGates b opt r)"
    by (metis receiptGates_accepted accepted_receiptGates acceptedReceipt_RROK)
  have res: "VerifyReceipt b opt = acceptedReceipt b q \<longleftrightarrow> receiptGates b opt q"
    by (metis receiptGates_accepted accepted_receiptGates acceptedReceipt_inject acceptedReceipt_RROK)
  show ?thesis using res unfolding acceptedReceipt_def ok receiptGates_def by blast
qed

end
