(* ===== verification/Receipt_Cli.thy ===== *)
theory Receipt_Cli
  imports Receipt
begin

text \<open>
  The command line of cmd/he-receipt/main.go: its flag parser (with two boolean flags), \<open>emit\<close>
  and \<open>verify\<close>, as functions of the arguments, the readable files (for \<open>emit\<close>, \<open>-\<close> is standard input) and the
  outcomes of \<open>ecdsa.Sign\<close> and \<open>json.Unmarshal\<close>.
\<close>

datatype receipt_die =
    RUnexpectedArgument string
  | RFlagNeedsValue string
  | RFlagRequired string
  | RBadKey key_error
  | RBadBatch
  | RSessionNewline
  | RPrevHex
  | RReading string
  | RSignFails
  | RBadJSON
  | RExpectPrevHex
  | RPinTogether
  | RPinX
  | RPinY

definition isBoolFlag :: "string \<Rightarrow> bool" where
  "isBoolFlag k \<longleftrightarrow> k = ''retained'' \<or> k = ''require-not-retained''"

fun rflagLoop :: "(string \<rightharpoonup> string) \<Rightarrow> string list \<Rightarrow> receipt_die + (string \<rightharpoonup> string)" where
  "rflagLoop m [] = Inr m"
| "rflagLoop m (a # rest) =
     (if length a < 2 \<or> take 2 a \<noteq> ''--'' then Inl (RUnexpectedArgument a)
      else
        let k = drop 2 a in
        if CHR ''='' \<in> set k then
          rflagLoop (m(takeWhile (\<lambda>c. c \<noteq> CHR ''='') k \<mapsto> tl (dropWhile (\<lambda>c. c \<noteq> CHR ''='') k))) rest
        else if isBoolFlag k then rflagLoop (m(k \<mapsto> ''1'')) rest
        else case rest of
          [] \<Rightarrow> Inl (RFlagNeedsValue k)
        | v # rest' \<Rightarrow>
            if length v \<ge> 2 \<and> take 2 v = ''--'' then Inl (RFlagNeedsValue k)
            else rflagLoop (m(k \<mapsto> v)) rest')"

definition flags :: "string list \<Rightarrow> receipt_die + (string \<rightharpoonup> string)" where
  "flags args = rflagLoop Map.empty args"

definition rvalue :: "(string \<rightharpoonup> string) \<Rightarrow> string \<Rightarrow> string" where
  "rvalue m k = (case m k of None \<Rightarrow> [] | Some v \<Rightarrow> v)"

definition rneed :: "(string \<rightharpoonup> string) \<Rightarrow> string \<Rightarrow> receipt_die + string" where
  "rneed m k = (if rvalue m k = [] then Inl (RFlagRequired k) else Inr (rvalue m k))"

definition sha256File :: "(string \<rightharpoonup> bytes) \<Rightarrow> string \<Rightarrow> receipt_die + bytes" where
  "sha256File files name =
     (case files name of None \<Rightarrow> Inl (RReading name) | Some raw \<Rightarrow> Inr (sha256 raw))"

text \<open>Standard input is read once: a second \<open>-\<close> gives the empty string.\<close>

definition afterRead :: "(string \<rightharpoonup> bytes) \<Rightarrow> string \<Rightarrow> (string \<rightharpoonup> bytes)" where
  "afterRead files name = (if name = ''-'' then files(''-'' \<mapsto> []) else files)"

text \<open>The \<open>--prev\<close> digest a receipt chains onto; the genesis digest is 32 zero bytes.\<close>

definition emitPrev :: "(string \<rightharpoonup> string) \<Rightarrow> receipt_die + bytes" where
  "emitPrev m =
     (if rvalue m ''prev'' \<noteq> [] then
        case hex_decode (rvalue m ''prev'') of
          Inl _ \<Rightarrow> Inl RPrevHex
        | Inr prev \<Rightarrow> if length prev \<noteq> 32 then Inl RPrevHex else Inr prev
      else Inr (replicate 32 0))"

definition runEmit :: "(string \<rightharpoonup> bytes) \<Rightarrow> int option \<Rightarrow> string list \<Rightarrow>
    receipt_die + ReceiptBundle \<times> bytes" where
  "runEmit files nonce args =
     bindE (flags args) (\<lambda>m.
     bindE (rneed m ''key'') (\<lambda>k.
     bindE (wrapE RBadKey (PrivKeyFromHex k)) (\<lambda>key.
     bindE (rneed m ''batch'') (\<lambda>n.
     bindE (case parse_uint64 n of None \<Rightarrow> Inl RBadBatch | Some batch \<Rightarrow> Inr batch) (\<lambda>batch.
     bindE (rneed m ''session'') (\<lambda>session.
     if NL \<in> set session \<or> CHR 0x0D \<in> set session then Inl RSessionNewline
     else
     bindE (emitPrev m) (\<lambda>prev.
     let (px, py) = PubXY key in
     bindE (bindE (rneed m ''audio'') (sha256File files)) (\<lambda>inputHash.
     bindE (bindE (rneed m ''text'') (sha256File (afterRead files (rvalue m ''audio'')))) (\<lambda>outputHash.
     let r = \<lparr> ROrigin = ReceiptOrigin, RSession = session, RBatch = batch, RInputHash = inputHash,
               ROutputHash = outputHash, RRetained = (rvalue m ''retained'' = ''1''),
               RPrevDigest = prev \<rparr>;
         body = ReceiptBody r in
     case SignNote nonce body key of
       None \<Rightarrow> Inl RSignFails
     | Some sig \<Rightarrow>
         Inr (\<lparr> RBSchema = ReceiptOrigin, RBBody = string_of_bytes body, RBSig = hex_encode sig,
                RBPubX = hex_encode px, RBPubY = hex_encode py \<rparr>, ReceiptDigest body))))))))))"

text \<open>\<open>decode\<close> is \<open>json.Unmarshal\<close> into a bundle; the result is what \<open>verify\<close> reports, with status 0
  if it is OK and 1 otherwise.\<close>

definition runVerify :: "(bytes \<Rightarrow> ReceiptBundle option) \<Rightarrow> (string \<rightharpoonup> bytes) \<Rightarrow> bytes option \<Rightarrow>
    string list \<Rightarrow> receipt_die + ReceiptResult" where
  "runVerify decode files stdin args =
     bindE (flags args) (\<lambda>m.
     let name = rvalue m ''file'' in
     bindE (case (if name \<noteq> [] then files name else stdin) of
              None \<Rightarrow> Inl (RReading name)
            | Some raw \<Rightarrow> Inr raw) (\<lambda>raw.
     bindE (case decode raw of None \<Rightarrow> Inl RBadJSON | Some b \<Rightarrow> Inr b) (\<lambda>b.
     bindE (if rvalue m ''expect-prev'' \<noteq> [] then
              case hex_decode (rvalue m ''expect-prev'') of
                Inl _ \<Rightarrow> Inl RExpectPrevHex
              | Inr d \<Rightarrow> if length d \<noteq> 32 then Inl RExpectPrevHex else Inr (Some d)
            else Inr None) (\<lambda>expected.
     if (rvalue m ''pin-x'' = []) \<noteq> (rvalue m ''pin-y'' = []) then Inl RPinTogether
     else
     bindE (if rvalue m ''pin-x'' \<noteq> [] then
              (case hexLen (rvalue m ''pin-x'') 32 of
                 Inl _ \<Rightarrow> Inl RPinX
               | Inr x \<Rightarrow>
                   (case hexLen (rvalue m ''pin-y'') 32 of
                      Inl _ \<Rightarrow> Inl RPinY
                    | Inr y \<Rightarrow> Inr (Some x, Some y)))
            else Inr (None, None)) (\<lambda>(pinX, pinY).
     Inr (VerifyReceipt b \<lparr> ROPrevDigest = expected, ROPinPubX = pinX, ROPinPubY = pinY,
            RequireNotRetained = (rvalue m ''require-not-retained'' = ''1'') \<rparr>))))))"

section \<open>Properties\<close>

lemma case_option_Inr_iff:
  "(case x of None \<Rightarrow> Inl e | Some v \<Rightarrow> Inr (f v)) = Inr y \<longleftrightarrow> (\<exists>v. x = Some v \<and> y = f v)"
  by (auto split: option.splits)

text \<open>The receipt \<open>emit\<close> builds from its flags.\<close>

lemma runEmit_receipt:
  assumes "runEmit files nonce args = Inr (b, next)"
  shows "\<exists>r m. flags args = Inr m \<and> validReceipt r \<and> RBBody b = string_of_bytes (ReceiptBody r) \<and>
     next = sha256 (ReceiptBody r) \<and> RSession r = rvalue m ''session'' \<and>
     parse_uint64 (rvalue m ''batch'') = Some (RBatch r) \<and>
     map_option sha256 (files (rvalue m ''audio'')) = Some (RInputHash r) \<and>
     map_option sha256 (afterRead files (rvalue m ''audio'') (rvalue m ''text'')) = Some (ROutputHash r) \<and>
     RRetained r = (rvalue m ''retained'' = ''1'')"
proof -
  from assms obtain m key batch prev ih oh where m: "flags args = Inr m"
    and n: "parse_uint64 (rvalue m ''batch'') = Some batch"
    and ss: "NL \<notin> set (rvalue m ''session'')"
    and prev: "emitPrev m = Inr prev"
    and hashes: "sha256File files (rvalue m ''audio'') = Inr ih" "sha256File (afterRead files (rvalue m ''audio'')) (rvalue m ''text'') = Inr oh"
    and b: "RBBody b = string_of_bytes (ReceiptBody \<lparr> ROrigin = ReceiptOrigin,
        RSession = rvalue m ''session'', RBatch = batch, RInputHash = ih, ROutputHash = oh,
        RRetained = (rvalue m ''retained'' = ''1''), RPrevDigest = prev \<rparr>)"
      "next = sha256 (ReceiptBody \<lparr> ROrigin = ReceiptOrigin,
        RSession = rvalue m ''session'', RBatch = batch, RInputHash = ih, ROutputHash = oh,
        RRetained = (rvalue m ''retained'' = ''1''), RPrevDigest = prev \<rparr>)"
    unfolding runEmit_def bindE_Inr_iff Let_def case_prod_beta
    by (auto simp: rneed_def ReceiptDigest_def bindE_Inr_iff case_option_Inr_iff split: if_splits)
  have prev: "length prev = 32"
    using prev by (auto simp: emitPrev_def split: if_splits sum.splits)
  have h: "map_option sha256 (files (rvalue m ''audio'')) = Some ih"
    "map_option sha256 (afterRead files (rvalue m ''audio'') (rvalue m ''text'')) = Some oh" "length ih = 32" "length oh = 32"
    using hashes by (auto simp: sha256File_def split: option.splits)
  show ?thesis
    by (intro exI [of _ "\<lparr> ROrigin = ReceiptOrigin, RSession = rvalue m ''session'', RBatch = batch,
        RInputHash = ih, ROutputHash = oh, RRetained = (rvalue m ''retained'' = ''1''),
        RPrevDigest = prev \<rparr>"] exI [of _ m]) (use m n ss prev b h in \<open>simp add: validReceipt_def\<close>)
qed

text \<open>What \<open>emit\<close> prints parses back to the receipt of its flags: the session and batch given, the
  SHA-256 of the two files, the retention flag; and the digest it prints is the one the next
  receipt must chain onto.\<close>

theorem runEmit_roundtrip:
  assumes "runEmit files nonce args = Inr (b, next)"
  shows "\<exists>m r. flags args = Inr m \<and> ParseReceipt (bytes_of_string (RBBody b)) = Inr r \<and>
     RSession r = rvalue m ''session'' \<and> parse_uint64 (rvalue m ''batch'') = Some (RBatch r) \<and>
     map_option sha256 (files (rvalue m ''audio'')) = Some (RInputHash r) \<and>
     map_option sha256 (afterRead files (rvalue m ''audio'') (rvalue m ''text'')) = Some (ROutputHash r) \<and>
     RRetained r = (rvalue m ''retained'' = ''1'') \<and> next = ReceiptDigest (bytes_of_string (RBBody b))"
  using runEmit_receipt [OF assms] ParseReceipt_body by (auto simp: ReceiptDigest_def)

end
