(* ===== verification/Receipt_Demo.thy ===== *)
theory Receipt_Demo
  imports Receipt_Cli Sha256_Eval
begin

text \<open>
  A session of two signed receipts, with the kernel-computed digests of their bodies and keys under
  which they verify, and a run of \<open>emit\<close>: the concrete inputs on which the theorems about receipts
  are applied.
\<close>

definition genesisDigest :: bytes where "genesisDigest = replicate 32 0"

lemma replicate_numeral: "replicate (numeral k) x = x # replicate (pred_numeral k) x"
  by (simp add: numeral_eq_Suc)

lemma rcp_key: "0 \<le> q \<Longrightarrow> q < 256 ^ 32 \<Longrightarrow> int (be_nat (be_bytes 32 (nat q))) = q"
  by (subst be_nat_be_bytes) (simp_all add: zless_nat_eq_int_zless)

definition rcpAReceipt :: Receipt where
  "rcpAReceipt = \<lparr> ROrigin = ReceiptOrigin, RSession = ''s'', RBatch = 1,
     RInputHash = replicate 32 0, ROutputHash = replicate 32 0, RRetained = False,
     RPrevDigest = genesisDigest \<rparr>"

definition rcpABody :: bytes where
  "rcpABody = ReceiptBody rcpAReceipt"

definition rcpAH :: int where
  "rcpAH = 18245120335692775466955035900988980096141590826134117716934485279401955492297"

definition rcpAQx :: int where
  "rcpAQx = 83550284014907879575135613668679862591366341572801537893381008708365262365011"

definition rcpAQy :: int where
  "rcpAQy = 4002119458392456055319763719159732549436031332957637704890527997267796594271"

definition rcpABundle :: ReceiptBundle where
  "rcpABundle = \<lparr> RBSchema = ReceiptOrigin, RBBody = string_of_bytes rcpABody,
     RBSig = hex_encode (sigBytes rcpAH rcpAH), RBPubX = hex_encode (be_bytes 32 (nat rcpAQx)),
     RBPubY = hex_encode (be_bytes 32 (nat rcpAQy)) \<rparr>"

lemma rcpA_body: "rcpABody =
    [104, 111, 110, 101, 115, 116, 45, 101, 97, 114, 47, 114, 101, 115, 116, 114, 97, 105, 110,
    116, 45, 114, 101, 99, 101, 105, 112, 116, 47, 118, 49, 10, 115, 10, 49, 10, 48, 48, 48, 48,
    48, 48, 48, 48, 48, 48, 48, 48, 48, 48, 48, 48, 48, 48, 48, 48, 48, 48, 48, 48, 48, 48, 48,
    48, 48, 48, 48, 48, 48, 48, 48, 48, 48, 48, 48, 48, 48, 48, 48, 48, 48, 48, 48, 48, 48, 48,
    48, 48, 48, 48, 48, 48, 48, 48, 48, 48, 48, 48, 48, 48, 10, 48, 48, 48, 48, 48, 48, 48, 48,
    48, 48, 48, 48, 48, 48, 48, 48, 48, 48, 48, 48, 48, 48, 48, 48, 48, 48, 48, 48, 48, 48, 48,
    48, 48, 48, 48, 48, 48, 48, 48, 48, 48, 48, 48, 48, 48, 48, 48, 48, 48, 48, 48, 48, 48, 48,
    48, 48, 48, 48, 48, 48, 48, 48, 48, 48, 10, 48, 10, 48, 48, 48, 48, 48, 48, 48, 48, 48, 48,
    48, 48, 48, 48, 48, 48, 48, 48, 48, 48, 48, 48, 48, 48, 48, 48, 48, 48, 48, 48, 48, 48, 48,
    48, 48, 48, 48, 48, 48, 48, 48, 48, 48, 48, 48, 48, 48, 48, 48, 48, 48, 48, 48, 48, 48, 48,
    48, 48, 48, 48, 48, 48, 48, 48, 10]"
  by (simp add: rcpABody_def rcpAReceipt_def ReceiptBody_def ReceiptOrigin_def genesisDigest_def Let_def dec.simps
      digit_char_def hex_char_def NL_def bytes_of_string_def byte_of_char_def
      replicate_numeral)

lemma rcpA_sha: "sha256 rcpABody =
     [40, 86, 95, 69, 177, 28, 74, 107, 17, 63, 132, 40, 205, 153, 93, 148, 167, 233, 152, 105,
      193, 45, 70, 29, 110, 152, 67, 21, 101, 183, 1, 201]"
proof -
  have pad: "sha_pad [104, 111, 110, 101, 115, 116, 45, 101, 97, 114, 47, 114, 101, 115, 116, 114, 97, 105,
      110, 116, 45, 114, 101, 99, 101, 105, 112, 116, 47, 118, 49, 10, 115, 10, 49, 10, 48, 48,
      48, 48, 48, 48, 48, 48, 48, 48, 48, 48, 48, 48, 48, 48, 48, 48, 48, 48, 48, 48, 48, 48,
      48, 48, 48, 48, 48, 48, 48, 48, 48, 48, 48, 48, 48, 48, 48, 48, 48, 48, 48, 48, 48, 48,
      48, 48, 48, 48, 48, 48, 48, 48, 48, 48, 48, 48, 48, 48, 48, 48, 48, 48, 10, 48, 48, 48,
      48, 48, 48, 48, 48, 48, 48, 48, 48, 48, 48, 48, 48, 48, 48, 48, 48, 48, 48, 48, 48, 48,
      48, 48, 48, 48, 48, 48, 48, 48, 48, 48, 48, 48, 48, 48, 48, 48, 48, 48, 48, 48, 48, 48,
      48, 48, 48, 48, 48, 48, 48, 48, 48, 48, 48, 48, 48, 48, 48, 48, 48, 10, 48, 10, 48, 48,
      48, 48, 48, 48, 48, 48, 48, 48, 48, 48, 48, 48, 48, 48, 48, 48, 48, 48, 48, 48, 48, 48,
      48, 48, 48, 48, 48, 48, 48, 48, 48, 48, 48, 48, 48, 48, 48, 48, 48, 48, 48, 48, 48, 48,
      48, 48, 48, 48, 48, 48, 48, 48, 48, 48, 48, 48, 48, 48, 48, 48, 48, 48, 10] =
      [104, 111, 110, 101, 115, 116, 45, 101, 97, 114, 47, 114, 101, 115, 116, 114, 97, 105,
      110, 116, 45, 114, 101, 99, 101, 105, 112, 116, 47, 118, 49, 10, 115, 10, 49, 10, 48, 48,
      48, 48, 48, 48, 48, 48, 48, 48, 48, 48, 48, 48, 48, 48, 48, 48, 48, 48, 48, 48, 48, 48,
      48, 48, 48, 48, 48, 48, 48, 48, 48, 48, 48, 48, 48, 48, 48, 48, 48, 48, 48, 48, 48, 48,
      48, 48, 48, 48, 48, 48, 48, 48, 48, 48, 48, 48, 48, 48, 48, 48, 48, 48, 10, 48, 48, 48,
      48, 48, 48, 48, 48, 48, 48, 48, 48, 48, 48, 48, 48, 48, 48, 48, 48, 48, 48, 48, 48, 48,
      48, 48, 48, 48, 48, 48, 48, 48, 48, 48, 48, 48, 48, 48, 48, 48, 48, 48, 48, 48, 48, 48,
      48, 48, 48, 48, 48, 48, 48, 48, 48, 48, 48, 48, 48, 48, 48, 48, 48, 10, 48, 10, 48, 48,
      48, 48, 48, 48, 48, 48, 48, 48, 48, 48, 48, 48, 48, 48, 48, 48, 48, 48, 48, 48, 48, 48,
      48, 48, 48, 48, 48, 48, 48, 48, 48, 48, 48, 48, 48, 48, 48, 48, 48, 48, 48, 48, 48, 48,
      48, 48, 48, 48, 48, 48, 48, 48, 48, 48, 48, 48, 48, 48, 48, 48, 48, 48, 10, 128, 0, 0, 0,
      0, 0, 0, 0, 0, 0, 0, 0, 0, 0, 0, 0, 0, 0, 0, 0, 0, 7, 72]"
    by (simp add: sha_pad_simps)
  show ?thesis
    by (simp only: rcpA_body sha256_bits pad, simp only: sha_bit_simps) (simp add: byte_of_bits_value)
qed

lemma rcpA_hash: "int (be_nat (sha256 rcpABody)) = rcpAH"
  by (simp add: rcpA_sha be_nat_def rcpAH_def)

lemma rcpA_onCurve: "onCurve rcpAQx rcpAQy"
  by (rule onCurve_hint [where c = 30420659746519778355524684823789029053648791397486773723645766209334926200810
      and ?q1.0 = 138325167707665783683276808203203900618933036748888055288350682861369280681
      and ?q2.0 = 5036918244226505740856766283618299491994993368340422217233840750290962824382964333043414277797334553320423784327543878839018443774688098625076313265897229])
    (simp_all add: rcpAQx_def rcpAQy_def p256_p_def p256_b_def)

lemma rcpA_add: "ec_add p256_G (Affine rcpAQx rcpAQy) = Affine rcpAH
    103385337634652903626041840660083570859956653881064309472250663764192320674852"
  unfolding p256_G_def
  by (rule ec_add_hint [where
        i = 108035688481066839779008326825852422849372635438773190035363527575754151277422
        and ?q0.0 = "32758810451551705266543597811477852912267725295672663307037869887253377917899"
        and l = 48718890708327785697819827500874398184064279887582728460666607407225471514793
        and ?q1.0 = "-29979741901735471574131312278928218324224297840551440641724623892364924017379"
        and ?q2.0 = "20498207848534983621062960344903369485289152891818722350345856011575666345505"
        and ?q3.0 = "12704146536037289965750057482638503988530876564364719707181013824711732498116"])
    (simp_all add: rcpAQx_def rcpAQy_def rcpAH_def p256_p_def)

lemma rcpA_verify: "ecdsaVerify rcpAQx rcpAQy (sha256 rcpABody) rcpAH rcpAH"
proof (rule ecdsaVerify_unit)
  show "int (be_nat (sha256 rcpABody)) = rcpAH"
    by (rule rcpA_hash)
  show "rcpAH * 77302351900676006213243324558698943785888819099617672563859717265164074141186 =
      12180371925906661268321600286786851347697039594526848617401870325523173146689 * p256_n + 1"
    by (simp add: rcpAH_def p256_n_def)
  show "onCurve rcpAQx rcpAQy"
    by (rule rcpA_onCurve)
  show "ec_add p256_G (Affine rcpAQx rcpAQy) = Affine rcpAH
    103385337634652903626041840660083570859956653881064309472250663764192320674852"
    by (rule rcpA_add)
qed (simp_all add: rcpAH_def p256_n_def)

lemma rcpA_signed: "VerifyCheckpointSig rcpABody (sigBytes rcpAH rcpAH) (be_bytes 32 (nat rcpAQx))
    (be_bytes 32 (nat rcpAQy))"
proof -
  have "0 \<le> rcpAH" "rcpAH < p256_n"
    by (simp_all add: rcpAH_def p256_n_def)
  moreover have "int (be_nat (be_bytes 32 (nat rcpAQx))) = rcpAQx"
      "int (be_nat (be_bytes 32 (nat rcpAQy))) = rcpAQy"
    by (rule rcp_key; simp add: rcpAQx_def rcpAQy_def)+
  ultimately show ?thesis
    using rcpA_verify by (simp add: VerifyCheckpointSig_def verifySig_sigBytes isOk_verifySig)
qed

definition rcpBReceipt :: Receipt where
  "rcpBReceipt = \<lparr> ROrigin = ReceiptOrigin, RSession = ''s'', RBatch = 20,
     RInputHash = replicate 32 0, ROutputHash = replicate 32 0, RRetained = False,
     RPrevDigest = sha256 rcpABody \<rparr>"

definition rcpBBody :: bytes where
  "rcpBBody = ReceiptBody rcpBReceipt"

definition rcpBH :: int where
  "rcpBH = 27915876310702864062468297840671174718422516808396226170873659469805110340069"

definition rcpBQx :: int where
  "rcpBQx = 62437127287573876109335629482476000283093719962176489954866116916502645929524"

definition rcpBQy :: int where
  "rcpBQy = 13078894739119503689551053449751909787913724322002822975556421950271323572194"

definition rcpBBundle :: ReceiptBundle where
  "rcpBBundle = \<lparr> RBSchema = ReceiptOrigin, RBBody = string_of_bytes rcpBBody,
     RBSig = hex_encode (sigBytes rcpBH rcpBH), RBPubX = hex_encode (be_bytes 32 (nat rcpBQx)),
     RBPubY = hex_encode (be_bytes 32 (nat rcpBQy)) \<rparr>"

lemma rcpB_body: "rcpBBody =
    [104, 111, 110, 101, 115, 116, 45, 101, 97, 114, 47, 114, 101, 115, 116, 114, 97, 105, 110,
    116, 45, 114, 101, 99, 101, 105, 112, 116, 47, 118, 49, 10, 115, 10, 50, 48, 10, 48, 48, 48,
    48, 48, 48, 48, 48, 48, 48, 48, 48, 48, 48, 48, 48, 48, 48, 48, 48, 48, 48, 48, 48, 48, 48,
    48, 48, 48, 48, 48, 48, 48, 48, 48, 48, 48, 48, 48, 48, 48, 48, 48, 48, 48, 48, 48, 48, 48,
    48, 48, 48, 48, 48, 48, 48, 48, 48, 48, 48, 48, 48, 48, 48, 10, 48, 48, 48, 48, 48, 48, 48,
    48, 48, 48, 48, 48, 48, 48, 48, 48, 48, 48, 48, 48, 48, 48, 48, 48, 48, 48, 48, 48, 48, 48,
    48, 48, 48, 48, 48, 48, 48, 48, 48, 48, 48, 48, 48, 48, 48, 48, 48, 48, 48, 48, 48, 48, 48,
    48, 48, 48, 48, 48, 48, 48, 48, 48, 48, 48, 10, 48, 10, 50, 56, 53, 54, 53, 102, 52, 53, 98,
    49, 49, 99, 52, 97, 54, 98, 49, 49, 51, 102, 56, 52, 50, 56, 99, 100, 57, 57, 53, 100, 57,
    52, 97, 55, 101, 57, 57, 56, 54, 57, 99, 49, 50, 100, 52, 54, 49, 100, 54, 101, 57, 56, 52,
    51, 49, 53, 54, 53, 98, 55, 48, 49, 99, 57, 10]"
  by (simp add: rcpBBody_def rcpBReceipt_def ReceiptBody_def ReceiptOrigin_def rcpA_sha Let_def dec.simps
      digit_char_def hex_char_def NL_def bytes_of_string_def byte_of_char_def
      replicate_numeral)

lemma rcpB_sha: "sha256 rcpBBody =
     [61, 183, 211, 121, 34, 135, 184, 180, 129, 137, 87, 220, 221, 21, 204, 211, 88, 240, 224,
      185, 22, 90, 215, 61, 137, 112, 51, 55, 221, 246, 169, 229]"
proof -
  have pad: "sha_pad [104, 111, 110, 101, 115, 116, 45, 101, 97, 114, 47, 114, 101, 115, 116, 114, 97, 105,
      110, 116, 45, 114, 101, 99, 101, 105, 112, 116, 47, 118, 49, 10, 115, 10, 50, 48, 10, 48,
      48, 48, 48, 48, 48, 48, 48, 48, 48, 48, 48, 48, 48, 48, 48, 48, 48, 48, 48, 48, 48, 48,
      48, 48, 48, 48, 48, 48, 48, 48, 48, 48, 48, 48, 48, 48, 48, 48, 48, 48, 48, 48, 48, 48,
      48, 48, 48, 48, 48, 48, 48, 48, 48, 48, 48, 48, 48, 48, 48, 48, 48, 48, 48, 10, 48, 48,
      48, 48, 48, 48, 48, 48, 48, 48, 48, 48, 48, 48, 48, 48, 48, 48, 48, 48, 48, 48, 48, 48,
      48, 48, 48, 48, 48, 48, 48, 48, 48, 48, 48, 48, 48, 48, 48, 48, 48, 48, 48, 48, 48, 48,
      48, 48, 48, 48, 48, 48, 48, 48, 48, 48, 48, 48, 48, 48, 48, 48, 48, 48, 10, 48, 10, 50,
      56, 53, 54, 53, 102, 52, 53, 98, 49, 49, 99, 52, 97, 54, 98, 49, 49, 51, 102, 56, 52, 50,
      56, 99, 100, 57, 57, 53, 100, 57, 52, 97, 55, 101, 57, 57, 56, 54, 57, 99, 49, 50, 100,
      52, 54, 49, 100, 54, 101, 57, 56, 52, 51, 49, 53, 54, 53, 98, 55, 48, 49, 99, 57, 10] =
      [104, 111, 110, 101, 115, 116, 45, 101, 97, 114, 47, 114, 101, 115, 116, 114, 97, 105,
      110, 116, 45, 114, 101, 99, 101, 105, 112, 116, 47, 118, 49, 10, 115, 10, 50, 48, 10, 48,
      48, 48, 48, 48, 48, 48, 48, 48, 48, 48, 48, 48, 48, 48, 48, 48, 48, 48, 48, 48, 48, 48,
      48, 48, 48, 48, 48, 48, 48, 48, 48, 48, 48, 48, 48, 48, 48, 48, 48, 48, 48, 48, 48, 48,
      48, 48, 48, 48, 48, 48, 48, 48, 48, 48, 48, 48, 48, 48, 48, 48, 48, 48, 48, 10, 48, 48,
      48, 48, 48, 48, 48, 48, 48, 48, 48, 48, 48, 48, 48, 48, 48, 48, 48, 48, 48, 48, 48, 48,
      48, 48, 48, 48, 48, 48, 48, 48, 48, 48, 48, 48, 48, 48, 48, 48, 48, 48, 48, 48, 48, 48,
      48, 48, 48, 48, 48, 48, 48, 48, 48, 48, 48, 48, 48, 48, 48, 48, 48, 48, 10, 48, 10, 50,
      56, 53, 54, 53, 102, 52, 53, 98, 49, 49, 99, 52, 97, 54, 98, 49, 49, 51, 102, 56, 52, 50,
      56, 99, 100, 57, 57, 53, 100, 57, 52, 97, 55, 101, 57, 57, 56, 54, 57, 99, 49, 50, 100,
      52, 54, 49, 100, 54, 101, 57, 56, 52, 51, 49, 53, 54, 53, 98, 55, 48, 49, 99, 57, 10, 128,
      0, 0, 0, 0, 0, 0, 0, 0, 0, 0, 0, 0, 0, 0, 0, 0, 0, 0, 0, 7, 80]"
    by (simp add: sha_pad_simps)
  show ?thesis
    by (simp only: rcpB_body sha256_bits pad, simp only: sha_bit_simps) (simp add: byte_of_bits_value)
qed

lemma rcpB_hash: "int (be_nat (sha256 rcpBBody)) = rcpBH"
  by (simp add: rcpB_sha be_nat_def rcpBH_def)

lemma rcpB_onCurve: "onCurve rcpBQx rcpBQy"
  by (rule onCurve_hint [where c = 49899019785440202856711171025970955925726526906294735170860026730762166262626
      and ?q1.0 = 1477281295842347906111634515879418144642113070115325301816589786764773996510
      and ?q2.0 = 2102082948809262745472024395611356146927212793470325034695497475074854872300276223044036378045788820703769092335521340662602742464679572418439062484785267])
    (simp_all add: rcpBQx_def rcpBQy_def p256_p_def p256_b_def)

lemma rcpB_add: "ec_add p256_G (Affine rcpBQx rcpBQy) = Affine rcpBH
    105329196989030294483326297902810904860173139472528152968087850686153961270154"
  unfolding p256_G_def
  by (rule ec_add_hint [where
        i = 29471361868964102141606533781756889500773289926222396342350365102979156935091
        and ?q0.0 = "3562655579472720968796963507948505158050430178597633663337290166209187728007"
        and l = 45798104898566706537844192858402454479406709643790172933159044299116903757158
        and ?q1.0 = "-5868041165344850902221623467687011556937954622937108626606161497822895189073"
        and ?q2.0 = "18114073479490565321608152261634395046831101641031224388063055116372081933835"
        and ?q3.0 = "8117531034942489086223035945033737750597142663058716510311312016870905479673"])
    (simp_all add: rcpBQx_def rcpBQy_def rcpBH_def p256_p_def)

lemma rcpB_verify: "ecdsaVerify rcpBQx rcpBQy (sha256 rcpBBody) rcpBH rcpBH"
proof (rule ecdsaVerify_unit)
  show "int (be_nat (sha256 rcpBBody)) = rcpBH"
    by (rule rcpB_hash)
  show "rcpBH * 110358869768061702571205765513065442933111388192433215741351784226841401624469 =
      26606002009666112713747014052545987109137532343173902076262494197115626954440 * p256_n + 1"
    by (simp add: rcpBH_def p256_n_def)
  show "onCurve rcpBQx rcpBQy"
    by (rule rcpB_onCurve)
  show "ec_add p256_G (Affine rcpBQx rcpBQy) = Affine rcpBH
    105329196989030294483326297902810904860173139472528152968087850686153961270154"
    by (rule rcpB_add)
qed (simp_all add: rcpBH_def p256_n_def)

lemma rcpB_signed: "VerifyCheckpointSig rcpBBody (sigBytes rcpBH rcpBH) (be_bytes 32 (nat rcpBQx))
    (be_bytes 32 (nat rcpBQy))"
proof -
  have "0 \<le> rcpBH" "rcpBH < p256_n"
    by (simp_all add: rcpBH_def p256_n_def)
  moreover have "int (be_nat (be_bytes 32 (nat rcpBQx))) = rcpBQx"
      "int (be_nat (be_bytes 32 (nat rcpBQy))) = rcpBQy"
    by (rule rcp_key; simp add: rcpBQx_def rcpBQy_def)+
  ultimately show ?thesis
    using rcpB_verify by (simp add: VerifyCheckpointSig_def verifySig_sigBytes isOk_verifySig)
qed

lemma rcp_parse: "ParseReceipt rcpABody = Inr rcpAReceipt" "ParseReceipt rcpBBody = Inr rcpBReceipt"
  unfolding rcpABody_def rcpBBody_def
  by (simp_all add: ParseReceipt_body validReceipt_def rcpAReceipt_def rcpBReceipt_def genesisDigest_def NL_def)

definition demoOptions :: ReceiptOptions where
  "demoOptions = \<lparr> ROPrevDigest = None, ROPinPubX = None, ROPinPubY = None, RequireNotRetained = True \<rparr>"

lemma rcp_chain: "followChain demoOptions genesisDigest ([rcpABundle\<lparr> RBSchema := sch \<rparr>] @ [rcpBBundle])"
  unfolding followChain_append
  by (simp add: followChain_Cons VerifyReceipt_def rcpABundle_def rcpBBundle_def demoOptions_def pinOK_def
      rcpA_signed rcpB_signed rcp_parse rcpAReceipt_def rcpBReceipt_def constantTimeCompare_def)

text \<open>The same session followed twice, the schema of its first bundle changed, which nothing signs.\<close>

lemma receipt_history_is_determined_witness:
  "map RBBody [rcpABundle] = map RBBody [rcpABundle\<lparr> RBSchema := [] \<rparr>]"
proof (rule receipt_history_is_determined)
  show "followChain demoOptions genesisDigest ([rcpABundle] @ [rcpBBundle])"
    using rcp_chain [of "RBSchema rcpABundle"] by simp
  show "followChain demoOptions genesisDigest ([rcpABundle\<lparr> RBSchema := [] \<rparr>] @ [rcpBBundle])"
    by (rule rcp_chain)
  show "genesisDigest \<notin> (\<lambda>r. sha256 (bytes_of_string (RBBody r))) `
      (set [rcpABundle] \<union> set [rcpABundle\<lparr> RBSchema := [] \<rparr>])"
    by (simp add: rcpABundle_def rcpA_sha genesisDigest_def replicate_numeral)
qed simp_all

definition emitArgs :: "string list" where
  "emitArgs = [''--key'', replicate 63 CHR ''0'' @ ''1'', ''--batch=7'', ''--session'', ''s'', ''--retained'',
     ''--audio'', ''in'', ''--text'', ''out'']"

lemma demo_emit: "\<exists>b d. runEmit (\<lambda>name. Some (bytes_of_string name)) (Some 1) emitArgs = Inr (b, d)"
  by (simp add: emitArgs_def runEmit_def flags_def isBoolFlag_def
      replicate_numeral rneed_def rvalue_def PrivKeyFromHex_def case_prod_beta emitPrev_def sha256File_def afterRead_def afterRead_def
      parse_uint64_def NL_def SignNote_def from_hex_char_def digit_val_def signNote_def Let_def)

lemma runEmit_roundtrip_witness:
  "\<exists>m r b d. runEmit (\<lambda>name. Some (bytes_of_string name)) (Some 1) emitArgs = Inr (b, d) \<and>
     flags emitArgs = Inr m \<and> ParseReceipt (bytes_of_string (RBBody b)) = Inr r \<and>
     RSession r = rvalue m ''session'' \<and> d = ReceiptDigest (bytes_of_string (RBBody b))"
  using demo_emit runEmit_roundtrip by fast

end
