(* ===== verification/Logd.thy ===== *)
theory Logd
  imports Witness "HOL-Library.Sublist"
begin

text \<open>
  The log operator's server (cmd/he-logd/main.go): reading the log file, the two handlers, and
  the network a witness sees when it polls this server. The last section composes it with
  \<open>poll\<close>: an honest log that only grows is followed, poll after poll.
\<close>

section \<open>The log file\<close>

datatype load_error = LogUnreadable | LogJSON | LeafHex nat hex_error

text \<open>The loop over \<open>f.Leaves\<close>, from index \<open>i\<close>.\<close>

fun addLeaves :: "nat \<Rightarrow> MerkleLog \<Rightarrow> string list \<Rightarrow> load_error + MerkleLog" where
  "addLeaves i l [] = Inr l"
| "addLeaves i l (h # hs) =
     (case hex_decode h of
        Inl e \<Rightarrow> Inl (LeafHex i e)
      | Inr b \<Rightarrow> addLeaves (i + 1) (fst (Add b l)) hs)"

text \<open>\<open>decode\<close> is \<open>json.Unmarshal\<close> into the struct with the field \<open>leaves\<close>.\<close>

definition loadLogFile :: "(bytes \<Rightarrow> string list option) \<Rightarrow> disk_file \<Rightarrow> load_error + MerkleLog" where
  "loadLogFile decode disk =
     (case disk of
        FileMissing \<Rightarrow> Inl LogUnreadable
      | FileUnreadable \<Rightarrow> Inl LogUnreadable
      | FileContents raw \<Rightarrow>
          (case decode raw of
             None \<Rightarrow> Inl LogJSON
           | Some hexes \<Rightarrow> addLeaves 0 \<lparr> Leaves = [] \<rparr> hexes))"

section \<open>The handlers\<close>

record checkpointReply =
  SvOrigin :: string
  SvSize :: int
  SvRoot :: string
  SvBody :: string
  SvSig :: string
  SvLogPubX :: string
  SvLogPubY :: string

record consistencyReply =
  SvFrom :: int
  SvNewSize :: int
  SvNewRoot :: string
  SvProof :: "string list"

datatype logd_error =
    LoadFails load_error
  | SignFails
  | BadFrom
  | FromExceedsSize
  | ProofFails merkle_error

datatype logd_reply =
    LogdError int logd_error
  | CheckpointReply checkpointReply
  | ConsistencyReply consistencyReply

definition replyStatus :: "logd_reply \<Rightarrow> int" where
  "replyStatus r = (case r of LogdError status _ \<Rightarrow> status | _ \<Rightarrow> 200)"

text \<open>\<open>sign origin size root\<close> is the outcome of \<open>SignCheckpoint\<close> under the log key: signing is
  randomised and may fail, so it is an input.\<close>

type_synonym signer = "string \<Rightarrow> int \<Rightarrow> bytes \<Rightarrow> bytes option"

definition checkpointHandler :: "signer \<Rightarrow> load_error + MerkleLog \<Rightarrow> string \<Rightarrow> priv_key \<Rightarrow> logd_reply" where
  "checkpointHandler sign load origin key =
     (let (px, py) = PubXY key in
      case load of
        Inl e \<Rightarrow> LogdError 500 (LoadFails e)
      | Inr l \<Rightarrow>
          let root = Root l; body = CheckpointBody origin (int (Size l)) root in
          case sign origin (int (Size l)) root of
            None \<Rightarrow> LogdError 500 SignFails
          | Some sig \<Rightarrow>
              CheckpointReply \<lparr> SvOrigin = origin, SvSize = int (Size l), SvRoot = hex_encode root,
                SvBody = string_of_bytes body, SvSig = hex_encode sig,
                SvLogPubX = hex_encode px, SvLogPubY = hex_encode py \<rparr>)"

definition consistencyHandler :: "load_error + MerkleLog \<Rightarrow> string \<Rightarrow> logd_reply" where
  "consistencyHandler load query =
     (case atoi query of
        None \<Rightarrow> LogdError 400 BadFrom
      | Some from_ \<Rightarrow>
          if from_ < 0 then LogdError 400 BadFrom
          else case load of
            Inl e \<Rightarrow> LogdError 500 (LoadFails e)
          | Inr l \<Rightarrow>
              if from_ > int (Size l) then LogdError 400 FromExceedsSize
              else case ConsistencyProof l from_ of
                Inl e \<Rightarrow> LogdError 400 (ProofFails e)
              | Inr ps \<Rightarrow>
                  ConsistencyReply \<lparr> SvFrom = from_, SvNewSize = int (Size l),
                    SvNewRoot = hex_encode (Root l), SvProof = map hex_encode ps \<rparr>)"

text \<open>The routes, for a server reached under the base URL; \<open>wire\<close> is the JSON \<open>WriteJSON\<close> writes.
  The file is read anew on each request.\<close>

definition logdNetwork :: "(logd_reply \<Rightarrow> bytes) \<Rightarrow> signer \<Rightarrow> load_error + MerkleLog \<Rightarrow> string \<Rightarrow>
    priv_key \<Rightarrow> string \<Rightarrow> network" where
  "logdNetwork wire sign load origin key base url =
     (let respond = (\<lambda>r. Response (replyStatus r) (wire r));
          route = base @ ''/consistency?from='' in
      if url = base @ ''/checkpoint'' then respond (checkpointHandler sign load origin key)
      else if take (length route) url = route
        then respond (consistencyHandler load (drop (length route) url))
      else Response 404 [])"

section \<open>What the server serves\<close>

lemma addLeaves_hex:
  "addLeaves i l (map hex_encode bs) = Inr \<lparr> Leaves = Leaves l @ bs \<rparr>"
  by (induction bs arbitrary: i l) (simp_all add: Add_def Let_def)

lemma addLeaves_Inr: "addLeaves i l hs = Inr l' \<Longrightarrow>
    \<exists>bs. map hex_decode hs = map Inr bs \<and> Leaves l' = Leaves l @ bs"
  by (induction i l hs rule: addLeaves.induct) (auto simp: Add_def Let_def Cons_eq_map_conv split: sum.splits)

lemma atoi_dec_int: "0 \<le> n \<Longrightarrow> n < 2 ^ 63 \<Longrightarrow> atoi (dec_int n) = Some n"
  using atoi_dec [of "nat n"] by (simp add: dec_int_def nat_less_iff)

lemma consistencyHandler_serves:
  assumes "0 \<le> n" "n \<le> int (Size l)" "int (Size l) < 2 ^ 63"
  obtains ps where "ConsistencyProof l n = Inr ps" and
    "consistencyHandler (Inr l) (dec_int n) = ConsistencyReply \<lparr> SvFrom = n, SvNewSize = int (Size l),
       SvNewRoot = hex_encode (Root l), SvProof = map hex_encode ps \<rparr>"
proof -
  from assms(1,2) obtain ps where "ConsistencyProof l n = Inr ps"
    by (cases "ConsistencyProof l n") (auto simp: ConsistencyProof_def Size_def split: if_splits)
  then show ?thesis
    using that assms by (simp add: consistencyHandler_def atoi_dec_int)
qed

lemma logdNetwork_checkpoint:
  "logdNetwork wire sign load origin key base (base @ ''/checkpoint'') =
     (let r = checkpointHandler sign load origin key in Response (replyStatus r) (wire r))"
  by (simp add: logdNetwork_def Let_def)

lemma logdNetwork_consistency:
  "logdNetwork wire sign load origin key base (base @ ''/consistency?from='' @ q) =
     (let r = consistencyHandler load q in Response (replyStatus r) (wire r))"
  by (simp add: logdNetwork_def Let_def)

section \<open>A witness polling an honest log\<close>

text \<open>A view of a prefix of the log, or none yet.\<close>

definition honestView :: "witnessState \<Rightarrow> bytes list \<Rightarrow> bool" where
  "honestView st leaves \<longleftrightarrow> WRoot st = [] \<or>
     (0 \<le> WSize st \<and> WSize st \<le> int (length leaves) \<and>
      WRoot st = hex_encode (mth (take (nat (WSize st)) leaves)))"

text \<open>The witness's JSON decoders read what the server wrote, and it fits in the body limit of
  \<open>getJSON\<close>. (Decoding is \<open>encoding/json\<close>; the strings the server sends are ASCII, but for the
  origin.)\<close>

definition delivered :: "json_decoders \<Rightarrow> (logd_reply \<Rightarrow> bytes) \<Rightarrow> logd_reply \<Rightarrow> bool" where
  "delivered js wire r \<longleftrightarrow> length (wire r) \<le> 2 ^ 20 \<and>
     (case r of
        LogdError _ _ \<Rightarrow> False
      | CheckpointReply c \<Rightarrow> toCheckpoint js (wire r) = Some \<lparr> CPBody = SvBody c, CPSig = SvSig c,
          CPLogPubX = SvLogPubX c, CPLogPubY = SvLogPubY c \<rparr>
      | ConsistencyReply c \<Rightarrow> toConsistency js (wire r) = Some \<lparr> CRNewSize = SvNewSize c,
          CRNewRoot = SvNewRoot c, CRProof = SvProof c \<rparr>)"

text \<open>The log signs its current checkpoint with the pinned key, and what the witness asks for is
  delivered.\<close>

definition logServes :: "json_decoders \<Rightarrow> (logd_reply \<Rightarrow> bytes) \<Rightarrow> signer \<Rightarrow> priv_key \<Rightarrow> config \<Rightarrow>
    MerkleLog \<Rightarrow> bool" where
  "logServes js wire sign key cfg l \<longleftrightarrow>
     (case sign (COrigin cfg) (int (Size l)) (Root l) of
        None \<Rightarrow> False
      | Some sig \<Rightarrow> VerifyCheckpointSig (CheckpointBody (COrigin cfg) (int (Size l)) (Root l)) sig
          (CLogX cfg) (CLogY cfg)) \<and>
     delivered js wire (checkpointHandler sign (Inr l) (COrigin cfg) key) \<and>
     (\<forall>n\<in>set [0..<Size l]. delivered js wire (consistencyHandler (Inr l) (dec_int (int n))))"

declare length_mth [simp]

lemma proof_digests: "ConsistencyProof l m = Inr ps \<Longrightarrow> \<forall>p\<in>set ps. length p = 32"
  using subproof_digests [of "nat m" "Leaves l" True] by (auto simp: ConsistencyProof_def split: if_splits)

lemma served_by_logd:
  assumes "logServes js wire sign key cfg l" and "NL \<notin> set (COrigin cfg)" and "int (Size l) < 2 ^ 63"
  shows "servedCheckpoint js (logdNetwork wire sign (Inr l) (COrigin cfg) key (CLogURL cfg)) cfg
    (CheckpointBody (COrigin cfg) (int (Size l)) (Root l)) (int (Size l)) (Root l)"
proof -
  let ?body = "CheckpointBody (COrigin cfg) (int (Size l)) (Root l)"
  from assms(1) obtain sig where sig: "sign (COrigin cfg) (int (Size l)) (Root l) = Some sig"
      "VerifyCheckpointSig ?body sig (CLogX cfg) (CLogY cfg)"
    by (auto simp: logServes_def split: option.splits)
  let ?r = "checkpointHandler sign (Inr l) (COrigin cfg) key"
  obtain px py where pub: "PubXY key = (px, py)" by fastforce
  then obtain c where c: "?r = CheckpointReply c" "SvBody c = string_of_bytes ?body" "SvSig c = hex_encode sig"
    by (simp add: checkpointHandler_def sig Let_def)
  then have d: "length (wire ?r) \<le> 2 ^ 20" "toCheckpoint js (wire ?r) = Some \<lparr> CPBody = SvBody c,
      CPSig = SvSig c, CPLogPubX = SvLogPubX c, CPLogPubY = SvLogPubY c \<rparr>"
    using assms(1) by (simp_all add: logServes_def delivered_def)
  have "ParseCheckpoint ?body = Inr (COrigin cfg, int (Size l), Root l)"
    using assms(2,3) by (intro ParseCheckpoint_body) (simp_all add: Root_def)
  then show ?thesis
    using d c sig(2)
    by (simp add: servedCheckpoint_def getJSON_def logdNetwork_checkpoint Let_def replyStatus_def)
qed

lemma extended_by_logd:
  assumes "logServes js wire sign key cfg l" and "honestView st (Leaves l)" and "int (Size l) < 2 ^ 63"
  shows "extendsView js (logdNetwork wire sign (Inr l) (COrigin cfg) key (CLogURL cfg)) cfg st
    (int (Size l)) (Root l)"
proof (cases "WRoot st = []")
  case True
  then show ?thesis by (simp add: extendsView_def)
next
  case False
  let ?n = "WSize st" and ?old = "mth (take (nat (WSize st)) (Leaves l))"
  from False assms(2) have v: "0 \<le> ?n" "?n \<le> int (Size l)" "WRoot st = hex_encode ?old"
    by (auto simp: honestView_def Size_def)
  then have old: "hexRoot (WRoot st) = Some ?old" by simp
  show ?thesis
  proof (cases "?n = int (Size l)")
    case True
    then show ?thesis using old by (simp add: extendsView_def Size_def Root_def)
  next
    case less: False
    let ?r = "consistencyHandler (Inr l) (dec_int ?n)"
    obtain ps where ps: "ConsistencyProof l ?n = Inr ps" and r: "?r = ConsistencyReply
        \<lparr> SvFrom = ?n, SvNewSize = int (Size l), SvNewRoot = hex_encode (Root l),
          SvProof = map hex_encode ps \<rparr>"
      by (rule consistencyHandler_serves [OF v(1,2) assms(3)])
    have "delivered js wire ?r"
      using assms(1) less v(1,2) by (auto simp: logServes_def dest: bspec [of _ _ "nat ?n"])
    then have d: "length (wire ?r) \<le> 2 ^ 20" "toConsistency js (wire ?r) = Some
        \<lparr> CRNewSize = int (Size l), CRNewRoot = hex_encode (Root l), CRProof = map hex_encode ps \<rparr>"
      using r by (simp_all add: delivered_def)
    have "VerifyConsistency ?n (int (Size l)) ps ?old (Root l)"
      using consistency_complete [OF ps] less v(1,2) by (cases "Leaves l") (simp_all add: Size_def)
    moreover have "decodeProof (map hex_encode ps) = Some ps"
      using proof_digests [OF ps] by (rule decodeProof_hex)
    moreover have "getJSON (logdNetwork wire sign (Inr l) (COrigin cfg) key (CLogURL cfg))
        (toConsistency js) (CLogURL cfg @ ''/consistency?from='' @ dec_int ?n) =
      Inr \<lparr> CRNewSize = int (Size l), CRNewRoot = hex_encode (Root l), CRProof = map hex_encode ps \<rparr>"
      unfolding getJSON_def logdNetwork_consistency using d by (simp add: Let_def r replyStatus_def)
    ultimately show ?thesis
      using old less v(2) by (auto simp: extendsView_def)
  qed
qed

lemma hexRoot_encodeD: "hexRoot (hex_encode a) = Some b \<Longrightarrow> a = b"
  by (simp add: hexRoot_def split: if_splits)

text \<open>One poll of an honest log: accepted, and the view is then the log's current tree.\<close>

lemma poll_honest:
  assumes "logServes js wire sign key cfg l" and "honestView st (Leaves l)"
    and "NL \<notin> set (COrigin cfg)" and "int (Size l) < 2 ^ 63" and "nonce \<noteq> None"
    and "prefix (Leaves l) later"
    and "poll js (logdNetwork wire sign (Inr l) (COrigin cfg) key (CLogURL cfg)) nonce cfg st = (res, st')"
  shows "(\<exists>r. res = Inr r \<and> Accepted r) \<and> WSize st' = int (Size l) \<and> hexRoot (WRoot st') = Some (Root l) \<and>
     honestView st' later"
proof -
  let ?net = "logdNetwork wire sign (Inr l) (COrigin cfg) key (CLogURL cfg)"
  from poll_extends [OF served_by_logd [OF assms(1,3,4)] extended_by_logd [OF assms(1,2,4)], of nonce]
  have p: "\<exists>r. res = Inr r \<and> Accepted r" "WSize st' = int (Size l)" "hexRoot (WRoot st') = Some (Root l)"
    using assms(5,7) by (auto simp: accept_Some)
  consider treeSize root where "st' = advance (COrigin cfg) treeSize root st" | "st' = st"
    using poll_view [OF assms(7)] by blast
  then have "WRoot st' = hex_encode (Root l)"
  proof cases
    case 1
    then show ?thesis using p(3) by (auto simp: advance_def dest: hexRoot_encodeD)
  next
    case 2
    then show ?thesis using p(2,3) assms(2) by (auto simp: honestView_def Size_def Root_def)
  qed
  with p assms(6) show ?thesis
    by (auto simp: honestView_def Size_def Root_def prefix_def)
qed

section \<open>Properties\<close>

text \<open>The views of a witness that polls the server once per content of the log file, and whether each
  poll was accepted.\<close>

fun follow :: "json_decoders \<Rightarrow> (bytes \<Rightarrow> string list option) \<Rightarrow> (logd_reply \<Rightarrow> bytes) \<Rightarrow> signer \<Rightarrow>
    priv_key \<Rightarrow> int option \<Rightarrow> config \<Rightarrow> witnessState \<Rightarrow> disk_file list \<Rightarrow> (bool \<times> witnessState) list" where
  "follow js decode wire sign key nonce cfg st [] = []"
| "follow js decode wire sign key nonce cfg st (d # ds) =
     (let net = logdNetwork wire sign (loadLogFile decode d) (COrigin cfg) key (CLogURL cfg);
          (res, st') = poll js net nonce cfg st
      in (isOk res \<and> Accepted (projr res), st') # follow js decode wire sign key nonce cfg st' ds)"

text \<open>C26: An honest log that only grows is followed: if each content of its log file extends the one
  before, its checkpoints verify under the pinned key and its answers arrive, every poll is
  accepted and the witness's view is each time the log's current tree.\<close>

theorem honest_log_is_followed:
  assumes "map (loadLogFile decode) ds = map Inr ls"
    and "sorted_wrt prefix (map Leaves ls)"
    and "\<forall>l\<in>set ls. logServes js wire sign key cfg l \<and> int (Size l) < 2 ^ 63"
    and "NL \<notin> set (COrigin cfg)" and "nonce \<noteq> None" and "WRoot st = []"
  shows "map fst (follow js decode wire sign key nonce cfg st ds) = replicate (length ds) True \<and>
    map (\<lambda>(_, v). (WSize v, hexRoot (WRoot v))) (follow js decode wire sign key nonce cfg st ds) =
      map (\<lambda>l. (int (Size l), Some (Root l))) ls"
proof -
  have "map fst (follow js decode wire sign key nonce cfg st ds) = replicate (length ds) True \<and>
      map (\<lambda>(_, v). (WSize v, hexRoot (WRoot v))) (follow js decode wire sign key nonce cfg st ds) =
        map (\<lambda>l. (int (Size l), Some (Root l))) ls"
    if "\<forall>l\<in>set ls. honestView st (Leaves l)"
    using assms(1-3) that
  proof (induction ds arbitrary: st ls)
    case (Cons d ds)
    then obtain l ls' where ls: "ls = l # ls'" and l: "loadLogFile decode d = Inr l"
      by (cases ls) auto
    obtain res st' where p: "poll js (logdNetwork wire sign (Inr l) (COrigin cfg) key (CLogURL cfg)) nonce cfg st =
        (res, st')" by fastforce
    note step = poll_honest [OF _ _ assms(4) _ assms(5) _ p]
    have "(\<exists>r. res = Inr r \<and> Accepted r) \<and> WSize st' = int (Size l) \<and> hexRoot (WRoot st') = Some (Root l)"
      using step [of "Leaves l"] Cons.prems by (simp add: ls)
    moreover have "\<forall>l\<in>set ls'. honestView st' (Leaves l)"
      using step Cons.prems by (simp add: ls)
    ultimately show ?case
      using Cons.IH [of ls' st'] Cons.prems l p by (auto simp: ls)
  qed simp
  then show ?thesis using assms(6) by (simp add: honestView_def)
qed

end
