(* ===== verification/Logd_Demo.thy ===== *)
theory Logd_Demo
  imports Logd Witness_Demo
begin

text \<open>
  A witness polls the server of \<open>Logd\<close> twice, over the log file of \<open>Merkle_Demo\<close> and the signed
  checkpoint of \<open>Checkpoint_Demo\<close>.
\<close>

definition servedLog :: MerkleLog where
  "servedLog = \<lparr> Leaves = demoLog \<rparr>"

definition logLeaves :: "bytes \<Rightarrow> string list option" where
  "logLeaves raw = (if raw = [123] then Some (map hex_encode demoLog) else None)"

definition demoSign :: signer where
  "demoSign origin treeSize root = (if treeSize = 2 then Some noteSig else None)"

definition demoWire :: "logd_reply \<Rightarrow> bytes" where
  "demoWire r = (case r of LogdError _ _ \<Rightarrow> [] | CheckpointReply _ \<Rightarrow> [1] | ConsistencyReply c \<Rightarrow> [word_of_int (SvFrom c)])"

definition wireJson :: json_decoders where
  "wireJson = demoJson\<lparr> toConsistency := (\<lambda>b.
     case consistencyHandler (Inr servedLog) (dec_int (uint (b ! 0))) of
       ConsistencyReply c \<Rightarrow> Some \<lparr> CRNewSize = SvNewSize c, CRNewRoot = SvNewRoot c, CRProof = SvProof c \<rparr>
     | _ \<Rightarrow> None),
     toCheckpoint := (\<lambda>b. Some \<lparr> CPBody = string_of_bytes noteBody, CPSig = hex_encode noteSig,
       CPLogPubX = hex_encode (fst (PubXY (CKey demoConfig))), CPLogPubY = hex_encode (snd (PubXY (CKey demoConfig))) \<rparr>) \<rparr>"

lemma demo_load: "loadLogFile logLeaves (FileContents [123]) = Inr servedLog"
  by (simp add: loadLogFile_def logLeaves_def addLeaves_hex servedLog_def del: list.map)

lemma demo_serves: "logServes wireJson demoWire demoSign (CKey demoConfig) demoConfig servedLog"
proof -
  have body: "CheckpointBody ''mlog'' 2 (Root servedLog) = noteBody" and two: "Size servedLog = 2"
    by (simp_all add: noteBody_def Root_def servedLog_def Size_def demoLog_def)
  have "delivered wireJson demoWire (consistencyHandler (Inr servedLog) (dec_int n))"
    if n: "n \<in> {0, 1}" for n
  proof -
    obtain ps where "consistencyHandler (Inr servedLog) (dec_int n) = ConsistencyReply
        \<lparr> SvFrom = n, SvNewSize = int (Size servedLog), SvNewRoot = hex_encode (Root servedLog),
          SvProof = map hex_encode ps \<rparr>"
      by (rule consistencyHandler_serves [of n servedLog]) (use n two in auto)
    moreover have "uint (word_of_int n :: byte) = n" using n by auto
    ultimately show ?thesis
      by (simp add: delivered_def demoWire_def wireJson_def)
  qed
  then show ?thesis
    using note_signed body
    by (simp add: logServes_def two demoSign_def VerifyCheckpointSig_def demoConfig_def delivered_def
        checkpointHandler_def case_prod_beta demoWire_def wireJson_def isOk_verifySig Let_def upt_rec)
qed

lemma honest_log_is_followed_witness:
  "map fst (follow wireJson logLeaves demoWire demoSign (CKey demoConfig) (Some 1) demoConfig baseline
     [FileContents [123], FileContents [123]]) = [True, True]"
proof -
  have two: "Size servedLog = 2" by (simp add: servedLog_def Size_def demoLog_def)
  have "map (loadLogFile logLeaves) [FileContents [123], FileContents [123]] = map Inr [servedLog, servedLog]"
    by (simp add: demo_load)
  moreover have "sorted_wrt prefix (map Leaves [servedLog, servedLog])" by simp
  moreover have "\<forall>l\<in>set [servedLog, servedLog]. logServes wireJson demoWire demoSign (CKey demoConfig) demoConfig l \<and>
      int (Size l) < 2 ^ 63"
    by (simp add: demo_serves two)
  moreover have "NL \<notin> set (COrigin demoConfig)" by (simp add: demoConfig_def NL_def)
  moreover have "WRoot baseline = []" by (simp add: baseline_def)
  ultimately have "map fst (follow wireJson logLeaves demoWire demoSign (CKey demoConfig) (Some 1) demoConfig baseline
      [FileContents [123], FileContents [123]]) = replicate (length [FileContents [123], FileContents [123]]) True"
    using honest_log_is_followed by blast
  then show ?thesis by (simp only: list.size replicate.simps add_0 plus_1_eq_Suc replicate_app_Cons_same) simp
qed

end
