(* ===== verification/Log_Cli.thy ===== *)
theory Log_Cli
  imports Logd
begin

text \<open>
  The operator's command line (cmd/he-log/main.go): each subcommand as a function of the flags the
  \<open>flag\<close> package parsed, the files and, where it signs, the signing randomness. \<open>cli.Die\<close> (status
  2) is \<open>Inl\<close>; a printed FAIL (status 1) is the outcome \<open>Failing\<close>. \<open>add\<close>, the one subcommand that
  writes, also gives the log file it leaves.
\<close>

section \<open>Flags, files and what is printed\<close>

record logFlags =
  LogPath :: string
  LogKeyHex :: string
  LogOrigin :: string
  Index :: int
  ProofPath :: string
  CpPath :: string
  WitnessName :: string
  CosigsPath :: string
  WitnessThreshold :: int
  EndorserName :: string
  DeviceX :: string
  DeviceY :: string
  EndorserX :: string
  EndorserY :: string
  FilePath :: string
  CoseFlag :: bool
  EnrolledWitnesses :: "string list"
  Args :: "string list"

record proofBundle =
  PEntry :: string
  PIndex :: int
  PProof :: "string list"
  PCheckpoint :: string
  PCheckSig :: string
  PLogPubX :: string
  PLogPubY :: string

record endorsement =
  EndEndorser :: string
  EndBody :: string
  EndSig :: string
  EndorserPubX :: string
  EndorserPubY :: string
  EntryHex :: string
  EndCOSE :: string

record consistencyBundle =
  OldSize :: int
  NewSize :: int
  OldRoot :: string
  NewRoot :: string
  CBProof :: "string list"

record cosignBundle =
  CSWitness :: string
  CSPubX :: string
  CSPubY :: string
  CSSig :: string

text \<open>\<open>json.Unmarshal\<close> into the types of the command.\<close>

record log_json =
  toLeaves :: "bytes \<Rightarrow> string list option"
  toProof :: "bytes \<Rightarrow> proofBundle option"
  toCosigs :: "bytes \<Rightarrow> cosignBundle list option"
  toEndorsement :: "bytes \<Rightarrow> endorsement option"

type_synonym files = "string \<Rightarrow> disk_file"

datatype log_die =
    LogLoad load_error
  | LogWriting
  | BadLogKey key_error
  | AddNeedsOneEntry
  | EntryNotHex hex_error
  | EntryEmpty
  | NeedsFlags string
  | SigningFails
  | MerkleFails merkle_error
  | Reading string
  | NotACheckpoint checkpoint_error
  | ParsingJSON string
  | BadHexOf string hex_error
  | EnrolledSpec string
  | EndorsementDies endorsement_error
  | CoseEndorseDies sign_error

datatype log_outcome =
    Added nat nat
  | RootIs nat bytes
  | SignedCheckpoint bytes bytes bytes bytes
  | ProofOut proofBundle
  | ConsistencyOut consistencyBundle
  | CosignOut cosignBundle
  | EnoughWitnesses "string list" int
  | EndorsementLogged int
  | EndorseOut endorsement
  | Vouches string bytes bytes
  | TooFewWitnesses nat int
  | NotLogged logged_error
  | CoseEndorsementFails endorsement_check_error
  | EndorsementSigFails

text \<open>The exit status: 1 after a printed FAIL, 0 otherwise.\<close>

definition exitStatus :: "log_outcome \<Rightarrow> int" where
  "exitStatus out =
     (case out of
        TooFewWitnesses _ _ \<Rightarrow> 1
      | NotLogged _ \<Rightarrow> 1
      | CoseEndorsementFails _ \<Rightarrow> 1
      | EndorsementSigFails \<Rightarrow> 1
      | _ \<Rightarrow> 0)"

definition readFile :: "files \<Rightarrow> string \<Rightarrow> log_die + bytes" where
  "readFile files name = (case files name of FileContents raw \<Rightarrow> Inr raw | _ \<Rightarrow> Inl (Reading name))"

definition parsed :: "string \<Rightarrow> 'a option \<Rightarrow> log_die + 'a" where
  "parsed what r = (case r of None \<Rightarrow> Inl (ParsingJSON what) | Some v \<Rightarrow> Inr v)"

definition mustHex :: "string \<Rightarrow> string \<Rightarrow> log_die + bytes" where
  "mustHex s what = wrapE (BadHexOf what) (hex_decode s)"

definition signed :: "bytes option \<Rightarrow> log_die + bytes" where
  "signed r = (case r of None \<Rightarrow> Inl SigningFails | Some sig \<Rightarrow> Inr sig)"

section \<open>The log file\<close>

text \<open>Unlike the server, the command takes a missing file for an empty log.\<close>

definition load :: "log_json \<Rightarrow> files \<Rightarrow> string \<Rightarrow> log_die + MerkleLog" where
  "load js files name =
     (case files name of
        FileMissing \<Rightarrow> Inr \<lparr> Leaves = [] \<rparr>
      | FileUnreadable \<Rightarrow> Inl (LogLoad LogUnreadable)
      | FileContents raw \<Rightarrow>
          (case toLeaves js raw of
             None \<Rightarrow> Inl (LogLoad LogJSON)
           | Some hexes \<Rightarrow> wrapE LogLoad (addLeaves 0 \<lparr> Leaves = [] \<rparr> hexes)))"

text \<open>\<open>marshal\<close> is \<open>json.MarshalIndent\<close> of the leaves; a failing write leaves some file behind.\<close>

definition save :: "(string list \<Rightarrow> bytes) \<Rightarrow> disk_file option \<Rightarrow> MerkleLog \<Rightarrow> (log_die + unit) \<times> disk_file" where
  "save marshal failure l =
     (case failure of
        None \<Rightarrow> (Inr (), FileContents (marshal (map hex_encode (Leaves l))))
      | Some left \<Rightarrow> (Inl LogWriting, left))"

definition loadKey :: "string \<Rightarrow> log_die + priv_key" where
  "loadKey privHex = wrapE BadLogKey (PrivKeyFromHex privHex)"

definition needFlag :: "string \<Rightarrow> bool \<Rightarrow> log_die + unit" where
  "needFlag cmd ok = (if ok then Inr () else Inl (NeedsFlags cmd))"

section \<open>The subcommands\<close>

definition addCmd :: "log_json \<Rightarrow> (string list \<Rightarrow> bytes) \<Rightarrow> disk_file option \<Rightarrow> files \<Rightarrow> logFlags \<Rightarrow>
    (log_die + log_outcome) \<times> disk_file" where
  "addCmd js marshal failure files f =
     (let disk = files (LogPath f) in
      if length (Args f) \<noteq> 1 then (Inl AddNeedsOneEntry, disk)
      else
        case hex_decode (Args f ! 0) of
          Inl e \<Rightarrow> (Inl (EntryNotHex e), disk)
        | Inr entry \<Rightarrow>
            if length entry = 0 then (Inl EntryEmpty, disk)
            else
              case load js files (LogPath f) of
                Inl e \<Rightarrow> (Inl e, disk)
              | Inr l \<Rightarrow>
                  (let (l', i) = Add entry l; (saved, disk') = save marshal failure l' in
                   (bindE saved (\<lambda>_. Inr (Added i (Size l'))), disk')))"

definition rootCmd :: "log_json \<Rightarrow> files \<Rightarrow> logFlags \<Rightarrow> log_die + log_outcome" where
  "rootCmd js files f = bindE (load js files (LogPath f)) (\<lambda>l. Inr (RootIs (Size l) (Root l)))"

definition checkpointCmd :: "log_json \<Rightarrow> int option \<Rightarrow> files \<Rightarrow> logFlags \<Rightarrow> log_die + log_outcome" where
  "checkpointCmd js nonce files f =
     bindE (needFlag ''checkpoint'' (LogKeyHex f \<noteq> [])) (\<lambda>_.
     bindE (load js files (LogPath f)) (\<lambda>l.
     bindE (loadKey (LogKeyHex f)) (\<lambda>key.
     let root = Root l in
     bindE (signed (SignCheckpoint nonce (LogOrigin f) (int (Size l)) root key)) (\<lambda>sig.
     let (px, py) = PubXY key in
     Inr (SignedCheckpoint (CheckpointBody (LogOrigin f) (int (Size l)) root) sig px py)))))"

definition proveCmd :: "log_json \<Rightarrow> int option \<Rightarrow> files \<Rightarrow> logFlags \<Rightarrow> log_die + log_outcome" where
  "proveCmd js nonce files f =
     bindE (needFlag ''prove'' (LogKeyHex f \<noteq> [])) (\<lambda>_.
     bindE (load js files (LogPath f)) (\<lambda>l.
     bindE (wrapE MerkleFails (InclusionProof l (Index f))) (\<lambda>ps.
     bindE (loadKey (LogKeyHex f)) (\<lambda>key.
     let root = Root l in
     bindE (signed (SignCheckpoint nonce (LogOrigin f) (int (Size l)) root key)) (\<lambda>sig.
     let (px, py) = PubXY key in
     Inr (ProofOut \<lparr> PEntry = hex_encode (Leaves l ! nat (Index f)), PIndex = Index f,
       PProof = map hex_encode ps,
       PCheckpoint = string_of_bytes (CheckpointBody (LogOrigin f) (int (Size l)) root),
       PCheckSig = hex_encode sig, PLogPubX = hex_encode px, PLogPubY = hex_encode py \<rparr>))))))"

definition consistencyCmd :: "log_json \<Rightarrow> files \<Rightarrow> logFlags \<Rightarrow> log_die + log_outcome" where
  "consistencyCmd js files f =
     bindE (load js files (LogPath f)) (\<lambda>l.
     let oldSize = Index f in
     bindE (wrapE MerkleFails (ConsistencyProof l oldSize)) (\<lambda>ps.
     let oldRoot = Root \<lparr> Leaves = take (nat oldSize) (Leaves l) \<rparr>; newRoot = Root l in
     Inr (ConsistencyOut \<lparr> OldSize = oldSize, NewSize = int (Size l), OldRoot = hex_encode oldRoot,
       NewRoot = hex_encode newRoot, CBProof = map hex_encode ps \<rparr>)))"

definition cosignCmd :: "int option \<Rightarrow> files \<Rightarrow> logFlags \<Rightarrow> log_die + log_outcome" where
  "cosignCmd nonce files f =
     bindE (needFlag ''cosign'' (LogKeyHex f \<noteq> [] \<and> CpPath f \<noteq> [] \<and> WitnessName f \<noteq> [])) (\<lambda>_.
     bindE (readFile files (CpPath f)) (\<lambda>body.
     bindE (wrapE NotACheckpoint (ParseCheckpoint body)) (\<lambda>_.
     bindE (loadKey (LogKeyHex f)) (\<lambda>key.
     bindE (signed (CosignCheckpoint nonce body key)) (\<lambda>sig.
     let (px, py) = PubXY key in
     Inr (CosignOut \<lparr> CSWitness = WitnessName f, CSPubX = hex_encode px, CSPubY = hex_encode py,
       CSSig = hex_encode sig \<rparr>))))))"

fun cosigLoop :: "cosignBundle list \<Rightarrow> log_die + Cosignature list" where
  "cosigLoop [] = Inr []"
| "cosigLoop (cb # cbs) =
     bindE (mustHex (CSPubX cb) ''witness pub_x'') (\<lambda>x.
     bindE (mustHex (CSPubY cb) ''witness pub_y'') (\<lambda>y.
     bindE (mustHex (CSSig cb) ''cosignature'') (\<lambda>s.
     bindE (cosigLoop cbs) (\<lambda>cs.
     Inr (\<lparr> CoWitness = CSWitness cb, CoPubX = x, CoPubY = y, CoSig = s \<rparr> # cs)))))"

fun enrolledLoop :: "string list \<Rightarrow> log_die + Prover list" where
  "enrolledLoop [] = Inr []"
| "enrolledLoop (spec # specs) =
     (let parts = splitAt CHR '':'' spec in
      if length parts \<noteq> 3 then Inl (EnrolledSpec spec)
      else
        bindE (mustHex (parts ! 1) ''enrolled pub_x'') (\<lambda>x.
        bindE (mustHex (parts ! 2) ''enrolled pub_y'') (\<lambda>y.
        bindE (enrolledLoop specs) (\<lambda>ws.
        Inr (\<lparr> ProverName = parts ! 0, ProverX = x, ProverY = y \<rparr> # ws)))))"

definition cosignVerifyCmd :: "log_json \<Rightarrow> files \<Rightarrow> logFlags \<Rightarrow> log_die + log_outcome" where
  "cosignVerifyCmd js files f =
     bindE (needFlag ''cosign-verify'' (CpPath f \<noteq> [] \<and> CosigsPath f \<noteq> [])) (\<lambda>_.
     bindE (readFile files (CpPath f)) (\<lambda>body.
     bindE (wrapE NotACheckpoint (ParseCheckpoint body)) (\<lambda>_.
     bindE (readFile files (CosigsPath f)) (\<lambda>raw.
     bindE (parsed ''cosigs'' (toCosigs js raw)) (\<lambda>cbs.
     bindE (cosigLoop cbs) (\<lambda>cosigs.
     bindE (enrolledLoop (EnrolledWitnesses f)) (\<lambda>enrolled.
     let ok = VerifyCheckpointWitnesses body cosigs enrolled in
     Inr (if int (length ok) \<ge> WitnessThreshold f then EnoughWitnesses ok (WitnessThreshold f)
          else TooFewWitnesses (length ok) (WitnessThreshold f)))))))))"

text \<open>\<open>copy(node[:], b)\<close>: a \<open>[32]byte\<close> holding the first 32 bytes of \<open>b\<close>, zeros after them.\<close>

definition copy32 :: "bytes \<Rightarrow> bytes" where
  "copy32 b = take 32 (b @ replicate 32 0)"

fun nodeLoop :: "string list \<Rightarrow> log_die + bytes list" where
  "nodeLoop [] = Inr []"
| "nodeLoop (h # hs) =
     bindE (mustHex h ''proof node'') (\<lambda>b.
     bindE (nodeLoop hs) (\<lambda>ps. Inr (copy32 b # ps)))"

definition verifyCmd :: "log_json \<Rightarrow> files \<Rightarrow> logFlags \<Rightarrow> log_die + log_outcome" where
  "verifyCmd js files f =
     bindE (needFlag ''verify'' (ProofPath f \<noteq> [])) (\<lambda>_.
     bindE (readFile files (ProofPath f)) (\<lambda>raw.
     bindE (parsed ''proof'' (toProof js raw)) (\<lambda>pb.
     bindE (mustHex (PEntry pb) ''entry'') (\<lambda>entry.
     bindE (nodeLoop (PProof pb)) (\<lambda>ps.
     bindE (mustHex (PCheckSig pb) ''sig'') (\<lambda>sig.
     bindE (mustHex (PLogPubX pb) ''log_pub_x'') (\<lambda>lx.
     bindE (mustHex (PLogPubY pb) ''log_pub_y'') (\<lambda>ly.
     case CheckLoggedEndorsement entry (PIndex pb) ps (bytes_of_string (PCheckpoint pb)) sig lx ly of
       Inl e \<Rightarrow> Inr (NotLogged e)
     | Inr _ \<Rightarrow> Inr (EndorsementLogged (PIndex pb))))))))))"

text \<open>\<open>endorse\<close> signs twice with \<open>--cose\<close>, each time with fresh randomness.\<close>

definition endorseCmd :: "int option \<Rightarrow> int option \<Rightarrow> logFlags \<Rightarrow> log_die + log_outcome" where
  "endorseCmd nonce coseNonce f =
     bindE (needFlag ''endorse'' (LogKeyHex f \<noteq> [])) (\<lambda>_.
     bindE (mustHex (DeviceX f) ''device-x'') (\<lambda>dx.
     bindE (mustHex (DeviceY f) ''device-y'') (\<lambda>dy.
     bindE (wrapE EndorsementDies (EndorsementBody (EndorserName f) dx dy)) (\<lambda>body.
     bindE (loadKey (LogKeyHex f)) (\<lambda>key.
     bindE (signed (SignNote nonce body key)) (\<lambda>sig.
     let (ex, ey) = PubXY key;
         e = \<lparr> EndEndorser = EndorserName f, EndBody = string_of_bytes body, EndSig = hex_encode sig,
               EndorserPubX = hex_encode ex, EndorserPubY = hex_encode ey,
               EntryHex = hex_encode body, EndCOSE = [] \<rparr> in
     if CoseFlag f then
       bindE (wrapE CoseEndorseDies (SignCOSEEndorsement coseNonce (EndorserName f) dx dy key)) (\<lambda>cose.
       Inr (EndorseOut (e\<lparr> EndCOSE := hex_encode cose \<rparr>)))
     else Inr (EndorseOut e)))))))"

definition endorseVerifyCmd :: "log_json \<Rightarrow> files \<Rightarrow> logFlags \<Rightarrow> log_die + log_outcome" where
  "endorseVerifyCmd js files f =
     bindE (needFlag ''endorse-verify'' (FilePath f \<noteq> [])) (\<lambda>_.
     bindE (readFile files (FilePath f)) (\<lambda>raw.
     bindE (parsed ''endorsement'' (toEndorsement js raw)) (\<lambda>e.
     if CoseFlag f then
       bindE (mustHex (EndCOSE e) ''cose'') (\<lambda>cose.
       bindE (mustHex (EndorserX f) ''endorser-x'') (\<lambda>ex.
       bindE (mustHex (EndorserY f) ''endorser-y'') (\<lambda>ey.
       case VerifyCOSEEndorsement cose ex ey of
         Inl err \<Rightarrow> Inr (CoseEndorsementFails err)
       | Inr (name, dx, dy) \<Rightarrow> Inr (Vouches name dx dy))))
     else
       let body = bytes_of_string (EndBody e) in
       bindE (mustHex (EndSig e) ''endorser_sig'') (\<lambda>sig.
       bindE (mustHex (EndorserX f) ''endorser-x'') (\<lambda>ex.
       bindE (mustHex (EndorserY f) ''endorser-y'') (\<lambda>ey.
       if \<not> VerifyCheckpointSig body sig ex ey then Inr EndorsementSigFails
       else
         bindE (wrapE EndorsementDies (ParseEndorsement body)) (\<lambda>(name, dx, dy).
         Inr (Vouches name dx dy))))))))"

section \<open>Appending\<close>

text \<open>\<open>marshal\<close> and \<open>toLeaves\<close> are inverse on lists of hex strings, as \<open>encoding/json\<close> is.\<close>

definition leavesRoundTrip :: "log_json \<Rightarrow> (string list \<Rightarrow> bytes) \<Rightarrow> bool" where
  "leavesRoundTrip js marshal \<longleftrightarrow>
     (\<forall>bs. toLeaves js (marshal (map hex_encode bs)) = Some (map hex_encode bs))"

lemma load_contents:
  "files name \<noteq> FileMissing \<Longrightarrow> load js files name = wrapE LogLoad (loadLogFile (toLeaves js) (files name))"
  by (auto simp: load_def loadLogFile_def split: disk_file.splits option.splits)

lemma saved_log_loads:
  "leavesRoundTrip js marshal \<Longrightarrow> save marshal None l = (r, disk) \<Longrightarrow>
   r = Inr () \<and> disk \<noteq> FileMissing \<and> loadLogFile (toLeaves js) disk = Inr l"
  by (auto simp: save_def loadLogFile_def leavesRoundTrip_def addLeaves_hex)

lemma addCmd_grows:
  assumes "leavesRoundTrip js marshal" and "loadLogFile (toLeaves js) d = Inr l"
    and "addCmd js marshal None (\<lambda>_. d) f = (res, d')"
  shows "(\<exists>e. res = Inl e \<and> d' = d) \<or>
     (\<exists>entry l'. hex_decode (Args f ! 0) = Inr entry \<and> entry \<noteq> [] \<and> l' = \<lparr> Leaves = Leaves l @ [entry] \<rparr> \<and>
        res = Inr (Added (Size l) (Size l')) \<and> loadLogFile (toLeaves js) d' = Inr l')"
proof -
  have "load js (\<lambda>_. d) (LogPath f) = Inr l"
    using assms(2) by (subst load_contents) (auto simp: loadLogFile_def)
  then show ?thesis
    using assms(3)
    by (auto simp: addCmd_def Add_def Size_def Let_def dest!: saved_log_loads [OF assms(1)]
        split: if_splits sum.splits prod.splits)
qed

text \<open>The contents of the log file as \<open>add\<close> is called in turn with the given flags.\<close>

fun addAll :: "log_json \<Rightarrow> (string list \<Rightarrow> bytes) \<Rightarrow> disk_file \<Rightarrow> logFlags list \<Rightarrow> disk_file list" where
  "addAll js marshal d [] = [d]"
| "addAll js marshal d (f # fs) = d # addAll js marshal (snd (addCmd js marshal None (\<lambda>_. d) f)) fs"

section \<open>Proofs and cosignatures\<close>

lemma copy32_id [simp]: "length b = 32 \<Longrightarrow> copy32 b = b"
  by (simp add: copy32_def)

lemma nodeLoop_hex: "\<forall>p\<in>set ps. length p = 32 \<Longrightarrow> nodeLoop (map hex_encode ps) = Inr ps"
  by (induction ps) (simp_all add: mustHex_def)

lemma proveCmd_Inr:
  assumes "proveCmd js nonce files f = Inr out"
  obtains l ps key sig where "load js files (LogPath f) = Inr l" "InclusionProof l (Index f) = Inr ps"
    "PrivKeyFromHex (LogKeyHex f) = Inr key"
    "SignCheckpoint nonce (LogOrigin f) (int (Size l)) (Root l) key = Some sig"
    "out = ProofOut \<lparr> PEntry = hex_encode (Leaves l ! nat (Index f)), PIndex = Index f,
       PProof = map hex_encode ps,
       PCheckpoint = string_of_bytes (CheckpointBody (LogOrigin f) (int (Size l)) (Root l)),
       PCheckSig = hex_encode sig, PLogPubX = hex_encode (fst (PubXY key)),
       PLogPubY = hex_encode (snd (PubXY key)) \<rparr>"
  using assms
  by (auto simp: proveCmd_def bindE_Inr_iff loadKey_def signed_def Let_def case_prod_beta split: option.splits)

section \<open>What cosign-verify reads\<close>

lemma splitAt_none: "sep \<notin> set s \<Longrightarrow> splitAt sep s = [s]"
  by (induction s) auto

lemma splitAt_append: "sep \<notin> set a \<Longrightarrow> splitAt sep (a @ sep # s) = a # splitAt sep s"
  by (induction a) auto

lemma splitAt_nonempty [simp]: "splitAt sep s \<noteq> []"
  by (cases s) (auto split: list.splits)

lemma splitAt_three:
  "splitAt sep s = [a, b, c] \<longleftrightarrow>
     s = a @ sep # b @ sep # c \<and> sep \<notin> set a \<and> sep \<notin> set b \<and> sep \<notin> set c" (is "?L \<longleftrightarrow> ?R")
proof
  assume L: ?L
  obtain a' t where t: "s = a' @ sep # t" "sep \<notin> set a'"
    using L splitAt_none [of sep s] split_list_first [of sep s] by fastforce
  obtain b' u where u: "t = b' @ sep # u" "sep \<notin> set b'"
    using L t splitAt_append [of sep a' t] splitAt_none [of sep t] split_list_first [of sep t] by fastforce
  have "sep \<notin> set u"
  proof
    assume "sep \<in> set u"
    then obtain c' v where "u = c' @ sep # v" "sep \<notin> set c'" using split_list_first by metis
    then show False
      using L t u splitAt_nonempty [of sep v] by (simp add: splitAt_append)
  qed
  with L t u show ?R by (simp add: splitAt_append splitAt_none)
qed (simp add: splitAt_append splitAt_none)

lemma hex_no_colon: "hex_decode s = Inr b \<Longrightarrow> CHR '':'' \<notin> set s"
proof (induction s arbitrary: b rule: hex_decode.induct)
  case (3 c d s)
  have "from_hex_char CHR '':'' = None" by (simp add: from_hex_char_def)
  with 3 show ?case by (auto simp: bindE_Inr_iff split: option.splits)
qed (auto split: option.splits)

text \<open>One entry of the cosignature file, and one \<open>--enrolled\<close> flag, with what they stand for.\<close>

definition decodesCosig :: "cosignBundle \<Rightarrow> Cosignature \<Rightarrow> bool" where
  "decodesCosig cb c \<longleftrightarrow> CoWitness c = CSWitness cb \<and> hex_decode (CSPubX cb) = Inr (CoPubX c) \<and>
     hex_decode (CSPubY cb) = Inr (CoPubY c) \<and> hex_decode (CSSig cb) = Inr (CoSig c)"

definition enrols :: "string \<Rightarrow> Prover \<Rightarrow> bool" where
  "enrols spec w \<longleftrightarrow> CHR '':'' \<notin> set (ProverName w) \<and>
     (\<exists>x y. spec = ProverName w @ '':'' @ x @ '':'' @ y \<and>
        hex_decode x = Inr (ProverX w) \<and> hex_decode y = Inr (ProverY w))"

definition cosignInputs :: "log_json \<Rightarrow> files \<Rightarrow> logFlags \<Rightarrow> bytes \<Rightarrow> Cosignature list \<Rightarrow> Prover list \<Rightarrow> bool" where
  "cosignInputs js files f body cosigs enrolled \<longleftrightarrow> CpPath f \<noteq> [] \<and> CosigsPath f \<noteq> [] \<and>
     files (CpPath f) = FileContents body \<and> isOk (ParseCheckpoint body) \<and>
     (\<exists>raw cbs. files (CosigsPath f) = FileContents raw \<and> toCosigs js raw = Some cbs \<and>
        list_all2 decodesCosig cbs cosigs) \<and>
     list_all2 enrols (EnrolledWitnesses f) enrolled"

lemma cosigLoop_iff: "cosigLoop cbs = Inr cosigs \<longleftrightarrow> list_all2 decodesCosig cbs cosigs"
proof (induction cbs arbitrary: cosigs)
  case (Cons cb cbs)
  have "decodesCosig cb c \<longleftrightarrow> (\<exists>x y s. hex_decode (CSPubX cb) = Inr x \<and> hex_decode (CSPubY cb) = Inr y \<and>
      hex_decode (CSSig cb) = Inr s \<and> c = \<lparr> CoWitness = CSWitness cb, CoPubX = x, CoPubY = y, CoSig = s \<rparr>)" for c
    by (cases c) (auto simp: decodesCosig_def)
  then show ?case
    by (cases cosigs) (auto simp: bindE_Inr_iff mustHex_def Cons.IH)
qed auto

lemma enrols_split:
  "enrols spec w \<longleftrightarrow> (\<exists>x y px py. splitAt CHR '':'' spec = [ProverName w, x, y] \<and> hex_decode x = Inr px \<and>
     hex_decode y = Inr py \<and> w = \<lparr> ProverName = ProverName w, ProverX = px, ProverY = py \<rparr>)"
  using hex_no_colon by (cases w) (auto simp: enrols_def splitAt_three)

lemma enrolledLoop_iff: "enrolledLoop specs = Inr ws \<longleftrightarrow> list_all2 enrols specs ws"
proof (induction specs arbitrary: ws)
  case (Cons spec specs)
  show ?case
  proof (cases "length (splitAt CHR '':'' spec) = 3")
    case True
    then obtain a b c where "splitAt CHR '':'' spec = [a, b, c]"
      by (auto simp: numeral_3_eq_3 length_Suc_conv)
    then show ?thesis
      by (cases ws) (auto simp: bindE_Inr_iff mustHex_def Cons.IH enrols_split Prover.splits)
  next
    case False
    then have "\<not> enrols spec w" for w by (auto simp: enrols_split)
    then show ?thesis using False by (cases ws) (simp_all add: Let_def)
  qed
qed auto

lemma cosignVerifyCmd_run:
  assumes "cosignInputs js files f body cosigs enrolled"
  shows "cosignVerifyCmd js files f =
    (let ok = VerifyCheckpointWitnesses body cosigs enrolled in
     Inr (if int (length ok) \<ge> WitnessThreshold f then EnoughWitnesses ok (WitnessThreshold f)
          else TooFewWitnesses (length ok) (WitnessThreshold f)))"
  using assms
  by (auto simp: cosignVerifyCmd_def cosignInputs_def needFlag_def readFile_def parsed_def isOk_iff Let_def
      simp flip: cosigLoop_iff enrolledLoop_iff)

lemma cosignInputs_unique:
  assumes "cosignInputs js files f body cosigs enrolled" "cosignInputs js files f body' cosigs' enrolled'"
  shows "body' = body \<and> cosigs' = cosigs \<and> enrolled' = enrolled"
  using assms by (auto simp: cosignInputs_def simp flip: cosigLoop_iff enrolledLoop_iff)

lemma cosignVerifyCmd_dies:
  assumes "\<not> (\<exists>body cosigs enrolled. cosignInputs js files f body cosigs enrolled)"
  shows "\<exists>e. cosignVerifyCmd js files f = Inl e"
proof (cases "cosignVerifyCmd js files f")
  case (Inr out)
  then obtain body cosigs enrolled where "cosignInputs js files f body cosigs enrolled"
    unfolding cosignVerifyCmd_def bindE_Inr_iff Let_def
    by (auto simp: cosignInputs_def needFlag_def readFile_def parsed_def
        simp flip: cosigLoop_iff enrolledLoop_iff split: disk_file.splits option.splits if_splits)
  with assms show ?thesis by blast
qed blast

lemma length_witnesses:
  "length (VerifyCheckpointWitnesses body cosigs enrolled) =
     card {name. \<exists>c\<in>set cosigs. countsAs body enrolled c name}"
  using witnessLoop_spec [of "[]" "[]" body enrolled cosigs]
  by (simp add: VerifyCheckpointWitnesses_def flip: distinct_card)

section \<open>Properties\<close>

text \<open>Whatever sequence of \<open>add\<close> commands is run, each content of the log file loads (in the
  server too) and extends the one before: the operator's command can only append.\<close>

theorem add_only_appends:
  assumes "leavesRoundTrip js marshal" and "loadLogFile (toLeaves js) d = Inr l"
  shows "\<exists>ls. map (loadLogFile (toLeaves js)) (addAll js marshal d fs) = map Inr (l # ls) \<and>
     sorted_wrt prefix (map Leaves (l # ls))"
  using assms(2)
proof (induction fs arbitrary: d l)
  case (Cons f fs)
  obtain res d' where a: "addCmd js marshal None (\<lambda>_. d) f = (res, d')" by fastforce
  obtain l' where l': "loadLogFile (toLeaves js) d' = Inr l'" "prefix (Leaves l) (Leaves l')"
    using addCmd_grows [OF assms(1) Cons.prems a] Cons.prems by auto
  from Cons.IH [OF l'(1)] obtain ls where
    ls: "map (loadLogFile (toLeaves js)) (addAll js marshal d' fs) = map Inr (l' # ls)"
      "sorted_wrt prefix (map Leaves (l' # ls))" by blast
  then have "sorted_wrt prefix (map Leaves (l # l' # ls))"
    using l'(2) by (auto intro: prefix_order.trans)
  with ls(1) show ?case
    using Cons.prems a by (intro exI [of _ "l' # ls"]) simp
qed simp

text \<open>C28: What \<open>prove\<close> writes for an entry of the log, \<open>verify\<close> passes, exactly when the checkpoint's
  signature verifies under the key in the bundle; no other check of \<open>verify\<close> can fail on it.\<close>

theorem proved_entry_verifies:
  assumes "proveCmd js nonce files f = Inr (ProofOut pb)"
    and "NL \<notin> set (LogOrigin f)" and "length (Leaves (projr (load js files (LogPath f)))) < 2 ^ 63"
    and "ProofPath g \<noteq> []" and "files' (ProofPath g) = FileContents raw" and "toProof js raw = Some pb"
  shows "verifyCmd js files' g =
    (case verifySig (bytes_of_string (PCheckpoint pb)) (projr (hex_decode (PCheckSig pb)))
        (projr (hex_decode (PLogPubX pb))) (projr (hex_decode (PLogPubY pb))) of
       Inl e \<Rightarrow> Inr (NotLogged (CheckpointSignature e))
     | Inr _ \<Rightarrow> Inr (EndorsementLogged (Index f)))"
proof -
  from assms(1) obtain l ps key sig where l: "load js files (LogPath f) = Inr l"
      "InclusionProof l (Index f) = Inr ps"
    and pb: "pb = \<lparr> PEntry = hex_encode (Leaves l ! nat (Index f)), PIndex = Index f,
       PProof = map hex_encode ps,
       PCheckpoint = string_of_bytes (CheckpointBody (LogOrigin f) (int (Size l)) (Root l)),
       PCheckSig = hex_encode sig, PLogPubX = hex_encode (fst (PubXY key)),
       PLogPubY = hex_encode (snd (PubXY key)) \<rparr>"
    by (elim proveCmd_Inr) auto
  have "\<forall>p\<in>set ps. length p = 32"
    using l(2) path_digests by (auto simp: InclusionProof_def split: if_splits)
  moreover have "VerifyInclusion (Leaves l ! nat (Index f)) (Index f) (int (Size l)) ps (Root l)"
    using inclusion_complete [OF l(2)] by simp
  moreover have "ParseCheckpoint (CheckpointBody (LogOrigin f) (int (Size l)) (Root l)) =
      Inr (LogOrigin f, int (Size l), Root l)"
    using assms(2,3) l(1) by (intro ParseCheckpoint_body) (simp_all add: Root_def Size_def)
  ultimately show ?thesis
    using assms(4-6)
    by (simp add: verifyCmd_def needFlag_def readFile_def parsed_def mustHex_def pb nodeLoop_hex
        CheckLoggedEndorsement_def split: sum.splits)
qed

text \<open>C29: \<open>cosign-verify\<close> exits with status 0 exactly when both files are named, the checkpoint
  file parses, every entry of the cosignature file decodes (field by field), every enrolled spec is
  \<open>name:x:y\<close> with hex coordinates, and at least the threshold many enrolled names have a
  cosignature that verifies under a key enrolled for the name; with fewer names, and all else as
  before, it exits with 1, and in every other case, one undecodable cosignature included, it dies
  with 2. (A threshold of 0 or less thus passes any checkpoint file, without a cosignature.)\<close>

theorem cosign_verify_passes_iff:
  "((case cosignVerifyCmd js files f of Inl _ \<Rightarrow> False | Inr out \<Rightarrow> exitStatus out = 0) \<longleftrightarrow>
     (\<exists>body cosigs enrolled. cosignInputs js files f body cosigs enrolled \<and>
        WitnessThreshold f \<le> int (card {name. \<exists>c\<in>set cosigs. countsAs body enrolled c name}))) \<and>
   ((case cosignVerifyCmd js files f of Inl _ \<Rightarrow> False | Inr out \<Rightarrow> exitStatus out = 1) \<longleftrightarrow>
     (\<exists>body cosigs enrolled. cosignInputs js files f body cosigs enrolled \<and>
        int (card {name. \<exists>c\<in>set cosigs. countsAs body enrolled c name}) < WitnessThreshold f)) \<and>
   ((case cosignVerifyCmd js files f of Inl _ \<Rightarrow> True | Inr out \<Rightarrow> exitStatus out \<notin> {0, 1}) \<longleftrightarrow>
     \<not> (\<exists>body cosigs enrolled. cosignInputs js files f body cosigs enrolled))"
proof (cases "\<exists>body cosigs enrolled. cosignInputs js files f body cosigs enrolled")
  case True
  then obtain body cosigs enrolled where i: "cosignInputs js files f body cosigs enrolled" by blast
  let ?n = "int (card {name. \<exists>c\<in>set cosigs. countsAs body enrolled c name})"
  have only: "cosignInputs js files f b cs ws \<longleftrightarrow> b = body \<and> cs = cosigs \<and> ws = enrolled" for b cs ws
    using cosignInputs_unique [OF i] i by blast
  have "cosignVerifyCmd js files f =
      Inr (if WitnessThreshold f \<le> ?n
           then EnoughWitnesses (VerifyCheckpointWitnesses body cosigs enrolled) (WitnessThreshold f)
           else TooFewWitnesses (length (VerifyCheckpointWitnesses body cosigs enrolled)) (WitnessThreshold f))"
    using cosignVerifyCmd_run [OF i] by (simp add: length_witnesses)
  then show ?thesis by (simp add: only exitStatus_def not_le)
next
  case False
  then have "\<exists>e. cosignVerifyCmd js files f = Inl e" by (rule cosignVerifyCmd_dies)
  then show ?thesis using False by auto
qed

end
