(* ===== verification/Log_Cli_Demo.thy ===== *)
theory Log_Cli_Demo
  imports Log_Cli
begin

text \<open>Concrete runs of the operator's commands, on which the theorems of \<open>Log_Cli\<close> are applied.\<close>

text \<open>A format of the log file: one hex string per line.\<close>

definition lineMarshal :: "string list \<Rightarrow> bytes" where
  "lineMarshal hexes = bytes_of_string (concat (map (\<lambda>h. h @ [NL]) hexes))"

definition lineJson :: log_json where
  "lineJson = \<lparr> toLeaves = (\<lambda>raw. Some (butlast (split_nl (string_of_bytes raw)))),
     toProof = (\<lambda>_. None), toCosigs = (\<lambda>_. None), toEndorsement = (\<lambda>_. None) \<rparr>"

definition opKey :: string where
  "opKey = hex_encode (1 # replicate 31 0)"

lemma opKey: "opKey \<noteq> []" "\<exists>k. PrivKeyFromHex opKey = Inr k"
  by (simp add: opKey_def) (simp add: opKey_def PrivKeyFromHex_def case_prod_beta Let_def del: hex_encode.simps)

definition opFlags :: logFlags where
  "opFlags = \<lparr> LogPath = ''L'', LogKeyHex = opKey, LogOrigin = ''o'', Index = 0,
     ProofPath = ''p'', CpPath = [], WitnessName = [], CosigsPath = [], WitnessThreshold = 1,
     EndorserName = [], DeviceX = [], DeviceY = [], EndorserX = [], EndorserY = [], FilePath = [],
     CoseFlag = False, EnrolledWitnesses = [], Args = [] \<rparr>"

lemma split_concat: "\<forall>h\<in>set hs. NL \<notin> set h \<Longrightarrow> split_nl (concat (map (\<lambda>h. h @ [NL]) hs)) = hs @ [[]]"
  by (induction hs) (simp_all add: split_nl_append NL_def)

lemma line_roundtrip: "leavesRoundTrip lineJson lineMarshal"
proof -
  have h: "\<forall>h\<in>set (map hex_encode bs). NL \<notin> set h" for bs by (simp add: NL_def)
  have "butlast (split_nl (concat (map (\<lambda>h. h @ [NL]) (map hex_encode bs)))) = map hex_encode bs" for bs
    by (simp only: split_concat [OF h] butlast_snoc)
  then show ?thesis by (simp add: leavesRoundTrip_def lineJson_def lineMarshal_def)
qed

lemma line_empty: "loadLogFile (toLeaves lineJson) (FileContents []) = Inr \<lparr> Leaves = [] \<rparr>"
  by (simp add: loadLogFile_def lineJson_def string_of_bytes_def)

lemma add_only_appends_witness:
  "\<exists>ls. map (loadLogFile (toLeaves lineJson))
       (addAll lineJson lineMarshal (FileContents []) [opFlags\<lparr> Args := [''0a''] \<rparr>, opFlags\<lparr> Args := [''zz''] \<rparr>]) =
     map Inr (\<lparr> Leaves = [] \<rparr> # ls) \<and> sorted_wrt prefix (map Leaves (\<lparr> Leaves = [] \<rparr> # ls))"
  by (rule add_only_appends [OF line_roundtrip line_empty])

definition oneLeaf :: files where
  "oneLeaf = (\<lambda>_. FileContents (lineMarshal [''0a'']))"

lemma oneLeaf_load: "load (lineJson\<lparr> toProof := tp \<rparr>) oneLeaf name = Inr \<lparr> Leaves = [[10]] \<rparr>"
proof -
  have "split_nl (''0a'' @ [NL]) = [''0a'', []]" by (simp add: NL_def)
  then show ?thesis
    by (simp add: load_def oneLeaf_def lineJson_def lineMarshal_def Add_def Let_def from_hex_char_def)
qed

lemma demo_prove: "\<exists>pb. \<forall>tp. proveCmd (lineJson\<lparr> toProof := tp \<rparr>) (Some 1) oneLeaf opFlags = Inr (ProofOut pb)"
proof -
  obtain k where "PrivKeyFromHex opKey = Inr k" using opKey by blast
  then show ?thesis
    using opKey(1) by (simp add: proveCmd_def oneLeaf_load needFlag_def opFlags_def InclusionProof_def
        loadKey_def case_prod_beta signed_def SignCheckpoint_def signNote_def Let_def)
qed

lemma proved_entry_verifies_witness:
  "\<exists>js pb. proveCmd js (Some 1) oneLeaf opFlags = Inr (ProofOut pb) \<and>
     verifyCmd js oneLeaf opFlags =
       (case verifySig (bytes_of_string (PCheckpoint pb)) (projr (hex_decode (PCheckSig pb)))
           (projr (hex_decode (PLogPubX pb))) (projr (hex_decode (PLogPubY pb))) of
          Inl e \<Rightarrow> Inr (NotLogged (CheckpointSignature e))
        | Inr _ \<Rightarrow> Inr (EndorsementLogged (Index opFlags)))"
proof -
  obtain pb where pb: "proveCmd (lineJson\<lparr> toProof := tp \<rparr>) (Some 1) oneLeaf opFlags = Inr (ProofOut pb)" for tp
    using demo_prove by blast
  let ?js = "lineJson\<lparr> toProof := (\<lambda>_. Some pb) \<rparr>"
  have "toProof ?js raw = Some pb" for raw by simp
  moreover have "NL \<notin> set (LogOrigin opFlags)" "ProofPath opFlags \<noteq> []"
    by (simp_all add: opFlags_def NL_def)
  moreover have "length (Leaves (projr (load ?js oneLeaf (LogPath opFlags)))) < 2 ^ 63"
    by (simp add: oneLeaf_load)
  ultimately show ?thesis
    using proved_entry_verifies [OF pb, of "\<lambda>_. Some pb" opFlags oneLeaf] pb
    by (intro exI [of _ ?js] exI [of _ pb]) (simp add: oneLeaf_def)
qed

end
