(* ===== verification/Shamir.thy ===== *)
theory Shamir
  imports P256 Complex_Main
begin

text \<open>
  Shamir secret sharing over the field of 2^521 - 1 elements (threshold.go): \<open>ShamirSplit\<close> and
  \<open>ShamirCombine\<close>. The random coefficients are an argument. Any k shares give the secret back;
  any k - 1 of them are produced by equally many random choices for each secret.
\<close>

section \<open>Splitting and combining\<close>

definition shamirPrime :: int where
  "shamirPrime = 2 ^ 521 - 1"

record Share =
  ShareX :: int
  ShareY :: bytes

datatype shamir_error =
    ShareCounts
  | SecretTooLarge
  | RandFails
  | TooFewShares
  | ShareXRange
  | DuplicateX
  | NonInvertible

text \<open>The loop that draws the coefficients; each \<open>rand.Int\<close> gives a field element or fails.\<close>

fun drawCoeffs :: "nat \<Rightarrow> int option list \<Rightarrow> shamir_error + int list" where
  "drawCoeffs 0 rs = Inr []"
| "drawCoeffs (Suc m) (Some c # rs) = bindE (drawCoeffs m rs) (\<lambda>cs. Inr (c # cs))"
| "drawCoeffs (Suc m) _ = Inl RandFails"

text \<open>Horner evaluation at \<open>x\<close>, from the last coefficient down.\<close>

fun horner :: "int \<Rightarrow> int list \<Rightarrow> int" where
  "horner x [] = 0"
| "horner x [c] = c"
| "horner x (c # cs) = (horner x cs * x + c) mod shamirPrime"

definition ShamirSplit :: "int option list \<Rightarrow> bytes \<Rightarrow> int \<Rightarrow> int \<Rightarrow> shamir_error + Share list" where
  "ShamirSplit rs secret k n =
     (if k < 2 \<or> n < k \<or> n > 255 then Inl ShareCounts
      else let s = int (be_nat secret) in
        if s \<ge> shamirPrime then Inl SecretTooLarge
        else
          bindE (drawCoeffs (nat (k - 1)) rs) (\<lambda>cs.
          Inr (map (\<lambda>idx. \<lparr> ShareX = int idx, ShareY = min_bytes (nat (horner (int idx) (s # cs))) \<rparr>)
                [1..<nat n + 1])))"

fun checkShares :: "int list \<Rightarrow> Share list \<Rightarrow> shamir_error + unit" where
  "checkShares seen [] = Inr ()"
| "checkShares seen (sh # shs) =
     (if ShareX sh \<le> 0 then Inl ShareXRange
      else if ShareX sh \<in> set seen then Inl DuplicateX
      else checkShares (ShareX sh # seen) shs)"

text \<open>\<open>big.Int.ModInverse\<close>: nil when there is no inverse.\<close>

definition modInverse :: "int \<Rightarrow> int \<Rightarrow> int option" where
  "modInverse a m = (if gcd a m = 1 then Some (modinv a m) else None)"

text \<open>The inner loop, over the x coordinates of the other shares.\<close>

fun lagrangeLoop :: "int \<Rightarrow> int \<Rightarrow> int \<Rightarrow> int list \<Rightarrow> int \<times> int" where
  "lagrangeLoop xj num den [] = (num, den)"
| "lagrangeLoop xj num den (xm # xs) =
     lagrangeLoop xj ((num * (- xm)) mod shamirPrime) ((den * (xj - xm)) mod shamirPrime) xs"

fun combineLoop :: "Share list \<Rightarrow> int \<Rightarrow> nat list \<Rightarrow> shamir_error + int" where
  "combineLoop shares secret [] = Inr secret"
| "combineLoop shares secret (j # js) =
     (let xj = ShareX (shares ! j);
          yj = int (be_nat (ShareY (shares ! j)));
          (num, den) = lagrangeLoop xj 1 1 (map ShareX (take j shares @ drop (Suc j) shares))
      in case modInverse den shamirPrime of
           None \<Rightarrow> Inl NonInvertible
         | Some denInv \<Rightarrow>
             let term = ((yj * num) mod shamirPrime * denInv) mod shamirPrime in
             combineLoop shares ((secret + term) mod shamirPrime) js)"

definition ShamirCombine :: "Share list \<Rightarrow> shamir_error + bytes" where
  "ShamirCombine shares =
     (if length shares < 2 then Inl TooFewShares
      else
        bindE (checkShares [] shares) (\<lambda>_.
        bindE (combineLoop shares 0 [0..<length shares]) (\<lambda>secret.
        Inr (min_bytes (nat secret)))))"

section \<open>Polynomials by their coefficients\<close>

fun pe :: "'a::comm_ring_1 list \<Rightarrow> 'a \<Rightarrow> 'a" where
  "pe [] x = 0"
| "pe (c # cs) x = c + x * pe cs x"

text \<open>Synthetic division by \<open>x - b\<close>.\<close>

fun sd :: "'a::comm_ring_1 \<Rightarrow> 'a list \<Rightarrow> 'a list" where
  "sd b [] = []"
| "sd b (c # cs) = (if cs = [] then [] else pe cs b # sd b cs)"

lemma pe_sd: "pe cs x - pe cs b = (x - b) * pe (sd b cs) x"
proof (induction cs)
  case (Cons c cs)
  show ?case
  proof (cases "cs = []")
    case False
    have "pe (c # cs) x - pe (c # cs) b = (x - b) * pe cs b + x * (pe cs x - pe cs b)"
      by (simp add: algebra_simps)
    also have "\<dots> = (x - b) * pe (sd b (c # cs)) x"
      unfolding Cons using False by (simp add: algebra_simps)
    finally show ?thesis .
  qed simp
qed simp

lemma length_sd [simp]: "length (sd b cs) = length cs - 1"
  by (induction cs) auto

lemma pe_of_int: "(of_int (pe cs x) :: rat) = pe (map of_int cs) (of_int x)"
  by (induction cs) simp_all

section \<open>Interpolation at zero\<close>

definition weight :: "'a::field set \<Rightarrow> 'a \<Rightarrow> 'a" where
  "weight A a = (\<Prod>m\<in>A - {a}. (- m) / (a - m))"

lemma weight_remove:
  assumes "finite A" "b \<in> A" "a \<in> A - {b}"
  shows "weight A a = (- b) / (a - b) * weight (A - {b}) a"
proof -
  have "A - {a} = insert b (A - {b} - {a})" using assms by auto
  then show ?thesis using assms(1) by (simp add: weight_def)
qed

text \<open>Dividing out one node \<open>b\<close>: the interpolation error is a multiple of the value at \<open>b\<close>.\<close>

lemma interpolation_step:
  assumes "finite A" "b \<in> A"
    and IH: "(\<Sum>a\<in>A - {b}. pe (sd b cs) a * weight (A - {b}) a) = pe (sd b cs) 0"
  shows "(\<Sum>a\<in>A. pe cs a * weight A a) = pe cs b * ((\<Sum>a\<in>A. weight A a) - 1) + pe cs 0"
proof -
  have pe: "pe cs a = pe cs b + (a - b) * pe (sd b cs) a" for a
    using pe_sd [of cs a b] by (simp add: algebra_simps)
  have "(\<Sum>a\<in>A. pe cs a * weight A a) =
      (\<Sum>a\<in>A. pe cs b * weight A a) + (\<Sum>a\<in>A. (a - b) * pe (sd b cs) a * weight A a)"
    by (subst pe) (simp only: distrib_right sum.distrib)
  also have "(\<Sum>a\<in>A. (a - b) * pe (sd b cs) a * weight A a) =
      (\<Sum>a\<in>A - {b}. (a - b) * pe (sd b cs) a * weight A a)"
    using assms(1,2) by (simp add: sum.remove)
  also have "\<dots> = (\<Sum>a\<in>A - {b}. - b * (pe (sd b cs) a * weight (A - {b}) a))"
    using assms(1,2) by (intro sum.cong) (simp_all add: weight_remove)
  also have "\<dots> = - b * pe (sd b cs) 0"
    unfolding IH [symmetric] by (rule sum_distrib_left [symmetric])
  also have "\<dots> = pe cs 0 - pe cs b"
    using pe [of 0] by (simp add: algebra_simps)
  finally show ?thesis
    by (simp add: sum_distrib_left [symmetric] algebra_simps)
qed

lemma interpolation:
  fixes A :: "'a::field set"
  assumes "finite A" "length cs \<le> card A"
  shows "(\<Sum>a\<in>A. pe cs a * weight A a) = pe cs 0"
  using assms
proof (induction "card A" arbitrary: A cs rule: less_induct)
  case less
  have step: "(\<Sum>a\<in>A. pe qs a * weight A a) = pe qs b * ((\<Sum>a\<in>A. weight A a) - 1) + pe qs 0"
    if "b \<in> A" "length qs \<le> card A" for b and qs :: "'a list"
  proof (rule interpolation_step)
    have "card (A - {b}) < card A" using less.prems(1) that(1) by (rule card_Diff1_less)
    moreover have "length (sd b qs) \<le> card (A - {b})" using that less.prems(1) by simp
    ultimately show "(\<Sum>a\<in>A - {b}. pe (sd b qs) a * weight (A - {b}) a) = pe (sd b qs) 0"
      using less.prems(1) by (intro less.hyps) simp_all
  qed (use less.prems(1) that in simp_all)
  consider "A = {}" | b where "A = {b}" | b c where "b \<in> A" "c \<in> A" "b \<noteq> c" by blast
  then have "A = {} \<or> (\<Sum>a\<in>A. weight A a) = 1"
  proof cases
    case 3
    then have "card {b, c} \<le> card A" using less.prems(1) by (intro card_mono) auto
    with 3 have "length [0 :: 'a, 1] \<le> card A" by simp
    from step [OF 3(1) this] step [OF 3(2) this]
    have "b * ((\<Sum>a\<in>A. weight A a) - 1) = c * ((\<Sum>a\<in>A. weight A a) - 1)" by simp
    then have "(b - c) * ((\<Sum>a\<in>A. weight A a) - 1) = 0" by (simp add: left_diff_distrib)
    with 3(3) show ?thesis by simp
  qed (auto simp: weight_def)
  then show ?case
  proof
    assume "A = {}"
    then show ?thesis using less.prems(2) by simp
  next
    assume one: "(\<Sum>a\<in>A. weight A a) = 1"
    then obtain b where "b \<in> A" by (metis equals0I sum.empty zero_neq_one)
    from step [OF this less.prems(2)] one show ?thesis by simp
  qed
qed

text \<open>The same with whole numbers and inverses modulo \<open>p\<close> for the denominators.\<close>

text \<open>The interpolation at 0 over the integers, scaled by the product of all denominators.\<close>

lemma interpolation_scaled:
  fixes A :: "int set"
  defines "d \<equiv> \<lambda>a. \<Prod>m\<in>A - {a}. a - m" and "N \<equiv> \<lambda>a. \<Prod>m\<in>A - {a}. - m"
  assumes A: "finite A" "length cs \<le> card A"
  shows "(\<Sum>a\<in>A. pe cs a * N a * (\<Prod>b\<in>A - {a}. d b)) = pe cs 0 * (\<Prod>a\<in>A. d a)"
proof -
  let ?D = "\<Prod>a\<in>A. d a" and ?E = "\<lambda>a. \<Prod>b\<in>A - {a}. d b"
  have dE: "d a * ?E a = ?D" if "a \<in> A" for a
    using that A(1) by (simp add: prod.remove)
  have d0: "d a \<noteq> 0" for a
    using A(1) by (simp add: d_def)
  have w: "weight (of_int ` A) (of_int a) = (of_int (N a) / of_int (d a) :: rat)" for a
  proof -
    have "of_int ` A - {of_int a :: rat} = of_int ` (A - {a})" by auto
    then show ?thesis
      by (simp add: weight_def N_def d_def prod.reindex inj_on_def flip: prod_dividef)
  qed
  have "(\<Sum>a\<in>of_int ` A. pe (map of_int cs) a * weight (of_int ` A) a) = pe (map of_int cs) (0 :: rat)"
    using A by (intro interpolation) (simp_all add: card_image inj_on_def)
  then have "(\<Sum>a\<in>A. of_int (pe cs a) * (of_int (N a) / of_int (d a))) = (of_int (pe cs 0) :: rat)"
    by (simp add: sum.reindex inj_on_def w pe_of_int)
  then have "(\<Sum>a\<in>A. of_int (pe cs a) * (of_int (N a) / of_int (d a)) * of_int ?D) =
      (of_int (pe cs 0) * of_int ?D :: rat)"
    by (simp only: flip: sum_distrib_right)
  moreover have "of_int (pe cs a) * (of_int (N a) / of_int (d a)) * of_int ?D =
      (of_int (pe cs a * N a * ?E a) :: rat)" if "a \<in> A" for a
    using d0 [of a] by (simp del: of_int_prod add: dE [OF that, symmetric])
  ultimately have "(\<Sum>a\<in>A. of_int (pe cs a * N a * ?E a)) = (of_int (pe cs 0 * ?D) :: rat)"
    by (simp del: of_int_prod)
  then show ?thesis
    by (simp only: of_int_eq_iff flip: of_int_sum)
qed

lemma prod_inverses:
  fixes d i :: "int \<Rightarrow> int"
  assumes "finite A" "\<And>a. a \<in> A \<Longrightarrow> p dvd i a * d a - 1"
  shows "p dvd (\<Prod>a\<in>A. d a) * (\<Prod>a\<in>A. i a) - 1"
  using assms
proof (induction A rule: finite_induct)
  case (insert a B)
  have "(\<Prod>a\<in>insert a B. d a) * (\<Prod>a\<in>insert a B. i a) - 1 =
      (i a * d a - 1) * ((\<Prod>a\<in>B. d a) * (\<Prod>a\<in>B. i a)) + ((\<Prod>a\<in>B. d a) * (\<Prod>a\<in>B. i a) - 1)"
    using insert.hyps by (simp add: algebra_simps)
  moreover have "p dvd i a * d a - 1" "p dvd (\<Prod>a\<in>B. d a) * (\<Prod>a\<in>B. i a) - 1"
    using insert.IH insert.prems by simp_all
  ultimately show ?case by (simp only: dvd_add dvd_mult2)
qed simp

lemma interpolation_mod:
  fixes A :: "int set"
  assumes A: "finite A" "length cs \<le> card A"
    and inv: "\<And>a. a \<in> A \<Longrightarrow> p dvd i a * (\<Prod>m\<in>A - {a}. a - m) - 1"
  shows "p dvd (\<Sum>a\<in>A. pe cs a * (\<Prod>m\<in>A - {a}. - m) * i a) - pe cs 0"
proof -
  define d N where "d a = (\<Prod>m\<in>A - {a}. a - m)" and "N a = (\<Prod>m\<in>A - {a}. - m)" for a :: int
  define D E I where "D = (\<Prod>a\<in>A. d a)" and "E a = (\<Prod>b\<in>A - {a}. d b)" and "I = (\<Prod>a\<in>A. i a)" for a
  let ?S = "\<Sum>a\<in>A. pe cs a * N a * i a"
  have dE: "d a * E a = D" if "a \<in> A" for a
    using that A(1) by (simp add: D_def E_def prod.remove)
  have exact: "(\<Sum>a\<in>A. pe cs a * N a * E a) = pe cs 0 * D"
    using interpolation_scaled [OF A] by (simp only: d_def N_def D_def E_def)
  have "D * ?S - pe cs 0 * D = (\<Sum>a\<in>A. pe cs a * N a * E a * (i a * d a - 1))"
    unfolding exact [symmetric] sum_distrib_left sum_subtractf [symmetric]
    by (intro sum.cong) (simp_all add: algebra_simps flip: dE)
  moreover have "p dvd (\<Sum>a\<in>A. pe cs a * N a * E a * (i a * d a - 1))"
    using inv by (intro dvd_sum dvd_mult) (simp add: d_def)
  ultimately have S: "p dvd D * (?S - pe cs 0)"
    by (simp add: right_diff_distrib mult.commute)
  have "p dvd D * I - 1"
    unfolding D_def I_def by (rule prod_inverses [OF A(1)]) (simp add: d_def inv)
  then have "p dvd I * (D * (?S - pe cs 0)) - (D * I - 1) * (?S - pe cs 0)"
    by (rule dvd_diff [OF dvd_mult [OF S] dvd_mult2])
  moreover have "?S - pe cs 0 = I * (D * (?S - pe cs 0)) - (D * I - 1) * (?S - pe cs 0)"
    by (simp add: algebra_simps)
  ultimately have "p dvd ?S - pe cs 0" by simp
  then show ?thesis by (simp only: N_def)
qed

section \<open>The field\<close>

lemma shamirPrime_pos: "1 < shamirPrime"
  by (simp add: shamirPrime_def)

lemma modinv_dvd:
  assumes "gcd a m = 1" "1 < m"
  shows "m dvd modinv a m * a - 1" "0 \<le> modinv a m" "modinv a m < m"
proof -
  define x u v where "x = nat (a mod m)" and "u = fst (bezw x (nat m))" and "v = snd (bezw x (nat m))"
  have x: "int x = a mod m" using assms(2) by (simp add: x_def)
  have "gcd (a mod m) m = 1" using assms(1) by (metis gcd.commute gcd_red_int)
  then have "int (gcd x (nat m)) = 1"
    using assms(2) by (simp add: x flip: gcd_int_int_eq)
  then have bez: "u * (a mod m) + v * m = 1"
    using bezw_aux [of x "nat m"] assms(2) by (simp add: u_def v_def x)
  have "(u mod m * a) mod m = (u * (a mod m)) mod m"
    by (simp add: mod_mult_left_eq mod_mult_right_eq)
  also have "u * (a mod m) = 1 + (- v) * m" using bez by simp
  also have "(1 + (- v) * m) mod m = 1 mod m" by (rule mod_mult_self1)
  finally show "m dvd modinv a m * a - 1"
    unfolding modinv_def x_def [symmetric] u_def [symmetric] by (rule mod_eq_dvd_iff [THEN iffD1])
qed (use assms(2) in \<open>simp_all add: modinv_def\<close>)

text \<open>The numbers that occur as differences of share indexes are units.\<close>

text \<open>The numbers from 2 to 255 have a prime factor in the list, and the product of the list is a
  unit, by its Bezout coefficients.\<close>

definition smallPrimes :: "int list" where
  "smallPrimes =
     [2, 3, 5, 7, 11, 13, 17, 19, 23, 29, 31, 37, 41, 43, 47, 53, 59, 61, 67, 71, 73, 79, 83,
      89, 97, 101, 103, 107, 109, 113, 127, 131, 137, 139, 149, 151, 157, 163, 167, 173, 179,
      181, 191, 193, 197, 199, 211, 223, 227, 229, 233, 239, 241, 251]"

lemma smallPrimes_cover: "list_all (\<lambda>g. list_ex (\<lambda>q. g mod q = 0) smallPrimes) [2..255]"
  unfolding smallPrimes_def by code_simp

lemma smallPrimes_unit:
  "3552141951286401725688124721165717733009793917317909826033539690832398759941793254204472156964045433225398647179289373171573166238897814833463658764022276927 * prod_list smallPrimes =
   33254167334687954283791050499272304822081378219018246876883826091692385170965651368398443072016116359 * shamirPrime + 1"
  by (simp add: smallPrimes_def shamirPrime_def)

lemma dvd_prod_list: "q \<in> set qs \<Longrightarrow> (q :: int) dvd prod_list qs"
  by (induction qs) auto

lemma unit_difference:
  assumes "d \<noteq> 0" "\<bar>d\<bar> \<le> 255"
  shows "gcd d shamirPrime = 1"
proof (rule ccontr)
  assume ne: "gcd d shamirPrime \<noteq> 1"
  have "gcd d shamirPrime > 0" using assms(1) by simp
  moreover have "gcd d shamirPrime \<le> \<bar>d\<bar>"
    using dvd_imp_le_int [OF assms(1) gcd_dvd1 [of d shamirPrime]] by simp
  ultimately have "gcd d shamirPrime \<in> set [2..255]"
    unfolding set_upto atLeastAtMost_iff using ne assms(2) by linarith
  then obtain q where q: "q \<in> set smallPrimes" "q dvd gcd d shamirPrime"
    using smallPrimes_cover unfolding list_all_iff list_ex_iff by (blast dest: mod_0_imp_dvd)
  have "q dvd shamirPrime" using q(2) by (meson dvd_trans gcd_dvd2)
  moreover have "q dvd prod_list smallPrimes" using q(1) by (rule dvd_prod_list)
  ultimately have "q dvd 1"
    using smallPrimes_unit by (metis dvd_add_right_iff dvd_mult)
  then show False using q(1) by (auto simp: smallPrimes_def)
qed

lemma horner_mod:
  "\<forall>c\<in>set cs. 0 \<le> c \<and> c < shamirPrime \<Longrightarrow> horner x cs = pe cs x mod shamirPrime"
proof (induction x cs rule: horner.induct)
  case (3 x c d cs)
  then have "horner x (c # d # cs) = (pe (d # cs) x mod shamirPrime * x + c) mod shamirPrime" by simp
  also have "\<dots> = (pe (d # cs) x * x + c) mod shamirPrime"
    by (metis mod_add_left_eq mod_mult_left_eq)
  finally show ?case by (simp add: algebra_simps)
qed simp_all

lemma lagrangeLoop_prod:
  "xs \<noteq> [] \<Longrightarrow> lagrangeLoop xj num den xs =
     ((num * (\<Prod>m\<leftarrow>xs. - m)) mod shamirPrime, (den * (\<Prod>m\<leftarrow>xs. xj - m)) mod shamirPrime)"
proof (induction xj num den xs rule: lagrangeLoop.induct)
  case (2 xj num den xm xs)
  show ?case
  proof (cases "xs = []")
    case False
    from 2(1) [OF this] show ?thesis
      by (simp only: lagrangeLoop.simps mod_mult_left_eq mult.assoc list.map prod_list.Cons)
  qed simp
qed simp

section \<open>Combining\<close>

lemma checkShares_ok:
  "checkShares seen shs = Inr () \<longleftrightarrow>
     (\<forall>sh\<in>set shs. 0 < ShareX sh) \<and> distinct (map ShareX shs) \<and> set seen \<inter> ShareX ` set shs = {}"
  by (induction seen shs rule: checkShares.induct) (auto simp: not_le)

text \<open>The other shares' coordinates, as a set.\<close>

lemma other_shares:
  assumes "distinct xs" "j < length xs"
  shows "set (take j xs @ drop (Suc j) xs) = set xs - {xs ! j}" "distinct (take j xs @ drop (Suc j) xs)"
proof -
  have "xs = take j xs @ xs ! j # drop (Suc j) xs" using assms(2) by (rule id_take_nth_drop)
  then have "distinct (take j xs @ xs ! j # drop (Suc j) xs)" and
    "set xs = set (take j xs @ xs ! j # drop (Suc j) xs)" using assms(1) by metis+
  then show "set (take j xs @ drop (Suc j) xs) = set xs - {xs ! j}" "distinct (take j xs @ drop (Suc j) xs)"
    by auto
qed

lemma lagrange_weights:
  assumes "distinct (map ShareX shares)" "j < length shares" "2 \<le> length shares"
  defines "A \<equiv> ShareX ` set shares" and "a \<equiv> ShareX (shares ! j)"
  shows "lagrangeLoop a 1 1 (map ShareX (take j shares @ drop (Suc j) shares)) =
     ((\<Prod>m\<in>A - {a}. - m) mod shamirPrime, (\<Prod>m\<in>A - {a}. a - m) mod shamirPrime)"
proof -
  let ?o = "map ShareX (take j shares @ drop (Suc j) shares)"
  have o: "?o = take j (map ShareX shares) @ drop (Suc j) (map ShareX shares)"
    by (simp add: take_map drop_map)
  have so: "set ?o = A - {a}" "distinct ?o"
    using other_shares [OF assms(1), of j] assms(2) unfolding o by (simp_all add: A_def a_def)
  have "length ?o = length shares - 1" using assms(2) by simp
  then have "?o \<noteq> []" using assms(3) by auto
  moreover have "prod_list (map f ?o) = prod f (A - {a})" for f :: "int \<Rightarrow> int"
    unfolding so(1) [symmetric] using so(2) by (rule prod.distinct_set_conv_list [symmetric])
  ultimately show ?thesis
    by (subst lagrangeLoop_prod) (simp_all only: mult_1 not_False_eq_True)
qed

lemma dvd_mod_diff: "(p :: int) dvd x mod p - x"
  by (simp flip: mod_eq_dvd_iff)

lemma combineLoop_sum:
  assumes "distinct (map ShareX shares)" "2 \<le> length shares" "\<forall>j\<in>set js. j < length shares"
    and "0 \<le> s" "s < shamirPrime"
  defines "A \<equiv> ShareX ` set shares"
  defines "d \<equiv> \<lambda>a. \<Prod>m\<in>A - {a}. a - m"
  assumes unit: "\<forall>a\<in>A. gcd (d a mod shamirPrime) shamirPrime = 1"
  shows "\<exists>s'. combineLoop shares s js = Inr s' \<and> 0 \<le> s' \<and> s' < shamirPrime \<and>
     shamirPrime dvd s' - (s + (\<Sum>j\<leftarrow>js. int (be_nat (ShareY (shares ! j))) *
       (\<Prod>m\<in>A - {ShareX (shares ! j)}. - m) * modinv (d (ShareX (shares ! j)) mod shamirPrime) shamirPrime))"
  using assms(3-5)
proof (induction js arbitrary: s)
  case (Cons j js)
  let ?a = "ShareX (shares ! j)" and ?y = "int (be_nat (ShareY (shares ! j)))"
  let ?N = "\<Prod>m\<in>A - {?a}. - m" and ?i = "modinv (d ?a mod shamirPrime) shamirPrime"
  let ?t = "(?y * (?N mod shamirPrime)) mod shamirPrime * ?i mod shamirPrime"
  let ?s = "(s + ?t) mod shamirPrime"
  have "?a \<in> A" using Cons.prems by (auto simp: A_def)
  then have inv: "modInverse (d ?a mod shamirPrime) shamirPrime = Some ?i"
    using unit by (simp add: modInverse_def)
  have s: "0 \<le> ?s" "?s < shamirPrime" using shamirPrime_pos by simp_all
  have js: "\<forall>j\<in>set js. j < length shares" using Cons.prems(1) by simp
  from Cons.IH [OF js s] obtain s' where s': "combineLoop shares ?s js = Inr s'" "0 \<le> s'" "s' < shamirPrime"
      "shamirPrime dvd s' - (?s + (\<Sum>j\<leftarrow>js. int (be_nat (ShareY (shares ! j))) *
       (\<Prod>m\<in>A - {ShareX (shares ! j)}. - m) * modinv (d (ShareX (shares ! j)) mod shamirPrime) shamirPrime))"
    by (elim exE conjE)
  have t: "?t = (?y * ?N * ?i) mod shamirPrime"
    by (simp only: mod_mult_left_eq mod_mult_right_eq)
  have e: "?s = (s + ?y * ?N * ?i) mod shamirPrime"
    unfolding t by (rule mod_add_right_eq)
  have t: "shamirPrime dvd ?s - (s + ?y * ?N * ?i)"
    unfolding e by (rule dvd_mod_diff)
  have "combineLoop shares s (j # js) = Inr s'"
    using lagrange_weights [OF assms(1) _ assms(2), of j] Cons.prems(1) inv s'(1)
    by (simp add: Let_def A_def [symmetric] d_def)
  with s' dvd_add [OF s'(4) t] show ?case
    by (auto simp: algebra_simps)
qed (auto)

text \<open>Shares that lie on a polynomial of degree below their number combine to its value at 0.\<close>

text \<open>The denominators are units modulo the prime, and \<open>modinv\<close> inverts them.\<close>

lemma denominator_unit:
  assumes "\<forall>x\<in>A. 0 < x \<and> x \<le> 255" "a \<in> A"
  shows "gcd ((\<Prod>m\<in>A - {a}. a - m) mod shamirPrime) shamirPrime = 1"
proof -
  have "coprime (\<Prod>m\<in>A - {a}. a - m) shamirPrime"
  proof (rule prod_coprime_left)
    fix m assume m: "m \<in> A - {a}"
    with assms have "0 < a" "a \<le> 255" "0 < m" "m \<le> 255" "m \<noteq> a" by blast+
    then have "gcd (a - m) shamirPrime = 1" by (intro unit_difference) auto
    then show "coprime (a - m) shamirPrime" by (simp add: coprime_iff_gcd_eq_1)
  qed
  then show ?thesis by (simp add: coprime_iff_gcd_eq_1 gcd_red_int [symmetric] gcd.commute)
qed

lemma denominator_inverse:
  assumes "\<forall>x\<in>A. 0 < x \<and> x \<le> 255" "a \<in> A"
  shows "shamirPrime dvd modinv ((\<Prod>m\<in>A - {a}. a - m) mod shamirPrime) shamirPrime * (\<Prod>m\<in>A - {a}. a - m) - 1"
proof -
  let ?d = "\<Prod>m\<in>A - {a}. a - m"
  have "shamirPrime dvd modinv (?d mod shamirPrime) shamirPrime * (?d mod shamirPrime) - 1"
    by (rule modinv_dvd(1) [OF denominator_unit [OF assms] shamirPrime_pos])
  then have "(modinv (?d mod shamirPrime) shamirPrime * (?d mod shamirPrime)) mod shamirPrime = 1 mod shamirPrime"
    by (simp only: mod_eq_dvd_iff)
  then have "(modinv (?d mod shamirPrime) shamirPrime * ?d) mod shamirPrime = 1 mod shamirPrime"
    by (simp only: mod_mult_right_eq)
  then show ?thesis by (simp only: mod_eq_dvd_iff)
qed

lemma weighted_shares:
  fixes i :: "int \<Rightarrow> int"
  defines "N \<equiv> \<lambda>shares a. \<Prod>m\<in>ShareX ` set shares - {a}. - m"
  assumes "distinct (map ShareX shares)"
    and "\<forall>sh\<in>set shares. 0 < ShareX sh \<and> ShareX sh \<le> 255 \<and>
      int (be_nat (ShareY sh)) mod shamirPrime = pe cs (ShareX sh) mod shamirPrime"
    and "length cs \<le> length shares"
    and "\<And>a. a \<in> ShareX ` set shares \<Longrightarrow>
      shamirPrime dvd i a * (\<Prod>m\<in>ShareX ` set shares - {a}. a - m) - 1"
  shows "shamirPrime dvd (\<Sum>j\<leftarrow>[0..<length shares]. int (be_nat (ShareY (shares ! j))) *
    N shares (ShareX (shares ! j)) * i (ShareX (shares ! j))) - pe cs 0"
proof -
  define A where "A = ShareX ` set shares"
  let ?w = "\<lambda>j. N shares (ShareX (shares ! j)) * i (ShareX (shares ! j))"
  let ?y = "\<lambda>j. int (be_nat (ShareY (shares ! j)))"
  have inj: "inj_on (\<lambda>j. ShareX (shares ! j)) {..<length shares}"
    using assms(2) by (auto simp: inj_on_def distinct_conv_nth)
  have A: "A = (\<lambda>j. ShareX (shares ! j)) ` {..<length shares}"
    by (auto simp: A_def set_conv_nth)
  have card: "card A = length shares"
    using distinct_card [OF assms(2)] by (simp add: A_def)
  have "(\<Sum>j\<leftarrow>[0..<length shares]. ?y j * ?w j) = (\<Sum>j<length shares. ?y j * ?w j)"
    by (simp add: sum_list_sum_nth atLeast0LessThan)
  moreover have "shamirPrime dvd (\<Sum>j<length shares. ?y j * ?w j) -
      (\<Sum>j<length shares. pe cs (ShareX (shares ! j)) * ?w j)"
    unfolding sum_subtractf [symmetric] left_diff_distrib [symmetric]
  proof (intro dvd_sum dvd_mult2)
    fix j assume "j \<in> {..<length shares}"
    then show "shamirPrime dvd ?y j - pe cs (ShareX (shares ! j))"
      using assms(3) by (simp add: mod_eq_dvd_iff)
  qed
  moreover have "shamirPrime dvd (\<Sum>j<length shares. pe cs (ShareX (shares ! j)) * ?w j) - pe cs 0"
    using interpolation_mod [of A cs shamirPrime i] assms(4,5) card
    by (simp add: A sum.reindex [OF inj] N_def A_def [symmetric] mult.assoc)
  ultimately show ?thesis
    by (simp only: mult.assoc) (metis (no_types, lifting) diff_add_cancel add_diff_eq dvd_add)
qed

lemma ShamirCombine_interpolates:
  assumes "2 \<le> length shares" "distinct (map ShareX shares)"
    and "\<forall>sh\<in>set shares. 0 < ShareX sh \<and> ShareX sh \<le> 255 \<and>
      int (be_nat (ShareY sh)) mod shamirPrime = pe cs (ShareX sh) mod shamirPrime"
    and "length cs \<le> length shares"
  shows "ShamirCombine shares = Inr (min_bytes (nat (pe cs 0 mod shamirPrime)))"
proof -
  define A where "A = ShareX ` set shares"
  define d where "d a = (\<Prod>m\<in>A - {a}. a - m)" for a
  define i where "i a = modinv (d a mod shamirPrime) shamirPrime" for a
  define N where "N a = (\<Prod>m\<in>A - {a}. - m)" for a
  define y where "y j = int (be_nat (ShareY (shares ! j)))" for j
  have range: "\<forall>x\<in>A. 0 < x \<and> x \<le> 255" using assms(3) by (auto simp: A_def)
  have unit: "gcd (d a mod shamirPrime) shamirPrime = 1" if "a \<in> A" for a
    unfolding d_def by (rule denominator_unit [OF range that])
  have inv: "shamirPrime dvd i a * (\<Prod>m\<in>A - {a}. a - m) - 1" if "a \<in> A" for a
    unfolding i_def d_def by (rule denominator_inverse [OF range that])
  have "\<forall>j\<in>set [0..<length shares]. j < length shares" by simp
  from combineLoop_sum [OF assms(2,1) this order.refl] unit shamirPrime_pos
  obtain s where s: "combineLoop shares 0 [0..<length shares] = Inr s" "0 \<le> s" "s < shamirPrime"
      "shamirPrime dvd s - (\<Sum>j\<leftarrow>[0..<length shares]. y j * N (ShareX (shares ! j)) * i (ShareX (shares ! j)))"
    by (auto simp: A_def N_def y_def i_def d_def)
  have "shamirPrime dvd (\<Sum>j\<leftarrow>[0..<length shares]. y j * N (ShareX (shares ! j)) * i (ShareX (shares ! j))) - pe cs 0"
    unfolding y_def N_def A_def
    by (rule weighted_shares [OF assms(2,3,4)]) (use inv in \<open>simp add: A_def\<close>)
  then have "shamirPrime dvd s - pe cs 0"
    using s(4) by (metis (no_types, lifting) diff_add_cancel add_diff_eq dvd_add)
  then have "s mod shamirPrime = pe cs 0 mod shamirPrime" by (simp only: mod_eq_dvd_iff)
  moreover have "checkShares [] shares = Inr ()"
    using assms(2,3) by (simp add: checkShares_ok)
  ultimately show ?thesis
    using s(1-3) assms(1) by (simp add: ShamirCombine_def)
qed

section \<open>The shares of a split\<close>

text \<open>What \<open>rand.Int\<close> draws lies in the field.\<close>

definition inField :: "int option list \<Rightarrow> bool" where
  "inField rs \<longleftrightarrow> list_all (\<lambda>r. case r of None \<Rightarrow> True | Some c \<Rightarrow> 0 \<le> c \<and> c < shamirPrime) rs"

lemma drawCoeffs_Inr: "drawCoeffs m rs = Inr cs \<Longrightarrow> length cs = m \<and>
    (inField rs \<longrightarrow> (\<forall>c\<in>set cs. 0 \<le> c \<and> c < shamirPrime))"
  by (induction m rs arbitrary: cs rule: drawCoeffs.induct) (auto simp: bindE_Inr_iff inField_def)

lemma drawCoeffs_Some: "drawCoeffs (length cs) (map Some cs) = Inr cs"
  by (induction cs) simp_all

definition shareAt :: "int list \<Rightarrow> nat \<Rightarrow> Share" where
  "shareAt cs idx = \<lparr> ShareX = int idx, ShareY = min_bytes (nat (horner (int idx) cs)) \<rparr>"

lemma ShamirSplit_Inr:
  "ShamirSplit rs secret k n = Inr shares \<longleftrightarrow>
     2 \<le> k \<and> k \<le> n \<and> n \<le> 255 \<and> int (be_nat secret) < shamirPrime \<and>
     (\<exists>cs. drawCoeffs (nat (k - 1)) rs = Inr cs \<and>
        shares = map (shareAt (int (be_nat secret) # cs)) [1..<nat n + 1])"
  by (auto simp: ShamirSplit_def bindE_Inr_iff Let_def shareAt_def [abs_def])

lemma shareAt_on_polynomial:
  assumes "\<forall>c\<in>set cs. 0 \<le> c \<and> c < shamirPrime"
  shows "int (be_nat (ShareY (shareAt cs idx))) = pe cs (int idx) mod shamirPrime"
  using horner_mod [OF assms, of "int idx"] shamirPrime_pos by (simp add: shareAt_def)

lemma shamir_reconstruct:
  assumes "ShamirSplit rs secret k n = Inr shares" "inField rs"
    and "set picked \<subseteq> set shares" "distinct picked" "k \<le> int (length picked)"
  shows "ShamirCombine picked = Inr (min_bytes (be_nat secret))"
proof -
  let ?s = "int (be_nat secret)"
  from assms(1) obtain cs where k: "2 \<le> k" "k \<le> n" "n \<le> 255" "?s < shamirPrime"
    and cs: "drawCoeffs (nat (k - 1)) rs = Inr cs"
    and sh: "shares = map (shareAt (?s # cs)) [1..<nat n + 1]"
    unfolding ShamirSplit_Inr by blast
  have len: "length (?s # cs) = nat k"
    using drawCoeffs_Inr [OF cs] k(1) by simp
  have fld: "\<forall>c\<in>set (?s # cs). 0 \<le> c \<and> c < shamirPrime"
    using drawCoeffs_Inr [OF cs] assms(2) k(4) by simp
  have on: "0 < ShareX p \<and> ShareX p \<le> 255 \<and>
      int (be_nat (ShareY p)) mod shamirPrime = pe (?s # cs) (ShareX p) mod shamirPrime" if "p \<in> set picked" for p
  proof -
    have "p \<in> set shares" using that assms(3) by blast
    then obtain idx where idx: "1 \<le> idx" "idx < nat n + 1" "p = shareAt (?s # cs) idx"
      unfolding sh by auto
    then have "ShareX p = int idx" by (simp add: shareAt_def)
    moreover have "int idx \<le> 255" using idx(2) k by linarith
    ultimately show ?thesis
      using idx(1) shareAt_on_polynomial [OF fld, of idx] idx(3) by simp
  qed
  have "inj_on ShareX (set shares)" by (auto simp: inj_on_def sh shareAt_def)
  then have "distinct (map ShareX picked)"
    using assms(3,4) by (auto simp: distinct_map intro: inj_on_subset)
  moreover have "2 \<le> length picked" "length (?s # cs) \<le> length picked"
    using assms(5) k(1) len by linarith+
  ultimately have "ShamirCombine picked = Inr (min_bytes (nat (pe (?s # cs) 0 mod shamirPrime)))"
    using on by (intro ShamirCombine_interpolates) blast+
  moreover have "pe (?s # cs) 0 mod shamirPrime = ?s" using k(4) by simp
  ultimately show ?thesis by simp
qed

section \<open>What fewer holders see\<close>

text \<open>A polynomial that is 1 at 0 and 0 modulo the prime at the given points.\<close>

fun vanishing :: "int list \<Rightarrow> int list" where
  "vanishing [] = [1]"
| "vanishing (x # xs) =
     (let cs = vanishing xs in
      map2 (\<lambda>c e. c + - modinv x shamirPrime * e) (cs @ [0]) (0 # cs))"

lemma pe_map2: "length cs = length ds \<Longrightarrow>
    pe (map2 (\<lambda>c e. c + t * e) cs ds) x = pe cs x + t * pe ds (x :: int)"
  by (induction cs ds rule: list_induct2) (simp_all add: algebra_simps)

lemma pe_zeros [simp]: "pe (cs @ replicate m 0) x = pe cs x" "pe (cs @ [0]) x = pe cs x"
proof -
  have "pe (replicate m 0) x = 0" by (induction m) simp_all
  then show "pe (cs @ replicate m 0) x = pe cs x" by (induction cs) simp_all
  show "pe (cs @ [0]) x = pe cs x" by (induction cs) simp_all
qed

lemma length_vanishing [simp]: "length (vanishing xs) = length xs + 1"
  by (induction xs) (simp_all add: Let_def)

lemma pe_vanishing_Cons: "pe (vanishing (x # xs)) t = (1 - modinv x shamirPrime * t) * pe (vanishing xs) t"
  by (simp add: Let_def pe_map2 del: minus_mult_left mult_minus_left) (simp add: algebra_simps)

lemma pe_vanishing_0: "pe (vanishing xs) 0 = 1"
  by (induction xs) (simp_all add: pe_vanishing_Cons del: vanishing.simps(2))

lemma pe_vanishing_root:
  assumes "x \<in> set xs" "0 < x" "x \<le> 255"
  shows "shamirPrime dvd pe (vanishing xs) x"
  using assms(1)
proof (induction xs)
  case (Cons y ys)
  show ?case
  proof (cases "x = y")
    case True
    have "shamirPrime dvd modinv x shamirPrime * x - 1"
      using assms(2,3) by (intro modinv_dvd(1) unit_difference shamirPrime_pos) auto
    then have "shamirPrime dvd 1 - modinv x shamirPrime * x"
      by (metis dvd_minus_iff minus_diff_eq)
    then show ?thesis unfolding pe_vanishing_Cons True [symmetric] by (rule dvd_mult2)
  next
    case False
    then show ?thesis using Cons unfolding pe_vanishing_Cons by (intro dvd_mult) simp
  qed
qed simp

text \<open>Adding a multiple of a coefficient list, in the field.\<close>

definition addMod :: "int \<Rightarrow> int list \<Rightarrow> int list \<Rightarrow> int list" where
  "addMod t ds cs = map2 (\<lambda>c e. (c + t * e) mod shamirPrime) cs ds"

lemma pe_addMod:
  "length cs = length ds \<Longrightarrow> shamirPrime dvd pe (addMod t ds cs) x - (pe cs x + t * pe ds x)"
proof (induction cs ds rule: list_induct2)
  case (Cons c cs e ds)
  have "pe (addMod t (e # ds) (c # cs)) x - (pe (c # cs) x + t * pe (e # ds) x) =
      ((c + t * e) mod shamirPrime - (c + t * e)) + x * (pe (addMod t ds cs) x - (pe cs x + t * pe ds x))"
    by (simp add: addMod_def algebra_simps)
  then show ?case
    using Cons.IH by (simp only:) (intro dvd_add dvd_mult dvd_mod_diff)
qed (simp add: addMod_def)

definition fieldLists :: "nat \<Rightarrow> int list set" where
  "fieldLists m = {cs. length cs = m \<and> set cs \<subseteq> {0..<shamirPrime}}"

lemma finite_fieldLists: "finite (fieldLists m)"
  using finite_lists_length_eq [of "{0..<shamirPrime}" m] by (simp add: fieldLists_def conj_commute)

lemma addMod_field: "cs \<in> fieldLists m \<Longrightarrow> length ds = m \<Longrightarrow> addMod t ds cs \<in> fieldLists m"
  using shamirPrime_pos by (auto simp: fieldLists_def addMod_def in_set_zip)

lemma addMod_inj:
  assumes "addMod t ds cs = addMod t ds cs'" "length ds = m" "cs \<in> fieldLists m" "cs' \<in> fieldLists m"
  shows "cs = cs'"
proof (rule nth_equalityI)
  show len: "length cs = length cs'" using assms by (simp add: fieldLists_def)
  fix i assume i: "i < length cs"
  then have "cs ! i \<in> set cs" "cs' ! i \<in> set cs'" by (simp_all add: len)
  then have r: "0 \<le> cs ! i" "cs ! i < shamirPrime" "0 \<le> cs' ! i" "cs' ! i < shamirPrime"
    using assms(3,4) by (auto simp: fieldLists_def)
  have "addMod t ds cs ! i = addMod t ds cs' ! i" using assms(1) by simp
  then have "(cs ! i + t * ds ! i) mod shamirPrime = (cs' ! i + t * ds ! i) mod shamirPrime"
    using i len assms(2,3) by (simp add: addMod_def fieldLists_def)
  then have "cs ! i mod shamirPrime = cs' ! i mod shamirPrime"
    by (simp add: mod_eq_dvd_iff)
  then show "cs ! i = cs' ! i" using r by simp
qed

text \<open>What the holders of the shares at the positions \<open>hs\<close> see, if the split succeeds.\<close>

definition holderView :: "int list \<Rightarrow> bytes \<Rightarrow> int \<Rightarrow> int \<Rightarrow> nat list \<Rightarrow> Share list option" where
  "holderView cs secret k n hs =
     (case ShamirSplit (map Some cs) secret k n of
        Inl _ \<Rightarrow> None
      | Inr shares \<Rightarrow> Some (map (\<lambda>h. shares ! h) hs))"

lemma holderView_shares:
  assumes "cs \<in> fieldLists (nat (k - 1))" "2 \<le> k" "k \<le> n" "n \<le> 255" "int (be_nat secret) < shamirPrime"
    and "\<forall>h\<in>set hs. h < nat n"
  shows "holderView cs secret k n hs = Some (map (\<lambda>h. shareAt (int (be_nat secret) # cs) (h + 1)) hs)"
proof -
  have "drawCoeffs (nat (k - 1)) (map Some cs) = Inr cs"
    using drawCoeffs_Some [of cs] assms(1) by (simp add: fieldLists_def)
  then have "ShamirSplit (map Some cs) secret k n =
      Inr (map (shareAt (int (be_nat secret) # cs)) [1..<nat n + 1])"
    unfolding ShamirSplit_Inr using assms(2-5) by blast
  then show ?thesis using assms(6) by (simp add: holderView_def del: upt_Suc)
qed

lemma holderView_fails:
  "\<not> (2 \<le> k \<and> k \<le> n \<and> n \<le> 255) \<Longrightarrow> holderView cs secret k n hs = None"
  by (auto simp: holderView_def ShamirSplit_def)

text \<open>Changing the secret and shifting the coefficients along gives the same shares.\<close>

lemma shifted_share:
  assumes "cs \<in> fieldLists m" "length ds = m"
    and "int (be_nat s) < shamirPrime" "int (be_nat s') < shamirPrime"
    and "shamirPrime dvd 1 + int x * pe ds (int x)"
  shows "shareAt (int (be_nat s') # addMod (int (be_nat s') - int (be_nat s)) ds cs) x =
    shareAt (int (be_nat s) # cs) x"
proof -
  define t where "t = int (be_nat s') - int (be_nat s)"
  have "pe (int (be_nat s') # addMod t ds cs) (int x) - pe (int (be_nat s) # cs) (int x) =
      t * (1 + int x * pe ds (int x)) + int x * (pe (addMod t ds cs) (int x) - (pe cs (int x) + t * pe ds (int x)))"
    by (simp add: t_def algebra_simps)
  moreover have "length cs = length ds" using assms(1,2) by (simp add: fieldLists_def)
  ultimately have "shamirPrime dvd pe (int (be_nat s') # addMod t ds cs) (int x) - pe (int (be_nat s) # cs) (int x)"
    by (simp only:) (rule dvd_add [OF dvd_mult [OF assms(5)] dvd_mult [OF pe_addMod]])
  then have "pe (int (be_nat s') # addMod t ds cs) (int x) mod shamirPrime = pe (int (be_nat s) # cs) (int x) mod shamirPrime"
    by (simp only: mod_eq_dvd_iff)
  moreover have "addMod t ds cs \<in> fieldLists m" using assms(1,2) by (rule addMod_field)
  ultimately have "horner (int x) (int (be_nat s') # addMod t ds cs) = horner (int x) (int (be_nat s) # cs)"
    using assms(1,3,4) by (subst (1 2) horner_mod) (auto simp: fieldLists_def)
  then show ?thesis by (simp only: shareAt_def t_def)
qed

lemma same_view_injection:
  assumes "int (be_nat s) < shamirPrime" "int (be_nat s') < shamirPrime"
    and "card (set hs) < nat k" "\<forall>h\<in>set hs. h < nat n"
  shows "card {cs \<in> fieldLists (nat (k - 1)). holderView cs s k n hs = v} \<le>
    card {cs \<in> fieldLists (nat (k - 1)). holderView cs s' k n hs = v}"
proof (cases "2 \<le> k \<and> k \<le> n \<and> n \<le> 255")
  case False
  then show ?thesis by (simp add: holderView_fails)
next
  case True
  define xs where "xs = map (\<lambda>h. int (h + 1)) (remdups hs)"
  define ds where "ds = tl (vanishing xs @ replicate (nat k - 1 - length xs) 0)"
  define t where "t = int (be_nat s') - int (be_nat s)"
  have lx: "length xs \<le> nat k - 1"
    using assms(3) by (simp add: xs_def length_remdups_card_conv)
  then have len: "length ds = nat (k - 1)"
    using True by (simp add: ds_def)
  obtain c0 cs0 where v: "vanishing xs = c0 # cs0" by (cases "vanishing xs") (auto dest: arg_cong [of _ _ length])
  have "c0 = 1" using pe_vanishing_0 [of xs] by (simp add: v)
  then have ds: "1 + x * pe ds x = pe (vanishing xs) x" for x
    by (simp add: ds_def v)
  have view: "shareAt (int (be_nat s') # addMod t ds cs) (h + 1) = shareAt (int (be_nat s) # cs) (h + 1)"
    if cs: "cs \<in> fieldLists (nat (k - 1))" and h: "h \<in> set hs" for cs h
  proof -
    have "int (h + 1) \<le> 255" using h assms(4) True by fastforce
    then have "shamirPrime dvd pe (vanishing xs) (int (h + 1))"
      using h by (intro pe_vanishing_root) (auto simp: xs_def)
    then show ?thesis
      unfolding t_def by (intro shifted_share [OF cs len assms(1,2)]) (simp only: ds)
  qed
  have "addMod t ds ` {cs \<in> fieldLists (nat (k - 1)). holderView cs s k n hs = v} \<subseteq>
      {cs \<in> fieldLists (nat (k - 1)). holderView cs s' k n hs = v}"
  proof (intro image_subsetI CollectI conjI)
    fix cs assume "cs \<in> {cs \<in> fieldLists (nat (k - 1)). holderView cs s k n hs = v}"
    then have cs: "cs \<in> fieldLists (nat (k - 1))" and cv: "holderView cs s k n hs = v" by simp_all
    show f: "addMod t ds cs \<in> fieldLists (nat (k - 1))" using cs len by (rule addMod_field)
    show "holderView (addMod t ds cs) s' k n hs = v"
      using cv view [OF cs] True assms by (simp add: holderView_shares cs f cong: map_cong)
  qed
  moreover have "inj_on (addMod t ds) {cs \<in> fieldLists (nat (k - 1)). holderView cs s k n hs = v}"
    using len by (auto intro!: inj_onI dest: addMod_inj)
  ultimately show ?thesis
    by (intro card_inj_on_le) (auto intro: finite_subset [OF _ finite_fieldLists])
qed

end
