(* ===== verification/Gcm.thy ===== *)
theory Gcm
  imports Prelude
begin

text \<open>
  AES-GCM as \<open>crypto/aes\<close> and \<open>crypto/cipher\<close> of Go's standard library provide it: the block cipher
  (FIPS 197) for the three key sizes and GCM (NIST SP 800-38D) with a 12-byte nonce, a 16-byte tag
  and no additional data. Opening is the exact inverse of sealing.
\<close>

unbundle bit_operations_syntax

section \<open>AES\<close>

definition sbox :: "byte list" where
  "sbox =
     [99, 124, 119, 123, 242, 107, 111, 197, 48, 1, 103, 43, 254, 215, 171, 118,
      202, 130, 201, 125, 250, 89, 71, 240, 173, 212, 162, 175, 156, 164, 114, 192,
      183, 253, 147, 38, 54, 63, 247, 204, 52, 165, 229, 241, 113, 216, 49, 21,
      4, 199, 35, 195, 24, 150, 5, 154, 7, 18, 128, 226, 235, 39, 178, 117,
      9, 131, 44, 26, 27, 110, 90, 160, 82, 59, 214, 179, 41, 227, 47, 132,
      83, 209, 0, 237, 32, 252, 177, 91, 106, 203, 190, 57, 74, 76, 88, 207,
      208, 239, 170, 251, 67, 77, 51, 133, 69, 249, 2, 127, 80, 60, 159, 168,
      81, 163, 64, 143, 146, 157, 56, 245, 188, 182, 218, 33, 16, 255, 243, 210,
      205, 12, 19, 236, 95, 151, 68, 23, 196, 167, 126, 61, 100, 93, 25, 115,
      96, 129, 79, 220, 34, 42, 144, 136, 70, 238, 184, 20, 222, 94, 11, 219,
      224, 50, 58, 10, 73, 6, 36, 92, 194, 211, 172, 98, 145, 149, 228, 121,
      231, 200, 55, 109, 141, 213, 78, 169, 108, 86, 244, 234, 101, 122, 174, 8,
      186, 120, 37, 46, 28, 166, 180, 198, 232, 221, 116, 31, 75, 189, 139, 138,
      112, 62, 181, 102, 72, 3, 246, 14, 97, 53, 87, 185, 134, 193, 29, 158,
      225, 248, 152, 17, 105, 217, 142, 148, 155, 30, 135, 233, 206, 85, 40, 223,
      140, 161, 137, 13, 191, 230, 66, 104, 65, 153, 45, 15, 176, 84, 187, 22]"

definition subByte :: "byte \<Rightarrow> byte" where
  "subByte b = sbox ! unat b"

definition xtime :: "byte \<Rightarrow> byte" where
  "xtime b = push_bit 1 b XOR (if bit b 7 then 0x1b else 0)"

definition xorBytes :: "bytes \<Rightarrow> bytes \<Rightarrow> bytes" where
  "xorBytes a b = map2 (XOR) a b"

text \<open>The key schedule; a word is a list of four bytes, \<open>rcon\<close> the next round constant.\<close>

fun expandKey :: "nat \<Rightarrow> nat \<Rightarrow> byte \<Rightarrow> bytes list \<Rightarrow> bytes list" where
  "expandKey nk 0 rcon ws = ws"
| "expandKey nk (Suc m) rcon ws =
     (let i = length ws; t = last ws; prev = ws ! (i - nk) in
      if i mod nk = 0 then
        expandKey nk m (xtime rcon)
          (ws @ [xorBytes prev (xorBytes (map subByte (rotate1 t)) [rcon, 0, 0, 0])])
      else if nk > 6 \<and> i mod nk = 4 then expandKey nk m rcon (ws @ [xorBytes prev (map subByte t)])
      else expandKey nk m rcon (ws @ [xorBytes prev t]))"

fun chunks :: "nat \<Rightarrow> nat \<Rightarrow> bytes \<Rightarrow> bytes list" where
  "chunks w 0 b = []"
| "chunks w (Suc m) b = take w b # chunks w m (drop w b)"

definition rounds :: "bytes \<Rightarrow> nat" where
  "rounds key = length key div 4 + 6"

definition roundKeys :: "bytes \<Rightarrow> bytes list" where
  "roundKeys key =
     (let nk = length key div 4; total = 4 * (rounds key + 1) in
      chunks 16 (rounds key + 1) (concat (expandKey nk (total - nk) 1 (chunks 4 nk key))))"

text \<open>The state is 16 bytes, column after column.\<close>

definition shiftRows :: "bytes \<Rightarrow> bytes" where
  "shiftRows s = map (\<lambda>j. s ! (j mod 4 + 4 * ((j div 4 + j mod 4) mod 4))) [0..<16]"

definition mixColumn :: "bytes \<Rightarrow> bytes" where
  "mixColumn c =
     map (\<lambda>r. let a = c ! r; b = c ! ((r + 1) mod 4) in
       xtime a XOR (xtime b XOR b) XOR c ! ((r + 2) mod 4) XOR c ! ((r + 3) mod 4)) [0..<4]"

definition mixColumns :: "bytes \<Rightarrow> bytes" where
  "mixColumns s = concat (map mixColumn (chunks 4 4 s))"

fun middleRounds :: "bytes list \<Rightarrow> bytes \<Rightarrow> bytes" where
  "middleRounds [] s = s"
| "middleRounds (k # ks) s = middleRounds ks (xorBytes (mixColumns (shiftRows (map subByte s))) k)"

definition aesEncrypt :: "bytes \<Rightarrow> bytes \<Rightarrow> bytes" where
  "aesEncrypt key block =
     (let ks = roundKeys key;
          s = middleRounds (butlast (tl ks)) (xorBytes block (hd ks)) in
      xorBytes (shiftRows (map subByte s)) (last ks))"

section \<open>GCM\<close>

type_synonym u128 = "128 word"

text \<open>Multiplication in GF(2^128), the bits in reflected order: bit 0 of the field element is the most
  significant bit of the word.\<close>

fun ghashMul :: "nat \<Rightarrow> u128 \<Rightarrow> u128 \<Rightarrow> u128 \<Rightarrow> u128" where
  "ghashMul 0 x v z = z"
| "ghashMul (Suc m) x v z =
     ghashMul m x (drop_bit 1 v XOR (if bit v 0 then push_bit 120 0xe1 else 0)) (if bit x m then z XOR v else z)"

definition gmul :: "u128 \<Rightarrow> u128 \<Rightarrow> u128" where
  "gmul x y = ghashMul 128 x y 0"

text \<open>GHASH of the ciphertext, padded with zeros to whole blocks, and of the length block.\<close>

definition pad16 :: "bytes \<Rightarrow> bytes" where
  "pad16 b = b @ replicate ((16 - length b mod 16) mod 16) 0"

definition ghash :: "u128 \<Rightarrow> bytes \<Rightarrow> u128" where
  "ghash h c =
     (let b = pad16 c @ be_bytes 8 0 @ be_bytes 8 (8 * length c) in
      foldl (\<lambda>y blk. gmul (y XOR word_of_nat (be_nat blk)) h) 0 (chunks 16 (length b div 16) b))"

definition gcmTag :: "bytes \<Rightarrow> bytes \<Rightarrow> bytes \<Rightarrow> bytes" where
  "gcmTag key nonce c =
     (let h = word_of_nat (be_nat (aesEncrypt key (replicate 16 0))) in
      be_bytes 16 (unat (ghash h c XOR word_of_nat (be_nat (aesEncrypt key (nonce @ be_bytes 4 1))))))"

text \<open>Counter mode from the given counter on; the 32-bit counter wraps.\<close>

function ctr :: "bytes \<Rightarrow> bytes \<Rightarrow> nat \<Rightarrow> bytes \<Rightarrow> bytes" where
  "ctr key nonce i b =
     (if b = [] then []
      else let ks = aesEncrypt key (nonce @ be_bytes 4 (i mod 2 ^ 32)); blk = take 16 b in
        map (\<lambda>j. blk ! j XOR ks ! j) [0..<length blk] @ ctr key nonce (i + 1) (drop 16 b))"
  by pat_completeness auto
termination
  by (relation "measure (\<lambda>(_, _, _, b). length b)") auto

declare ctr.simps [simp del]

definition gcmSeal :: "bytes \<Rightarrow> bytes \<Rightarrow> bytes \<Rightarrow> bytes" where
  "gcmSeal key nonce plaintext =
     (let c = ctr key nonce 2 plaintext in c @ gcmTag key nonce c)"

definition gcmOpen :: "bytes \<Rightarrow> bytes \<Rightarrow> bytes \<Rightarrow> bytes option" where
  "gcmOpen key nonce sealed =
     (if length sealed < 16 then None
      else let c = take (length sealed - 16) sealed; tag = drop (length sealed - 16) sealed in
        if tag = gcmTag key nonce c then Some (ctr key nonce 2 c) else None)"

text \<open>The longest message: \<open>Seal\<close> panics and \<open>Open\<close> fails above it.\<close>

definition gcmLimit :: nat where
  "gcmLimit = (2 ^ 32 - 2) * 16"

section \<open>Opening inverts sealing\<close>

lemma length_ctr [simp]: "length (ctr key nonce i b) = length b"
  by (induction key nonce i b rule: ctr.induct) (subst ctr.simps, simp add: Let_def min_def)

lemma ctr_ctr [simp]: "ctr key nonce i (ctr key nonce i b) = b"
proof (induction key nonce i b rule: ctr.induct)
  case (1 key nonce i b)
  show ?case
  proof (cases "b = []")
    case True
    then show ?thesis by (simp add: ctr.simps)
  next
    case False
    let ?ks = "aesEncrypt key (nonce @ be_bytes 4 (i mod 2 ^ 32))"
    let ?x = "map (\<lambda>j. take 16 b ! j XOR ?ks ! j) [0..<length (take 16 b)]"
    have c: "ctr key nonce i b = ?x @ ctr key nonce (i + 1) (drop 16 b)"
      using False by (subst ctr.simps) (simp add: Let_def)
    have ne: "ctr key nonce i b \<noteq> []"
      using False length_ctr [of key nonce i b] by (metis length_0_conv)
    have parts: "take 16 (ctr key nonce i b) = ?x"
      "drop 16 (ctr key nonce i b) = ctr key nonce (i + 1) (drop 16 b)"
      unfolding c by (cases "length b \<le> 16"; simp add: min_def ctr.simps)+
    have "map (\<lambda>j. ?x ! j XOR ?ks ! j) [0..<length ?x] = take 16 b"
      by (rule nth_equalityI) (simp_all add: xor.assoc)
    then show ?thesis
      using ne 1 [OF False refl refl] by (subst ctr.simps) (simp add: Let_def parts)
  qed
qed

lemma length_gcmTag [simp]: "length (gcmTag key nonce c) = 16"
  by (simp add: gcmTag_def Let_def)

lemma gcmOpen_iff: "gcmOpen key nonce sealed = Some p \<longleftrightarrow> sealed = gcmSeal key nonce p"
proof
  assume "gcmOpen key nonce sealed = Some p"
  then have l: "16 \<le> length sealed" and t: "drop (length sealed - 16) sealed =
      gcmTag key nonce (take (length sealed - 16) sealed)"
    and p: "p = ctr key nonce 2 (take (length sealed - 16) sealed)"
    by (auto simp: gcmOpen_def Let_def split: if_splits)
  have "sealed = take (length sealed - 16) sealed @ drop (length sealed - 16) sealed" by simp
  then show "sealed = gcmSeal key nonce p"
    by (simp add: gcmSeal_def p t Let_def)
next
  assume s: "sealed = gcmSeal key nonce p"
  then show "gcmOpen key nonce sealed = Some p"
    by (simp add: gcmOpen_def gcmSeal_def Let_def)
qed

end
