(* ===== verification/Threshold.thy ===== *)
theory Threshold
  imports Shamir Gcm Signature Merkle_Proofs
begin

text \<open>
  Threshold reveal and window disclosure (threshold.go): \<open>SealStream\<close> and \<open>OpenStream\<close>, the sealed
  artifact whose key is split among holders, and the disclosure of one logged window. Random bytes
  are arguments, None where \<open>rand.Read\<close> fails.
\<close>

section \<open>Sealing a stream\<close>

datatype stream_error = KeySize nat | NoRandom | ShorterThanNonce | AuthFailed | MessageTooLarge

definition aesKeySize :: "bytes \<Rightarrow> bool" where
  "aesKeySize key \<longleftrightarrow> length key = 16 \<or> length key = 24 \<or> length key = 32"

text \<open>\<open>MessageTooLarge\<close> is a panic of \<open>Seal\<close>.\<close>

definition SealStream :: "bytes option \<Rightarrow> bytes \<Rightarrow> bytes \<Rightarrow> stream_error + bytes" where
  "SealStream nonce plaintext key =
     (if \<not> aesKeySize key then Inl (KeySize (length key))
      else case nonce of
        None \<Rightarrow> Inl NoRandom
      | Some n \<Rightarrow>
          if length plaintext > gcmLimit then Inl MessageTooLarge
          else Inr (n @ gcmSeal key n plaintext))"

definition OpenStream :: "bytes \<Rightarrow> bytes \<Rightarrow> stream_error + bytes" where
  "OpenStream ciphertext key =
     (if \<not> aesKeySize key then Inl (KeySize (length key))
      else if length ciphertext < 12 then Inl ShorterThanNonce
      else
        let nonce = take 12 ciphertext; ct = drop 12 ciphertext in
        if length ct > gcmLimit + 16 then Inl AuthFailed
        else case gcmOpen key nonce ct of None \<Rightarrow> Inl AuthFailed | Some p \<Rightarrow> Inr p)"

section \<open>Threshold reveal\<close>

record SealedReveal =
  Ciphertext :: bytes
  Shares :: "Share list"
  SealedK :: int
  SealedN :: int

datatype threshold_error =
    KeyRandom
  | Stream stream_error
  | Splitting shamir_error
  | NeedShares int nat
  | Combining shamir_error
  | KeyTooLong

definition ThresholdSeal ::
    "bytes option \<Rightarrow> bytes option \<Rightarrow> int option list \<Rightarrow> bytes \<Rightarrow> int \<Rightarrow> int \<Rightarrow> threshold_error + SealedReveal" where
  "ThresholdSeal keyRand nonce rs plaintext k n =
     (case keyRand of
        None \<Rightarrow> Inl KeyRandom
      | Some key \<Rightarrow>
          bindE (wrapE Stream (SealStream nonce plaintext key)) (\<lambda>ct.
          bindE (wrapE Splitting (ShamirSplit rs key k n)) (\<lambda>shares.
          Inr \<lparr> Ciphertext = ct, Shares = shares, SealedK = k, SealedN = n \<rparr>)))"

definition ThresholdOpen :: "SealedReveal \<Rightarrow> Share list \<Rightarrow> threshold_error + bytes" where
  "ThresholdOpen sr shares =
     (if int (length shares) < SealedK sr then Inl (NeedShares (SealedK sr) (length shares))
      else
        bindE (wrapE Combining (ShamirCombine shares)) (\<lambda>keyBytes.
        if length keyBytes > 32 then Inl KeyTooLong
        else
          let key = replicate (32 - length keyBytes) 0 @ keyBytes in
          wrapE Stream (OpenStream (Ciphertext sr) key)))"

section \<open>Window disclosure\<close>

record WindowDisclosure =
  WDIndex :: int
  WDSize :: int
  WDEntry :: bytes
  WDProof :: "bytes list"

definition DiscloseWindow :: "MerkleLog \<Rightarrow> int \<Rightarrow> merkle_error + WindowDisclosure" where
  "DiscloseWindow l index =
     bindE (InclusionProof l index) (\<lambda>ps.
     Inr \<lparr> WDIndex = index, WDSize = int (length (Leaves l)), WDEntry = Leaves l ! nat index, WDProof = ps \<rparr>)"

text \<open>None is the nil pointer.\<close>

definition VerifyWindowDisclosure :: "WindowDisclosure option \<Rightarrow> bytes \<Rightarrow> bool" where
  "VerifyWindowDisclosure d rt =
     (case d of
        None \<Rightarrow> False
      | Some d \<Rightarrow> VerifyInclusion (WDEntry d) (WDIndex d) (WDSize d) (WDProof d) rt)"

section \<open>Opening what was sealed\<close>

lemma SealStream_Inr:
  "SealStream (Some n) p key = Inr ct \<longleftrightarrow>
     aesKeySize key \<and> length p \<le> gcmLimit \<and> ct = n @ gcmSeal key n p"
  by (auto simp: SealStream_def)

lemma length_gcmSeal [simp]: "length (gcmSeal key n p) = length p + 16"
  by (simp add: gcmSeal_def Let_def)

lemma OpenStream_Inr:
  "OpenStream ct key = Inr p \<longleftrightarrow>
     (\<exists>n. length n = 12 \<and> SealStream (Some n) p key = Inr ct)" (is "?L \<longleftrightarrow> ?R")
proof
  assume ?L
  then have "aesKeySize key" "12 \<le> length ct" "length (drop 12 ct) \<le> gcmLimit + 16"
      "drop 12 ct = gcmSeal key (take 12 ct) p"
    by (auto simp: OpenStream_def Let_def gcmOpen_iff split: if_splits option.splits)
  then show ?R
    unfolding SealStream_Inr
    by (intro exI [of _ "take 12 ct"]) (metis add_le_cancel_right append_take_drop_id length_gcmSeal length_take min_absorb2)
next
  assume ?R
  then obtain n where "length n = 12" "aesKeySize key" "length p \<le> gcmLimit" "ct = n @ gcmSeal key n p"
    unfolding SealStream_Inr by blast
  moreover have "gcmOpen key n (gcmSeal key n p) = Some p" by (simp add: gcmOpen_iff)
  ultimately show ?L by (simp add: OpenStream_def)
qed

lemma padded_key:
  assumes "length key = 32"
  shows "length (min_bytes (be_nat key)) \<le> 32"
    "replicate (32 - length (min_bytes (be_nat key))) 0 @ min_bytes (be_nat key) = key"
proof -
  have "be_nat key < 256 ^ 32" using be_nat_less [of key] assms by simp
  then show l: "length (min_bytes (be_nat key)) \<le> 32" by (rule length_min_bytes)
  show "replicate (32 - length (min_bytes (be_nat key))) 0 @ min_bytes (be_nat key) = key"
    using l assms by (subst be_nat_eq_iff [symmetric]) (simp_all add: be_nat_replicate_0)
qed

lemma threshold_open:
  assumes "ThresholdSeal (Some key) (Some nonce) rs plaintext k n = Inr sr"
    and "length key = 32" "length nonce = 12" "inField rs"
    and "set picked \<subseteq> set (Shares sr)" "distinct picked"
  shows "ThresholdOpen sr picked =
    (if int (length picked) < k then Inl (NeedShares k (length picked)) else Inr plaintext)"
proof -
  from assms(1) obtain ct shares where s: "SealStream (Some nonce) plaintext key = Inr ct"
      "ShamirSplit rs key k n = Inr shares" "sr = \<lparr> Ciphertext = ct, Shares = shares, SealedK = k, SealedN = n \<rparr>"
    by (auto simp: ThresholdSeal_def bindE_Inr_iff)
  have "OpenStream ct key = Inr plaintext"
    unfolding OpenStream_Inr using assms(3) s(1) by blast
  moreover have "ShamirCombine picked = Inr (min_bytes (be_nat key))" if "\<not> int (length picked) < k"
    using that assms(5,6) s(3) by (intro shamir_reconstruct [OF s(2) assms(4)]) simp_all
  ultimately show ?thesis
    using padded_key [OF assms(2)] by (simp add: ThresholdOpen_def s(3) Let_def)
qed

section \<open>Properties\<close>

text \<open>A ciphertext opens to a plaintext under a key exactly when it is what sealing that plaintext
  under that key gives for some 12-byte nonce; everything else is refused.\<close>

theorem OpenStream_inverts_SealStream:
  "OpenStream ct key = Inr p \<longleftrightarrow> (\<exists>n. length n = 12 \<and> SealStream (Some n) p key = Inr ct)"
  by (rule OpenStream_Inr)

text \<open>Threshold reveal: any selection of different shares of a sealed artifact opens it if it has at
  least k of them, whatever the random choices, and is refused if it has fewer.\<close>

theorem threshold_reveal:
  assumes "ThresholdSeal (Some key) (Some nonce) rs plaintext k n = Inr sr"
    and "length key = 32" "length nonce = 12" "inField rs"
    and "set picked \<subseteq> set (Shares sr)" "distinct picked"
  shows "ThresholdOpen sr picked =
    (if int (length picked) < k then Inl (NeedShares k (length picked)) else Inr plaintext)"
  by (rule threshold_open [OF assms])

text \<open>C32: Fewer than k holders learn nothing of the secret: for any two secrets of the field and any
  shares they may see, equally many choices of the random coefficients lead to that view.\<close>

theorem shamir_secrecy:
  assumes "int (be_nat secret) < shamirPrime" "int (be_nat secret') < shamirPrime"
    and "card (set hs) < nat k" "\<forall>h\<in>set hs. h < nat n"
  shows "card {cs \<in> fieldLists (nat (k - 1)). holderView cs secret k n hs = v} =
    card {cs \<in> fieldLists (nat (k - 1)). holderView cs secret' k n hs = v}"
  using same_view_injection [OF assms(1,2,3,4)] same_view_injection [OF assms(2,1,3,4)]
  by (rule antisym)

lemma shamir_secrecy_witness:
  "card {cs \<in> fieldLists (nat (2 - 1)). holderView cs [1] 2 3 [1] = holderView [5] [1] 2 3 [1]} =
   card {cs \<in> fieldLists (nat (2 - 1)). holderView cs [7] 2 3 [1] = holderView [5] [1] 2 3 [1]}"
  by (rule shamir_secrecy) (simp_all add: be_nat_def shamirPrime_def)

definition demoReveal :: "threshold_error + SealedReveal" where
  "demoReveal = ThresholdSeal (Some (replicate 32 0)) (Some (replicate 12 0)) [Some 5] [104, 105] 2 3"

text \<open>Two of the three holders open a sealed artifact.\<close>

lemma threshold_reveal_witness:
  "case demoReveal of
     Inl _ \<Rightarrow> False
   | Inr sr \<Rightarrow> ThresholdOpen sr [Shares sr ! 2, Shares sr ! 0] = Inr [104, 105] \<and>
       ThresholdOpen sr [Shares sr ! 2] = Inl (NeedShares 2 1)"
proof -
  have split: "ShamirSplit [Some 5] (replicate 32 0) 2 3 = Inr (map (shareAt [0, 5]) [1, 2, 3])"
    unfolding ShamirSplit_Inr
    by (simp add: be_nat_def shamirPrime_def numeral_eq_Suc)
  obtain sr where sr: "ThresholdSeal (Some (replicate 32 0)) (Some (replicate 12 0)) [Some 5] [104, 105] 2 3 = Inr sr"
      "Shares sr = map (shareAt [0, 5]) [1, 2, 3]"
    using split by (simp add: ThresholdSeal_def SealStream_def aesKeySize_def gcmLimit_def)
  have f: "inField [Some 5]" by (simp add: inField_def shamirPrime_def)
  have d: "set [Shares sr ! 2, Shares sr ! 0] \<subseteq> set (Shares sr)" "distinct [Shares sr ! 2, Shares sr ! 0]"
      "set [Shares sr ! 2] \<subseteq> set (Shares sr)" "distinct [Shares sr ! 2]"
    by (simp_all add: sr(2) shareAt_def)
  show ?thesis
    using threshold_reveal [OF sr(1) _ _ f d(1,2)] threshold_reveal [OF sr(1) _ _ f d(3,4)]
    by (simp add: demoReveal_def sr(1))
qed

text \<open>A window is disclosed exactly for the indexes the log has; the disclosure carries the logged
  window and verifies against the log's root.\<close>

theorem disclosed_window_verifies:
  "case DiscloseWindow l index of
     Inl e \<Rightarrow> e = IndexOutOfRange \<and> \<not> (0 \<le> index \<and> index < int (Size l))
   | Inr d \<Rightarrow> 0 \<le> index \<and> index < int (Size l) \<and> WDEntry d = Leaves l ! nat index \<and>
       VerifyWindowDisclosure (Some d) (Root l)"
proof (cases "InclusionProof l index")
  case (Inl e)
  then show ?thesis by (auto simp: DiscloseWindow_def InclusionProof_def Size_def split: if_splits)
next
  case (Inr ps)
  then have "0 \<le> index" "index < int (Size l)"
    by (auto simp: InclusionProof_def Size_def split: if_splits)
  with inclusion_complete [OF Inr] Inr show ?thesis
    by (simp add: DiscloseWindow_def VerifyWindowDisclosure_def Size_def)
qed

end
