(* ===== verification/Challenge.thy ===== *)
theory Challenge
  imports Bound "HOL-Library.AList"
begin

text \<open>
  The live challenge server (cmd/he-challenge/main.go). A session object is a cell of \<open>Heap\<close> and
  \<open>Sessions\<close>, the map of the source, refers to cells: an attestation in flight keeps its cell when
  the map drops the session. Each critical section under the mutex is one function; \<open>cstep\<close>
  interleaves the sections of concurrent requests. Time, randomness and the simulator's output are
  arguments.
\<close>

section \<open>State\<close>

definition maxSessions :: nat where
  "maxSessions = 10000"

record proofView =
  PVEvent :: string
  PVPresence :: u64
  PVVoiceActive :: bool
  PVFrames :: u64
  PVWindowMs :: u64
  PVCounter :: u64
  PVConfigHash :: string
  PVInputHash :: string
  PVPayload :: string
  PVSig :: string
  PVPubX :: string
  PVPubY :: string
  PVPinned :: bool

datatype attest_reason = Gate reason | ConcurrentReplay u64 u64

text \<open>The verdict is empty until the first attestation; the reason is then absent.\<close>

record session =
  SNonce :: bytes
  SCreatedAt :: int
  SLastCounter :: u64
  SVerdict :: string
  SEvent :: string
  SReason :: "attest_reason option"
  SProof :: "proofView option"

record server =
  Sessions :: "(string \<times> nat) list"
  Heap :: "session list"
  BaseURL :: string
  PinX :: "bytes option"
  PinY :: "bytes option"
  TTL :: int

section \<open>The critical sections\<close>

definition gcLocked :: "int \<Rightarrow> server \<Rightarrow> server" where
  "gcLocked now s =
     s\<lparr> Sessions := filter (\<lambda>(k, p). \<not> now - SCreatedAt (Heap s ! p) > TTL s) (Sessions s) \<rparr>"

datatype challenge_reply = RngFailure | TooManySessions | Challenged string string string

text \<open>\<open>nonce\<close> and \<open>sidRand\<close> are the 32 and the 8 random bytes, \<open>now\<close> and \<open>created\<close> the two readings of
  the clock.\<close>

definition handleChallenge :: "int \<Rightarrow> int \<Rightarrow> bytes option \<Rightarrow> bytes option \<Rightarrow> server \<Rightarrow> challenge_reply \<times> server" where
  "handleChallenge now created nonce sidRand s =
     (case nonce of
        None \<Rightarrow> (RngFailure, s)
      | Some n \<Rightarrow>
     (case sidRand of
        None \<Rightarrow> (RngFailure, s)
      | Some rb \<Rightarrow>
          let sid = hex_encode rb; s1 = gcLocked now s in
          if length (Sessions s1) \<ge> maxSessions then (TooManySessions, s1)
          else
            let cell = \<lparr> SNonce = n, SCreatedAt = created, SLastCounter = 0, SVerdict = [], SEvent = [],
                         SReason = None, SProof = None \<rparr>
            in (Challenged sid (hex_encode n) (BaseURL s @ ''/attest?session='' @ sid),
                s1\<lparr> Heap := Heap s1 @ [cell], Sessions := AList.update sid (length (Heap s1)) (Sessions s1) \<rparr>)))"

definition lookup :: "string \<Rightarrow> server \<Rightarrow> nat option" where
  "lookup sid s = map_of (Sessions s) sid"

definition snapshot :: "nat \<Rightarrow> server \<Rightarrow> u64" where
  "snapshot p s = SLastCounter (Heap s ! p)"

definition sessionOptions :: "server \<Rightarrow> session \<Rightarrow> u64 \<Rightarrow> Options" where
  "sessionOptions s sess snap =
     \<lparr> ExpectedNonce = SNonce sess, PinPubX = PinX s, PinPubY = PinY s, LastCounter = snap,
       ExpectedPrevDigest = None \<rparr>"

text \<open>The answer to the device: the verdict and reason, and on a PASS the predicate it shows.\<close>

record answer =
  AnsVerdict :: string
  AnsReason :: attest_reason
  AnsPred :: "Predicate option"

definition proofOf :: "server \<Rightarrow> Bundle \<Rightarrow> Predicate \<Rightarrow> proofView" where
  "proofOf s b p =
     \<lparr> PVEvent = EventName p, PVPresence = Presence p, PVVoiceActive = VoiceActive p, PVFrames = Frames p,
       PVWindowMs = WindowMs p, PVCounter = Counter p, PVConfigHash = hex_encode (ConfigHash p),
       PVInputHash = hex_encode (InputHash p), PVPayload = Payload b, PVSig = Sig b, PVPubX = PubX b,
       PVPubY = PubY b,
       PVPinned = (length (sliceOf (PinX s)) > 0 \<and> length (sliceOf (PinY s)) > 0) \<rparr>"

text \<open>The verification against the snapshot and the second critical section of \<open>verifyAndRecord\<close>.\<close>

definition recordVerdict :: "server \<Rightarrow> string \<Rightarrow> nat \<Rightarrow> Bundle \<Rightarrow> u64 \<Rightarrow> answer \<times> server" where
  "recordVerdict s sid p b snap =
     (let sess = Heap s ! p;
          res = VerifyBundle b (sessionOptions s sess snap);
          live = (lookup sid s \<noteq> None);
          pred = the (Pred res);
          stale = (live \<and> OK res \<and> Counter pred \<le> SLastCounter sess);
          ok = (OK res \<and> \<not> stale);
          why = (if stale then ConcurrentReplay (Counter pred) (SLastCounter sess) else Gate (Reason res));
          sess1 = (if live \<and> ok then sess\<lparr> SLastCounter := Counter pred \<rparr> else sess);
          verdict = (if ok then ''PASS'' else ''FAIL'');
          ev = (if ok then EventName pred else []);
          sess2 = (if live then sess1\<lparr> SVerdict := verdict, SEvent := ev, SReason := Some why,
                     SProof := (if ok then Some (proofOf s b pred) else None) \<rparr> else sess1)
      in (\<lparr> AnsVerdict = verdict, AnsReason = why, AnsPred = (if ok then Some pred else None) \<rparr>,
          s\<lparr> Heap := (Heap s)[p := sess2] \<rparr>))"

definition verifyAndRecord :: "server \<Rightarrow> string \<Rightarrow> nat \<Rightarrow> Bundle \<Rightarrow> answer \<times> server" where
  "verifyAndRecord s sid p b = recordVerdict s sid p b (snapshot p s)"

section \<open>The handlers\<close>

datatype attest_reply = UnknownSession | BadBundle | SimulatorFailed | BadSimOutput | Answered answer

text \<open>\<open>decode\<close> is \<open>json.Decoder.Decode\<close> of the body (at most a megabyte of it) into a bundle.\<close>

definition handleAttest :: "(bytes \<Rightarrow> Bundle option) \<Rightarrow> string \<Rightarrow> bytes \<Rightarrow> server \<Rightarrow> attest_reply \<times> server" where
  "handleAttest decode sid body s =
     (case lookup sid s of
        None \<Rightarrow> (UnknownSession, s)
      | Some p \<Rightarrow>
     (case decode body of
        None \<Rightarrow> (BadBundle, s)
      | Some b \<Rightarrow> let (a, s') = verifyAndRecord s sid p b in (Answered a, s')))"

text \<open>\<open>sim\<close> is the simulator: from the nonce and the counter to its output.\<close>

definition handleSimulate :: "(string \<Rightarrow> u64 \<Rightarrow> bytes option) \<Rightarrow> (bytes \<Rightarrow> Bundle option) \<Rightarrow> string \<Rightarrow> server \<Rightarrow>
    attest_reply \<times> server" where
  "handleSimulate sim decode sid s =
     (case lookup sid s of
        None \<Rightarrow> (UnknownSession, s)
      | Some p \<Rightarrow>
          let ctr = SLastCounter (Heap s ! p) + 1 in
     (case sim (hex_encode (SNonce (Heap s ! p))) ctr of
        None \<Rightarrow> (SimulatorFailed, s)
      | Some out \<Rightarrow>
     (case decode out of
        None \<Rightarrow> (BadSimOutput, s)
      | Some b \<Rightarrow> let (a, s') = verifyAndRecord s sid p b in (Answered a, s'))))"

datatype status_reply =
    StatusUnknown
  | StatusPending
  | StatusDone string string "attest_reason option" "proofView option"

definition handleStatus :: "string \<Rightarrow> server \<Rightarrow> status_reply" where
  "handleStatus sid s =
     (case lookup sid s of
        None \<Rightarrow> StatusUnknown
      | Some p \<Rightarrow>
          let sess = Heap s ! p in
          if SVerdict sess = [] then StatusPending
          else StatusDone (SVerdict sess) (SEvent sess) (SReason sess) (SProof sess))"

section \<open>Concurrent requests\<close>

text \<open>An attestation in flight: it has found its session cell, and then taken its snapshot.\<close>

record attest =
  ASid :: string
  APtr :: nat
  ABundle :: Bundle
  ASnap :: "u64 option"

text \<open>\<open>Answers\<close> is a ghost: for each answer its session cell, whether the session was still registered,
  the bundle and the answer.\<close>

record system =
  Srv :: server
  Flight :: "attest list"
  Answers :: "(nat \<times> bool \<times> Bundle \<times> answer) list"

datatype event =
    Challenge int int "bytes option" "bytes option"
  | LookUp string Bundle
  | Snap nat
  | Record nat

inductive cstep :: "system \<Rightarrow> event \<Rightarrow> system \<Rightarrow> bool" where
  challenge: "handleChallenge now created nonce sidRand (Srv s) = (r, srv) \<Longrightarrow>
     nonce = None \<or> length (the nonce) = 32 \<Longrightarrow> sidRand = None \<or> length (the sidRand) = 8 \<Longrightarrow>
     cstep s (Challenge now created nonce sidRand) (s\<lparr> Srv := srv \<rparr>)"
| look_up: "lookup sid (Srv s) = Some p \<Longrightarrow>
     cstep s (LookUp sid b) (s\<lparr> Flight := Flight s @ [\<lparr> ASid = sid, APtr = p, ABundle = b, ASnap = None \<rparr>] \<rparr>)"
| snap: "i < length (Flight s) \<Longrightarrow> a = Flight s ! i \<Longrightarrow> ASnap a = None \<Longrightarrow>
     cstep s (Snap i) (s\<lparr> Flight := (Flight s)[i := a\<lparr> ASnap := Some (snapshot (APtr a) (Srv s)) \<rparr>] \<rparr>)"
| finish: "i < length (Flight s) \<Longrightarrow> a = Flight s ! i \<Longrightarrow> ASnap a = Some c \<Longrightarrow>
     recordVerdict (Srv s) (ASid a) (APtr a) (ABundle a) c = (ans, srv) \<Longrightarrow>
     cstep s (Record i) (s\<lparr> Srv := srv, Flight := take i (Flight s) @ drop (Suc i) (Flight s),
       Answers := Answers s @ [(APtr a, lookup (ASid a) (Srv s) \<noteq> None, ABundle a, ans)] \<rparr>)"

inductive crun :: "system \<Rightarrow> event list \<Rightarrow> system \<Rightarrow> bool" where
  crun_nil: "crun s [] s"
| crun_snoc: "crun s es s' \<Longrightarrow> cstep s' e s'' \<Longrightarrow> crun s (es @ [e]) s''"

definition newServer :: "string \<Rightarrow> bytes option \<Rightarrow> bytes option \<Rightarrow> int \<Rightarrow> server" where
  "newServer base px py ttl = \<lparr> Sessions = [], Heap = [], BaseURL = base, PinX = px, PinY = py, TTL = ttl \<rparr>"

definition startOf :: "server \<Rightarrow> system" where
  "startOf srv = \<lparr> Srv = srv, Flight = [], Answers = [] \<rparr>"

section \<open>What one critical section does to its cell\<close>

text \<open>Bundle \<open>b\<close> carries the signed predicate \<open>pr\<close> for the nonce of cell \<open>q\<close>, under the server's pin.\<close>

definition acceptedBy :: "server \<Rightarrow> nat \<Rightarrow> Bundle \<Rightarrow> Predicate \<Rightarrow> bool" where
  "acceptedBy s q b pr \<longleftrightarrow> OK (VerifyBundle b (sessionOptions s (Heap s ! q) 0)) \<and>
     Pred (VerifyBundle b (sessionOptions s (Heap s ! q) 0)) = Some pr"

text \<open>The status a cell reports is its latest verdict, backed by an accepted bundle on a PASS.\<close>

definition backedCell :: "server \<Rightarrow> nat \<Rightarrow> bool" where
  "backedCell s q \<longleftrightarrow>
     (let c = Heap s ! q in
        (SVerdict c = [] \<and> SEvent c = [] \<and> SReason c = None \<and> SProof c = None) \<or>
        (SVerdict c = ''FAIL'' \<and> SEvent c = [] \<and> SReason c \<noteq> None \<and> SProof c = None) \<or>
        (\<exists>b pr. SVerdict c = ''PASS'' \<and> SReason c = Some (Gate Verified) \<and> SEvent c = EventName pr \<and>
           SProof c = Some (proofOf s b pr) \<and> acceptedBy s q b pr))"

lemma gatesAfterSig_snap:
  assumes "OK (gatesAfterSig payload (sessionOptions s c n))"
  obtains p where "gatesAfterSig payload (sessionOptions s c n) =
      \<lparr> Pred = Some p, OK = True, Reason = Verified, NextDigest = Some (sha256 payload) \<rparr>"
    "gatesAfterSig payload (sessionOptions s c 0) =
      \<lparr> Pred = Some p, OK = True, Reason = Verified, NextDigest = Some (sha256 payload) \<rparr>"
    "n < Counter p"
proof -
  from gatesAfterSig_result [OF assms] obtain p where p: "DecodePayload payload = Inr p"
      "gatesAfterSig payload (sessionOptions s c n) =
         \<lparr> Pred = Some p, OK = True, Reason = Verified, NextDigest = Some (sha256 payload) \<rparr>" by blast
  have fresh: "freshPredicate p (sessionOptions s c n)"
    using assms p(1) by (auto simp: gatesAfterSig_ok)
  then have gt: "n < Counter p" by (simp add: freshPredicate_def sessionOptions_def)
  then have "0 < Counter p" by (simp add: word_less_nat_alt)
  then have "freshPredicate p (sessionOptions s c 0)"
    using fresh by (auto simp: freshPredicate_def sessionOptions_def)
  then have ok: "OK (gatesAfterSig payload (sessionOptions s c 0))"
    using p(1) by (simp add: gatesAfterSig_ok)
  from gatesAfterSig_result [OF ok] p(1) have
    "gatesAfterSig payload (sessionOptions s c 0) =
      \<lparr> Pred = Some p, OK = True, Reason = Verified, NextDigest = Some (sha256 payload) \<rparr>" by auto
  from p(2) this gt show ?thesis by (rule that)
qed

lemma VerifyBundle_snap:
  assumes "OK (VerifyBundle b (sessionOptions s (Heap s ! q) n))"
  obtains p where "Pred (VerifyBundle b (sessionOptions s (Heap s ! q) n)) = Some p"
    "Reason (VerifyBundle b (sessionOptions s (Heap s ! q) n)) = Verified" "acceptedBy s q b p" "n < Counter p"
proof -
  let ?c = "Heap s ! q"
  from assms obtain payload sig px py where h: "hex_decode (Payload b) = Inr payload"
      "hex_decode (Sig b) = Inr sig" "hex_decode (PubX b) = Inr px" "hex_decode (PubY b) = Inr py"
      "keyPinned px py (sessionOptions s ?c n)" "deviceSigned px py payload sig"
    and ok: "OK (gatesAfterSig payload (sessionOptions s ?c n))"
    by (auto simp: VerifyBundle_ok)
  have pin: "keyPinned px py (sessionOptions s ?c 0)"
    using h(5) by (simp add: keyPinned_def sessionOptions_def)
  from ok obtain p where p: "gatesAfterSig payload (sessionOptions s ?c n) =
      \<lparr> Pred = Some p, OK = True, Reason = Verified, NextDigest = Some (sha256 payload) \<rparr>"
    "gatesAfterSig payload (sessionOptions s ?c 0) =
      \<lparr> Pred = Some p, OK = True, Reason = Verified, NextDigest = Some (sha256 payload) \<rparr>"
    "n < Counter p" by (rule gatesAfterSig_snap)
  show ?thesis
    by (rule that [of p])
      (use p VerifyBundle_run [OF h(1-6)] VerifyBundle_run [OF h(1-4) pin h(6)] in
        \<open>simp_all add: acceptedBy_def\<close>)
qed

text \<open>Servers that differ only in session bookkeeping accept the same bundles for a cell.\<close>

lemma acceptedBy_cong:
  "SNonce (Heap s' ! q) = SNonce (Heap s ! q) \<Longrightarrow> PinX s' = PinX s \<Longrightarrow> PinY s' = PinY s \<Longrightarrow>
   acceptedBy s' q b p = acceptedBy s q b p"
  by (simp add: acceptedBy_def sessionOptions_def)

lemma proofOf_cong: "PinX s' = PinX s \<Longrightarrow> PinY s' = PinY s \<Longrightarrow> proofOf s' b p = proofOf s b p"
  by (simp add: proofOf_def)

end
