(* ===== verification/Challenge_Runs.thy ===== *)
theory Challenge_Runs
  imports Challenge
begin

text \<open>
  Runs of the challenge server: the invariant every critical section keeps, and what it says of the
  answers given to devices and of the status page.
\<close>

section \<open>The record step\<close>

definition passed :: "answer \<Rightarrow> bool" where
  "passed a \<longleftrightarrow> AnsVerdict a = ''PASS''"

lemma recordVerdict_passed:
  assumes "recordVerdict s sid p b c = (ans, s')" and "passed ans"
  obtains pr where "AnsPred ans = Some pr" "acceptedBy s p b pr" "c < Counter pr"
    "lookup sid s \<noteq> None \<longrightarrow> SLastCounter (Heap s ! p) < Counter pr"
    "lookup sid s \<noteq> None \<longrightarrow> s' = s\<lparr> Heap := (Heap s)[p := (Heap s ! p)\<lparr> SLastCounter := Counter pr,
       SVerdict := ''PASS'', SEvent := EventName pr, SReason := Some (Gate Verified),
       SProof := Some (proofOf s b pr) \<rparr>] \<rparr>"
    "lookup sid s = None \<longrightarrow> s' = s"
proof -
  let ?res = "VerifyBundle b (sessionOptions s (Heap s ! p) c)"
  have ok: "OK ?res"
    using assms by (auto simp: recordVerdict_def Let_def passed_def split: if_splits)
  then obtain pr where pr: "Pred ?res = Some pr" "Reason ?res = Verified" "acceptedBy s p b pr" "c < Counter pr"
    by (rule VerifyBundle_snap)
  show ?thesis
    by (rule that [of pr])
      (use assms ok pr in \<open>auto simp: recordVerdict_def Let_def passed_def not_le split: if_splits\<close>)
qed

lemma recordVerdict_failed:
  assumes "recordVerdict s sid p b c = (ans, s')" and "\<not> passed ans"
  obtains why where "AnsVerdict ans = ''FAIL''" "AnsPred ans = None"
    "lookup sid s \<noteq> None \<longrightarrow> s' = s\<lparr> Heap := (Heap s)[p := (Heap s ! p)\<lparr>
       SVerdict := ''FAIL'', SEvent := [], SReason := Some why, SProof := None \<rparr>] \<rparr>"
    "lookup sid s = None \<longrightarrow> s' = s"
  by (rule that [of "AnsReason ans"])
    (use assms in \<open>auto simp: recordVerdict_def Let_def passed_def split: if_splits\<close>)

text \<open>The two ways to pass: the registered session advances, the expired one is left as it is.\<close>

lemma recordVerdict_live:
  assumes "VerifyBundle b (sessionOptions s (Heap s ! p) c) =
      \<lparr> Pred = Some pr, OK = True, Reason = Verified, NextDigest = d \<rparr>"
    and "lookup sid s \<noteq> None" and "SLastCounter (Heap s ! p) < Counter pr"
  shows "recordVerdict s sid p b c =
    (\<lparr> AnsVerdict = ''PASS'', AnsReason = Gate Verified, AnsPred = Some pr \<rparr>,
     s\<lparr> Heap := (Heap s)[p := (Heap s ! p)\<lparr> SLastCounter := Counter pr, SVerdict := ''PASS'',
       SEvent := EventName pr, SReason := Some (Gate Verified), SProof := Some (proofOf s b pr) \<rparr>] \<rparr>)"
  using assms by (simp add: recordVerdict_def Let_def)

lemma recordVerdict_expired:
  assumes "VerifyBundle b (sessionOptions s (Heap s ! p) c) =
      \<lparr> Pred = Some pr, OK = True, Reason = Verified, NextDigest = d \<rparr>"
    and "lookup sid s = None"
  shows "recordVerdict s sid p b c =
    (\<lparr> AnsVerdict = ''PASS'', AnsReason = Gate Verified, AnsPred = Some pr \<rparr>, s)"
  using assms by (simp add: recordVerdict_def Let_def)

section \<open>The invariant\<close>

text \<open>The counters of the PASS answers a session cell gave while it was registered, in order.\<close>

definition passes :: "nat \<Rightarrow> system \<Rightarrow> u64 list" where
  "passes q s = map (\<lambda>(q', l, b, a). Counter (the (AnsPred a)))
     (filter (\<lambda>(q', l, b, a). q' = q \<and> l \<and> passed a) (Answers s))"

definition cellSane :: "system \<Rightarrow> nat \<Rightarrow> bool" where
  "cellSane s q \<longleftrightarrow> backedCell (Srv s) q \<and> sorted_wrt (<) (0 # passes q s) \<and>
     SLastCounter (Heap (Srv s) ! q) = List.last (0 # passes q s)"

definition answerSane :: "server \<Rightarrow> nat \<times> bool \<times> Bundle \<times> answer \<Rightarrow> bool" where
  "answerSane srv = (\<lambda>(q, l, b, a). q < length (Heap srv) \<and>
     (passed a \<longrightarrow> (\<exists>pr. AnsPred a = Some pr \<and> acceptedBy srv q b pr)))"

definition tableSane :: "server \<Rightarrow> bool" where
  "tableSane srv \<longleftrightarrow> length (Sessions srv) \<le> maxSessions \<and> distinct (map fst (Sessions srv)) \<and>
     (\<forall>q\<in>snd ` set (Sessions srv). q < length (Heap srv))"

definition sane :: "system \<Rightarrow> bool" where
  "sane s \<longleftrightarrow> tableSane (Srv s) \<and> (\<forall>a\<in>set (Flight s). APtr a < length (Heap (Srv s))) \<and>
     (\<forall>x\<in>set (Answers s). answerSane (Srv s) x) \<and> (\<forall>q<length (Heap (Srv s)). cellSane s q)"

lemma sane_start: "sane (startOf (newServer base px py ttl))"
  by (simp add: sane_def startOf_def newServer_def tableSane_def)

subsection \<open>Minting a challenge\<close>

lemma length_alist_update: "length (AList.update k v al) \<le> Suc (length al)"
  by (induction al) auto

lemma snd_alist_update: "snd ` set (AList.update k v al) \<subseteq> insert v (snd ` set al)"
  by (induction al) auto

lemma tableSane_gc:
  assumes "tableSane s" shows "tableSane (gcLocked now s)"
proof -
  have "length (filter P (Sessions s)) \<le> maxSessions" for P
    using assms order.trans [OF length_filter_le] by (auto simp: tableSane_def)
  then show ?thesis
    using assms by (auto simp: tableSane_def gcLocked_def distinct_map_filter)
qed

lemma tableSane_insert:
  assumes "tableSane s" and "length (Sessions s) < maxSessions"
  shows "tableSane (s\<lparr> Heap := Heap s @ [c], Sessions := AList.update k (length (Heap s)) (Sessions s) \<rparr>)"
proof -
  have "length (AList.update k (length (Heap s)) (Sessions s)) \<le> maxSessions"
    using length_alist_update [of k "length (Heap s)" "Sessions s"] assms(2) by linarith
  moreover have "\<forall>q\<in>snd ` set (AList.update k (length (Heap s)) (Sessions s)). q < Suc (length (Heap s))"
  proof
    fix q assume "q \<in> snd ` set (AList.update k (length (Heap s)) (Sessions s))"
    then have "q = length (Heap s) \<or> q \<in> snd ` set (Sessions s)"
      using snd_alist_update [of k "length (Heap s)" "Sessions s"] by blast
    then show "q < Suc (length (Heap s))"
      using assms(1) unfolding tableSane_def by (meson less_Suc_eq)
  qed
  ultimately show ?thesis
    using assms(1) by (simp add: tableSane_def distinct_update)
qed

lemma gcLocked_fields [simp]: "Heap (gcLocked now s) = Heap s" "PinX (gcLocked now s) = PinX s"
    "PinY (gcLocked now s) = PinY s" "BaseURL (gcLocked now s) = BaseURL s" "TTL (gcLocked now s) = TTL s"
  by (simp_all add: gcLocked_def)

text \<open>The challenge handler mints at most one cell, at the end of the heap.\<close>

lemma handleChallenge_table:
  assumes "handleChallenge now created nonce sidRand s = (r, s')" and "tableSane s"
  shows "tableSane s'" and "PinX s' = PinX s" and "PinY s' = PinY s"
    and "Heap s' = Heap s \<or> (\<exists>n. Heap s' = Heap s @ [\<lparr> SNonce = n, SCreatedAt = created, SLastCounter = 0,
           SVerdict = [], SEvent = [], SReason = None, SProof = None \<rparr>])"
proof -
  have "tableSane (gcLocked now s)" using assms(2) by (rule tableSane_gc)
  then show "tableSane s'"
    using assms tableSane_insert [of "gcLocked now s"]
    by (auto simp: handleChallenge_def Let_def not_le split: option.splits if_splits)
  show "PinX s' = PinX s" "PinY s' = PinY s"
    using assms(1) by (auto simp: handleChallenge_def Let_def split: option.splits if_splits)
  show "Heap s' = Heap s \<or> (\<exists>n. Heap s' = Heap s @ [\<lparr> SNonce = n, SCreatedAt = created, SLastCounter = 0,
           SVerdict = [], SEvent = [], SReason = None, SProof = None \<rparr>])"
    using assms(1) by (auto simp: handleChallenge_def Let_def split: option.splits if_splits)
qed

subsection \<open>Every step keeps the invariant\<close>

lemma backedCell_cong:
  assumes "Heap s' ! q = Heap s ! q" "PinX s' = PinX s" "PinY s' = PinY s"
  shows "backedCell s' q = backedCell s q"
  using assms by (simp add: backedCell_def acceptedBy_def sessionOptions_def proofOf_def)

lemma answerSane_cong:
  assumes "answerSane s x" "length (Heap s) \<le> length (Heap s')" "PinX s' = PinX s" "PinY s' = PinY s"
    and "\<And>q. q < length (Heap s) \<Longrightarrow> SNonce (Heap s' ! q) = SNonce (Heap s ! q)"
  shows "answerSane s' x"
  using assms by (auto simp: answerSane_def acceptedBy_def sessionOptions_def split: prod.splits)

lemma passes_snoc: "passes q (s\<lparr> Srv := srv, Flight := fl, Answers := Answers s @ [(p, l, b, a)] \<rparr>) =
    passes q s @ (if p = q \<and> l \<and> passed a then [Counter (the (AnsPred a))] else [])"
  by (simp add: passes_def)

lemma passes_other [simp]: "passes q (s\<lparr> Srv := srv \<rparr>) = passes q s"
    "passes q (s\<lparr> Flight := fl \<rparr>) = passes q s"
  by (simp_all add: passes_def)

lemma sane_flight:
  assumes "sane s" "\<forall>a\<in>set fl. APtr a < length (Heap (Srv s))"
  shows "sane (s\<lparr> Flight := fl \<rparr>)"
  using assms by (simp add: sane_def cellSane_def)

lemma sane_challenge:
  assumes s: "sane s" and h: "handleChallenge now created nonce sidRand (Srv s) = (r, srv)"
  shows "sane (s\<lparr> Srv := srv \<rparr>)"
proof -
  note h' = handleChallenge_table [OF h]
  have t: "tableSane (Srv s)" using s by (simp add: sane_def)
  have old: "Heap srv ! q = Heap (Srv s) ! q" "length (Heap (Srv s)) \<le> length (Heap srv)"
    if "q < length (Heap (Srv s))" for q
    using h'(4) [OF t] that by (auto simp: nth_append)
  have len: "length (Heap (Srv s)) \<le> length (Heap srv)" using h'(4) [OF t] by auto
  have ans: "\<forall>x\<in>set (Answers s). answerSane srv x"
  proof
    fix x assume "x \<in> set (Answers s)"
    then have "answerSane (Srv s) x" using s by (simp add: sane_def)
    then show "answerSane srv x"
      by (rule answerSane_cong) (use len h'(2,3) [OF t] old in auto)
  qed
  have new: "passes (length (Heap (Srv s))) s = []"
    using s by (auto simp: passes_def sane_def answerSane_def filter_empty_conv)
  have "cellSane (s\<lparr> Srv := srv \<rparr>) q" if q: "q < length (Heap srv)" for q
  proof (cases "q < length (Heap (Srv s))")
    case True
    then have "cellSane s q" using s by (simp add: sane_def)
    then show ?thesis
      using old [OF True] backedCell_cong [of srv q "Srv s"] h'(2,3) [OF t] by (simp add: cellSane_def)
  next
    case False
    then have "q = length (Heap (Srv s))" and "SVerdict (Heap srv ! q) = []" "SEvent (Heap srv ! q) = []"
        "SReason (Heap srv ! q) = None" "SProof (Heap srv ! q) = None" "SLastCounter (Heap srv ! q) = 0"
      using h'(4) [OF t] q by (auto simp: nth_append)
    then show ?thesis using new by (simp add: cellSane_def backedCell_def)
  qed
  then show ?thesis
    using s h'(1) [OF t] ans len by (auto simp: sane_def intro: less_le_trans)
qed

text \<open>The record step replaces one cell, and appends one answer.\<close>

lemma sane_update:
  assumes s: "sane s" and p: "p < length (Heap (Srv s))" and n: "SNonce cell = SNonce (Heap (Srv s) ! p)"
    and srv: "srv = Srv s\<lparr> Heap := (Heap (Srv s))[p := cell] \<rparr>"
    and s': "s' = s\<lparr> Srv := srv, Flight := fl, Answers := Answers s @ [(p, l, b, a)] \<rparr>"
    and fl: "\<forall>x\<in>set fl. APtr x < length (Heap (Srv s))"
    and ans: "answerSane (Srv s) (p, l, b, a)" and cell: "cellSane s' p"
  shows "sane s'"
proof -
  have nonces: "SNonce (Heap srv ! q) = SNonce (Heap (Srv s) ! q)" for q
    using n p by (simp add: srv nth_list_update)
  have "\<forall>x\<in>set (Answers s'). answerSane srv x"
  proof
    fix x assume "x \<in> set (Answers s')"
    then have "answerSane (Srv s) x" using s ans by (auto simp: s' sane_def)
    then show "answerSane srv x" by (rule answerSane_cong) (simp_all add: nonces, simp_all add: srv)
  qed
  moreover have "cellSane s' q" if "q < length (Heap srv)" for q
  proof (cases "q = p")
    case False
    then have "Heap srv ! q = Heap (Srv s) ! q" by (simp add: srv)
    moreover have "cellSane s q" using s that by (simp add: sane_def srv)
    ultimately show ?thesis
      using False backedCell_cong [of srv q "Srv s"] by (simp add: cellSane_def s' passes_snoc srv)
  qed (simp add: cell)
  ultimately show ?thesis using s fl by (simp add: sane_def s' srv tableSane_def)
qed

lemma sorted_snoc_last: "sorted_wrt (<) (x # xs) \<Longrightarrow> List.last (x # xs) < (c :: u64) \<Longrightarrow> sorted_wrt (<) (x # xs @ [c])"
proof (induction xs arbitrary: x)
  case (Cons y ys)
  then have "x < y" "sorted_wrt (<) (y # ys @ [c])" by auto
  then show ?case by auto
qed simp

lemma backed_pass:
  "SVerdict (Heap s ! q) = ''PASS'' \<Longrightarrow> SReason (Heap s ! q) = Some (Gate Verified) \<Longrightarrow>
   SEvent (Heap s ! q) = EventName pr \<Longrightarrow> SProof (Heap s ! q) = Some (proofOf s b pr) \<Longrightarrow>
   acceptedBy s q b pr \<Longrightarrow> backedCell s q"
  unfolding backedCell_def Let_def by blast

text \<open>The three ways a verdict is recorded: the session has expired, it fails, or it passes and advances.\<close>

lemma sane_expired:
  assumes s: "sane s" and p: "p < length (Heap (Srv s))"
    and s': "s' = s\<lparr> Srv := Srv s, Flight := fl, Answers := Answers s @ [(p, False, b, a)] \<rparr>"
    and fl: "\<forall>x\<in>set fl. APtr x < length (Heap (Srv s))" and ans: "answerSane (Srv s) (p, False, b, a)"
  shows "sane s'"
proof -
  have "passes p s' = passes p s" unfolding s' passes_snoc by simp
  moreover have "cellSane s p" using s p by (simp add: sane_def)
  ultimately have "cellSane s' p" by (simp add: cellSane_def s')
  then show ?thesis by (rule sane_update [OF s p refl _ s' fl ans, rotated]) simp
qed

lemma sane_failed:
  assumes s: "sane s" and p: "p < length (Heap (Srv s))"
    and srv: "srv = Srv s\<lparr> Heap := (Heap (Srv s))[p := (Heap (Srv s) ! p)\<lparr>
       SVerdict := ''FAIL'', SEvent := [], SReason := Some why, SProof := None \<rparr>] \<rparr>"
    and s': "s' = s\<lparr> Srv := srv, Flight := fl, Answers := Answers s @ [(p, l, b, a)] \<rparr>"
    and fl: "\<forall>x\<in>set fl. APtr x < length (Heap (Srv s))" and a: "\<not> passed a"
  shows "sane s'"
proof -
  have "answerSane (Srv s) (p, l, b, a)" using p a by (simp add: answerSane_def)
  moreover have "cellSane s' p"
    using s a p by (auto simp: sane_def cellSane_def s' passes_snoc backedCell_def srv)
  ultimately show ?thesis by (intro sane_update [OF s p _ srv s' fl]) simp_all
qed

lemma sane_passed:
  assumes s: "sane s" and p: "p < length (Heap (Srv s))"
    and a: "passed a" "AnsPred a = Some pr" "acceptedBy (Srv s) p b pr" "SLastCounter (Heap (Srv s) ! p) < Counter pr"
    and srv: "srv = Srv s\<lparr> Heap := (Heap (Srv s))[p := (Heap (Srv s) ! p)\<lparr> SLastCounter := Counter pr,
       SVerdict := ''PASS'', SEvent := EventName pr, SReason := Some (Gate Verified),
       SProof := Some (proofOf (Srv s) b pr) \<rparr>] \<rparr>"
    and s': "s' = s\<lparr> Srv := srv, Flight := fl, Answers := Answers s @ [(p, True, b, a)] \<rparr>"
    and fl: "\<forall>x\<in>set fl. APtr x < length (Heap (Srv s))"
  shows "sane s'"
proof -
  have cong: "acceptedBy srv p b pr = acceptedBy (Srv s) p b pr" "proofOf srv b pr = proofOf (Srv s) b pr"
    using p by (simp_all add: srv acceptedBy_def sessionOptions_def proofOf_def)
  have "sorted_wrt (<) (0 # passes p s @ [Counter pr])"
    using s p a(4) by (intro sorted_snoc_last) (simp_all add: sane_def cellSane_def)
  moreover have "backedCell srv p"
    by (rule backed_pass [where b = b and pr = pr]) (use a(3) p cong in \<open>simp_all add: srv\<close>)
  ultimately have "cellSane s' p"
    using a(1,2) p by (simp add: cellSane_def s' passes_snoc srv)
  moreover have "answerSane (Srv s) (p, True, b, a)" using p a(2,3) by (simp add: answerSane_def)
  ultimately show ?thesis by (intro sane_update [OF s p _ srv s' fl]) simp_all
qed

lemma sane_record:
  assumes s: "sane s" and i: "i < length (Flight s)" "at = Flight s ! i"
    and r: "recordVerdict (Srv s) (ASid at) (APtr at) (ABundle at) c = (ans, srv)"
    and s': "s' = s\<lparr> Srv := srv, Flight := take i (Flight s) @ drop (Suc i) (Flight s),
      Answers := Answers s @ [(APtr at, lookup (ASid at) (Srv s) \<noteq> None, ABundle at, ans)] \<rparr>"
  shows "sane s'"
proof -
  have p: "APtr at < length (Heap (Srv s))" using s i by (simp add: sane_def)
  have fl: "\<forall>x\<in>set (take i (Flight s) @ drop (Suc i) (Flight s)). APtr x < length (Heap (Srv s))"
    using s by (auto simp: sane_def dest: in_set_takeD in_set_dropD)
  show ?thesis
  proof (cases "passed ans")
    case True
    from recordVerdict_passed [OF r True] obtain pr where pr: "AnsPred ans = Some pr"
        "acceptedBy (Srv s) (APtr at) (ABundle at) pr" and "c < Counter pr"
      and rec: "lookup (ASid at) (Srv s) \<noteq> None \<longrightarrow> SLastCounter (Heap (Srv s) ! APtr at) < Counter pr"
        "lookup (ASid at) (Srv s) \<noteq> None \<longrightarrow> srv = Srv s\<lparr> Heap := (Heap (Srv s))[APtr at := (Heap (Srv s) ! APtr at)\<lparr>
           SLastCounter := Counter pr, SVerdict := ''PASS'', SEvent := EventName pr, SReason := Some (Gate Verified),
           SProof := Some (proofOf (Srv s) (ABundle at) pr) \<rparr>] \<rparr>"
        "lookup (ASid at) (Srv s) = None \<longrightarrow> srv = Srv s" .
    show ?thesis
    proof (cases "lookup (ASid at) (Srv s) = None")
      case False
      with s' have "s' = s\<lparr> Srv := srv, Flight := take i (Flight s) @ drop (Suc i) (Flight s),
          Answers := Answers s @ [(APtr at, True, ABundle at, ans)] \<rparr>" by simp
      from sane_passed [OF s p True pr(1,2) _ _ this fl] rec(1,2) False show ?thesis by blast
    next
      case none: True
      have "answerSane (Srv s) (APtr at, False, ABundle at, ans)" using p pr(1,2) by (simp add: answerSane_def)
      from sane_expired [OF s p _ fl this] s' rec(3) none show ?thesis by simp
    qed
  next
    case False
    from recordVerdict_failed [OF r False] obtain why where "AnsVerdict ans = ''FAIL''" "AnsPred ans = None"
      and w: "lookup (ASid at) (Srv s) \<noteq> None \<longrightarrow> srv = Srv s\<lparr> Heap := (Heap (Srv s))[APtr at := (Heap (Srv s) ! APtr at)\<lparr>
           SVerdict := ''FAIL'', SEvent := [], SReason := Some why, SProof := None \<rparr>] \<rparr>"
        "lookup (ASid at) (Srv s) = None \<longrightarrow> srv = Srv s" .
    show ?thesis
    proof (cases "lookup (ASid at) (Srv s) = None")
      case live: False
      from sane_failed [OF s p _ s' fl False] w(1) live show ?thesis by blast
    next
      case True
      have "answerSane (Srv s) (APtr at, False, ABundle at, ans)" using p False by (simp add: answerSane_def)
      from sane_expired [OF s p _ fl this] s' w(2) True show ?thesis by simp
    qed
  qed
qed

lemma sane_step: "cstep s e s' \<Longrightarrow> sane s \<Longrightarrow> sane s'"
proof (induction rule: cstep.induct)
  case (look_up sid s p b)
  then have "p \<in> snd ` set (Sessions (Srv s))"
    by (force simp: lookup_def dest: map_of_SomeD)
  then show ?case
    using look_up by (intro sane_flight) (auto simp: sane_def tableSane_def)
next
  case (snap i s a)
  then show ?case
    by (intro sane_flight) (auto simp: sane_def dest!: subsetD [OF set_update_subset_insert])
next
  case (challenge now created nonce sidRand s r srv)
  then show ?case by (intro sane_challenge)
next
  case (finish i s a c ans srv)
  then show ?case by (intro sane_record [OF finish.prems finish.hyps(1,2,4) refl])
qed

lemma sane_run: "crun s es s' \<Longrightarrow> sane s \<Longrightarrow> sane s'"
  by (induction rule: crun.induct) (auto intro: sane_step)

section \<open>Properties of the server\<close>

lemma sane_served: "crun (startOf (newServer base px py ttl)) es s \<Longrightarrow> sane s"
  by (rule sane_run [OF _ sane_start])

text \<open>C33: Whatever requests are served, and however their critical sections interleave, a PASS
  answer shows a predicate that the answered bundle carries, signed for the nonce of its session and
  under the server's pin; and the counters of the PASS answers of a registered session strictly
  increase, so no bundle passes twice in it.\<close>

theorem pass_answers_are_fresh:
  assumes "crun (startOf (newServer base px py ttl)) es s"
    and "(q, l, b, a) \<in> set (Answers s)" and "AnsVerdict a = ''PASS''"
  shows "(\<exists>p. AnsPred a = Some p \<and> OK (VerifyBundle b (sessionOptions (Srv s) (Heap (Srv s) ! q) 0)) \<and>
      Pred (VerifyBundle b (sessionOptions (Srv s) (Heap (Srv s) ! q) 0)) = Some p) \<and>
    sorted_wrt (<) (passes q s)"
proof -
  have s: "sane s" by (rule sane_served) fact
  then have "answerSane (Srv s) (q, l, b, a)" using assms(2) by (simp add: sane_def)
  then have q: "q < length (Heap (Srv s))" and a: "\<exists>p. AnsPred a = Some p \<and> acceptedBy (Srv s) q b p"
    using assms(3) by (simp_all add: answerSane_def passed_def)
  from s q have "sorted_wrt (<) (passes q s)" by (simp add: sane_def cellSane_def)
  with a show ?thesis by (simp add: acceptedBy_def)
qed

lemma status_backed:
  assumes "sane s" and "handleStatus sid (Srv s) = StatusDone v ev why pf"
  shows "(v = ''FAIL'' \<and> ev = [] \<and> pf = None) \<or>
    (\<exists>q b p. v = ''PASS'' \<and> lookup sid (Srv s) = Some q \<and> acceptedBy (Srv s) q b p \<and>
       ev = EventName p \<and> why = Some (Gate Verified) \<and> pf = Some (proofOf (Srv s) b p))"
proof -
  from assms(2) obtain q where q: "lookup sid (Srv s) = Some q" "SVerdict (Heap (Srv s) ! q) \<noteq> []"
      and f: "v = SVerdict (Heap (Srv s) ! q)" "ev = SEvent (Heap (Srv s) ! q)"
        "why = SReason (Heap (Srv s) ! q)" "pf = SProof (Heap (Srv s) ! q)"
    by (auto simp: handleStatus_def Let_def split: option.splits if_splits)
  have "q \<in> snd ` set (Sessions (Srv s))"
    using q(1) by (force simp: lookup_def dest: map_of_SomeD)
  then have "q < length (Heap (Srv s))"
    using assms(1) by (auto simp: sane_def tableSane_def)
  then have "backedCell (Srv s) q" using assms(1) by (simp add: sane_def cellSane_def)
  then show ?thesis using q f by (auto simp: backedCell_def Let_def)
qed

text \<open>C34: The status page never shows a verdict without its evidence: after any run, a finished
  session reports FAIL with no event and no proof, or PASS with the event, the counter, the hashes and
  the signed bytes of a bundle that verifies for that session's nonce under the server's pin.\<close>

theorem status_page_is_backed:
  assumes "crun (startOf (newServer base px py ttl)) es s"
    and "handleStatus sid (Srv s) = StatusDone v ev why pf"
  shows "(v = ''FAIL'' \<and> ev = [] \<and> pf = None) \<or>
    (\<exists>q b p. v = ''PASS'' \<and> lookup sid (Srv s) = Some q \<and>
       OK (VerifyBundle b (sessionOptions (Srv s) (Heap (Srv s) ! q) 0)) \<and>
       Pred (VerifyBundle b (sessionOptions (Srv s) (Heap (Srv s) ! q) 0)) = Some p \<and>
       ev = EventName p \<and> why = Some (Gate Verified) \<and> pf = Some (proofOf (Srv s) b p))"
  using status_backed [OF sane_served assms(2), of base px py ttl es] assms(1)
  unfolding acceptedBy_def by blast

text \<open>A flood of challenges never makes the server hold more than 10,000 sessions, and no two of
  them have one session id.\<close>

theorem sessions_stay_bounded:
  assumes "crun (startOf (newServer base px py ttl)) es s"
  shows "length (Sessions (Srv s)) \<le> 10000 \<and> distinct (map fst (Sessions (Srv s)))"
  using sane_served [OF assms] by (simp add: sane_def tableSane_def maxSessions_def)

text \<open>A whole attestation is a run of its three critical sections.\<close>

lemma verifyAndRecord_run:
  assumes "lookup sid (Srv s) = Some p" and "verifyAndRecord (Srv s) sid p b = (a, srv)"
  shows "crun s [LookUp sid b, Snap (length (Flight s)), Record (length (Flight s))]
    (s\<lparr> Srv := srv, Answers := Answers s @ [(p, True, b, a)] \<rparr>)"
proof -
  let ?i = "length (Flight s)"
  let ?a = "\<lparr> ASid = sid, APtr = p, ABundle = b, ASnap = None \<rparr>"
  let ?s1 = "s\<lparr> Flight := Flight s @ [?a] \<rparr>"
  let ?s2 = "s\<lparr> Flight := Flight s @ [?a\<lparr> ASnap := Some (snapshot p (Srv s)) \<rparr>] \<rparr>"
  have "cstep s (LookUp sid b) ?s1" by (rule look_up) fact
  moreover have "cstep ?s1 (Snap ?i) ?s2"
    using snap [of ?i ?s1 ?a] by simp
  moreover have "cstep ?s2 (Record ?i) (s\<lparr> Srv := srv, Answers := Answers s @ [(p, True, b, a)] \<rparr>)"
    using finish [of ?i ?s2 "?a\<lparr> ASnap := Some (snapshot p (Srv s)) \<rparr>" "snapshot p (Srv s)" a srv] assms
    by (simp add: verifyAndRecord_def)
  ultimately have "crun s ((([] @ [LookUp sid b]) @ [Snap ?i]) @ [Record ?i])
      (s\<lparr> Srv := srv, Answers := Answers s @ [(p, True, b, a)] \<rparr>)"
    by (intro crun_snoc) (rule crun_nil)
  then show ?thesis by simp
qed

text \<open>The attestation and simulation handlers refine the interleaved critical sections: whenever
  one answers a device, its effect on the server is that of the look-up, the snapshot and the record
  section run in this order, with the session registered; so what holds of every interleaving holds
  of the handlers.\<close>

theorem handlers_refine_sections:
  assumes "handleAttest decode sid body (Srv s) = (Answered a, srv) \<or>
    handleSimulate sim decode sid (Srv s) = (Answered a, srv)"
  shows "\<exists>p b. crun s [LookUp sid b, Snap (length (Flight s)), Record (length (Flight s))]
    (s\<lparr> Srv := srv, Answers := Answers s @ [(p, True, b, a)] \<rparr>)"
proof -
  from assms obtain p b where "lookup sid (Srv s) = Some p" "verifyAndRecord (Srv s) sid p b = (a, srv)"
    by (auto simp: handleAttest_def handleSimulate_def Let_def split: option.splits prod.splits)
  then show ?thesis by (blast intro: verifyAndRecord_run)
qed

end
