(* ===== verification/Challenge_Demo.thy ===== *)
theory Challenge_Demo
  imports Challenge_Runs Sha256_Eval
begin

text \<open>
  A device that signs the 32-byte nonce of a session of the challenge server, and the runs on which
  the theorems about the server are applied; one of them exhibits the replay through an expired
  session.
\<close>

section \<open>A bundle for the issued nonce\<close>

definition chalNonce :: bytes where "chalNonce = replicate 32 9"

definition chalPredicate :: Predicate where
  "chalPredicate = \<lparr> Version = 1, Nonce = chalNonce, EventID = 1, VoiceActive = True, Presence = 1,
     Frames = 100, WindowMs = 5, Counter = 1, ConfigHash = replicate 32 0,
     InputHash = replicate 32 0, PrevDigest = replicate 32 0 \<rparr>"

definition chalH :: int where
  "chalH = 38113177611967532713889204805872407554945653275562801639910904320091951277347"

definition chalQx :: int where
  "chalQx = 2342722818704184354273782921398044469461342633758380888665126328398861908663"

definition chalQy :: int where
  "chalQy = 31470132455841172889034515610860182305988846103017599396323723169554864495222"

definition chalPx :: bytes where "chalPx = be_bytes 32 (nat chalQx)"
definition chalPy :: bytes where "chalPy = be_bytes 32 (nat chalQy)"
definition chalRS :: bytes where "chalRS = sigBytes chalH chalH"

lemma chal_valid: "validPredicate chalPredicate"
  by (simp add: validPredicate_def chalPredicate_def chalNonce_def NonceMax_def hashLen_def)

lemma chal_payload: "encodePayload chalPredicate =
    [171, 0, 1, 1, 88, 32, 9, 9, 9, 9, 9, 9, 9, 9, 9, 9, 9, 9, 9, 9, 9, 9, 9, 9, 9, 9, 9, 9, 9,
    9, 9, 9, 9, 9, 9, 9, 9, 9, 2, 1, 3, 245, 4, 1, 5, 24, 100, 6, 5, 7, 1, 8, 88, 32, 0, 0, 0,
    0, 0, 0, 0, 0, 0, 0, 0, 0, 0, 0, 0, 0, 0, 0, 0, 0, 0, 0, 0, 0, 0, 0, 0, 0, 0, 0, 0, 0, 9,
    88, 32, 0, 0, 0, 0, 0, 0, 0, 0, 0, 0, 0, 0, 0, 0, 0, 0, 0, 0, 0, 0, 0, 0, 0, 0, 0, 0, 0, 0,
    0, 0, 0, 0, 10, 88, 32, 0, 0, 0, 0, 0, 0, 0, 0, 0, 0, 0, 0, 0, 0, 0, 0, 0, 0, 0, 0, 0, 0, 0,
    0, 0, 0, 0, 0, 0, 0, 0, 0]"
  by (simp add: encodePayload_def encEntry_def chalPredicate_def chalNonce_def field_def enc_uint_def
      enc_bstr_def enc_bool_def cbor_head_def upt_rec replicate_literal)

lemma chal_sha: "sha256 (encodePayload chalPredicate) =
     [84, 67, 75, 72, 52, 157, 6, 24, 16, 72, 48, 204, 85, 204, 143, 100, 32, 216, 253, 53, 64,
      251, 130, 138, 1, 171, 89, 71, 155, 217, 37, 35]"
proof -
  have pad: "sha_pad [171, 0, 1, 1, 88, 32, 9, 9, 9, 9, 9, 9, 9, 9, 9, 9, 9, 9, 9, 9, 9, 9, 9, 9, 9, 9, 9, 9,
      9, 9, 9, 9, 9, 9, 9, 9, 9, 9, 2, 1, 3, 245, 4, 1, 5, 24, 100, 6, 5, 7, 1, 8, 88, 32, 0, 0,
      0, 0, 0, 0, 0, 0, 0, 0, 0, 0, 0, 0, 0, 0, 0, 0, 0, 0, 0, 0, 0, 0, 0, 0, 0, 0, 0, 0, 0, 0,
      9, 88, 32, 0, 0, 0, 0, 0, 0, 0, 0, 0, 0, 0, 0, 0, 0, 0, 0, 0, 0, 0, 0, 0, 0, 0, 0, 0, 0,
      0, 0, 0, 0, 0, 0, 10, 88, 32, 0, 0, 0, 0, 0, 0, 0, 0, 0, 0, 0, 0, 0, 0, 0, 0, 0, 0, 0, 0,
      0, 0, 0, 0, 0, 0, 0, 0, 0, 0, 0, 0] =
      [171, 0, 1, 1, 88, 32, 9, 9, 9, 9, 9, 9, 9, 9, 9, 9, 9, 9, 9, 9, 9, 9, 9, 9, 9, 9, 9, 9,
      9, 9, 9, 9, 9, 9, 9, 9, 9, 9, 2, 1, 3, 245, 4, 1, 5, 24, 100, 6, 5, 7, 1, 8, 88, 32, 0, 0,
      0, 0, 0, 0, 0, 0, 0, 0, 0, 0, 0, 0, 0, 0, 0, 0, 0, 0, 0, 0, 0, 0, 0, 0, 0, 0, 0, 0, 0, 0,
      9, 88, 32, 0, 0, 0, 0, 0, 0, 0, 0, 0, 0, 0, 0, 0, 0, 0, 0, 0, 0, 0, 0, 0, 0, 0, 0, 0, 0,
      0, 0, 0, 0, 0, 0, 10, 88, 32, 0, 0, 0, 0, 0, 0, 0, 0, 0, 0, 0, 0, 0, 0, 0, 0, 0, 0, 0, 0,
      0, 0, 0, 0, 0, 0, 0, 0, 0, 0, 0, 0, 128, 0, 0, 0, 0, 0, 0, 0, 0, 0, 0, 0, 0, 0, 0, 0, 0,
      0, 0, 0, 0, 0, 0, 0, 0, 0, 0, 0, 0, 0, 0, 0, 0, 0, 4, 224]"
    by (simp add: sha_pad_simps)
  show ?thesis
    by (simp only: chal_payload sha256_bits pad, simp only: sha_bit_simps) (simp add: byte_of_bits_value)
qed

lemma chal_hash: "int (be_nat (sha256 (encodePayload chalPredicate))) = chalH"
  by (simp add: chal_sha be_nat_def chalH_def)

lemma chal_key: "int (be_nat chalPx) = chalQx" "int (be_nat chalPy) = chalQy"
proof -
  have "be_nat chalPx = nat chalQx" "be_nat chalPy = nat chalQy"
    unfolding chalPx_def chalPy_def
    by (rule be_nat_be_bytes, simp add: chalQx_def chalQy_def)+
  then show "int (be_nat chalPx) = chalQx" "int (be_nat chalPy) = chalQy"
    by (simp_all add: chalQx_def chalQy_def)
qed

lemma chal_onCurve: "onCurve chalQx chalQy"
  by (rule onCurve_hint [where c = 70653585797114260472836460328274138764807465494617862226572571371789985051521
      and ?q1.0 = 8552995662674432691276817333813169183362072215887327768789332093469422896413
      and ?q2.0 = 111041119912645168490799222750761353210672862606274823545921931038493667646404192630524211470860330461857675345386906554834554839395534825787682173428])
    (simp_all add: chalQx_def chalQy_def p256_p_def p256_b_def)

lemma chal_add: "ec_add p256_G (Affine chalQx chalQy) = Affine chalH
    69502566877629816349442490310143520247768491448856322500011723075625287780223"
  unfolding p256_G_def
  by (rule ec_add_hint [where
        i = 55174516683233867662120444233310068642326079930163478728456494392793579760366
        and ?q0.0 = "-21964978789474242944729303201863626928173938059533963205454873837642684471469"
        and l = 31174871543955943767018780813240330346810946390928475059568987493784604376509
        and ?q1.0 = "-2222435796744795704929760126802785956816249659602200715329296877944351921201"
        and ?q2.0 = "8393255725929430806932343722086309201240282415446512731129216379537865442535"
        and ?q3.0 = "2780187204440355690773613326340499519055038069200491440212840811563007997069"])
    (simp_all add: chalQx_def chalQy_def chalH_def p256_p_def)

lemma chal_verify: "ecdsaVerify chalQx chalQy (sha256 (encodePayload chalPredicate)) chalH chalH"
proof (rule ecdsaVerify_unit)
  show "int (be_nat (sha256 (encodePayload chalPredicate))) = chalH"
    by (rule chal_hash)
  show "chalH * 111023695432988714031630269156524843908837303585524674536948163615501836457012 =
      36543652092564820153760815097048873806714912589811269733424715428150912006827 * p256_n + 1"
    by (simp add: chalH_def p256_n_def)
  show "onCurve chalQx chalQy"
    by (rule chal_onCurve)
  show "ec_add p256_G (Affine chalQx chalQy) = Affine chalH
    69502566877629816349442490310143520247768491448856322500011723075625287780223"
    by (rule chal_add)
qed (simp_all add: chalH_def p256_n_def)

lemma chal_signed: "deviceSigned chalPx chalPy (encodePayload chalPredicate) chalRS"
proof -
  have r: "0 \<le> chalH" "chalH < p256_n" "chalH \<le> halfN"
    by (simp_all add: chalH_def p256_n_def halfN_def)
  show ?thesis
    using chal_verify r
    by (simp add: deviceSigned_def chal_key chalRS_def sigBytes_parts)
qed

definition chalBundle :: Bundle where
  "chalBundle = \<lparr> Schema = ''honest-ear/bound-output/1'', Payload = hex_encode (encodePayload chalPredicate),
     Sig = hex_encode chalRS, PubX = hex_encode chalPx, PubY = hex_encode chalPy \<rparr>"

definition chalServer :: server where
  "chalServer = newServer [] (Some chalPx) (Some chalPy) 300000000000"

text \<open>The session cell of the run, and the cell after a PASS.\<close>

definition chalCell :: session where
  "chalCell = \<lparr> SNonce = chalNonce, SCreatedAt = 0, SLastCounter = 0, SVerdict = [], SEvent = [],
     SReason = None, SProof = None \<rparr>"

definition chalOptions :: Options where
  "chalOptions = \<lparr> ExpectedNonce = chalNonce, PinPubX = Some chalPx, PinPubY = Some chalPy,
     LastCounter = 0, ExpectedPrevDigest = None \<rparr>"

lemma chal_gates: "OK (gatesAfterSig (encodePayload chalPredicate) chalOptions)"
  using DecodePayload_encode [OF chal_valid]
  by (auto simp: gatesAfterSig_ok freshPredicate_def chalPredicate_def chalOptions_def chalNonce_def)

lemma chal_run: "VerifyBundle chalBundle chalOptions = \<lparr> Pred = Some chalPredicate, OK = True,
    Reason = Verified, NextDigest = Some (sha256 (encodePayload chalPredicate)) \<rparr>"
proof -
  have "VerifyBundle chalBundle chalOptions = gatesAfterSig (encodePayload chalPredicate) chalOptions"
    by (rule VerifyBundle_run [where sig = chalRS and px = chalPx and py = chalPy])
      (simp_all add: chalBundle_def hex_decode_encode chal_signed keyPinned_def chalOptions_def sliceOf_def)
  then show ?thesis
    using gatesAfterSig_result [OF chal_gates] DecodePayload_encode [OF chal_valid] by simp
qed

section \<open>A session that passes\<close>

definition chalSid :: string where "chalSid = hex_encode (replicate 8 0)"
definition chalSid2 :: string where "chalSid2 = hex_encode (replicate 8 1)"

lemma chalSid_neq: "chalSid \<noteq> chalSid2"
proof
  assume "chalSid = chalSid2"
  then have "hex_decode chalSid = hex_decode chalSid2" by simp
  then have "replicate 8 (0 :: byte) = replicate 8 1"
    by (simp only: chalSid_def chalSid2_def hex_decode_encode sum.inject)
  then show False by (simp add: replicate_eq_replicate)
qed

definition chalServer1 :: server where
  "chalServer1 = chalServer\<lparr> Heap := [chalCell], Sessions := [(chalSid, 0)] \<rparr>"

definition chalAnswer :: answer where
  "chalAnswer = \<lparr> AnsVerdict = ''PASS'', AnsReason = Gate Verified, AnsPred = Some chalPredicate \<rparr>"

definition chalServerDone :: server where
  "chalServerDone = chalServer1\<lparr> Heap := [chalCell\<lparr> SLastCounter := 1, SVerdict := ''PASS'',
     SEvent := EventName chalPredicate, SReason := Some (Gate Verified),
     SProof := Some (proofOf chalServer chalBundle chalPredicate) \<rparr>] \<rparr>"

lemma chal_nonce_length: "length chalNonce = 32" by (simp add: chalNonce_def)

lemma chal_counter: "Counter chalPredicate = 1" by (simp add: chalPredicate_def)

lemma chal_challenge: "handleChallenge 0 0 (Some chalNonce) (Some (replicate 8 0)) chalServer =
    (Challenged chalSid (hex_encode chalNonce) (''/attest?session='' @ chalSid), chalServer1)"
  by (simp add: handleChallenge_def Let_def chalServer_def newServer_def gcLocked_def maxSessions_def
      chalSid_def chalServer1_def chalCell_def)

lemma chal_accept:
  assumes "PinX s = Some chalPx" "PinY s = Some chalPy" "SNonce c = chalNonce"
  shows "VerifyBundle chalBundle (sessionOptions s c 0) = \<lparr> Pred = Some chalPredicate, OK = True,
    Reason = Verified, NextDigest = Some (sha256 (encodePayload chalPredicate)) \<rparr>"
proof -
  have "sessionOptions s c 0 = chalOptions" using assms by (simp add: sessionOptions_def chalOptions_def)
  then show ?thesis using chal_run by simp
qed

lemma chal_verified: "verifyAndRecord chalServer1 chalSid 0 chalBundle = (chalAnswer, chalServerDone)"
proof -
  have c: "Heap chalServer1 ! 0 = chalCell" "SLastCounter chalCell = 0" "SNonce chalCell = chalNonce"
    by (simp_all add: chalServer1_def chalCell_def)
  have "recordVerdict chalServer1 chalSid 0 chalBundle 0 = (chalAnswer, chalServer1\<lparr> Heap := (Heap chalServer1)
     [0 := (Heap chalServer1 ! 0)\<lparr> SLastCounter := Counter chalPredicate, SVerdict := ''PASS'',
       SEvent := EventName chalPredicate, SReason := Some (Gate Verified),
       SProof := Some (proofOf chalServer1 chalBundle chalPredicate) \<rparr>] \<rparr>)"
    unfolding chalAnswer_def
    by (rule recordVerdict_live [OF chal_accept])
      (simp_all add: c chal_counter lookup_def, simp_all add: chalServer1_def chalServer_def newServer_def)
  moreover have "proofOf chalServer1 chalBundle chalPredicate = proofOf chalServer chalBundle chalPredicate"
    by (rule proofOf_cong) (simp_all add: chalServer1_def)
  ultimately show ?thesis
    by (simp add: verifyAndRecord_def snapshot_def c chal_counter) (simp add: chalServerDone_def chalServer1_def)
qed

lemma chal_first: "crun (startOf chalServer) [Challenge 0 0 (Some chalNonce) (Some (replicate 8 0))]
    (startOf chalServer1)"
proof -
  have "cstep (startOf chalServer) (Challenge 0 0 (Some chalNonce) (Some (replicate 8 0)))
      ((startOf chalServer)\<lparr> Srv := chalServer1 \<rparr>)"
    by (rule challenge) (simp_all add: startOf_def chal_nonce_length chal_challenge)
  then have "crun (startOf chalServer) ([] @ [Challenge 0 0 (Some chalNonce) (Some (replicate 8 0))])
      ((startOf chalServer)\<lparr> Srv := chalServer1 \<rparr>)"
    by (rule crun_snoc [OF crun_nil])
  then show ?thesis by (simp add: startOf_def)
qed

text \<open>The session of the demonstration, attested once.\<close>

definition chalDone :: system where
  "chalDone = \<lparr> Srv = chalServerDone, Flight = [], Answers = [(0, True, chalBundle, chalAnswer)] \<rparr>"

lemma crun_append: "crun s es s' \<Longrightarrow> crun s' es' s'' \<Longrightarrow> crun s (es @ es') s''"
proof (induction es' arbitrary: s'' rule: rev_induct)
  case Nil
  then show ?case by (auto elim: crun.cases)
next
  case (snoc e es')
  then obtain t where "crun s' es' t" "cstep t e s''" by (auto elim: crun.cases)
  then show ?case using snoc crun_snoc by (metis append_assoc)
qed

lemma chal_done: "crun (startOf chalServer)
    ([Challenge 0 0 (Some chalNonce) (Some (replicate 8 0))] @ [LookUp chalSid chalBundle, Snap 0, Record 0]) chalDone"
proof (rule crun_append [OF chal_first])
  have "lookup chalSid (Srv (startOf chalServer1)) = Some 0"
    by (simp add: startOf_def lookup_def chalServer1_def)
  from verifyAndRecord_run [OF this, of chalBundle chalAnswer chalServerDone] chal_verified
  show "crun (startOf chalServer1) [LookUp chalSid chalBundle, Snap 0, Record 0] chalDone"
    by (simp add: startOf_def chalDone_def)
qed

section \<open>Witnesses\<close>

lemma pass_answers_are_fresh_witness:
  "(\<exists>p. AnsPred chalAnswer = Some p \<and>
      OK (VerifyBundle chalBundle (sessionOptions (Srv chalDone) (Heap (Srv chalDone) ! 0) 0)) \<and>
      Pred (VerifyBundle chalBundle (sessionOptions (Srv chalDone) (Heap (Srv chalDone) ! 0) 0)) = Some p) \<and>
   sorted_wrt (<) (passes 0 chalDone)"
  by (rule pass_answers_are_fresh [OF chal_done [unfolded chalServer_def]])
    (simp_all add: chalDone_def chalAnswer_def)

lemma status_page_is_backed_witness:
  "\<exists>q b p. lookup chalSid (Srv chalDone) = Some q \<and>
     OK (VerifyBundle b (sessionOptions (Srv chalDone) (Heap (Srv chalDone) ! q) 0)) \<and>
     Pred (VerifyBundle b (sessionOptions (Srv chalDone) (Heap (Srv chalDone) ! q) 0)) = Some p \<and>
     EventName chalPredicate = EventName p"
proof -
  have "handleStatus chalSid (Srv chalDone) = StatusDone ''PASS'' (EventName chalPredicate)
      (Some (Gate Verified)) (Some (proofOf chalServer chalBundle chalPredicate))"
    by (simp add: handleStatus_def lookup_def chalDone_def chalServerDone_def chalServer1_def Let_def)
  from status_page_is_backed [OF chal_done [unfolded chalServer_def] this] show ?thesis by auto
qed

lemma sessions_stay_bounded_witness:
  "length (Sessions (Srv chalDone)) \<le> 10000 \<and> distinct (map fst (Sessions (Srv chalDone)))"
  by (rule sessions_stay_bounded [OF chal_done [unfolded chalServer_def]])

lemma handlers_refine_sections_witness:
  "\<exists>p b. crun (startOf chalServer1) [LookUp chalSid b, Snap 0, Record 0]
     ((startOf chalServer1)\<lparr> Srv := chalServerDone, Answers := [(p, True, b, chalAnswer)] \<rparr>)"
proof -
  have "handleAttest (\<lambda>_. Some chalBundle) chalSid [] (Srv (startOf chalServer1)) = (Answered chalAnswer, chalServerDone)"
    using chal_verified by (simp add: handleAttest_def lookup_def startOf_def chalServer1_def)
  then show ?thesis
    using handlers_refine_sections [of "\<lambda>_. Some chalBundle" chalSid "[]" "startOf chalServer1" chalAnswer
        chalServerDone "\<lambda>_ _. None"]
    by (simp add: startOf_def)
qed

section \<open>The expired session\<close>

text \<open>Five minutes later another challenge is minted, which drops the first session.\<close>

definition chalServer2 :: server where
  "chalServer2 = chalServer\<lparr> Heap := [chalCell, chalCell\<lparr> SCreatedAt := 300000000001 \<rparr>],
     Sessions := [(chalSid2, 1)] \<rparr>"

lemma chal_expire: "handleChallenge 300000000001 300000000001 (Some chalNonce) (Some (replicate 8 1)) chalServer1 =
    (Challenged chalSid2 (hex_encode chalNonce) (''/attest?session='' @ chalSid2), chalServer2)"
  by (simp add: handleChallenge_def Let_def chalServer_def newServer_def gcLocked_def maxSessions_def
      chalSid2_def chalServer1_def chalServer2_def chalCell_def)

lemma chal_record_expired: "recordVerdict chalServer2 chalSid 0 chalBundle 0 = (chalAnswer, chalServer2)"
  unfolding chalAnswer_def
  by (rule recordVerdict_expired [OF chal_accept])
    (use chalSid_neq in \<open>simp_all add: lookup_def chalServer2_def chalServer_def newServer_def chalCell_def\<close>)

text \<open>C35: A session that expires between the look-up and the record section is not guarded: the same
  bundle, posted twice and in flight when the session is collected, is answered PASS both times,
  although one session must accept a bundle once and the code means to guard a session collected
  mid-verification.\<close>

theorem expired_session_replay:
  "\<exists>es s. crun (startOf chalServer) es s \<and>
     Answers s = [(0, False, chalBundle, chalAnswer), (0, False, chalBundle, chalAnswer)] \<and>
     AnsVerdict chalAnswer = ''PASS''"
proof -
  let ?a = "\<lparr> ASid = chalSid, APtr = 0, ABundle = chalBundle, ASnap = None \<rparr>"
  let ?b = "\<lparr> ASid = chalSid, APtr = 0, ABundle = chalBundle, ASnap = Some 0 \<rparr>"
  let ?ans = "(0, False, chalBundle, chalAnswer)"
  let ?s = "\<lambda>srv fl ans. \<lparr> Srv = srv, Flight = fl, Answers = ans \<rparr>"
  have l: "lookup chalSid chalServer1 = Some 0" "snapshot 0 chalServer1 = 0" "lookup chalSid chalServer2 = None"
    using chalSid_neq
    by (simp_all add: lookup_def snapshot_def chalServer1_def chalServer2_def chalCell_def)
  have 1: "cstep (?s chalServer1 [] []) (LookUp chalSid chalBundle) (?s chalServer1 [?a] [])"
    using look_up [of chalSid "?s chalServer1 [] []" 0 chalBundle] l by simp
  have 2: "cstep (?s chalServer1 [?a] []) (LookUp chalSid chalBundle) (?s chalServer1 [?a, ?a] [])"
    using look_up [of chalSid "?s chalServer1 [?a] []" 0 chalBundle] l by simp
  have 3: "cstep (?s chalServer1 [?a, ?a] []) (Snap 0) (?s chalServer1 [?b, ?a] [])"
    using snap [of 0 "?s chalServer1 [?a, ?a] []" ?a] l by simp
  have 4: "cstep (?s chalServer1 [?b, ?a] []) (Snap 1) (?s chalServer1 [?b, ?b] [])"
    using snap [of 1 "?s chalServer1 [?b, ?a] []" ?a] l by simp
  have 5: "cstep (?s chalServer1 [?b, ?b] []) (Challenge 300000000001 300000000001 (Some chalNonce)
      (Some (replicate 8 1))) (?s chalServer2 [?b, ?b] [])"
  proof -
    have "handleChallenge 300000000001 300000000001 (Some chalNonce) (Some (replicate 8 1))
        (Srv (?s chalServer1 [?b, ?b] [])) =
      (Challenged chalSid2 (hex_encode chalNonce) (''/attest?session='' @ chalSid2), chalServer2)"
      by (simp add: chal_expire)
    from challenge [OF this] show ?thesis by (simp add: chal_nonce_length)
  qed
  have 6: "cstep (?s chalServer2 [?b, ?b] []) (Record 0) (?s chalServer2 [?b] [?ans])"
    using finish [of 0 "?s chalServer2 [?b, ?b] []" ?b 0 chalAnswer chalServer2] chal_record_expired l by simp
  have 7: "cstep (?s chalServer2 [?b] [?ans]) (Record 0) (?s chalServer2 [] [?ans, ?ans])"
    using finish [of 0 "?s chalServer2 [?b] [?ans]" ?b 0 chalAnswer chalServer2] chal_record_expired l by simp
  note run = chal_first [unfolded startOf_def [of chalServer1], THEN crun_snoc [OF _ 1], THEN crun_snoc [OF _ 2],
      THEN crun_snoc [OF _ 3], THEN crun_snoc [OF _ 4], THEN crun_snoc [OF _ 5], THEN crun_snoc [OF _ 6],
      THEN crun_snoc [OF _ 7]]
  show ?thesis
    by (intro exI conjI, rule run) (simp_all add: chalAnswer_def)
qed

end
