(* ===== verification/Challenge_Page.thy ===== *)
theory Challenge_Page
  imports Challenge
begin

text \<open>
  The start of the challenge server and the two pages it serves (cmd/he-challenge/main.go: \<open>main\<close>,
  \<open>handleRoot\<close>, \<open>handleVerifyPage\<close>). The page templates are arguments, as they are constants of HTML and
  JavaScript; what is put into them is modelled.
\<close>

section \<open>html.EscapeString and strings.ReplaceAll\<close>

definition escapeChar :: "char \<Rightarrow> string" where
  "escapeChar c =
     (if c = CHR ''&'' then ''&amp;'' else if c = CHR 0x27 then ''&#39;'' else if c = CHR ''<'' then ''&lt;''
      else if c = CHR ''>'' then ''&gt;'' else if c = CHR 0x22 then ''&#34;'' else [c])"

definition escapeString :: "string \<Rightarrow> string" where
  "escapeString s = concat (map escapeChar s)"

text \<open>\<open>strings.ReplaceAll\<close> for a pattern that is not empty.\<close>

function replaceAll :: "string \<Rightarrow> string \<Rightarrow> string \<Rightarrow> string" where
  "replaceAll old new s =
     (if s = [] then []
      else if old \<noteq> [] \<and> take (length old) s = old then new @ replaceAll old new (drop (length old) s)
      else hd s # replaceAll old new (tl s))"
  by pat_completeness auto
termination
  by (relation "measure (\<lambda>(old, new, s). length s)") auto

declare replaceAll.simps [simp del]

section \<open>The pages\<close>

definition handleVerifyPage :: "string \<Rightarrow> string \<Rightarrow> string" where
  "handleVerifyPage verifyPage sessionParam = replaceAll ''{{SID}}'' (escapeString sessionParam) verifyPage"

text \<open>None is the not-found answer for any path but the root.\<close>

definition handleRoot :: "string \<Rightarrow> string \<Rightarrow> string \<Rightarrow> string option" where
  "handleRoot homePage simPath urlPath =
     (if urlPath \<noteq> ''/'' then None
      else Some (replaceAll ''{{SIM}}'' (if simPath \<noteq> [] then ''inline-flex'' else ''none'') homePage))"

section \<open>Starting the server\<close>

record challengeFlags =
  ChAddr :: string
  ChBase :: string
  ChPinX :: string
  ChPinY :: string
  ChSim :: string

datatype challenge_fatal = ChBadPinX hex_error | ChBadPinY hex_error | NoDemoClip

definition challengePin :: "(hex_error \<Rightarrow> challenge_fatal) \<Rightarrow> string \<Rightarrow> challenge_fatal + bytes option" where
  "challengePin bad s = (if s \<noteq> [] then map_sum bad Some (hex_decode s) else Inr None)"

text \<open>\<open>clip\<close> is the path \<open>writeAlarmClip\<close> returns, None when it fails. The result is the server and, when
  the simulation is enabled, the simulator with its clip.\<close>

definition challengeMain :: "challengeFlags \<Rightarrow> string option \<Rightarrow> challenge_fatal + server \<times> (string \<times> string) option" where
  "challengeMain f clip =
     (let base = (if ChBase f = [] then ''http://localhost'' @ ChAddr f else ChBase f) in
      bindE (challengePin ChBadPinX (ChPinX f)) (\<lambda>px.
      bindE (challengePin ChBadPinY (ChPinY f)) (\<lambda>py.
      bindE (if ChSim f \<noteq> [] then (case clip of None \<Rightarrow> Inl NoDemoClip | Some c \<Rightarrow> Inr (Some (ChSim f, c))) else Inr None)
        (\<lambda>sim. Inr (newServer base px py (5 * 60 * 10 ^ 9), sim)))))"

section \<open>What a session name can do to the page\<close>

text \<open>The characters that open or close a tag or an attribute value.\<close>

definition markup :: "char \<Rightarrow> bool" where
  "markup c \<longleftrightarrow> c = CHR ''<'' \<or> c = CHR ''>'' \<or> c = CHR 0x22 \<or> c = CHR 0x27"

lemma escapeString_no_markup: "filter markup (escapeString s) = []"
  by (induction s) (auto simp: escapeString_def escapeChar_def markup_def)

lemma replaceAll_filter:
  "filter P new = filter P new' \<Longrightarrow> filter P (replaceAll old new s) = filter P (replaceAll old new' s)"
proof (induction "length s" arbitrary: s rule: less_induct)
  case less
  have d: "filter P (replaceAll old new (drop (length old) s)) = filter P (replaceAll old new' (drop (length old) s))"
    if "s \<noteq> []" "old \<noteq> []"
    using that less.prems by (intro less.hyps) simp_all
  have t: "filter P (replaceAll old new (tl s)) = filter P (replaceAll old new' (tl s))" if "s \<noteq> []"
    using that less.prems by (intro less.hyps) simp_all
  show ?case
    using d t less.prems by (subst (1 2) replaceAll.simps) auto
qed

text \<open>A session name cannot inject markup: the characters that open or close tags and attribute values are
  those of the template, whatever the name is.\<close>

theorem session_injects_no_markup:
  "filter markup (handleVerifyPage verifyPage sessionParam) = filter markup (handleVerifyPage verifyPage [])"
  unfolding handleVerifyPage_def by (rule replaceAll_filter) (simp add: escapeString_no_markup)

text \<open>A server that starts has the pins of its flags; one that is given a pin that is not hexadecimal does
  not start.\<close>

lemma challengePin_Inr:
  "challengePin bad s = Inr p \<longleftrightarrow> (if s = [] then p = None else \<exists>b. hex_decode s = Inr b \<and> p = Some b)"
  by (cases "hex_decode s") (auto simp: challengePin_def)

lemma challengeMain_pins:
  "challengeMain f clip = Inr (srv, sim) \<Longrightarrow>
     PinX srv = (if ChPinX f = [] then None else Some (projr (hex_decode (ChPinX f)))) \<and>
     PinY srv = (if ChPinY f = [] then None else Some (projr (hex_decode (ChPinY f)))) \<and> Sessions srv = [] \<and> Heap srv = []"
  by (auto simp: challengeMain_def Let_def bindE_Inr_iff challengePin_Inr newServer_def split: if_splits)

end
