(* ===== verification/Log_Key.thy ===== *)
theory Log_Key
  imports Log_Cli
begin

text \<open>
  \<open>he-log genkey\<close> (cmd/he-log/main.go): what it prints for the key that was drawn, and that the other
  subcommands read it back.
\<close>

definition pad32 :: "int \<Rightarrow> bytes" where
  "pad32 n = be_bytes 32 (nat n)"

text \<open>\<open>key\<close> is the key \<open>ecdsa.GenerateKey\<close> returns, None for an error.\<close>

definition genkeyCmd :: "priv_key option \<Rightarrow> (string \<times> string \<times> string) option" where
  "genkeyCmd key =
     (case key of
        None \<Rightarrow> None
      | Some k \<Rightarrow> (let (x, y) = PubXY k in Some (hex_encode (pad32 (D k)), hex_encode x, hex_encode y)))"

text \<open>A generated key: a scalar that fits and its point.\<close>

definition generated :: "priv_key \<Rightarrow> bool" where
  "generated k \<longleftrightarrow> 0 \<le> D k \<and> D k < 256 ^ 32 \<and> ScalarBaseMult (pad32 (D k)) = (X k, Y k)"

text \<open>The private key printed is read back by \<open>--key\<close> as the same key, and the public key printed is the one
  the checkpoints of that key are verified with.\<close>

theorem genkey_loads:
  assumes "generated k" and "genkeyCmd (Some k) = Some (priv, x, y)"
  shows "loadKey priv = Inr k \<and> (x, y) = (hex_encode (fst (PubXY k)), hex_encode (snd (PubXY k)))"
proof -
  have "int (be_nat (pad32 (D k))) = D k"
    using assms(1) by (simp add: generated_def pad32_def be_nat_be_bytes nat_less_iff)
  then show ?thesis
    using assms by (cases "PubXY k")
      (auto simp: genkeyCmd_def loadKey_def PrivKeyFromHex_def generated_def pad32_def)
qed

end
