(* ===== verification/Json.thy ===== *)
theory Json
  imports Prelude
begin

text \<open>
  What the command lines use of \<open>encoding/json\<close>: the value a text stands for and its decoding into a
  struct. The members of an object are taken in the order of the text; each is stored into the field
  whose name it has up to case folding, so the last one wins, \<open>null\<close> leaves a field as it is, and
  unknown members are skipped. A member of the wrong type makes the decoding fail. The parsing of the
  text itself is an argument of the programs, None for a syntax error.
\<close>

datatype json =
    JNull
  | JBool bool
  | JInteger int
  | JFraction
  | JString string
  | JArray "json list"
  | JObject "(string \<times> json) list"

section \<open>Field names\<close>

definition upperChar :: "char \<Rightarrow> char" where
  "upperChar c =
     (if 97 \<le> (of_char c :: nat) \<and> (of_char c :: nat) \<le> 122 then char_of (of_char c - 32 :: nat) else c)"

text \<open>Names are compared up to case; outside ASCII only the Kelvin sign and the long s fold to letters
  of a field name.\<close>

fun foldName :: "string \<Rightarrow> string" where
  "foldName [] = []"
| "foldName (c # s) =
     (if c = CHR 0xE2 \<and> take 2 s = [CHR 0x84, CHR 0xAA] then CHR ''K'' # foldName (drop 2 s)
      else if c = CHR 0xC5 \<and> take 1 s = [CHR 0xBF] then CHR ''S'' # foldName (drop 1 s)
      else upperChar c # foldName s)"

section \<open>Decoding into a struct\<close>

definition decString :: "string \<Rightarrow> json \<Rightarrow> string option" where
  "decString old x = (case x of JString s \<Rightarrow> Some s | JNull \<Rightarrow> Some old | _ \<Rightarrow> None)"

definition decInt :: "int \<Rightarrow> json \<Rightarrow> int option" where
  "decInt old x =
     (case x of
        JInteger n \<Rightarrow> if - (2 ^ 63) \<le> n \<and> n < 2 ^ 63 then Some n else None
      | JNull \<Rightarrow> Some old
      | _ \<Rightarrow> None)"

text \<open>A slice is overwritten from its start; an element that is \<open>null\<close> keeps what the slice has there.\<close>

fun decElements :: "string list \<Rightarrow> json list \<Rightarrow> string list option" where
  "decElements old [] = Some []"
| "decElements old (x # xs) =
     (case decString (case old of [] \<Rightarrow> [] | s # _ \<Rightarrow> s) x of
        None \<Rightarrow> None
      | Some s \<Rightarrow> map_option ((#) s) (decElements (tl old) xs))"

definition decStrings :: "string list \<Rightarrow> json \<Rightarrow> string list option" where
  "decStrings old x = (case x of JArray xs \<Rightarrow> decElements old xs | JNull \<Rightarrow> Some [] | _ \<Rightarrow> None)"

fun structField :: "('v \<Rightarrow> json \<Rightarrow> 'v option) \<Rightarrow> string \<Rightarrow> (string \<times> json) list \<Rightarrow> 'v \<Rightarrow> 'v option" where
  "structField dec name [] v = Some v"
| "structField dec name ((k, x) # ms) v =
     (if foldName k = foldName name then
        (case dec v x of None \<Rightarrow> None | Some v' \<Rightarrow> structField dec name ms v')
      else structField dec name ms v)"

definition members :: "json \<Rightarrow> (string \<times> json) list option" where
  "members j = (case j of JObject ms \<Rightarrow> Some ms | JNull \<Rightarrow> Some [] | _ \<Rightarrow> None)"

definition stringField :: "string \<Rightarrow> json \<Rightarrow> string option" where
  "stringField name j = Option.bind (members j) (\<lambda>ms. structField decString name ms [])"

definition intField :: "string \<Rightarrow> json \<Rightarrow> int option" where
  "intField name j = Option.bind (members j) (\<lambda>ms. structField decInt name ms 0)"

definition stringsField :: "string \<Rightarrow> json \<Rightarrow> string list option" where
  "stringsField name j = Option.bind (members j) (\<lambda>ms. structField decStrings name ms [])"

text \<open>Reading back a member that is given once.\<close>

lemma structField_skip: "(\<forall>k\<in>fst ` set ms. foldName k \<noteq> foldName name) \<Longrightarrow> structField dec name ms v = Some v"
  by (induction ms) auto

lemma structField_found:
  assumes "\<forall>k\<in>fst ` set pre. foldName k \<noteq> foldName name" "\<forall>k\<in>fst ` set post. foldName k \<noteq> foldName name"
    and "foldName k = foldName name"
  shows "structField dec name (pre @ (k, x) # post) v = dec v x"
  using assms
proof (induction pre)
  case Nil
  then show ?case by (simp add: structField_skip split: option.splits)
next
  case (Cons m pre)
  then show ?case by (cases m) auto
qed

lemma decElements_strings: "decElements old (map JString ss) = Some ss"
  by (induction ss arbitrary: old) (simp_all add: decString_def)

end
