(* ===== verification/Verify_Cli.thy ===== *)
theory Verify_Cli
  imports Json Quorum
begin

text \<open>
  The command line he-verify (cmd/he-verify/main.go): one bundle, a quorum, or a co-attestation.
  Arguments are the flags the \<open>flag\<close> package parsed, the readable files, standard input and the
  parser of JSON texts; \<open>cli.Die\<close> (status 2) is \<open>Inl\<close>.
\<close>

section \<open>Bundles from JSON\<close>

definition unmarshalBundle :: "json \<Rightarrow> Bundle option" where
  "unmarshalBundle j =
     Option.bind (stringField ''schema'' j) (\<lambda>schema.
     Option.bind (stringField ''payload'' j) (\<lambda>payload.
     Option.bind (stringField ''sig'' j) (\<lambda>sig.
     Option.bind (stringField ''pub_x'' j) (\<lambda>px.
     Option.bind (stringField ''pub_y'' j) (\<lambda>py.
     Some \<lparr> Schema = schema, Payload = payload, Sig = sig, PubX = px, PubY = py \<rparr>)))))"

definition unmarshalCOSEBundle :: "json \<Rightarrow> COSEBundle option" where
  "unmarshalCOSEBundle j =
     Option.bind (stringField ''schema'' j) (\<lambda>schema.
     Option.bind (stringField ''cose'' j) (\<lambda>cose.
     Option.bind (stringField ''pub_x'' j) (\<lambda>px.
     Option.bind (stringField ''pub_y'' j) (\<lambda>py.
     Some \<lparr> CSchema = schema, COSE = cose, CPubX = px, CPubY = py \<rparr>))))"

text \<open>The struct of \<open>parseProverInput\<close>, which has the fields of both.\<close>

definition unmarshalProbe :: "json \<Rightarrow> proverJSON option" where
  "unmarshalProbe j =
     Option.bind (stringField ''schema'' j) (\<lambda>schema.
     Option.bind (stringField ''payload'' j) (\<lambda>payload.
     Option.bind (stringField ''cose'' j) (\<lambda>cose.
     Option.bind (stringField ''sig'' j) (\<lambda>sig.
     Option.bind (stringField ''pub_x'' j) (\<lambda>px.
     Option.bind (stringField ''pub_y'' j) (\<lambda>py.
     Some \<lparr> PSchema = schema, PPayload = payload, PCOSE = cose, PSig = sig, PPubX = px, PPubY = py \<rparr>))))))"

text \<open>The names of the members of a bundle are different, also up to case.\<close>

lemma bundle_names [json_names]: "foldName ''schema'' = ''SCHEMA''" "foldName ''payload'' = ''PAYLOAD''"
  "foldName ''sig'' = ''SIG''" "foldName ''pub_x'' = ''PUB_X''" "foldName ''pub_y'' = ''PUB_Y''"
  "foldName ''cose'' = ''COSE''" "foldName ''nonce'' = ''NONCE''"
  by code_simp+

section \<open>Printing\<close>

text \<open>The dash of the messages is three bytes of UTF-8.\<close>

definition dash :: string where "dash = [CHR 0xE2, CHR 0x80, CHR 0x94]"

definition showUint :: "u64 \<Rightarrow> string" where "showUint v = dec (unat v)"

definition showBool :: "bool \<Rightarrow> string" where "showBool v = (if v then ''true'' else ''false'')"

definition printPredicate :: "Predicate \<Rightarrow> string list" where
  "printPredicate p =
     [''  event        : '' @ EventName p,
      ''  presence     : '' @ showUint (Presence p),
      ''  voice_active : '' @ showBool (VoiceActive p),
      ''  frames       : '' @ showUint (Frames p) @ ''  (~'' @ showUint (WindowMs p) @ '' ms observed)'',
      ''  counter      : '' @ showUint (Counter p),
      ''  nonce        : '' @ hex_encode (Nonce p),
      ''  config_hash  : '' @ hex_encode (ConfigHash p),
      ''  input_hash   : '' @ hex_encode (InputHash p),
      ''  prev_digest  : '' @ hex_encode (PrevDigest p)]"

section \<open>The command line he-verify\<close>

record verifyFlags =
  FNonce :: string
  FPinX :: string
  FPinY :: string
  FLastCounter :: u64
  FExpectPrev :: string
  FCose :: bool
  FQuorum :: int
  FCoAttest :: int
  FRoots :: "string list"
  FArgs :: "string list"

datatype verify_die =
    NonceRequired
  | NonceHex
  | RootWithoutQuorum
  | ModesExclusive
  | PinsTogether
  | PinXBad
  | PinYBad
  | ReadingBundle
  | ExpectPrevBad
  | BadCOSEJson
  | BadBundleJson
  | RootSpec string
  | RootKeyX string
  | RootKeyY string
  | ReadingFile string
  | BundleFile string

datatype verify_outcome =
    BundleFail VerifyResult
  | BundlePass VerifyResult
  | QuorumFail QuorumResult
  | QuorumPass QuorumResult
  | CoAttestFail CoAttestation
  | CoAttestPass CoAttestation

text \<open>Status 0 on PASS and 1 on FAIL; \<open>cli.Die\<close> exits with 2.\<close>

definition verifyExit :: "verify_die + verify_outcome \<Rightarrow> int" where
  "verifyExit r =
     (case r of
        Inl _ \<Rightarrow> 2
      | Inr (BundlePass _) \<Rightarrow> 0 | Inr (QuorumPass _) \<Rightarrow> 0 | Inr (CoAttestPass _) \<Rightarrow> 0
      | Inr _ \<Rightarrow> 1)"

definition hex32 :: "verify_die \<Rightarrow> string \<Rightarrow> verify_die + bytes" where
  "hex32 e s = (case hex_decode s of Inl _ \<Rightarrow> Inl e | Inr b \<Rightarrow> if length b \<noteq> 32 then Inl e else Inr b)"

definition pinFlags :: "verifyFlags \<Rightarrow> verify_die + (bytes option \<times> bytes option)" where
  "pinFlags f =
     (if (FPinX f = []) \<noteq> (FPinY f = []) then Inl PinsTogether
      else if FPinX f \<noteq> [] then
        bindE (hex32 PinXBad (FPinX f)) (\<lambda>x.
        bindE (hex32 PinYBad (FPinY f)) (\<lambda>y. Inr (Some x, Some y)))
      else Inr (None, None))"

definition expectPrevFlag :: "verifyFlags \<Rightarrow> verify_die + bytes option" where
  "expectPrevFlag f =
     (if FExpectPrev f \<noteq> [] then bindE (hex32 ExpectPrevBad (FExpectPrev f)) (\<lambda>d. Inr (Some d)) else Inr None)"

subsection \<open>Quorum and co-attestation\<close>

fun rootLoop :: "string list \<Rightarrow> verify_die + Prover list" where
  "rootLoop [] = Inr []"
| "rootLoop (spec # specs) =
     (let parts = splitAt CHR '':'' spec in
      if length parts \<noteq> 3 then Inl (RootSpec spec)
      else case hex_decode (parts ! 1) of Inl _ \<Rightarrow> Inl (RootKeyX (parts ! 0)) | Inr px \<Rightarrow>
           (case hex_decode (parts ! 2) of Inl _ \<Rightarrow> Inl (RootKeyY (parts ! 0)) | Inr py \<Rightarrow>
            bindE (rootLoop specs) (\<lambda>roots. Inr (\<lparr> ProverName = parts ! 0, ProverX = px, ProverY = py \<rparr> # roots))))"

definition checkBundleParses :: "(bytes \<Rightarrow> json option) \<Rightarrow> bytes \<Rightarrow> bool" where
  "checkBundleParses parse raw =
     (case Option.bind (parse raw) (\<lambda>j. Option.bind (stringField ''payload'' j) (\<lambda>payload.
             Option.bind (stringField ''cose'' j) (\<lambda>cose. Some (payload, cose)))) of
        None \<Rightarrow> False
      | Some (payload, cose) \<Rightarrow> \<not> (payload = [] \<and> cose = []))"

fun inputLoop :: "(bytes \<Rightarrow> json option) \<Rightarrow> (string \<rightharpoonup> bytes) \<Rightarrow> string list \<Rightarrow> verify_die + bytes list" where
  "inputLoop parse files [] = Inr []"
| "inputLoop parse files (name # names) =
     (case files name of
        None \<Rightarrow> Inl (ReadingFile name)
      | Some raw \<Rightarrow>
          if \<not> checkBundleParses parse raw then Inl (BundleFile name)
          else bindE (inputLoop parse files names) (\<lambda>raws. Inr (raw # raws)))"

definition probeInput :: "(bytes \<Rightarrow> json option) \<Rightarrow> bytes \<Rightarrow> proverJSON option" where
  "probeInput parse raw = Option.bind (parse raw) unmarshalProbe"

definition runQuorum :: "(bytes \<Rightarrow> json option) \<Rightarrow> (string \<rightharpoonup> bytes) \<Rightarrow> bytes \<Rightarrow> verifyFlags \<Rightarrow>
    verify_die + verify_outcome" where
  "runQuorum parse files nonce f =
     bindE (rootLoop (FRoots f)) (\<lambda>roots.
     bindE (inputLoop parse files (FArgs f)) (\<lambda>raws.
     let res = VerifyQuorumJSON (map (probeInput parse) raws)
           \<lparr> QNonce = nonce, Roots = roots, Threshold = FQuorum f, QLastCounter = FLastCounter f \<rparr>
     in Inr (if \<not> QOK res then QuorumFail res else QuorumPass res)))"

definition runCoAttest :: "(bytes \<Rightarrow> json option) \<Rightarrow> (string \<rightharpoonup> bytes) \<Rightarrow> Options \<Rightarrow> verifyFlags \<Rightarrow>
    verify_die + verify_outcome" where
  "runCoAttest parse files opt f =
     bindE (inputLoop parse files (FArgs f)) (\<lambda>raws.
     let res = VerifyCoAttestationJSON (map (probeInput parse) raws) opt (FCoAttest f)
     in Inr (if \<not> COK res then CoAttestFail res else CoAttestPass res))"

subsection \<open>One bundle\<close>

definition readBundle :: "(string \<rightharpoonup> bytes) \<Rightarrow> bytes option \<Rightarrow> string list \<Rightarrow> verify_die + bytes" where
  "readBundle files stdin args =
     (case (case args of [] \<Rightarrow> stdin | name # _ \<Rightarrow> files name) of
        None \<Rightarrow> Inl ReadingBundle
      | Some raw \<Rightarrow> Inr raw)"

definition verifyEnvelope :: "(bytes \<Rightarrow> json option) \<Rightarrow> bool \<Rightarrow> bytes \<Rightarrow> Options \<Rightarrow> verify_die + VerifyResult" where
  "verifyEnvelope parse cose raw opt =
     (if cose then
        (case Option.bind (parse raw) unmarshalCOSEBundle of
           None \<Rightarrow> Inl BadCOSEJson | Some cb \<Rightarrow> Inr (VerifyCOSEBundle cb opt))
      else
        (case Option.bind (parse raw) unmarshalBundle of
           None \<Rightarrow> Inl BadBundleJson | Some b \<Rightarrow> Inr (VerifyBundle b opt)))"

definition runSingle :: "(bytes \<Rightarrow> json option) \<Rightarrow> (string \<rightharpoonup> bytes) \<Rightarrow> bytes option \<Rightarrow> bytes \<Rightarrow> verifyFlags \<Rightarrow>
    verify_die + verify_outcome" where
  "runSingle parse files stdin nonce f =
     bindE (readBundle files stdin (FArgs f)) (\<lambda>raw.
     bindE (expectPrevFlag f) (\<lambda>prev.
     bindE (pinFlags f) (\<lambda>pins.
     bindE (verifyEnvelope parse (FCose f) raw
       \<lparr> ExpectedNonce = nonce, PinPubX = fst pins, PinPubY = snd pins, LastCounter = FLastCounter f,
         ExpectedPrevDigest = prev \<rparr>) (\<lambda>res.
     Inr (if \<not> OK res then BundleFail res else BundlePass res)))))"

definition heVerifyMain :: "(bytes \<Rightarrow> json option) \<Rightarrow> (string \<rightharpoonup> bytes) \<Rightarrow> bytes option \<Rightarrow> verifyFlags \<Rightarrow>
    verify_die + verify_outcome" where
  "heVerifyMain parse files stdin f =
     (if FNonce f = [] then Inl NonceRequired
      else case hex_decode (FNonce f) of
        Inl _ \<Rightarrow> Inl NonceHex
      | Inr nonce \<Rightarrow>
          if length (FRoots f) > 0 \<and> FQuorum f = 0 then Inl RootWithoutQuorum
          else if FQuorum f > 0 \<and> FCoAttest f > 0 then Inl ModesExclusive
          else if FQuorum f > 0 then runQuorum parse files nonce f
          else if FCoAttest f > 0 then
            bindE (pinFlags f) (\<lambda>pins.
            runCoAttest parse files
              \<lparr> ExpectedNonce = nonce, PinPubX = fst pins, PinPubY = snd pins, LastCounter = FLastCounter f,
                ExpectedPrevDigest = None \<rparr> f)
          else runSingle parse files stdin nonce f)"

section \<open>What status 0 means\<close>

text \<open>The verification of an input of a quorum or a co-attestation, of either envelope.\<close>

definition probeVerify :: "proverJSON \<Rightarrow> Options \<Rightarrow> VerifyResult" where
  "probeVerify p opt =
     (if PCOSE p \<noteq> [] then
        VerifyCOSEBundle \<lparr> CSchema = PSchema p, COSE = PCOSE p, CPubX = PPubX p, CPubY = PPubY p \<rparr> opt
      else
        VerifyBundle \<lparr> Schema = PSchema p, Payload = PPayload p, Sig = PSig p, PubX = PPubX p, PubY = PPubY p \<rparr> opt)"

lemma parsed_verify:
  "parseProverInput (Some p) = Some pin \<Longrightarrow>
     verify pin = probeVerify p \<and> pubXHex pin = PPubX p \<and> pubYHex pin = PPubY p"
  by (auto simp: parseProverInput_def rawInput_def probeVerify_def Let_def fun_eq_iff split: if_splits)

lemma inputLoop_files:
  "inputLoop parse files names = Inr raws \<Longrightarrow> raw \<in> set raws \<Longrightarrow> \<exists>name\<in>set names. files name = Some raw"
  by (induction names arbitrary: raws) (auto simp: bindE_Inr_iff split: option.splits if_splits)

lemma input_of_file:
  assumes "inputLoop parse files names = Inr raws"
    and "pin \<in> set (List.map_filter parseProverInput (map (probeInput parse) raws))"
  shows "\<exists>name\<in>set names. \<exists>raw p. files name = Some raw \<and> probeInput parse raw = Some p \<and>
    verify pin = probeVerify p \<and> pubXHex pin = PPubX p \<and> pubYHex pin = PPubY p"
proof -
  from assms(2) obtain raw where raw: "raw \<in> set raws" "parseProverInput (probeInput parse raw) = Some pin"
    by (auto simp: List.map_filter_def)
  moreover from this(2) obtain p where "probeInput parse raw = Some p"
    by (cases "probeInput parse raw") (auto simp: parseProverInput_def)
  moreover obtain name where "name \<in> set names" "files name = Some raw"
    using inputLoop_files [OF assms(1) raw(1)] by blast
  ultimately show ?thesis using parsed_verify by fastforce
qed

lemma voting_file:
  assumes "inputLoop parse files names = Inr raws"
    and "voteOf qopt (List.map_filter parseProverInput (map (probeInput parse) raws)) name root"
  shows "\<exists>arg\<in>set names. \<exists>raw p. files arg = Some raw \<and> probeInput parse raw = Some p \<and>
    hex_decode (PPubX p) = Inr (ProverX root) \<and> hex_decode (PPubY p) = Inr (ProverY root) \<and>
    OK (probeVerify p (rootOptions qopt root)) \<and>
    firstVote qopt (List.map_filter parseProverInput (map (probeInput parse) raws)) name =
      Some (the (Pred (probeVerify p (rootOptions qopt root))))"
proof -
  from assms(2) obtain pin where pin: "pin \<in> set (List.map_filter parseProverInput (map (probeInput parse) raws))"
      "matchKeyHex (pubXHex pin) (pubYHex pin) (Roots qopt) = Some root" "OK (verify pin (rootOptions qopt root))"
      "firstVote qopt (List.map_filter parseProverInput (map (probeInput parse) raws)) name =
        Some (the (Pred (verify pin (rootOptions qopt root))))"
    by (auto simp: voteOf_def)
  then show ?thesis
    using input_of_file [OF assms(1) pin(1)] matchKeyHex_SomeD [OF pin(2)] by fastforce
qed

text \<open>The names, keys and bundles behind a quorum the command line reports.\<close>

lemma runQuorum_pass:
  assumes "runQuorum parse files nonce f = Inr (QuorumPass res)"
  shows "\<exists>enrolled roots. rootLoop (FRoots f) = Inr enrolled \<and> set roots \<subseteq> set enrolled \<and>
    FQuorum f \<le> int (length roots) \<and> distinct (map ProverName roots) \<and>
    distinct (map (\<lambda>r. (ProverX r, ProverY r)) roots) \<and>
    (\<forall>root\<in>set roots. \<exists>arg\<in>set (FArgs f). \<exists>raw p pr. files arg = Some raw \<and> probeInput parse raw = Some p \<and>
       hex_decode (PPubX p) = Inr (ProverX root) \<and> hex_decode (PPubY p) = Inr (ProverY root) \<and>
       OK (probeVerify p \<lparr> ExpectedNonce = nonce, PinPubX = Some (ProverX root), PinPubY = Some (ProverY root),
         LastCounter = FLastCounter f, ExpectedPrevDigest = None \<rparr>) \<and>
       Pred (probeVerify p \<lparr> ExpectedNonce = nonce, PinPubX = Some (ProverX root), PinPubY = Some (ProverY root),
         LastCounter = FLastCounter f, ExpectedPrevDigest = None \<rparr>) = Some pr \<and> EventName pr = QEvent res)"
proof -
  from assms obtain enrolled raws where l: "rootLoop (FRoots f) = Inr enrolled"
      "inputLoop parse files (FArgs f) = Inr raws"
    and res: "res = VerifyQuorumJSON (map (probeInput parse) raws)
        \<lparr> QNonce = nonce, Roots = enrolled, Threshold = FQuorum f, QLastCounter = FLastCounter f \<rparr>" "QOK res"
    by (auto simp: runQuorum_def bindE_Inr_iff Let_def split: if_splits)
  let ?q = "\<lparr> QNonce = nonce, Roots = enrolled, Threshold = FQuorum f, QLastCounter = FLastCounter f \<rparr>"
  let ?pins = "List.map_filter parseProverInput (map (probeInput parse) raws)"
  from res quorumCore_ok [of ?pins ?q] obtain e where k: "FQuorum f \<le> int (card (dom (firstVote ?q ?pins)))"
      and ev: "EventName ` ran (firstVote ?q ?pins) = {e}" and qe: "QEvent res = e"
    by (auto simp: VerifyQuorumJSON_def)
  obtain roots where r: "length roots = card (dom (firstVote ?q ?pins))"
      "\<forall>root\<in>set roots. voteOf ?q ?pins (ProverName root) root"
      "distinct (map ProverName roots)" "distinct (map (\<lambda>r. (ProverX r, ProverY r)) roots)"
    using voting_roots by blast
  have "\<exists>arg\<in>set (FArgs f). \<exists>raw p pr. files arg = Some raw \<and> probeInput parse raw = Some p \<and>
       hex_decode (PPubX p) = Inr (ProverX root) \<and> hex_decode (PPubY p) = Inr (ProverY root) \<and>
       OK (probeVerify p (rootOptions ?q root)) \<and> Pred (probeVerify p (rootOptions ?q root)) = Some pr \<and>
       EventName pr = QEvent res" if "root \<in> set roots" for root
  proof -
    from voting_file [OF l(2) bspec [OF r(2) that]] obtain arg raw p where v: "arg \<in> set (FArgs f)"
        "files arg = Some raw" "probeInput parse raw = Some p" "hex_decode (PPubX p) = Inr (ProverX root)"
        "hex_decode (PPubY p) = Inr (ProverY root)" "OK (probeVerify p (rootOptions ?q root))"
        "firstVote ?q ?pins (ProverName root) = Some (the (Pred (probeVerify p (rootOptions ?q root))))"
      by blast
    from v(6) obtain pr where pr: "Pred (probeVerify p (rootOptions ?q root)) = Some pr"
      using raw_verifier.accepted cose_verifier.accepted by (auto simp: probeVerify_def split: if_splits) metis+
    with v(7) have "pr \<in> ran (firstVote ?q ?pins)" by (auto intro: ranI)
    then have "EventName pr = QEvent res" using ev qe by auto
    with v pr show ?thesis by blast
  qed
  moreover have "set roots \<subseteq> set enrolled" using r(2) by (auto simp: voteOf_def)
  ultimately show ?thesis using l(1) k r(1,3,4) by (intro exI [of _ enrolled] exI [of _ roots]) (simp add: rootOptions_def)
qed

text \<open>The sensor inputs attested by the files of a co-attestation.\<close>

definition attestedInputs :: "(bytes \<Rightarrow> json option) \<Rightarrow> (string \<rightharpoonup> bytes) \<Rightarrow> string list \<Rightarrow> Options \<Rightarrow> bytes set" where
  "attestedInputs parse files names opt =
     {InputHash pr | pr arg raw p. arg \<in> set names \<and> files arg = Some raw \<and> probeInput parse raw = Some p \<and>
        OK (probeVerify p opt) \<and> Pred (probeVerify p opt) = Some pr}"

lemma finite_attestedInputs: "finite (attestedInputs parse files names opt)"
proof (rule finite_subset)
  let ?h = "\<lambda>arg. InputHash (the (Pred (probeVerify (the (probeInput parse (the (files arg)))) opt)))"
  show "attestedInputs parse files names opt \<subseteq> ?h ` set names"
    by (force simp: attestedInputs_def)
qed simp

lemma runCoAttest_pass:
  assumes "runCoAttest parse files opt f = Inr (CoAttestPass res)"
  shows "FCoAttest f \<le> int (card (attestedInputs parse files (FArgs f) opt))"
proof -
  from assms obtain raws where l: "inputLoop parse files (FArgs f) = Inr raws"
    and ok: "COK (VerifyCoAttestationJSON (map (probeInput parse) raws) opt (FCoAttest f))"
    by (auto simp: runCoAttest_def bindE_Inr_iff Let_def split: if_splits)
  let ?pins = "List.map_filter parseProverInput (map (probeInput parse) raws)"
  have "acceptedInputs ?pins opt \<subseteq> attestedInputs parse files (FArgs f) opt"
    using input_of_file [OF l] by (fastforce simp: acceptedInputs_def attestedInputs_def)
  then have "card (acceptedInputs ?pins opt) \<le> card (attestedInputs parse files (FArgs f) opt)"
    by (rule card_mono [OF finite_attestedInputs])
  moreover have "card (hex_encode ` acceptedInputs ?pins opt) = card (acceptedInputs ?pins opt)"
    by (intro card_image inj_onI) simp
  ultimately show ?thesis
    using ok by (auto simp: VerifyCoAttestationJSON_def coAttestCore_def Let_def length_modalityLoop split: if_splits)
qed

text \<open>The pins and the previous digest the flags ask for: none, or 32 bytes in hexadecimal.\<close>

definition pinsGiven :: "verifyFlags \<Rightarrow> bytes option \<times> bytes option \<Rightarrow> bool" where
  "pinsGiven f pins \<longleftrightarrow>
     (if FPinX f = [] \<and> FPinY f = [] then pins = (None, None)
      else \<exists>x y. hex_decode (FPinX f) = Inr x \<and> length x = 32 \<and> hex_decode (FPinY f) = Inr y \<and> length y = 32 \<and>
        pins = (Some x, Some y))"

definition prevGiven :: "verifyFlags \<Rightarrow> bytes option \<Rightarrow> bool" where
  "prevGiven f prev \<longleftrightarrow>
     (if FExpectPrev f = [] then prev = None
      else \<exists>d. hex_decode (FExpectPrev f) = Inr d \<and> length d = 32 \<and> prev = Some d)"

lemma hex32_Inr: "hex32 e s = Inr b \<longleftrightarrow> hex_decode s = Inr b \<and> length b = 32"
  by (auto simp: hex32_def split: sum.splits)

lemma pinsGiven_iff: "pinsGiven f pins \<longleftrightarrow> pinFlags f = Inr pins"
  by (auto simp: pinsGiven_def pinFlags_def bindE_Inr_iff hex32_Inr)

lemma prevGiven_iff: "prevGiven f prev \<longleftrightarrow> expectPrevFlag f = Inr prev"
  by (auto simp: prevGiven_def expectPrevFlag_def bindE_Inr_iff hex32_Inr)

text \<open>C7: When he-verify exits with status 0, what it was asked for holds of the files it was given. With
  \<open>--quorum k\<close>, at least k enrolled roots with different names and keys each have a file that verifies
  pinned to it for the nonce, all for one event; with \<open>--co-attest k\<close>, files that verify for the nonce
  attest at least k different sensor inputs; otherwise the one bundle verifies, for the envelope
  asked for, under the pin and the previous digest given.\<close>

theorem he_verify_status_0:
  assumes "verifyExit (heVerifyMain parse files stdin f) = 0"
  shows "\<exists>nonce. FNonce f \<noteq> [] \<and> hex_decode (FNonce f) = Inr nonce \<and>
    (if 0 < FQuorum f then
       \<exists>enrolled roots e. rootLoop (FRoots f) = Inr enrolled \<and> set roots \<subseteq> set enrolled \<and>
         FQuorum f \<le> int (length roots) \<and> distinct (map ProverName roots) \<and>
         distinct (map (\<lambda>r. (ProverX r, ProverY r)) roots) \<and>
         (\<forall>root\<in>set roots. \<exists>arg\<in>set (FArgs f). \<exists>raw p pr. files arg = Some raw \<and> probeInput parse raw = Some p \<and>
            hex_decode (PPubX p) = Inr (ProverX root) \<and> hex_decode (PPubY p) = Inr (ProverY root) \<and>
            OK (probeVerify p \<lparr> ExpectedNonce = nonce, PinPubX = Some (ProverX root), PinPubY = Some (ProverY root),
              LastCounter = FLastCounter f, ExpectedPrevDigest = None \<rparr>) \<and>
            Pred (probeVerify p \<lparr> ExpectedNonce = nonce, PinPubX = Some (ProverX root), PinPubY = Some (ProverY root),
              LastCounter = FLastCounter f, ExpectedPrevDigest = None \<rparr>) = Some pr \<and> EventName pr = e)
     else \<exists>pins. pinsGiven f pins \<and>
       (if 0 < FCoAttest f then
          FCoAttest f \<le> int (card (attestedInputs parse files (FArgs f)
            \<lparr> ExpectedNonce = nonce, PinPubX = fst pins, PinPubY = snd pins, LastCounter = FLastCounter f,
              ExpectedPrevDigest = None \<rparr>))
        else \<exists>raw prev res. readBundle files stdin (FArgs f) = Inr raw \<and> prevGiven f prev \<and>
          verifyEnvelope parse (FCose f) raw
            \<lparr> ExpectedNonce = nonce, PinPubX = fst pins, PinPubY = snd pins, LastCounter = FLastCounter f,
              ExpectedPrevDigest = prev \<rparr> = Inr res \<and> OK res))"
proof -
  from assms obtain nonce where n: "FNonce f \<noteq> []" "hex_decode (FNonce f) = Inr nonce"
    by (auto simp: heVerifyMain_def verifyExit_def split: sum.splits if_splits)
  let ?q = "FQuorum f" and ?c = "FCoAttest f"
  consider (quorum) "0 < ?q" | (coattest) "\<not> 0 < ?q" "0 < ?c" | (single) "\<not> 0 < ?q" "\<not> 0 < ?c" by blast
  then show ?thesis
  proof cases
    case quorum
    then have "verifyExit (runQuorum parse files nonce f) = 0"
      using assms n by (auto simp: heVerifyMain_def verifyExit_def split: if_splits)
    then obtain res where "runQuorum parse files nonce f = Inr (QuorumPass res)"
      by (auto simp: verifyExit_def runQuorum_def Let_def bindE_def split: sum.splits if_splits)
    from runQuorum_pass [OF this] n quorum show ?thesis by auto
  next
    case coattest
    then obtain pins where p: "pinFlags f = Inr pins"
      and e: "verifyExit (runCoAttest parse files \<lparr> ExpectedNonce = nonce, PinPubX = fst pins, PinPubY = snd pins,
        LastCounter = FLastCounter f, ExpectedPrevDigest = None \<rparr> f) = 0"
      using assms n by (cases "pinFlags f") (auto simp: heVerifyMain_def verifyExit_def split: if_splits)
    then obtain res where "runCoAttest parse files \<lparr> ExpectedNonce = nonce, PinPubX = fst pins, PinPubY = snd pins,
        LastCounter = FLastCounter f, ExpectedPrevDigest = None \<rparr> f = Inr (CoAttestPass res)"
      by (auto simp: verifyExit_def runCoAttest_def Let_def bindE_def split: sum.splits if_splits)
    from runCoAttest_pass [OF this] n p coattest show ?thesis by (auto simp: pinsGiven_iff)
  next
    case single
    then have "verifyExit (runSingle parse files stdin nonce f) = 0"
      using assms n by (auto simp: heVerifyMain_def verifyExit_def split: if_splits)
    then obtain res where "runSingle parse files stdin nonce f = Inr (BundlePass res)"
      by (auto simp: verifyExit_def runSingle_def bindE_def split: sum.splits if_splits)
    with n single show ?thesis
      by (auto simp: runSingle_def bindE_Inr_iff pinsGiven_iff prevGiven_iff split: if_splits)
  qed
qed

end
