(* ===== verification/Dump_Cli.thy ===== *)
theory Dump_Cli
  imports Verify_Cli
begin

text \<open>
  The audit aid he-dump (cmd/he-dump/main.go), which decodes a bundle without verifying it. \<open>parse\<close> is the
  parser of JSON texts and \<open>errText\<close> the text of a decoding error; the output is the list of lines
  printed. \<open>cli.Die\<close> (status 2) is \<open>Inl\<close>.
\<close>

datatype dump_error =
    DumpPayload payload_error
  | BadCOSEBundle cose_payload_error
  | BadPayloadHex hex_error

datatype dump_die =
    PayloadFlagHex hex_error
  | ReadBundle
  | ParseBundle

section \<open>Decoding\<close>

definition dumpPayload :: "bytes \<Rightarrow> bytes \<times> (dump_error + Predicate)" where
  "dumpPayload payload = (payload, wrapE DumpPayload (DecodePayload payload))"

definition decodeBundle :: "(bytes \<Rightarrow> json option) \<Rightarrow> bytes \<Rightarrow>
    dump_die + Bundle \<times> bytes \<times> (dump_error + Predicate)" where
  "decodeBundle parse raw =
     (case Option.bind (parse raw) unmarshalBundle of
        None \<Rightarrow> Inl ParseBundle
      | Some b \<Rightarrow>
          Inr (case (if Payload b = [] then Option.bind (parse raw) unmarshalCOSEBundle else None) of
             Some cb \<Rightarrow>
               if COSE cb \<noteq> [] then
                 (case COSEPayload (COSE cb) of
                    Inl e \<Rightarrow> (b, [], Inl (BadCOSEBundle e))
                  | Inr payload \<Rightarrow> (b\<lparr> Schema := CSchema cb \<rparr>, dumpPayload payload))
               else
                 (case hex_decode (Payload b) of
                    Inl e \<Rightarrow> (b, [], Inl (BadPayloadHex e)) | Inr payload \<Rightarrow> (b, dumpPayload payload))
           | None \<Rightarrow>
               (case hex_decode (Payload b) of
                  Inl e \<Rightarrow> (b, [], Inl (BadPayloadHex e)) | Inr payload \<Rightarrow> (b, dumpPayload payload))))"

section \<open>Printing\<close>

text \<open>The ellipsis is three bytes of UTF-8.\<close>

definition short :: "string \<Rightarrow> string" where
  "short s =
     (if length s \<le> 24 then s
      else take 16 s @ [CHR 0xE2, CHR 0x80, CHR 0xA6] @ drop (length s - 8) s)"

definition isZero :: "bytes \<Rightarrow> bool" where
  "isZero b \<longleftrightarrow> (\<forall>x\<in>set b. x = 0) \<and> length b > 0"

definition render :: "(dump_error \<Rightarrow> string) \<Rightarrow> Bundle option \<Rightarrow> bytes \<Rightarrow> dump_error + Predicate \<Rightarrow> string list" where
  "render errText b payload decoded =
     [''he-dump '' @ dash @ '' DECODE ONLY (no signature / freshness / anti-replay check)''] @
     (case b of
        None \<Rightarrow> []
      | Some b \<Rightarrow>
          [''  schema       : '' @ Schema b, ''  payload_len  : '' @ dec (length payload) @ '' bytes'',
           ''  sig          : '' @ short (Sig b), ''  pub_x        : '' @ short (PubX b),
           ''  pub_y        : '' @ short (PubY b)]) @
     (case decoded of
        Inl e \<Rightarrow> [''  decode       : FAILED '' @ dash @ '' '' @ errText e]
      | Inr p \<Rightarrow>
          [''  predicate:'',
           ''    version    : '' @ showUint (Version p),
           ''    event      : '' @ EventName p @ '' ('' @ showUint (EventID p) @ '')'',
           ''    presence   : '' @ showUint (Presence p),
           ''    voice      : '' @ showBool (VoiceActive p),
           ''    frames     : '' @ showUint (Frames p) @ ''  (~'' @ showUint (WindowMs p) @ '' ms observed)'',
           ''    counter    : '' @ showUint (Counter p),
           ''    nonce      : '' @ hex_encode (Nonce p),
           ''    config_hash: '' @ hex_encode (ConfigHash p),
           ''    input_hash : '' @ hex_encode (InputHash p),
           ''    prev_digest: '' @ hex_encode (PrevDigest p) @
             (if isZero (PrevDigest p) then ''  (genesis '' @ dash @ '' first in the stream)'' else [])])"

text \<open>\<open>main\<close>: \<open>payloadHex\<close> is the flag, \<open>input\<close> the file named or the standard input. The result is what is
  printed and the exit status.\<close>

definition dumpMain :: "(bytes \<Rightarrow> json option) \<Rightarrow> (dump_error \<Rightarrow> string) \<Rightarrow> string \<Rightarrow> bytes option \<Rightarrow>
    dump_die + string list \<times> int" where
  "dumpMain parse errText payloadHex input =
     (if payloadHex \<noteq> [] then
        (case hex_decode payloadHex of
           Inl e \<Rightarrow> Inl (PayloadFlagHex e)
         | Inr payload \<Rightarrow>
             let d = snd (dumpPayload payload)
             in Inr (render errText None payload d, if isOk d then 0 else 1))
      else
        (case input of
           None \<Rightarrow> Inl ReadBundle
         | Some raw \<Rightarrow>
             bindE (decodeBundle parse raw) (\<lambda>(b, payload, d).
             Inr (render errText (Some b) payload d, if isOk d then 0 else 1))))"

section \<open>What the decoder shows\<close>

lemma dump_raw:
  assumes "Option.bind (parse raw) unmarshalBundle = Some b" "Payload b \<noteq> []"
  shows "decodeBundle parse raw =
    Inr (case hex_decode (Payload b) of
           Inl e \<Rightarrow> (b, [], Inl (BadPayloadHex e)) | Inr payload \<Rightarrow> (b, dumpPayload payload))"
  using assms by (simp add: decodeBundle_def)

lemma decode_empty: "DecodePayload [] = Inl (PayloadCbor UnexpectedEnd)"
  by (simp add: DecodePayload_def readHead_Nil)

text \<open>The payload an accepted bundle carries decodes to the predicate of the result.\<close>

lemma raw_accepted_payload:
  assumes "OK (VerifyBundle b opt)"
  obtains payload p where "hex_decode (Payload b) = Inr payload" "DecodePayload payload = Inr p"
    "Pred (VerifyBundle b opt) = Some p" "Payload b \<noteq> []"
proof -
  from assms obtain payload sig px py where h: "hex_decode (Payload b) = Inr payload"
      "hex_decode (Sig b) = Inr sig" "hex_decode (PubX b) = Inr px" "hex_decode (PubY b) = Inr py"
      "keyPinned px py opt" "deviceSigned px py payload sig" and ok: "OK (gatesAfterSig payload opt)"
    by (auto simp: VerifyBundle_ok)
  obtain p where p: "DecodePayload payload = Inr p" "Pred (gatesAfterSig payload opt) = Some p"
    using gatesAfterSig_result [OF ok] by auto
  moreover have "Payload b \<noteq> []" using h(1) p(1) decode_empty by auto
  ultimately show ?thesis using that h(1) VerifyBundle_run [OF h] by simp
qed

lemma cose_accepted_payload:
  assumes "OK (VerifyCOSEBundle b opt)"
  obtains payload p where "COSEPayload (COSE b) = Inr payload" "DecodePayload payload = Inr p"
    "Pred (VerifyCOSEBundle b opt) = Some p" "COSE b \<noteq> []"
proof -
  from assms obtain cose pb payload plb sig px py where h: "hex_decode (COSE b) = Inr cose"
      "parseCOSESign1 cose = Inr (pb, payload, plb, sig)" "hex_decode (CPubX b) = Inr px"
      "hex_decode (CPubY b) = Inr py" "keyPinned px py opt" "deviceSigned px py (coseSigStruct pb plb) sig"
    and ok: "OK (gatesAfterSig payload opt)"
    by (auto simp: VerifyCOSEBundle_ok)
  obtain p where p: "DecodePayload payload = Inr p" "Pred (gatesAfterSig payload opt) = Some p"
    using gatesAfterSig_result [OF ok] by auto
  have "VerifyCOSEBundle b opt = gatesAfterSig payload opt"
    using h by (simp add: VerifyCOSEBundle_def pinOK_iff deviceSigned_iff)
  moreover have "parseCOSESign1 [] \<noteq> Inr (pb, payload, plb, sig)"
    by (simp add: parseCOSESign1_def readHead_Nil)
  then have "COSE b \<noteq> []" using h(1,2) by auto
  ultimately show ?thesis using that h(1,2) p by (simp add: COSEPayload_def)
qed

section \<open>Properties\<close>

text \<open>he-dump shows the predicate that was verified: for a text that he-verify accepts, he-dump exits with
  status 0 and prints the fields of the predicate of the verdict, in COSE mode if the text has no
  \<open>payload\<close> member.\<close>

theorem dump_shows_what_is_verified:
  assumes "verifyEnvelope parse cose raw opt = Inr res" "OK res"
    and "Option.bind (parse raw) unmarshalBundle = Some b" and "cose \<longrightarrow> Payload b = []"
  shows "\<exists>b' payload p. Pred res = Some p \<and>
    dumpMain parse errText [] (Some raw) = Inr (render errText (Some b') payload (Inr p), 0)"
proof (cases cose)
  case False
  with assms(1,3) have res: "res = VerifyBundle b opt" by (simp add: verifyEnvelope_def)
  with assms(2) have "OK (VerifyBundle b opt)" by simp
  then obtain payload p where "hex_decode (Payload b) = Inr payload" "DecodePayload payload = Inr p"
      "Pred res = Some p" "Payload b \<noteq> []"
    unfolding res by (rule raw_accepted_payload)
  with dump_raw [of parse raw b] assms(3)
  have "dumpMain parse errText [] (Some raw) = Inr (render errText (Some b) payload (Inr p), 0)"
    by (simp add: dumpMain_def dumpPayload_def isOk_def)
  with \<open>Pred res = Some p\<close> show ?thesis by blast
next
  case True
  with assms(1) obtain cb where cb: "Option.bind (parse raw) unmarshalCOSEBundle = Some cb"
      "res = VerifyCOSEBundle cb opt"
    by (cases "Option.bind (parse raw) unmarshalCOSEBundle") (simp_all add: verifyEnvelope_def)
  with assms(2) have "OK (VerifyCOSEBundle cb opt)" by simp
  then obtain payload p where "COSEPayload (COSE cb) = Inr payload" "DecodePayload payload = Inr p"
      "Pred res = Some p" "COSE cb \<noteq> []"
    unfolding cb(2) by (rule cose_accepted_payload)
  with cb(1) assms(3,4) True
  have "dumpMain parse errText [] (Some raw) = Inr (render errText (Some (b\<lparr> Schema := CSchema cb \<rparr>)) payload (Inr p), 0)"
    by (simp add: dumpMain_def decodeBundle_def dumpPayload_def isOk_def)
  with \<open>Pred res = Some p\<close> show ?thesis by blast
qed

text \<open>A text that has both a \<open>payload\<close> and a \<open>cose\<close> member.\<close>

definition bothText :: "COSEBundle \<Rightarrow> Predicate \<Rightarrow> json" where
  "bothText cb q = JObject [(''schema'', JString (CSchema cb)), (''payload'', JString (hex_encode (encodePayload q))),
     (''cose'', JString (COSE cb)), (''sig'', JString []), (''pub_x'', JString (CPubX cb)),
     (''pub_y'', JString (CPubY cb))]"

lemma bothText_fields:
  "unmarshalCOSEBundle (bothText cb q) = Some cb"
  "unmarshalBundle (bothText cb q) = Some \<lparr> Schema = CSchema cb, Payload = hex_encode (encodePayload q), Sig = [],
     PubX = CPubX cb, PubY = CPubY cb \<rparr>"
  by (cases cb; simp add: unmarshalCOSEBundle_def unmarshalBundle_def stringField_def bothText_def members_def
      decString_def json_names del: foldName.simps)+

text \<open>he-dump can show another predicate than the one verified: whatever COSE envelope and predicate are
  put in one text, \<open>he-verify --cose\<close> verifies the envelope and he-dump prints the predicate.\<close>

theorem dump_shows_another_predicate:
  "verifyEnvelope (\<lambda>_. Some (bothText cb q)) True raw opt = Inr (VerifyCOSEBundle cb opt) \<and>
   decodeBundle (\<lambda>_. Some (bothText cb q)) raw =
     Inr (\<lparr> Schema = CSchema cb, Payload = hex_encode (encodePayload q), Sig = [], PubX = CPubX cb,
       PubY = CPubY cb \<rparr>, dumpPayload (encodePayload q))"
proof -
  have "encodePayload q \<noteq> []" by (simp add: encodePayload_def)
  then have "hex_encode (encodePayload q) \<noteq> []" by (simp only: hex_encode_nonempty not_False_eq_True)
  then show ?thesis
    using dump_raw [of "\<lambda>_. Some (bothText cb q)" raw]
    by (simp add: verifyEnvelope_def bothText_fields)
qed

end
