(* ===== verification/Gui.thy ===== *)
theory Gui
  imports Verify_Cli
begin

text \<open>
  The browser demonstration he-gui (cmd/he-gui/main.go): the handlers \<open>/listen\<close> and \<open>/verify\<close> and the
  counter they share. The body of a request, the random bytes, the temporary file, the simulator
  he-attest-sim and the JSON decoder are arguments.
\<close>

datatype gui_reason =
    NoAudio
  | OddBytes
  | TempFailed
  | WriteFailed
  | RngFailed
  | SimFailed
  | ParseFailed
  | BadBundle
  | BadNonceHex
  | Verdict reason

record gresult =
  GVerified :: bool
  GEvent :: string
  GPresence :: bool
  GVoice :: bool
  GReason :: gui_reason
  GCounter :: u64
  GNonce :: string
  GPayload :: string
  GSig :: string
  GPubX :: string
  GPubY :: string

definition emptyResult :: "gui_reason \<Rightarrow> gresult" where
  "emptyResult why = \<lparr> GVerified = False, GEvent = [], GPresence = False, GVoice = False, GReason = why,
     GCounter = 0, GNonce = [], GPayload = [], GSig = [], GPubX = [], GPubY = [] \<rparr>"

definition fillVerified :: "gresult \<Rightarrow> VerifyResult \<Rightarrow> gresult" where
  "fillVerified res v =
     (case Pred v of
        None \<Rightarrow> res
      | Some p \<Rightarrow>
          if OK v then res\<lparr> GEvent := EventName p, GPresence := (Presence p = 1), GVoice := VoiceActive p \<rparr> else res)"

section \<open>/listen\<close>

datatype temp_file = CreateError | WriteError | TempOk

text \<open>\<open>sim pcm nonce ctr\<close> is the standard output of the simulator, None when it fails. The counter is drawn
  once the random bytes are there, and never given back.\<close>

definition process :: "(bytes \<Rightarrow> json option) \<Rightarrow> (bytes \<Rightarrow> string \<Rightarrow> string \<Rightarrow> bytes option) \<Rightarrow> temp_file \<Rightarrow>
    bytes option \<Rightarrow> bytes \<Rightarrow> u64 \<Rightarrow> gresult \<times> u64" where
  "process parse sim temp rand pcm counter =
     (case temp of
        CreateError \<Rightarrow> (emptyResult TempFailed, counter)
      | WriteError \<Rightarrow> (emptyResult WriteFailed, counter)
      | TempOk \<Rightarrow>
     (case rand of
        None \<Rightarrow> (emptyResult RngFailed, counter)
      | Some nb \<Rightarrow>
          let nonce = hex_encode nb; ctr = counter + 1 in
          (case sim pcm nonce (dec (unat ctr)) of
             None \<Rightarrow> (emptyResult SimFailed, ctr)
           | Some out \<Rightarrow>
          (case Option.bind (parse out) unmarshalBundle of
             None \<Rightarrow> (emptyResult ParseFailed, ctr)
           | Some b \<Rightarrow>
               let v = VerifyBundle b \<lparr> ExpectedNonce = nb, PinPubX = None, PinPubY = None, LastCounter = ctr - 1,
                         ExpectedPrevDigest = None \<rparr>;
                   res = \<lparr> GVerified = OK v, GEvent = [], GPresence = False, GVoice = False, GReason = Verdict (Reason v),
                           GCounter = ctr, GNonce = nonce, GPayload = Payload b, GSig = Sig b, GPubX = PubX b,
                           GPubY = PubY b \<rparr>
               in (fillVerified res v, ctr)))))"

datatype gui_response = MethodNotAllowed | Answer gresult

text \<open>\<open>body\<close> is what can be read of the body, None for an error; at most 8 MiB are looked at.\<close>

definition listenHandler :: "(bytes \<Rightarrow> json option) \<Rightarrow> (bytes \<Rightarrow> string \<Rightarrow> string \<Rightarrow> bytes option) \<Rightarrow> temp_file \<Rightarrow>
    bytes option \<Rightarrow> string \<Rightarrow> bytes option \<Rightarrow> u64 \<Rightarrow> gui_response \<times> u64" where
  "listenHandler parse sim temp rand httpMethod body counter =
     (if httpMethod \<noteq> ''POST'' then (MethodNotAllowed, counter)
      else case map_option (take (8 * 2 ^ 20)) body of
        None \<Rightarrow> (Answer (emptyResult NoAudio), counter)
      | Some pcm \<Rightarrow>
          if length pcm < 64 then (Answer (emptyResult NoAudio), counter)
          else if length pcm mod 2 \<noteq> 0 then (Answer (emptyResult OddBytes), counter)
          else let (res, counter') = process parse sim temp rand pcm counter in (Answer res, counter'))"

section \<open>/verify\<close>

text \<open>\<open>decodeBody\<close> is the first JSON value of the body, read through the limit of 1 MiB. The struct has the
  nonce and the fields of the bundle embedded in it.\<close>

definition verifyHandler :: "json option \<Rightarrow> string \<Rightarrow> gui_response" where
  "verifyHandler decodeBody httpMethod =
     (if httpMethod \<noteq> ''POST'' then MethodNotAllowed
      else case Option.bind decodeBody (\<lambda>j. Option.bind (stringField ''nonce'' j) (\<lambda>nonce.
                  Option.bind (unmarshalBundle j) (\<lambda>b. Some (nonce, b)))) of
        None \<Rightarrow> Answer (emptyResult BadBundle)
      | Some (nonce, b) \<Rightarrow>
     (case hex_decode nonce of
        Inl _ \<Rightarrow> Answer (emptyResult BadNonceHex)
      | Inr nb \<Rightarrow>
          let v = VerifyBundle b \<lparr> ExpectedNonce = nb, PinPubX = None, PinPubY = None, LastCounter = 0,
                    ExpectedPrevDigest = None \<rparr>;
              res = (emptyResult (Verdict (Reason v)))\<lparr> GVerified := OK v \<rparr>
          in Answer (fillVerified res v)))"

section \<open>What the page shows\<close>

text \<open>An answer is backed by the bundle \<open>b\<close> for the options \<open>opt\<close>: it shows the predicate of the verdict, or
  nothing.\<close>

definition backed :: "gresult \<Rightarrow> Bundle \<Rightarrow> Options \<Rightarrow> bool" where
  "backed res b opt \<longleftrightarrow> GVerified res = OK (VerifyBundle b opt) \<and>
     (case (if OK (VerifyBundle b opt) then Pred (VerifyBundle b opt) else None) of
        Some p \<Rightarrow> GEvent res = EventName p \<and> GPresence res = (Presence p = 1) \<and> GVoice res = VoiceActive p
      | None \<Rightarrow> GEvent res = [] \<and> \<not> GPresence res \<and> \<not> GVoice res)"

lemma fillVerified_fields [simp]:
  "GVerified (fillVerified res v) = GVerified res" "GReason (fillVerified res v) = GReason res"
  "GCounter (fillVerified res v) = GCounter res" "GNonce (fillVerified res v) = GNonce res"
  "GPayload (fillVerified res v) = GPayload res" "GSig (fillVerified res v) = GSig res"
  "GPubX (fillVerified res v) = GPubX res" "GPubY (fillVerified res v) = GPubY res"
  by (simp_all add: fillVerified_def split: option.splits)

lemma fillVerified_backed:
  "GVerified res = OK (VerifyBundle b opt) \<Longrightarrow> GEvent res = [] \<Longrightarrow> \<not> GPresence res \<Longrightarrow> \<not> GVoice res \<Longrightarrow>
     backed (fillVerified res (VerifyBundle b opt)) b opt"
  by (simp add: backed_def) (simp add: fillVerified_def split: option.splits)

definition guiOptions :: "bytes \<Rightarrow> u64 \<Rightarrow> Options" where
  "guiOptions nb lastCounter = \<lparr> ExpectedNonce = nb, PinPubX = None, PinPubY = None, LastCounter = lastCounter,
     ExpectedPrevDigest = None \<rparr>"

lemma process_cases:
  obtains (refused) why ctr where "process parse sim temp rand pcm counter = (emptyResult why, ctr)" "ctr \<in> {counter, counter + 1}"
  | (verdict) nb out b res where "temp = TempOk" "rand = Some nb" "sim pcm (hex_encode nb) (dec (unat (counter + 1))) = Some out"
      "Option.bind (parse out) unmarshalBundle = Some b"
      "process parse sim temp rand pcm counter = (res, counter + 1)"
      "backed res b (guiOptions nb counter)" "GCounter res = counter + 1" "GNonce res = hex_encode nb"
      "GPayload res = Payload b" "GSig res = Sig b" "GPubX res = PubX b" "GPubY res = PubY b"
proof (cases "\<exists>nb out b. temp = TempOk \<and> rand = Some nb \<and> sim pcm (hex_encode nb) (dec (unat (counter + 1))) = Some out \<and>
    Option.bind (parse out) unmarshalBundle = Some b")
  case True
  then obtain nb out b where h: "temp = TempOk" "rand = Some nb" "sim pcm (hex_encode nb) (dec (unat (counter + 1))) = Some out"
      "Option.bind (parse out) unmarshalBundle = Some b" by blast
  let ?v = "VerifyBundle b (guiOptions nb counter)"
  let ?res = "fillVerified \<lparr> GVerified = OK ?v, GEvent = [], GPresence = False, GVoice = False, GReason = Verdict (Reason ?v),
    GCounter = counter + 1, GNonce = hex_encode nb, GPayload = Payload b, GSig = Sig b, GPubX = PubX b, GPubY = PubY b \<rparr> ?v"
  have run: "process parse sim temp rand pcm counter = (?res, counter + 1)"
    using h by (simp add: process_def Let_def guiOptions_def)
  have "backed ?res b (guiOptions nb counter)" by (rule fillVerified_backed) simp_all
  then show ?thesis by (rule verdict [OF h run]) simp_all
next
  case False
  then obtain why ctr where "process parse sim temp rand pcm counter = (emptyResult why, ctr)" "ctr \<in> {counter, counter + 1}"
    by (cases temp; cases rand; cases "sim pcm (hex_encode (the rand)) (dec (unat (counter + 1)))")
      (auto simp: process_def Let_def split: option.splits)
  then show ?thesis by (rule refused)
qed

text \<open>What a backed, verified answer rests on.\<close>

lemma backed_verified:
  assumes "backed res b (guiOptions nb c)" "GVerified res"
  obtains p sig px py where "hex_decode (Payload b) = Inr (encodePayload p)" "hex_decode (Sig b) = Inr sig"
    "hex_decode (PubX b) = Inr px" "hex_decode (PubY b) = Inr py" "deviceSigned px py (encodePayload p) sig"
    "Nonce p = nb" "nb \<noteq> []" "c < Counter p" "GEvent res = EventName p" "GPresence res = (Presence p = 1)"
    "GVoice res = VoiceActive p" "freshPredicate p (guiOptions nb c)" "validPredicate p"
proof -
  from assms have ok: "OK (VerifyBundle b (guiOptions nb c))" by (simp add: backed_def)
  then obtain payload sig px py where h: "hex_decode (Payload b) = Inr payload"
      "hex_decode (Sig b) = Inr sig" "hex_decode (PubX b) = Inr px" "hex_decode (PubY b) = Inr py"
      "keyPinned px py (guiOptions nb c)" "deviceSigned px py payload sig"
    and g: "OK (gatesAfterSig payload (guiOptions nb c))"
    by (auto simp: VerifyBundle_ok)
  obtain p where p: "DecodePayload payload = Inr p" "Pred (gatesAfterSig payload (guiOptions nb c)) = Some p"
    using gatesAfterSig_result [OF g] by auto
  have f: "freshPredicate p (guiOptions nb c)" using g p(1) by (simp add: gatesAfterSig_ok)
  have "Pred (VerifyBundle b (guiOptions nb c)) = Some p" using VerifyBundle_run [OF h] p(2) by simp
  then have "GEvent res = EventName p" "GPresence res = (Presence p = 1)" "GVoice res = VoiceActive p"
    using assms(1) ok by (simp_all add: backed_def)
  then show ?thesis
    using that [OF _ h(2-4)] h DecodePayload_sound [OF p(1)] f
    by (auto simp: freshPredicate_def guiOptions_def)
qed

section \<open>Properties\<close>

text \<open>The page shows an event only for a bundle that was verified: a verified answer of \<open>/listen\<close> shows the
  predicate of the payload it carries, signed under the key it carries for the nonce drawn for this
  request and with a counter above the previous one; any other answer shows no event, no presence and
  no voice.\<close>

theorem listen_shows_only_verified:
  "case listenHandler parse sim temp rand httpMethod body counter of
     (MethodNotAllowed, counter') \<Rightarrow> httpMethod \<noteq> ''POST'' \<and> counter' = counter
   | (Answer res, counter') \<Rightarrow> counter' \<in> {counter, counter + 1} \<and>
       (if GVerified res then
          \<exists>nb p sig px py. rand = Some nb \<and> GNonce res = hex_encode nb \<and> GCounter res = counter + 1 \<and>
            hex_decode (GPayload res) = Inr (encodePayload p) \<and> hex_decode (GSig res) = Inr sig \<and>
            hex_decode (GPubX res) = Inr px \<and> hex_decode (GPubY res) = Inr py \<and>
            deviceSigned px py (encodePayload p) sig \<and> Nonce p = nb \<and> counter < Counter p \<and>
            GEvent res = EventName p \<and> GPresence res = (Presence p = 1) \<and> GVoice res = VoiceActive p
        else GEvent res = [] \<and> \<not> GPresence res \<and> \<not> GVoice res)"
proof -
  have empty: "\<not> GVerified (emptyResult why)" "GEvent (emptyResult why) = []" "\<not> GPresence (emptyResult why)"
      "\<not> GVoice (emptyResult why)" for why
    by (simp_all add: emptyResult_def)
  have shown: "\<exists>nb' p sig px py. Some nb = Some nb' \<and> hex_encode nb = hex_encode nb' \<and> counter + 1 = counter + 1 \<and>
            hex_decode (Payload b) = Inr (encodePayload p) \<and> hex_decode (Sig b) = Inr sig \<and>
            hex_decode (PubX b) = Inr px \<and> hex_decode (PubY b) = Inr py \<and>
            deviceSigned px py (encodePayload p) sig \<and> Nonce p = nb' \<and> counter < Counter p \<and>
            GEvent res = EventName p \<and> GPresence res = (Presence p = 1) \<and> GVoice res = VoiceActive p"
    if "backed res b (guiOptions nb counter)" "GVerified res" for res b nb
    by (rule backed_verified [OF that]) blast
  have hidden: "GEvent res = [] \<and> \<not> GPresence res \<and> \<not> GVoice res"
    if "backed res b opt" "\<not> GVerified res" for res b opt
    using that by (auto simp: backed_def)
  show ?thesis
  proof (cases rule: process_cases [of parse sim temp rand "take (8 * 2 ^ 20) (the body)" counter])
    case (refused why ctr)
    then show ?thesis by (auto simp: listenHandler_def empty split: option.splits)
  next
    case (verdict nb out b res)
    note hid = hidden [OF verdict(6)] and sho = shown [OF verdict(6)]
    show ?thesis
    proof (cases body)
      case (Some pcm)
      with verdict sho hid show ?thesis
        by (cases "GVerified res") (simp_all add: listenHandler_def empty)
    qed (simp add: listenHandler_def empty)
  qed
qed

text \<open>The members of an answer that the page posts back.\<close>

definition postedBack :: "gresult \<Rightarrow> json" where
  "postedBack res = JObject [(''nonce'', JString (GNonce res)), (''payload'', JString (GPayload res)),
     (''sig'', JString (GSig res)), (''pub_x'', JString (GPubX res)), (''pub_y'', JString (GPubY res))]"

lemma posted_fields:
  "stringField ''nonce'' (postedBack res) = Some (GNonce res)"
  "unmarshalBundle (postedBack res) = Some \<lparr> Schema = [], Payload = GPayload res, Sig = GSig res, PubX = GPubX res,
     PubY = GPubY res \<rparr>"
  by (simp_all add: unmarshalBundle_def stringField_def postedBack_def members_def decString_def json_names
      del: foldName.simps)

text \<open>The tamper test starts from a green light: what a verified \<open>/listen\<close> answer carries, posted back
  unchanged, is verified by \<open>/verify\<close> and shows the same event.\<close>

theorem posted_back_verifies:
  assumes "listenHandler parse sim temp rand httpMethod body counter = (Answer res, counter')" and "GVerified res"
  shows "\<exists>res'. verifyHandler (Some (postedBack res)) ''POST'' = Answer res' \<and> GVerified res' \<and>
    GEvent res' = GEvent res \<and> GPresence res' = GPresence res \<and> GVoice res' = GVoice res"
proof -
  have no: "\<not> GVerified (emptyResult why)" for why by (simp add: emptyResult_def)
  from assms obtain pcm where "process parse sim temp rand pcm counter = (res, counter')"
    by (auto simp: listenHandler_def no split: option.splits if_splits prod.splits)
  then obtain nb b where b: "backed res b (guiOptions nb counter)" and r: "GNonce res = hex_encode nb"
      "GPayload res = Payload b" "GSig res = Sig b" "GPubX res = PubX b" "GPubY res = PubY b"
    using assms(2) no by (cases rule: process_cases [of parse sim temp rand pcm counter]) auto
  from backed_verified [OF b assms(2)] obtain p sig px py where p: "hex_decode (Payload b) = Inr (encodePayload p)"
      "hex_decode (Sig b) = Inr sig" "hex_decode (PubX b) = Inr px" "hex_decode (PubY b) = Inr py"
      "deviceSigned px py (encodePayload p) sig" and c: "counter < Counter p"
    and e: "GEvent res = EventName p" "GPresence res = (Presence p = 1)" "GVoice res = VoiceActive p"
    and f: "freshPredicate p (guiOptions nb counter)" and "validPredicate p" .
  let ?b = "\<lparr> Schema = [], Payload = GPayload res, Sig = GSig res, PubX = GPubX res, PubY = GPubY res \<rparr>"
  have "0 < Counter p" using c by (metis word_gt_0 word_not_simps(1))
  then have "freshPredicate p (guiOptions nb 0)" using f by (auto simp: freshPredicate_def guiOptions_def)
  then have "OK (gatesAfterSig (encodePayload p) (guiOptions nb 0))"
    using DecodePayload_encode [OF \<open>validPredicate p\<close>] by (simp add: gatesAfterSig_ok)
  moreover have "VerifyBundle ?b (guiOptions nb 0) = gatesAfterSig (encodePayload p) (guiOptions nb 0)"
    by (rule VerifyBundle_run [OF _ _ _ _ _ p(5)]) (simp_all add: r p keyPinned_def guiOptions_def)
  ultimately have "OK (VerifyBundle ?b (guiOptions nb 0))" "Pred (VerifyBundle ?b (guiOptions nb 0)) = Some p"
    using gatesAfterSig_result [of "encodePayload p" "guiOptions nb 0"] DecodePayload_encode [OF \<open>validPredicate p\<close>]
    by auto
  then show ?thesis
    by (simp add: verifyHandler_def posted_fields r(1) fillVerified_def e guiOptions_def [symmetric] Let_def)
qed

end
