(* ===== verification/Eat.thy ===== *)
theory Eat
  imports Bound
begin

text \<open>
  Offline verification of a PSA attestation token (eat.go): the decoder of the claims map, whose
  loops run over the reader of \<open>Cbor\<close>, and \<open>VerifyPSAToken\<close>. A failed verification gives the claims
  too, once they are decoded.
\<close>

section \<open>Claims\<close>

definition PSAProfile :: string where
  "PSAProfile = ''http://arm.com/psa/2.0.0''"

record SWComponent =
  MeasurementType :: string
  MeasurementValue :: bytes
  SignerID :: bytes

record PSAClaims =
  Profile :: string
  TokenNonce :: bytes
  InstanceID :: bytes
  ImplementationID :: bytes
  SoftwareComponents :: "SWComponent list"

record PSAOptions =
  TokenExpectedNonce :: bytes
  ExpectedProfile :: string
  ReferenceMeasurements :: "bytes list"

datatype psa_error =
    PsaHead cbor_error
  | ClaimsNotMap byte
  | ClaimKey cbor_error
  | ClaimValue u64 psa_error
  | PsaField cbor_error
  | ComponentsNotArray byte
  | ComponentCount
  | ComponentNotMap byte
  | PsaTrailing

definition noComponent :: SWComponent where
  "noComponent = \<lparr> MeasurementType = [], MeasurementValue = [], SignerID = [] \<rparr>"

text \<open>One sub-claim of a component: the key decides the field.\<close>

definition componentField :: "u64 \<Rightarrow> SWComponent \<Rightarrow> cborReader \<Rightarrow> psa_error + cborReader \<times> SWComponent" where
  "componentField sk cmp r =
     (if sk = 1 then
        bindE (wrapE PsaField (readTstr r)) (\<lambda>(r, v). Inr (r, cmp\<lparr> MeasurementType := v \<rparr>))
      else if sk = 2 then
        bindE (wrapE PsaField (readBstr r)) (\<lambda>(r, v). Inr (r, cmp\<lparr> MeasurementValue := v \<rparr>))
      else if sk = 5 then
        bindE (wrapE PsaField (readBstr r)) (\<lambda>(r, v). Inr (r, cmp\<lparr> SignerID := v \<rparr>))
      else bindE (wrapE PsaField (skipValue r)) (\<lambda>r. Inr (r, cmp)))"

text \<open>The inner loop, \<open>n\<close> sub-claims left, and the outer loop, \<open>n\<close> components left.\<close>

fun componentLoop :: "nat \<Rightarrow> SWComponent \<Rightarrow> cborReader \<Rightarrow> psa_error + cborReader \<times> SWComponent" where
  "componentLoop 0 cmp r = Inr (r, cmp)"
| "componentLoop (Suc n) cmp r =
     bindE (wrapE PsaField (readUint r)) (\<lambda>(r, sk).
     bindE (componentField sk cmp r) (\<lambda>(r, cmp). componentLoop n cmp r))"

fun componentsLoop :: "nat \<Rightarrow> SWComponent list \<Rightarrow> cborReader \<Rightarrow> psa_error + cborReader \<times> SWComponent list" where
  "componentsLoop 0 out r = Inr (r, out)"
| "componentsLoop (Suc n) out r =
     bindE (wrapE PsaHead (readHead r)) (\<lambda>(r, cm, cn).
     if cm \<noteq> 5 then Inl (ComponentNotMap cm)
     else bindE (componentLoop (unat cn) noComponent r) (\<lambda>(r, cmp). componentsLoop n (out @ [cmp]) r))"

definition readSoftwareComponents :: "cborReader \<Rightarrow> psa_error + cborReader \<times> SWComponent list" where
  "readSoftwareComponents r =
     bindE (wrapE PsaHead (readHead r)) (\<lambda>(r, major, n).
     if major \<noteq> 4 then Inl (ComponentsNotArray major)
     else if unat n > length (buf r) - pos r then Inl ComponentCount
     else componentsLoop (unat n) [] r)"

text \<open>The switch on the claim key.\<close>

definition claimValue :: "u64 \<Rightarrow> PSAClaims \<Rightarrow> cborReader \<Rightarrow> psa_error + cborReader \<times> PSAClaims" where
  "claimValue key c r =
     (if key = 265 then bindE (wrapE PsaField (readTstr r)) (\<lambda>(r, v). Inr (r, c\<lparr> Profile := v \<rparr>))
      else if key = 10 then bindE (wrapE PsaField (readBstr r)) (\<lambda>(r, v). Inr (r, c\<lparr> TokenNonce := v \<rparr>))
      else if key = 256 then bindE (wrapE PsaField (readBstr r)) (\<lambda>(r, v). Inr (r, c\<lparr> InstanceID := v \<rparr>))
      else if key = 2396 then
        bindE (wrapE PsaField (readBstr r)) (\<lambda>(r, v). Inr (r, c\<lparr> ImplementationID := v \<rparr>))
      else if key = 2399 then
        bindE (readSoftwareComponents r) (\<lambda>(r, v). Inr (r, c\<lparr> SoftwareComponents := v \<rparr>))
      else bindE (wrapE PsaField (skipValue r)) (\<lambda>r. Inr (r, c)))"

fun claimsLoop :: "nat \<Rightarrow> PSAClaims \<Rightarrow> cborReader \<Rightarrow> psa_error + cborReader \<times> PSAClaims" where
  "claimsLoop 0 c r = Inr (r, c)"
| "claimsLoop (Suc n) c r =
     bindE (wrapE ClaimKey (readUint r)) (\<lambda>(r, key).
     bindE (wrapE (ClaimValue key) (claimValue key c r)) (\<lambda>(r, c). claimsLoop n c r))"

definition noClaims :: PSAClaims where
  "noClaims = \<lparr> Profile = [], TokenNonce = [], InstanceID = [], ImplementationID = [], SoftwareComponents = [] \<rparr>"

definition parsePSAClaims :: "bytes \<Rightarrow> psa_error + PSAClaims" where
  "parsePSAClaims b =
     bindE (wrapE PsaHead (readHead (newReader b))) (\<lambda>(r, major, n).
     if major \<noteq> 5 then Inl (ClaimsNotMap major)
     else bindE (claimsLoop (unat n) noClaims r) (\<lambda>(r, c).
       if pos r \<noteq> length b then Inl PsaTrailing else Inr c))"

section \<open>Verification\<close>

fun measurementInSet :: "bytes \<Rightarrow> bytes list \<Rightarrow> bool" where
  "measurementInSet m [] = False"
| "measurementInSet m (r # rs) = (if constantTimeCompare m r = 1 then True else measurementInSet m rs)"

datatype token_error =
    TokenCose cose_error
  | TokenSignature sig_error
  | TokenClaims psa_error
  | ProfileMismatch string string
  | NoNonceSupplied
  | TokenNonceMismatch
  | NoSoftwareComponents
  | NotReference bytes

text \<open>The loop over the components, to the first one that is not published.\<close>

fun appraise :: "SWComponent list \<Rightarrow> bytes list \<Rightarrow> token_error option" where
  "appraise [] refs = None"
| "appraise (c # cs) refs =
     (if \<not> measurementInSet (MeasurementValue c) refs then Some (NotReference (MeasurementValue c))
      else appraise cs refs)"

definition VerifyPSAToken :: "bytes \<Rightarrow> bytes \<Rightarrow> bytes \<Rightarrow> PSAOptions \<Rightarrow>
    (PSAClaims option \<times> token_error) + PSAClaims" where
  "VerifyPSAToken token px py opt =
     (case parseCOSESign1 token of
        Inl e \<Rightarrow> Inl (None, TokenCose e)
      | Inr (protBstr, payload, payloadBstr, sig) \<Rightarrow>
     (case verifySig (coseSigStruct protBstr payloadBstr) sig px py of
        Inl e \<Rightarrow> Inl (None, TokenSignature e)
      | Inr _ \<Rightarrow>
     (case parsePSAClaims payload of
        Inl e \<Rightarrow> Inl (None, TokenClaims e)
      | Inr claims \<Rightarrow>
          let wantProfile = (if ExpectedProfile opt = [] then PSAProfile else ExpectedProfile opt) in
          if Profile claims \<noteq> wantProfile
            then Inl (Some claims, ProfileMismatch (Profile claims) wantProfile)
          else if length (TokenExpectedNonce opt) = 0 then Inl (Some claims, NoNonceSupplied)
          else if constantTimeCompare (TokenNonce claims) (TokenExpectedNonce opt) \<noteq> 1
            then Inl (Some claims, TokenNonceMismatch)
          else if length (ReferenceMeasurements opt) > 0 then
            (if length (SoftwareComponents claims) = 0 then Inl (Some claims, NoSoftwareComponents)
             else case appraise (SoftwareComponents claims) (ReferenceMeasurements opt) of
               Some e \<Rightarrow> Inl (Some claims, e)
             | None \<Rightarrow> Inr claims)
          else Inr claims)))"

section \<open>The decoder stays inside the buffer\<close>

lemma componentField_moves: "componentField sk cmp r = Inr (r', cmp') \<Longrightarrow> moves r r'"
  by (auto simp: componentField_def bindE_Inr_iff
      dest: tstr.read_moves bstr.read_moves skipValue_moves split: if_splits)

lemma measurementInSet_iff [simp]: "measurementInSet m rs \<longleftrightarrow> m \<in> set rs"
  by (induction rs) auto

lemma appraise_None: "appraise cs refs = None \<longleftrightarrow> (\<forall>c\<in>set cs. MeasurementValue c \<in> set refs)"
  by (induction cs) auto

lemma appraise_Some:
  "appraise cs refs = Some e \<Longrightarrow> \<exists>c\<in>set cs. MeasurementValue c \<notin> set refs"
  by (induction cs) (auto split: if_splits)

lemma VerifyPSAToken_ok:
  "VerifyPSAToken token px py opt = Inr claims \<longleftrightarrow>
     (\<exists>pb payload plb sig. parseCOSESign1 token = Inr (pb, payload, plb, sig) \<and>
        verifySig (coseSigStruct pb plb) sig px py = Inr () \<and> parsePSAClaims payload = Inr claims \<and>
        Profile claims = (if ExpectedProfile opt = [] then PSAProfile else ExpectedProfile opt) \<and>
        TokenExpectedNonce opt \<noteq> [] \<and> TokenNonce claims = TokenExpectedNonce opt \<and>
        (ReferenceMeasurements opt = [] \<or> SoftwareComponents claims \<noteq> [] \<and>
          MeasurementValue ` set (SoftwareComponents claims) \<subseteq> set (ReferenceMeasurements opt)))"
  (is "?L \<longleftrightarrow> ?R")
proof
  assume ok: ?L
  then obtain pb payload plb sig where p: "parseCOSESign1 token = Inr (pb, payload, plb, sig)"
      "verifySig (coseSigStruct pb plb) sig px py = Inr ()"
    by (auto simp: VerifyPSAToken_def split: sum.splits)
  with ok have "parsePSAClaims payload = Inr claims"
    by (auto simp: VerifyPSAToken_def Let_def split: sum.splits if_splits option.splits)
  with ok p show ?R
    by (auto simp: VerifyPSAToken_def Let_def appraise_None split: if_splits option.splits)
next
  assume ?R
  then show ?L
    by (auto simp: VerifyPSAToken_def Let_def split: option.splits)
      (auto simp: image_subset_iff dest!: appraise_Some)
qed

section \<open>Reading back an encoded claims set\<close>

definition encComponent :: "SWComponent \<Rightarrow> bytes" where
  "encComponent c =
     cbor_head 5 3 @ enc_uint 1 @ enc_tstr (MeasurementType c) @ enc_uint 2 @ enc_bstr (MeasurementValue c) @
     enc_uint 5 @ enc_bstr (SignerID c)"

definition encClaims :: "PSAClaims \<Rightarrow> bytes" where
  "encClaims c =
     cbor_head 5 5 @ enc_uint 10 @ enc_bstr (TokenNonce c) @ enc_uint 256 @ enc_bstr (InstanceID c) @
     enc_uint 265 @ enc_tstr (Profile c) @ enc_uint 2396 @ enc_bstr (ImplementationID c) @
     enc_uint 2399 @ cbor_head 4 (word_of_nat (length (SoftwareComponents c))) @
     concat (map encComponent (SoftwareComponents c))"

text \<open>Every field fits a CBOR string, and the list of components an array.\<close>

definition validComponent :: "SWComponent \<Rightarrow> bool" where
  "validComponent c \<longleftrightarrow> length (MeasurementType c) < 2 ^ 64 \<and> length (MeasurementValue c) < 2 ^ 64 \<and>
     length (SignerID c) < 2 ^ 64"

definition validClaims :: "PSAClaims \<Rightarrow> bool" where
  "validClaims c \<longleftrightarrow> length (Profile c) < 2 ^ 64 \<and> length (TokenNonce c) < 2 ^ 64 \<and>
     length (InstanceID c) < 2 ^ 64 \<and> length (ImplementationID c) < 2 ^ 64 \<and>
     length (SoftwareComponents c) < 2 ^ 64 \<and> list_all validComponent (SoftwareComponents c)"

lemma read_uint: "view r = enc_uint k @ zs \<Longrightarrow> readUint r = Inr (advance (length (enc_uint k)) r, k)"
  using uint.read_enc by blast

lemma read_bstr: "view r = enc_bstr b @ zs \<Longrightarrow> length b < 2 ^ 64 \<Longrightarrow>
    readBstr r = Inr (advance (length (enc_bstr b)) r, b)"
  using bstr.read_enc by blast

lemma read_tstr: "view r = enc_tstr b @ zs \<Longrightarrow> length b < 2 ^ 64 \<Longrightarrow>
    readTstr r = Inr (advance (length (enc_tstr b)) r, b)"
  using tstr.read_enc by blast

lemma read_head: "view r = cbor_head m v @ zs \<Longrightarrow> m < 8 \<Longrightarrow>
    readHead r = Inr (advance (length (cbor_head m v)) r, m, v)"
  using head.read_enc [of "(m, v)" r] by auto

text \<open>One step of a loop that reads a key and then its value.\<close>

lemma component_step:
  assumes "view r = enc_uint k @ e @ zs"
    and "\<forall>r. view r = e @ zs \<longrightarrow> componentField k cmp r = Inr (advance (length e) r, cmp')"
  shows "componentLoop (Suc n) cmp r = componentLoop n cmp' (advance (length (enc_uint k @ e)) r)"
    "view (advance (length (enc_uint k @ e)) r) = zs"
  using assms(2) [rule_format, OF view_advance_length [OF assms(1)]] read_uint [OF assms(1)] assms(1)
  by (simp_all add: view_advance)

lemma claim_step:
  assumes "view r = enc_uint k @ e @ zs"
    and "\<forall>r. view r = e @ zs \<longrightarrow> claimValue k c r = Inr (advance (length e) r, c')"
  shows "claimsLoop (Suc n) c r = claimsLoop n c' (advance (length (enc_uint k @ e)) r)"
    "view (advance (length (enc_uint k @ e)) r) = zs"
  using assms(2) [rule_format, OF view_advance_length [OF assms(1)]] read_uint [OF assms(1)] assms(1)
  by (simp_all add: view_advance)

lemma read_component:
  assumes "validComponent c" and "view r = encComponent c @ zs"
  shows "componentsLoop (Suc n) out r = componentsLoop n (out @ [c]) (advance (length (encComponent c)) r)"
    "view (advance (length (encComponent c)) r) = zs"
proof -
  let ?r1 = "advance (length (cbor_head 5 3)) r"
  let ?e1 = "enc_tstr (MeasurementType c)" and ?e2 = "enc_bstr (MeasurementValue c)" and ?e3 = "enc_bstr (SignerID c)"
  have v: "view r = cbor_head 5 3 @ (enc_uint 1 @ ?e1 @ (enc_uint 2 @ ?e2 @ (enc_uint 5 @ ?e3 @ zs)))"
    using assms(2) by (simp add: encComponent_def)
  then have h: "readHead r = Inr (?r1, 5, 3)" by (rule read_head) simp
  note v1 = view_advance_length [OF v]
  have "\<forall>r. view r = ?e1 @ ys \<longrightarrow> componentField 1 cmp r = Inr (advance (length ?e1) r, cmp\<lparr> MeasurementType := MeasurementType c \<rparr>)" for cmp ys
    using read_tstr assms(1) by (auto simp: componentField_def validComponent_def)
  note s1 = component_step [OF v1 this]
  have "\<forall>r. view r = ?e2 @ ys \<longrightarrow> componentField 2 cmp r = Inr (advance (length ?e2) r, cmp\<lparr> MeasurementValue := MeasurementValue c \<rparr>)" for cmp ys
    using read_bstr assms(1) by (auto simp: componentField_def validComponent_def)
  note s2 = component_step [OF s1(2) this]
  have "\<forall>r. view r = ?e3 @ ys \<longrightarrow> componentField 5 cmp r = Inr (advance (length ?e3) r, cmp\<lparr> SignerID := SignerID c \<rparr>)" for cmp ys
    using read_bstr assms(1) by (auto simp: componentField_def validComponent_def)
  note s3 = component_step [OF s2(2) this]
  have "componentLoop (Suc (Suc (Suc 0))) noComponent ?r1 = Inr (advance (length (encComponent c)) r, c)"
    by (subst s1(1), subst s2(1), subst s3(1)) (simp add: encComponent_def noComponent_def add.assoc)
  then have "componentLoop 3 noComponent ?r1 = Inr (advance (length (encComponent c)) r, c)"
    by (simp only: eval_nat_numeral Num.BitM.simps One_nat_def numeral_One)
  then show "componentsLoop (Suc n) out r = componentsLoop n (out @ [c]) (advance (length (encComponent c)) r)"
    using h by simp
  show "view (advance (length (encComponent c)) r) = zs"
    using assms(2) by (rule view_advance_length)
qed

lemma read_components:
  "list_all validComponent cs \<Longrightarrow> view r = concat (map encComponent cs) @ zs \<Longrightarrow>
   componentsLoop (length cs) out r = Inr (advance (length (concat (map encComponent cs))) r, out @ cs)"
proof (induction cs arbitrary: out r)
  case (Cons c cs)
  have v: "view r = encComponent c @ (concat (map encComponent cs) @ zs)" using Cons.prems(2) by simp
  have c: "validComponent c" using Cons.prems(1) by simp
  show ?case
    using read_component(1) [OF c v] Cons.IH [OF _ read_component(2) [OF c v]] Cons.prems(1)
    by (simp add: add.commute)
qed simp

lemma length_encComponent: "1 \<le> length (encComponent c)"
  by (cases "cbor_head 5 3") (simp_all add: encComponent_def)

lemma length_components: "length cs \<le> length (concat (map encComponent cs))"
proof (induction cs)
  case (Cons c cs)
  then show ?case using length_encComponent [of c] by simp
qed simp

lemma read_software:
  assumes "list_all validComponent cs" "length cs < 2 ^ 64"
    and "view r = (cbor_head 4 (word_of_nat (length cs)) @ concat (map encComponent cs)) @ zs"
  shows "readSoftwareComponents r =
    Inr (advance (length (cbor_head 4 (word_of_nat (length cs)) @ concat (map encComponent cs))) r, cs)"
proof -
  let ?h = "cbor_head 4 (word_of_nat (length cs) :: u64)"
  have v: "view r = ?h @ (concat (map encComponent cs) @ zs)" using assms(3) by simp
  then have h: "readHead r = Inr (advance (length ?h) r, 4, word_of_nat (length cs))" by (rule read_head) simp
  have n: "unat (word_of_nat (length cs) :: u64) = length cs" using assms(2) by (simp add: unat_of_nat)
  note v1 = view_advance_length [OF v]
  have "length cs \<le> length (view (advance (length ?h) r))"
    using length_components [of cs] unfolding v1 by simp
  then show ?thesis
    using h n read_components [OF assms(1) v1] by (simp add: readSoftwareComponents_def length_view add.commute)
qed

lemma parse_encClaims:
  assumes "validClaims c"
  shows "parsePSAClaims (encClaims c) = Inr c"
proof -
  let ?r = "newReader (encClaims c)" and ?cs = "SoftwareComponents c"
  let ?e1 = "enc_bstr (TokenNonce c)" and ?e2 = "enc_bstr (InstanceID c)" and ?e3 = "enc_tstr (Profile c)"
  let ?e4 = "enc_bstr (ImplementationID c)"
  let ?e5 = "cbor_head 4 (word_of_nat (length ?cs)) @ concat (map encComponent ?cs)"
  have v: "view ?r = cbor_head 5 5 @ (enc_uint 10 @ ?e1 @ (enc_uint 256 @ ?e2 @ (enc_uint 265 @ ?e3 @
      (enc_uint 2396 @ ?e4 @ (enc_uint 2399 @ ?e5 @ [])))))"
    by (simp add: encClaims_def)
  then have h: "readHead ?r = Inr (advance (length (cbor_head 5 5)) ?r, 5, 5)" by (rule read_head) simp
  note v1 = view_advance_length [OF v]
  have "\<forall>r. view r = ?e1 @ ys \<longrightarrow> claimValue 10 d r = Inr (advance (length ?e1) r, d\<lparr> TokenNonce := TokenNonce c \<rparr>)" for d ys
    using read_bstr assms by (auto simp: claimValue_def validClaims_def)
  note s1 = claim_step [OF v1 this]
  have "\<forall>r. view r = ?e2 @ ys \<longrightarrow> claimValue 256 d r = Inr (advance (length ?e2) r, d\<lparr> InstanceID := InstanceID c \<rparr>)" for d ys
    using read_bstr assms by (auto simp: claimValue_def validClaims_def)
  note s2 = claim_step [OF s1(2) this]
  have "\<forall>r. view r = ?e3 @ ys \<longrightarrow> claimValue 265 d r = Inr (advance (length ?e3) r, d\<lparr> Profile := Profile c \<rparr>)" for d ys
    using read_tstr assms by (auto simp: claimValue_def validClaims_def)
  note s3 = claim_step [OF s2(2) this]
  have "\<forall>r. view r = ?e4 @ ys \<longrightarrow> claimValue 2396 d r = Inr (advance (length ?e4) r, d\<lparr> ImplementationID := ImplementationID c \<rparr>)" for d ys
    using read_bstr assms by (auto simp: claimValue_def validClaims_def)
  note s4 = claim_step [OF s3(2) this]
  have "\<forall>r. view r = ?e5 @ ys \<longrightarrow> claimValue 2399 d r = Inr (advance (length ?e5) r, d\<lparr> SoftwareComponents := ?cs \<rparr>)" for d ys
    using read_software assms by (auto simp: claimValue_def validClaims_def)
  note s5 = claim_step [OF s4(2) this]
  have "claimsLoop (Suc (Suc (Suc (Suc (Suc 0))))) noClaims (advance (length (cbor_head 5 5)) ?r) =
      Inr (advance (length (encClaims c)) ?r, c)"
    by (subst s1(1), subst s2(1), subst s3(1), subst s4(1), subst s5(1))
      (simp add: encClaims_def noClaims_def add.assoc)
  then have "claimsLoop 5 noClaims (advance (length (cbor_head 5 5)) ?r) = Inr (advance (length (encClaims c)) ?r, c)"
    by (simp only: eval_nat_numeral Num.BitM.simps One_nat_def numeral_One)
  then show ?thesis
    using h by (simp add: parsePSAClaims_def)
qed

section \<open>Properties\<close>

text \<open>A token is accepted exactly when it is a COSE_Sign1 message signed under the pinned key whose
  claims decode, carry the wanted profile and the expected, non-empty nonce and, if reference
  values are given, list at least one software component and only published measurements.\<close>

theorem VerifyPSAToken_accepts_iff:
  "VerifyPSAToken token px py opt = Inr claims \<longleftrightarrow>
     (\<exists>pb payload plb sig. parseCOSESign1 token = Inr (pb, payload, plb, sig) \<and>
        verifySig (coseSigStruct pb plb) sig px py = Inr () \<and> parsePSAClaims payload = Inr claims \<and>
        Profile claims = (if ExpectedProfile opt = [] then PSAProfile else ExpectedProfile opt) \<and>
        TokenExpectedNonce opt \<noteq> [] \<and> TokenNonce claims = TokenExpectedNonce opt \<and>
        (ReferenceMeasurements opt = [] \<or> SoftwareComponents claims \<noteq> [] \<and>
          MeasurementValue ` set (SoftwareComponents claims) \<subseteq> set (ReferenceMeasurements opt)))"
  by (rule VerifyPSAToken_ok)

text \<open>The claims set a token encodes in deterministic CBOR is read back: every claim, and every
  software component in order.\<close>

theorem parsePSAClaims_encClaims:
  assumes "validClaims c"
  shows "parsePSAClaims (encClaims c) = Inr c"
  by (rule parse_encClaims [OF assms])

definition demoClaims :: PSAClaims where
  "demoClaims = \<lparr> Profile = PSAProfile, TokenNonce = [1, 2, 3], InstanceID = [4], ImplementationID = [5],
     SoftwareComponents = [\<lparr> MeasurementType = ''BL'', MeasurementValue = [6, 7], SignerID = [8] \<rparr>, noComponent] \<rparr>"

lemma parsePSAClaims_encClaims_witness: "parsePSAClaims (encClaims demoClaims) = Inr demoClaims"
  by (rule parsePSAClaims_encClaims)
    (simp add: validClaims_def validComponent_def demoClaims_def noComponent_def PSAProfile_def)

end
