(* ===== verification/Loops.thy ===== *)
theory Loops
  imports Eat
begin

text \<open>
  How often the decoder loops of bound.go and eat.go run: the count of a map or an array is read from the
  message and may be as large as \<open>2 ^ 64 - 1\<close>, but every round reads at least one byte or fails, so a
  loop ends after at most one round more than there are bytes left.
\<close>

section \<open>Loops that consume\<close>

text \<open>A counted loop whose body leaves a smaller rest; the rest is what bounds the rounds.\<close>

locale consuming_loop =
  fixes loop :: "nat \<Rightarrow> 's \<Rightarrow> 'e + 'r"
    and body :: "'s \<Rightarrow> 'e + 's"
    and left :: "'s \<Rightarrow> nat"
  assumes loop_Suc: "loop (Suc n) s = bindE (body s) (loop n)"
    and body_consumes: "body s = Inr s' \<Longrightarrow> left s' < left s"
begin

lemma enough_rounds: "left s < n \<Longrightarrow> left s < m \<Longrightarrow> loop n s = loop m s"
proof (induction n arbitrary: m s)
  case (Suc n)
  from Suc.prems(2) obtain m' where m: "m = Suc m'" by (cases m) auto
  show ?case
  proof (cases "body s")
    case (Inr s')
    then have "left s' < left s" by (rule body_consumes)
    with Suc.prems m have "left s' < n" "left s' < m'" by simp_all
    then show ?thesis by (simp only: m loop_Suc Inr bindE_simps) (rule Suc.IH)
  qed (simp add: m loop_Suc)
qed simp

lemma rounds: "loop n s = loop (min n (Suc (left s))) s"
  by (cases "n \<le> left s") (auto intro: enough_rounds simp: min_def)

end

definition unread :: "cborReader \<Rightarrow> nat" where
  "unread r = length (buf r) - pos r"

lemma moves_unread: "moves r r' \<Longrightarrow> unread r' < unread r"
  using moves_fields [of r r'] by (auto simp: unread_def)

lemma readHead_moves: "readHead r = Inr (r', m, n) \<Longrightarrow> moves r r'"
  by (auto simp: readHead_iff intro!: movesI)

lemmas read_unread = uint.read_moves [THEN moves_unread] bstr.read_moves [THEN moves_unread]
  tstr.read_moves [THEN moves_unread] cbool.read_moves [THEN moves_unread]
  skipValue_moves [THEN moves_unread] readHead_moves [THEN moves_unread]
  componentField_moves [THEN moves_unread]

section \<open>The loops of eat.go\<close>

interpretation component: consuming_loop
  "\<lambda>n (cmp, r). componentLoop n cmp r"
  "\<lambda>(cmp, r). bindE (wrapE PsaField (readUint r)) (\<lambda>(r, sk).
     bindE (componentField sk cmp r) (\<lambda>(r, cmp). Inr (cmp, r)))"
  "\<lambda>(cmp, r). unread r"
proof (unfold_locales, goal_cases)
  case (1 n s)
  then show ?case by (auto simp: bindE_def split: sum.splits prod.splits)
next
  case (2 s s')
  then show ?case
    by (auto simp: bindE_Inr_iff split: prod.splits
        dest!: read_unread)
qed

lemma componentLoop_unread: "componentLoop n cmp r = Inr (r', cmp') \<Longrightarrow> unread r' \<le> unread r"
proof (induction n arbitrary: cmp r)
  case (Suc n)
  from Suc.prems obtain r1 sk r2 c where "readUint r = Inr (r1, sk)" "componentField sk cmp r1 = Inr (r2, c)"
    and "componentLoop n c r2 = Inr (r', cmp')"
    by (auto simp: bindE_Inr_iff)
  with Suc.IH [of c r2] show ?case
    by (auto dest!: read_unread)
qed simp

interpretation components: consuming_loop
  "\<lambda>n (out, r). componentsLoop n out r"
  "\<lambda>(out, r). bindE (wrapE PsaHead (readHead r)) (\<lambda>(r, cm, cn).
     if cm \<noteq> 5 then Inl (ComponentNotMap cm)
     else bindE (componentLoop (unat cn) noComponent r) (\<lambda>(r, cmp). Inr (out @ [cmp], r)))"
  "\<lambda>(out, r). unread r"
proof (unfold_locales, goal_cases)
  case (1 n s)
  then show ?case by (auto simp: bindE_def split: sum.splits prod.splits)
next
  case (2 s s')
  then show ?case
    by (auto simp: bindE_Inr_iff split: prod.splits if_splits
        dest!: read_unread componentLoop_unread)
qed

lemma componentsLoop_unread: "componentsLoop n out r = Inr (r', out') \<Longrightarrow> unread r' \<le> unread r"
proof (induction n arbitrary: out r)
  case (Suc n)
  from Suc.prems obtain r1 cm cn r2 c where "readHead r = Inr (r1, cm, cn)"
    and "componentLoop (unat cn) noComponent r1 = Inr (r2, c)" "componentsLoop n (out @ [c]) r2 = Inr (r', out')"
    by (auto simp: bindE_Inr_iff split: if_splits)
  with Suc.IH [of "out @ [c]" r2] componentLoop_unread [of "unat cn" noComponent r1 r2 c] show ?case
    by (auto dest!: read_unread)
qed simp

lemma readSoftwareComponents_unread: "readSoftwareComponents r = Inr (r', cs) \<Longrightarrow> unread r' < unread r"
  by (auto simp: readSoftwareComponents_def bindE_Inr_iff split: if_splits
      dest!: read_unread componentsLoop_unread)

lemma claimValue_unread: "claimValue key c r = Inr (r', c') \<Longrightarrow> unread r' < unread r"
  by (auto simp: claimValue_def bindE_Inr_iff split: if_splits
      dest!: read_unread readSoftwareComponents_unread)

interpretation claims: consuming_loop
  "\<lambda>n (c, r). claimsLoop n c r"
  "\<lambda>(c, r). bindE (wrapE ClaimKey (readUint r)) (\<lambda>(r, key).
     bindE (wrapE (ClaimValue key) (claimValue key c r)) (\<lambda>(r, c). Inr (c, r)))"
  "\<lambda>(c, r). unread r"
proof (unfold_locales, goal_cases)
  case (1 n s)
  then show ?case by (auto simp: bindE_def split: sum.splits prod.splits)
next
  case (2 s s')
  then show ?case
    by (auto simp: bindE_Inr_iff split: prod.splits dest!: read_unread claimValue_unread)
qed

section \<open>The loop of bound.go\<close>

lemma decodeValue_unread: "decodeValue key r p = Inr (r', p') \<Longrightarrow> unread r' < unread r"
  by (auto simp: decodeValue_def bindE_Inr_iff Let_def split: if_splits
      dest!: read_unread)

interpretation entries: consuming_loop
  "\<lambda>n (r, p, seen, lastKey). decodeLoop n r p seen lastKey"
  "\<lambda>(r, p, seen, lastKey). bindE (wrapE MapKey (readUint r)) (\<lambda>(r, key).
       if lastKey \<noteq> None \<and> key \<le> the lastKey then Inl (NonCanonicalMap key (the lastKey))
       else if key < 11 \<and> seen AND push_bit (unat key) 1 \<noteq> 0 then Inl (DuplicateKey key)
       else bindE (decodeValue key r p) (\<lambda>(r, p).
         Inr (r, p, if key < 11 then seen OR push_bit (unat key) 1 else seen, Some key)))"
  "\<lambda>(r, p, seen, lastKey). unread r"
proof (unfold_locales, goal_cases)
  case (1 n s)
  then show ?case by (auto simp: bindE_def Let_def split: sum.splits prod.splits)
next
  case (2 s s')
  then show ?case
    by (auto simp: bindE_Inr_iff split: prod.splits if_splits dest!: read_unread decodeValue_unread)
qed

text \<open>C37: Whatever count a message announces, the loops over the entries of a predicate, the claims of a
  token, its software components and their fields end after at most one round more than there are
  unread bytes: a larger count gives the same result.\<close>

theorem decoder_rounds:
  "decodeLoop n r p seen lastKey = decodeLoop (min n (Suc (length (buf r) - pos r))) r p seen lastKey \<and>
   claimsLoop n c r = claimsLoop (min n (Suc (length (buf r) - pos r))) c r \<and>
   componentsLoop n out r = componentsLoop (min n (Suc (length (buf r) - pos r))) out r \<and>
   componentLoop n cmp r = componentLoop (min n (Suc (length (buf r) - pos r))) cmp r"
  using entries.rounds [of n "(r, p, seen, lastKey)"] claims.rounds [of n "(c, r)"]
    components.rounds [of n "(out, r)"] component.rounds [of n "(cmp, r)"]
  by (simp only: prod.case unread_def simp_thms)

end
