(* ===== verification/Attest_Cli.thy ===== *)
theory Attest_Cli
  imports Loops
begin

text \<open>
  The attestation command line (cmd/he-attest-verify/main.go): where the token comes from, the flags it
  needs, and the three exit statuses. The flags are taken as the flag package splits them; \<open>files\<close> gives
  the readable files. \<open>cli.Die\<close> and a refused flag (status 2) are \<open>Inl\<close>.
\<close>

section \<open>strings.TrimSpace\<close>

text \<open>The white space characters of \<open>unicode.IsSpace\<close>, as they are encoded in UTF-8.\<close>

definition spaceRunes :: "string list" where
  "spaceRunes =
     [[CHR 0x09], [CHR 0x0A], [CHR 0x0B], [CHR 0x0C], [CHR 0x0D], [CHR 0x20], [CHR 0xC2, CHR 0x85],
      [CHR 0xC2, CHR 0xA0], [CHR 0xE1, CHR 0x9A, CHR 0x80],
      [CHR 0xE2, CHR 0x80, CHR 0x80], [CHR 0xE2, CHR 0x80, CHR 0x81], [CHR 0xE2, CHR 0x80, CHR 0x82],
      [CHR 0xE2, CHR 0x80, CHR 0x83], [CHR 0xE2, CHR 0x80, CHR 0x84], [CHR 0xE2, CHR 0x80, CHR 0x85],
      [CHR 0xE2, CHR 0x80, CHR 0x86], [CHR 0xE2, CHR 0x80, CHR 0x87], [CHR 0xE2, CHR 0x80, CHR 0x88],
      [CHR 0xE2, CHR 0x80, CHR 0x89], [CHR 0xE2, CHR 0x80, CHR 0x8A], [CHR 0xE2, CHR 0x80, CHR 0xA8],
      [CHR 0xE2, CHR 0x80, CHR 0xA9], [CHR 0xE2, CHR 0x80, CHR 0xAF], [CHR 0xE2, CHR 0x81, CHR 0x9F],
      [CHR 0xE3, CHR 0x80, CHR 0x80]]"

text \<open>\<open>trimPrefixes n ws s\<close> takes words of \<open>ws\<close> off the front of \<open>s\<close>, at most \<open>n\<close> of them; every word has a
  character, so the length of \<open>s\<close> is enough.\<close>

fun trimPrefixes :: "nat \<Rightarrow> string list \<Rightarrow> string \<Rightarrow> string" where
  "trimPrefixes 0 ws s = s"
| "trimPrefixes (Suc n) ws s =
     (case find (\<lambda>w. take (length w) s = w) ws of
        None \<Rightarrow> s
      | Some w \<Rightarrow> trimPrefixes n ws (drop (length w) s))"

definition trimSpace :: "string \<Rightarrow> string" where
  "trimSpace s =
     (let s = trimPrefixes (length s) spaceRunes s
      in rev (trimPrefixes (length s) (map rev spaceRunes) (rev s)))"

section \<open>he-attest-verify\<close>

record attestFlags =
  AToken :: string
  APinX :: string
  APinY :: string
  ANonce :: string
  AProfile :: string
  ARefs :: "string list"

datatype attest_die =
    RefFlag string hex_error
  | RequiredFlags
  | TokenUnreadable
  | PinXHex
  | PinYHex
  | NonceFlag hex_error

text \<open>\<open>refList.Set\<close> for each \<open>--ref\<close> in turn; an error ends the flag parsing.\<close>

fun refListSet :: "bytes list \<Rightarrow> string list \<Rightarrow> attest_die + bytes list" where
  "refListSet r [] = Inr r"
| "refListSet r (v # vs) =
     (case hex_decode v of Inl e \<Rightarrow> Inl (RefFlag v e) | Inr b \<Rightarrow> refListSet (r @ [b]) vs)"

definition readToken :: "(string \<rightharpoonup> bytes) \<Rightarrow> string \<Rightarrow> attest_die + bytes" where
  "readToken files arg =
     (case files arg of
        Some b \<Rightarrow>
          (case hex_decode (trimSpace (string_of_bytes b)) of Inr raw \<Rightarrow> Inr raw | Inl _ \<Rightarrow> Inr b)
      | None \<Rightarrow>
          (case hex_decode (trimSpace arg) of Inl _ \<Rightarrow> Inl TokenUnreadable | Inr raw \<Rightarrow> Inr raw))"

definition pin32 :: "attest_die \<Rightarrow> string \<Rightarrow> attest_die + bytes" where
  "pin32 e s = (case hex_decode s of Inl _ \<Rightarrow> Inl e | Inr p \<Rightarrow> if length p \<noteq> 32 then Inl e else Inr p)"

text \<open>The result of \<open>VerifyPSAToken\<close>, which \<open>main\<close> prints.\<close>

definition attestMain :: "(string \<rightharpoonup> bytes) \<Rightarrow> attestFlags \<Rightarrow>
    attest_die + ((PSAClaims option \<times> token_error) + PSAClaims)" where
  "attestMain files f =
     bindE (refListSet [] (ARefs f)) (\<lambda>refs.
     if AToken f = [] \<or> APinX f = [] \<or> APinY f = [] \<or> ANonce f = [] then Inl RequiredFlags
     else
       bindE (readToken files (AToken f)) (\<lambda>token.
       bindE (pin32 PinXHex (APinX f)) (\<lambda>px.
       bindE (pin32 PinYHex (APinY f)) (\<lambda>py.
       case hex_decode (ANonce f) of
         Inl e \<Rightarrow> Inl (NonceFlag e)
       | Inr nonce \<Rightarrow>
           Inr (VerifyPSAToken token px py \<lparr> TokenExpectedNonce = nonce, ExpectedProfile = AProfile f,
             ReferenceMeasurements = refs \<rparr>)))))"

definition attestExit :: "attest_die + ((PSAClaims option \<times> token_error) + PSAClaims) \<Rightarrow> int" where
  "attestExit r = (case r of Inl _ \<Rightarrow> 2 | Inr (Inl _) \<Rightarrow> 1 | Inr (Inr _) \<Rightarrow> 0)"

section \<open>Reading the token\<close>

lemma trimPrefixes_id: "\<forall>w\<in>set ws. take (length w) s \<noteq> w \<Longrightarrow> trimPrefixes n ws s = s"
  by (cases n) (simp_all add: find_None_iff [THEN iffD2])

lemma hex_char_ascii: "v < 16 \<Longrightarrow> 48 \<le> (of_char (hex_char v) :: nat) \<and> (of_char (hex_char v) :: nat) \<le> 102"
  by (simp add: hex_char_def)

text \<open>No word of \<open>spaceRunes\<close> starts or ends with a hexadecimal digit.\<close>

definition hexish :: "char \<Rightarrow> bool" where
  "hexish c \<longleftrightarrow> 48 \<le> (of_char c :: nat) \<and> (of_char c :: nat) \<le> 102"

lemma spaceRunes_ends: "\<forall>w\<in>set spaceRunes. w \<noteq> [] \<and> \<not> hexish (hd w) \<and> \<not> hexish (List.last w)"
  by (simp add: spaceRunes_def hexish_def)

lemma trim_hexish:
  assumes "\<forall>c\<in>set s. hexish c"
  shows "trimSpace s = s"
proof (cases "s = []")
  case False
  have pre: "trimPrefixes n ws t = t" if "\<forall>w\<in>set ws. w \<noteq> [] \<and> \<not> hexish (hd w)" "t \<noteq> []" "hexish (hd t)" for n ws t
  proof (rule trimPrefixes_id, intro ballI notI)
    fix w assume "w \<in> set ws" "take (length w) t = w"
    with that show False by (metis hd_take length_greater_0_conv)
  qed
  have rev: "\<forall>w\<in>set (map rev spaceRunes). w \<noteq> [] \<and> \<not> hexish (hd w)"
    using spaceRunes_ends by (simp add: hd_rev)
  have "hexish (hd s)" "hexish (hd (rev s))" using assms False by (simp_all add: hd_rev)
  with False spaceRunes_ends pre [OF rev] show ?thesis by (simp add: trimSpace_def pre Let_def)
qed (simp add: trimSpace_def Let_def)

lemma hexish_encode: "\<forall>c\<in>set (hex_encode b). hexish c"
  using set_hex_encode [of b] hex_char_ascii by (force simp: hexish_def)

text \<open>A token given in hexadecimal, on the command line or in a file, is the token itself.\<close>

lemma readToken_hex:
  "files arg = Some (bytes_of_string (hex_encode b)) \<or> files arg = None \<and> arg = hex_encode b \<Longrightarrow>
     readToken files arg = Inr b"
  using trim_hexish [OF hexish_encode] by (auto simp: readToken_def)

lemma refListSet_hex: "refListSet r (map hex_encode bs) = Inr (r @ bs)"
  by (induction bs arbitrary: r) simp_all

lemma refListSet_Inr: "refListSet r vs = Inr r' \<longleftrightarrow> (\<exists>bs. r' = r @ bs \<and> list_all2 (\<lambda>v b. hex_decode v = Inr b) vs bs)"
  by (induction vs arbitrary: r) (auto simp: list_all2_Cons1 split: sum.splits)

lemma pin32_Inr: "pin32 e s = Inr p \<longleftrightarrow> hex_decode s = Inr p \<and> length p = 32"
  by (auto simp: pin32_def split: sum.splits)

lemma attestExit_0: "attestExit r = 0 \<longleftrightarrow> (\<exists>c. r = Inr (Inr c))"
  by (auto simp: attestExit_def split: sum.splits)

lemma attest_run:
  "attestExit (attestMain files f) = 0 \<longleftrightarrow>
     (\<exists>token px py nonce refs c. readToken files (AToken f) = Inr token \<and> AToken f \<noteq> [] \<and>
        hex_decode (APinX f) = Inr px \<and> length px = 32 \<and> hex_decode (APinY f) = Inr py \<and> length py = 32 \<and>
        hex_decode (ANonce f) = Inr nonce \<and> list_all2 (\<lambda>v b. hex_decode v = Inr b) (ARefs f) refs \<and>
        VerifyPSAToken token px py \<lparr> TokenExpectedNonce = nonce, ExpectedProfile = AProfile f,
          ReferenceMeasurements = refs \<rparr> = Inr c)" (is "?L \<longleftrightarrow> ?R")
proof
  assume ?L
  then obtain nonce where "hex_decode (ANonce f) = Inr nonce"
    by (cases "hex_decode (ANonce f)") (auto simp: attestExit_0 attestMain_def bindE_Inr_iff split: if_splits)
  with \<open>?L\<close> show ?R
    by (auto simp: attestExit_0 attestMain_def bindE_Inr_iff refListSet_Inr pin32_Inr split: if_splits) blast
next
  assume ?R
  then obtain token px py nonce refs c where h: "readToken files (AToken f) = Inr token" "AToken f \<noteq> []"
      "hex_decode (APinX f) = Inr px" "length px = 32" "hex_decode (APinY f) = Inr py" "length py = 32"
      "hex_decode (ANonce f) = Inr nonce" "refListSet [] (ARefs f) = Inr refs"
    and run: "VerifyPSAToken token px py \<lparr> TokenExpectedNonce = nonce, ExpectedProfile = AProfile f,
             ReferenceMeasurements = refs \<rparr> = Inr c"
    by (auto simp: refListSet_Inr)
  have "nonce \<noteq> []" using run by (auto simp: VerifyPSAToken_ok)
  then have "APinX f \<noteq> []" "APinY f \<noteq> []" "ANonce f \<noteq> []" using h(3-7) by auto
  with h run show ?L by (simp add: attestExit_0 attestMain_def pin32_def)
qed

section \<open>Properties\<close>

text \<open>C38: he-attest-verify exits with status 0 exactly when the token it read is signed by the pinned key
  and its claims have the profile and the nonce asked for, and every software component is a given
  reference; without a \<open>--ref\<close> flag the components are not looked at.\<close>

theorem attest_status_0_iff:
  "attestExit (attestMain files f) = 0 \<longleftrightarrow>
     (\<exists>token px py nonce refs pb payload plb sig c.
        readToken files (AToken f) = Inr token \<and> AToken f \<noteq> [] \<and>
        hex_decode (APinX f) = Inr px \<and> length px = 32 \<and> hex_decode (APinY f) = Inr py \<and> length py = 32 \<and>
        hex_decode (ANonce f) = Inr nonce \<and> nonce \<noteq> [] \<and>
        list_all2 (\<lambda>v b. hex_decode v = Inr b) (ARefs f) refs \<and>
        parseCOSESign1 token = Inr (pb, payload, plb, sig) \<and> verifySig (coseSigStruct pb plb) sig px py = Inr () \<and>
        parsePSAClaims payload = Inr c \<and>
        Profile c = (if AProfile f = [] then PSAProfile else AProfile f) \<and> TokenNonce c = nonce \<and>
        (refs = [] \<or> SoftwareComponents c \<noteq> [] \<and> MeasurementValue ` set (SoftwareComponents c) \<subseteq> set refs))"
  unfolding attest_run VerifyPSAToken_ok PSAOptions.simps
  by (rule iffI; elim exE conjE; intro exI conjI; assumption)

end
