(* ===== verification/Verify_Wasm.thy ===== *)
theory Verify_Wasm
  imports Verify_Cli Witness_Cli
begin

text \<open>
  The verifier in the browser (cmd/he-verify-wasm/main.go): \<open>heVerify\<close> and \<open>heVerifyEquivocation\<close> on
  JavaScript values, and how they compare with the command lines he-verify and he-witness.
\<close>

section \<open>The browser function heVerify\<close>

text \<open>A JavaScript value; \<open>'n\<close> is the type of its numbers, and \<open>toUint\<close> and \<open>toFloat\<close> the conversions
  from and to \<open>uint64\<close>. A missing property is undefined.\<close>

datatype 'n js_value =
    JsUndefined
  | JsOther
  | JsString string
  | JsNumber 'n
  | JsObject "string \<Rightarrow> 'n js_value"

definition getString :: "'n js_value \<Rightarrow> string \<Rightarrow> string" where
  "getString v key =
     (case v of JsObject o' \<Rightarrow> (case o' key of JsString s \<Rightarrow> s | _ \<Rightarrow> []) | _ \<Rightarrow> [])"

definition getNumber :: "'n js_value \<Rightarrow> string \<Rightarrow> 'n option" where
  "getNumber v key =
     (case v of JsObject o' \<Rightarrow> (case o' key of JsNumber n \<Rightarrow> Some n | _ \<Rightarrow> None) | _ \<Rightarrow> None)"

datatype wasm_failure =
    UsageString
  | InvalidBundleJson
  | BadExpectPrev hex_error
  | BadNonce hex_error
  | WasmPinsTogether
  | BadPinX hex_error
  | BadPinY hex_error

record 'n viewFields =
  VEvent :: string
  VPresence :: 'n
  VVoice :: bool
  VFrames :: 'n
  VWindow :: 'n
  VCounter :: 'n
  VNonce :: string
  VConfigHash :: string
  VInputHash :: string
  VPrevDigest :: string

text \<open>\<open>ok\<close>, \<open>reason\<close>, \<open>nextDigest\<close>, \<open>envelope\<close>, the predicate if there is one and, on a PASS only, the
  steps and the five answers.\<close>

record 'n wasmResult =
  WOk :: bool
  WReason :: reason
  WNextDigest :: string
  WEnvelope :: string
  WPredicate :: "'n viewFields option"
  WSteps :: "(string \<times> string \<times> string) list"
  WAnswers :: "(string \<times> string \<times> string \<times> string) list"

definition envelopeName :: "string \<Rightarrow> string" where
  "envelopeName cose = (if cose \<noteq> [] then ''cose-sign1'' else ''raw'')"

text \<open>Each gate with what it proves and its status; each question with its answer, its tier and what is not
  proven.\<close>

definition verifySteps :: "Options \<Rightarrow> (string \<times> string \<times> string) list" where
  "verifySteps opt =
     (let pinned = (length (sliceOf (PinPubX opt)) > 0 \<and> length (sliceOf (PinPubY opt)) > 0);
          chained = (length (sliceOf (ExpectedPrevDigest opt)) > 0);
          st = (\<lambda>name proves applicable. (name, proves, if applicable then ''pass'' else ''skipped''))
      in
      [st ''endorsement pin'' (''the signing key matches the enrolled device key'') pinned,
       st ''signature'' (''a key the device controls signed this exact verdict (ECDSA-P256 over SHA-256 of the payload)'') True,
       st ''freshness'' (''the signed nonce equals the challenge '' @ dash @ '' not a replayed or photographed verdict'') (length (ExpectedNonce opt) > 0),
       st ''anti-replay'' (''the monotonic counter advanced past the last accepted one'') True,
       st ''stream chain'' (''this window chains onto the previous one (a dropped window is a visible gap)'') chained])"

definition fiveAnswers :: "Predicate \<Rightarrow> (string \<times> string \<times> string \<times> string) list" where
  "fiveAnswers p =
     [(''what gets captured?'',
        ''sound is analyzed for one thing '' @ dash @ '' '' @ EventName p @ ''. the signed output is a verdict, not a recording or transcript.'',
        ''proven'',
        ''that the raw audio is wiped in-enclave and never reaches the OS is firmware behavior '' @ dash @ '' not proven by this signature (attestation tier).''),
      (''where does it go?'',
        ''the bundle is a signed verdict with no audio field '' @ dash @ '' that is the whole artifact.'',
        ''proven'',
        ''that the device has no separate covert channel rests on firmware measurement + source audit, not on one signature.''),
      (''who can access or release it?'',
        ''no retained audio to release; only a key the device controls can mint a valid verdict, and replays are rejected.'',
        ''integrity'',
        ''tying the verdict to a specific physical device needs a non-extractable hardware key (i.MX CAAM / ST element).''),
      (''how long is it kept?'',
        ''only a monotonic counter persists across windows '' @ dash @ '' it carries no audio; the analyzed window is a fingerprint (input_hash), not stored audio.'',
        ''attestation'',
        ''the in-enclave zeroize is firmware behavior '' @ dash @ '' verified on QEMU and by reading the source, not by this signature.''),
      (''how is it used?'',
        ''to compute this coarse verdict under a published policy; config_hash is bound into the signature so the rules are auditable from source.'',
        ''proven'',
        ''config_hash makes the policy checkable, not correct '' @ dash @ '' the detector is a heuristic, not an audited model.'')]"

definition predicateView :: "(u64 \<Rightarrow> 'n) \<Rightarrow> Predicate \<Rightarrow> 'n viewFields" where
  "predicateView toFloat p =
     \<lparr> VEvent = EventName p, VPresence = toFloat (Presence p), VVoice = VoiceActive p,
       VFrames = toFloat (Frames p), VWindow = toFloat (WindowMs p), VCounter = toFloat (Counter p),
       VNonce = hex_encode (Nonce p), VConfigHash = hex_encode (ConfigHash p),
       VInputHash = hex_encode (InputHash p), VPrevDigest = hex_encode (PrevDigest p) \<rparr>"

text \<open>The options object: without one every string is empty and the counter 0.\<close>

definition wasmOptions :: "('n \<Rightarrow> u64) \<Rightarrow> 'n js_value list \<Rightarrow> wasm_failure + Options" where
  "wasmOptions toUint args =
     (let o' = (case args of _ # v # _ \<Rightarrow> v | _ \<Rightarrow> JsUndefined);
          lc = (case getNumber o' ''lastCounter'' of None \<Rightarrow> 0 | Some n \<Rightarrow> toUint n);
          pinX = getString o' ''pinX''; pinY = getString o' ''pinY''
      in
      bindE (if getString o' ''expectPrev'' \<noteq> [] then
               (case hex_decode (getString o' ''expectPrev'') of
                  Inl e \<Rightarrow> Inl (BadExpectPrev e) | Inr d \<Rightarrow> Inr (Some d))
             else Inr None) (\<lambda>prev.
      bindE (wrapE BadNonce (hex_decode (getString o' ''nonce''))) (\<lambda>nonce.
      if (pinX = []) \<noteq> (pinY = []) then Inl WasmPinsTogether
      else
        bindE (if pinX \<noteq> [] then
                 bindE (wrapE BadPinX (hex_decode pinX)) (\<lambda>x.
                 bindE (wrapE BadPinY (hex_decode pinY)) (\<lambda>y. Inr (Some x, Some y)))
               else Inr (None, None)) (\<lambda>pins.
        Inr \<lparr> ExpectedNonce = nonce, PinPubX = fst pins, PinPubY = snd pins, LastCounter = lc,
              ExpectedPrevDigest = prev \<rparr>))))"

definition heVerify :: "(bytes \<Rightarrow> json option) \<Rightarrow> ('n \<Rightarrow> u64) \<Rightarrow> (u64 \<Rightarrow> 'n) \<Rightarrow> 'n js_value list \<Rightarrow>
    wasm_failure + 'n wasmResult" where
  "heVerify parse toUint toFloat args =
     (case args of
        JsString text # _ \<Rightarrow>
          (case probeInput parse (bytes_of_string text) of
             None \<Rightarrow> Inl InvalidBundleJson
           | Some p \<Rightarrow>
               bindE (wasmOptions toUint args) (\<lambda>opt.
               let res = probeVerify p opt in
               Inr \<lparr> WOk = OK res, WReason = Reason res, WNextDigest = hex_encode (sliceOf (NextDigest res)),
                     WEnvelope = envelopeName (PCOSE p),
                     WPredicate = map_option (predicateView toFloat) (Pred res),
                     WSteps = (if Pred res \<noteq> None \<and> OK res then verifySteps opt else []),
                     WAnswers = (case Pred res of None \<Rightarrow> [] | Some p \<Rightarrow> if OK res then fiveAnswers p else []) \<rparr>))
      | _ \<Rightarrow> Inl UsageString)"

section \<open>The browser function heVerifyEquivocation\<close>

text \<open>One half of the proof: the witness name, the checkpoint body and the cosignature.\<close>

definition decHalf :: "string \<times> string \<times> string \<Rightarrow> json \<Rightarrow> (string \<times> string \<times> string) option" where
  "decHalf old j =
     (case old of (w, body, cosig) \<Rightarrow>
        Option.bind (members j) (\<lambda>ms.
        Option.bind (structField decString ''witness'' ms w) (\<lambda>w'.
        Option.bind (structField decString ''checkpoint_body'' ms body) (\<lambda>body'.
        Option.bind (structField decString ''cosignature'' ms cosig) (\<lambda>cosig'.
        Some (w', body', cosig'))))))"

definition unmarshalEquivocation :: "json \<Rightarrow>
    ((string \<times> string \<times> string) \<times> (string \<times> string \<times> string)) option" where
  "unmarshalEquivocation j =
     Option.bind (members j) (\<lambda>ms.
     Option.bind (structField decString ''schema'' ms []) (\<lambda>_.
     Option.bind (structField decHalf ''a'' ms ([], [], [])) (\<lambda>a.
     Option.bind (structField decHalf ''b'' ms ([], [], [])) (\<lambda>b. Some (a, b)))))"

datatype equiv_failure =
    EquivUsage
  | InvalidProofJson
  | PinnedKeyHex string hex_error
  | CosigHexA hex_error
  | CosigHexB hex_error

definition pinHex :: "'n js_value \<Rightarrow> string \<Rightarrow> equiv_failure + bytes" where
  "pinHex keys name = wrapE (PinnedKeyHex name) (hex_decode (getString keys name))"

definition heVerifyEquivocation :: "(bytes \<Rightarrow> json option) \<Rightarrow> 'n js_value list \<Rightarrow>
    equiv_failure + (bool \<times> equivocation_verdict) \<times> string \<times> string" where
  "heVerifyEquivocation parse args =
     (case args of
        JsString text # keys # _ \<Rightarrow>
          (case Option.bind (parse (bytes_of_string text)) unmarshalEquivocation of
             None \<Rightarrow> Inl InvalidProofJson
           | Some ((wA, bodyA, sigA), (wB, bodyB, sigB)) \<Rightarrow>
               bindE (pinHex keys ''aPubX'') (\<lambda>aX.
               bindE (pinHex keys ''aPubY'') (\<lambda>aY.
               bindE (pinHex keys ''bPubX'') (\<lambda>bX.
               bindE (pinHex keys ''bPubY'') (\<lambda>bY.
               bindE (wrapE CosigHexA (hex_decode sigA)) (\<lambda>cosigA.
               bindE (wrapE CosigHexB (hex_decode sigB)) (\<lambda>cosigB.
               Inr (VerifyEquivocation (bytes_of_string bodyA) cosigA aX aY (bytes_of_string bodyB) cosigB bX bY,
                    wA, wB))))))))
      | _ \<Rightarrow> Inl EquivUsage)"

section \<open>The same gates behind both front ends\<close>

lemma unmarshal_probe:
  assumes "probeInput parse raw = Some p"
  shows "verifyEnvelope parse (PCOSE p \<noteq> []) raw opt = Inr (probeVerify p opt)"
  using assms
  by (auto simp: probeInput_def unmarshalProbe_def verifyEnvelope_def unmarshalBundle_def unmarshalCOSEBundle_def
      probeVerify_def bind_eq_Some_conv)

text \<open>The options the browser verifies with, for the properties of its options object.\<close>

definition jsOptions :: "'n js_value list \<Rightarrow> 'n js_value" where
  "jsOptions args = (case args of _ # v # _ \<Rightarrow> v | _ \<Rightarrow> JsUndefined)"

text \<open>The flags that say to he-verify what the options object says to the browser.\<close>

definition cliFlags :: "('n \<Rightarrow> u64) \<Rightarrow> 'n js_value list \<Rightarrow> bool \<Rightarrow> verifyFlags" where
  "cliFlags toUint args cose =
     (let v = jsOptions args in
      \<lparr> FNonce = getString v ''nonce'', FPinX = getString v ''pinX'', FPinY = getString v ''pinY'',
        FLastCounter = (case getNumber v ''lastCounter'' of None \<Rightarrow> 0 | Some n \<Rightarrow> toUint n),
        FExpectPrev = getString v ''expectPrev'', FCose = cose, FQuorum = 0, FCoAttest = 0, FRoots = [],
        FArgs = [] \<rparr>)"

lemma accepted_gates:
  "OK (VerifyBundle b opt) \<Longrightarrow> \<exists>payload. OK (gatesAfterSig payload opt)"
  "OK (VerifyCOSEBundle cb opt) \<Longrightarrow> \<exists>payload. OK (gatesAfterSig payload opt)"
  by (auto simp: VerifyBundle_ok VerifyCOSEBundle_ok)

lemma gates_prev_length:
  assumes "OK (gatesAfterSig payload opt)" "ExpectedPrevDigest opt = Some d"
  shows "length d = 32" "ExpectedNonce opt \<noteq> []"
proof -
  from assms(1) obtain p where p: "DecodePayload payload = Inr p" "freshPredicate p opt"
    by (auto simp: gatesAfterSig_ok)
  have "validPredicate p" using DecodePayload_sound [OF p(1)] by blast
  with p(2) assms(2) show "length d = 32" "ExpectedNonce opt \<noteq> []"
    by (auto simp: freshPredicate_def validPredicate_def hashLen_def)
qed

text \<open>Both front ends read the options alike, except that he-verify asks for 32-byte values.\<close>

lemma hex32_iff: "hex32 e s = Inr b \<longleftrightarrow> hex_decode s = Inr b \<and> length b = 32"
  by (auto simp: hex32_def split: sum.splits)

lemma hex32_error: "hex32 e s = Inl e' \<Longrightarrow> e' = e"
  by (auto simp: hex32_def split: sum.splits if_splits)

definition optionsMatch :: "('n \<Rightarrow> u64) \<Rightarrow> 'n js_value \<Rightarrow> Options \<Rightarrow> bool" where
  "optionsMatch toUint v opt \<longleftrightarrow>
     hex_decode (getString v ''nonce'') = Inr (ExpectedNonce opt) \<and>
     LastCounter opt = (case getNumber v ''lastCounter'' of None \<Rightarrow> 0 | Some n \<Rightarrow> toUint n) \<and>
     (case ExpectedPrevDigest opt of
        None \<Rightarrow> getString v ''expectPrev'' = []
      | Some d \<Rightarrow> getString v ''expectPrev'' \<noteq> [] \<and> hex_decode (getString v ''expectPrev'') = Inr d) \<and>
     (case (PinPubX opt, PinPubY opt) of
        (None, None) \<Rightarrow> getString v ''pinX'' = [] \<and> getString v ''pinY'' = []
      | (Some x, Some y) \<Rightarrow> getString v ''pinX'' \<noteq> [] \<and> getString v ''pinY'' \<noteq> [] \<and>
          hex_decode (getString v ''pinX'') = Inr x \<and> hex_decode (getString v ''pinY'') = Inr y
      | _ \<Rightarrow> False)"

lemma wasmOptions_match: "wasmOptions toUint args = Inr opt \<Longrightarrow> optionsMatch toUint (jsOptions args) opt"
  by (auto simp: wasmOptions_def Let_def jsOptions_def [symmetric] optionsMatch_def bindE_Inr_iff
      split: if_splits sum.splits)

lemma cli_verifies:
  assumes "optionsMatch toUint (jsOptions args) opt" and "getString (jsOptions args) ''nonce'' \<noteq> []"
    and "\<forall>d. ExpectedPrevDigest opt = Some d \<longrightarrow> length d = 32"
    and "\<forall>x. PinPubX opt = Some x \<longrightarrow> length x = 32" and "\<forall>y. PinPubY opt = Some y \<longrightarrow> length y = 32"
    and "probeInput parse raw = Some p"
  shows "heVerifyMain parse files (Some raw) (cliFlags toUint args (PCOSE p \<noteq> [])) =
    Inr (if \<not> OK (probeVerify p opt) then BundleFail (probeVerify p opt) else BundlePass (probeVerify p opt))"
proof -
  let ?f = "cliFlags toUint args (PCOSE p \<noteq> [])"
  have nonce: "hex_decode (FNonce ?f) = Inr (ExpectedNonce opt)" "FNonce ?f \<noteq> []"
    and lc: "FLastCounter ?f = LastCounter opt"
    using assms(1,2) by (simp_all add: cliFlags_def optionsMatch_def Let_def)
  have prev: "expectPrevFlag ?f = Inr (ExpectedPrevDigest opt)"
    using assms(1,3) by (auto simp: expectPrevFlag_def cliFlags_def Let_def optionsMatch_def hex32_iff bindE_Inr_iff
        split: option.splits)
  have pins: "pinFlags ?f = Inr (PinPubX opt, PinPubY opt)"
    using assms(1,4,5) by (auto simp: pinFlags_def cliFlags_def Let_def optionsMatch_def hex32_iff bindE_Inr_iff
        split: option.splits)
  have opt: "\<lparr> ExpectedNonce = ExpectedNonce opt, PinPubX = PinPubX opt, PinPubY = PinPubY opt,
      LastCounter = LastCounter opt, ExpectedPrevDigest = ExpectedPrevDigest opt \<rparr> = opt" by simp
  have f: "FRoots ?f = []" "FQuorum ?f = 0" "FCoAttest ?f = 0" "FArgs ?f = []" "FCose ?f = (PCOSE p \<noteq> [])"
    by (simp_all add: cliFlags_def Let_def)
  show ?thesis
    using nonce
    by (simp add: heVerifyMain_def f runSingle_def readBundle_def prev pins lc opt unmarshal_probe [OF assms(6)])
qed

lemma cli_refuses_options:
  assumes "wasmOptions toUint args = Inl e"
  shows "\<exists>e'. heVerifyMain parse files (Some raw) (cliFlags toUint args cose) = Inl e'"
proof -
  let ?f = "cliFlags toUint args cose"
  have f: "FRoots ?f = []" "FQuorum ?f = 0" "FCoAttest ?f = 0" "FArgs ?f = []"
    by (simp_all add: cliFlags_def Let_def)
  have "(\<exists>e'. expectPrevFlag ?f = Inl e') \<or> (\<exists>e'. hex_decode (FNonce ?f) = Inl e') \<or> (\<exists>e'. pinFlags ?f = Inl e')"
    using assms
    by (auto simp: wasmOptions_def Let_def jsOptions_def [symmetric] cliFlags_def expectPrevFlag_def pinFlags_def
        hex32_def bindE_def wrapE_def split: if_splits sum.splits)
  then show ?thesis
    by (cases "hex_decode (FNonce ?f)"; cases "expectPrevFlag ?f")
      (auto simp: heVerifyMain_def f runSingle_def readBundle_def)
qed

lemma probe_refused:
  assumes "ExpectedNonce opt = [] \<or> (\<exists>d. ExpectedPrevDigest opt = Some d \<and> length d \<noteq> 32)"
  shows "\<not> OK (probeVerify p opt)"
proof
  assume "OK (probeVerify p opt)"
  then obtain payload where ok: "OK (gatesAfterSig payload opt)"
    by (auto simp: probeVerify_def dest!: accepted_gates split: if_splits)
  then have "ExpectedNonce opt \<noteq> []" by (auto simp: gatesAfterSig_ok freshPredicate_def)
  with assms gates_prev_length [OF ok] show False by auto
qed

lemma cli_refuses_sizes:
  assumes "optionsMatch toUint (jsOptions args) opt"
    and "ExpectedNonce opt = [] \<or> (\<exists>d. ExpectedPrevDigest opt = Some d \<and> length d \<noteq> 32)"
  shows "verifyExit (heVerifyMain parse files (Some raw) (cliFlags toUint args cose)) = 2"
proof -
  let ?f = "cliFlags toUint args cose"
  have f: "FRoots ?f = []" "FQuorum ?f = 0" "FCoAttest ?f = 0" "FArgs ?f = []"
      "FNonce ?f = getString (jsOptions args) ''nonce''" "FExpectPrev ?f = getString (jsOptions args) ''expectPrev''"
    by (simp_all add: cliFlags_def Let_def)
  show ?thesis
  proof (cases "ExpectedNonce opt = []")
    case True
    then have "FNonce ?f = []" using assms(1) by (simp add: f optionsMatch_def)
    then show ?thesis by (simp add: heVerifyMain_def verifyExit_def)
  next
    case False
    then obtain d where "ExpectedPrevDigest opt = Some d" "length d \<noteq> 32" using assms(2) by blast
    then have "expectPrevFlag ?f = Inl ExpectPrevBad"
      using assms(1) by (simp add: expectPrevFlag_def f optionsMatch_def hex32_def)
    then show ?thesis
      by (simp add: heVerifyMain_def f runSingle_def readBundle_def verifyExit_def split: sum.split)
  qed
qed

lemma pins_sized:
  assumes "optionsMatch toUint v opt"
    and "length (getString v ''pinX'') \<in> {0, 64}" "length (getString v ''pinY'') \<in> {0, 64}"
  shows "\<forall>x. PinPubX opt = Some x \<longrightarrow> length x = 32" "\<forall>y. PinPubY opt = Some y \<longrightarrow> length y = 32"
  using assms by (auto simp: optionsMatch_def dest: hex_decode_length split: option.splits)

text \<open>C9: The browser accepts what the command line accepts: with pins of no or 64 hex digits, a bundle
  passes in \<open>heVerify\<close> exactly when he-verify, given the same options and \<open>--cose\<close> for a COSE envelope,
  exits with status 0; and options the browser rejects make he-verify exit with status 2.\<close>

theorem browser_and_cli_agree:
  assumes "length (getString (jsOptions (JsString text # rest)) ''pinX'') \<in> {0, 64}"
    and "length (getString (jsOptions (JsString text # rest)) ''pinY'') \<in> {0, 64}"
  shows "case heVerify parse toUint toFloat (JsString text # rest) of
      Inr r \<Rightarrow> WOk r \<longleftrightarrow> verifyExit (heVerifyMain parse files (Some (bytes_of_string text))
        (cliFlags toUint (JsString text # rest) (WEnvelope r = ''cose-sign1''))) = 0
    | Inl e \<Rightarrow> e = InvalidBundleJson \<and> probeInput parse (bytes_of_string text) = None \<or>
        verifyExit (heVerifyMain parse files (Some (bytes_of_string text))
          (cliFlags toUint (JsString text # rest) cose)) = 2"
proof -
  let ?args = "JsString text # rest" and ?raw = "bytes_of_string text"
  show ?thesis
  proof (cases "probeInput parse ?raw")
    case None
    then show ?thesis by (simp add: heVerify_def)
  next
    case (Some p)
    show ?thesis
    proof (cases "wasmOptions toUint ?args")
      case (Inl e)
      with Some cli_refuses_options [OF Inl, of parse files ?raw cose] show ?thesis
        by (auto simp: heVerify_def verifyExit_def)
    next
      case (Inr opt)
      note match = wasmOptions_match [OF Inr]
      have "OK (probeVerify p opt) \<longleftrightarrow>
          verifyExit (heVerifyMain parse files (Some ?raw) (cliFlags toUint ?args (PCOSE p \<noteq> []))) = 0"
      proof (cases "ExpectedNonce opt = [] \<or> (\<exists>d. ExpectedPrevDigest opt = Some d \<and> length d \<noteq> 32)")
        case True
        then show ?thesis
          using probe_refused [OF True] cli_refuses_sizes [OF match True] by simp
      next
        case False
        then have "getString (jsOptions ?args) ''nonce'' \<noteq> []" using match by (auto simp: optionsMatch_def)
        then show ?thesis
          using cli_verifies [OF match _ _ pins_sized [OF match assms] Some, of files] False
          by (simp add: verifyExit_def)
      qed
      moreover have "(envelopeName (PCOSE p) = ''cose-sign1'') = (PCOSE p \<noteq> [])"
        by (simp add: envelopeName_def)
      ultimately show ?thesis using Some Inr by (simp add: heVerify_def Let_def)
    qed
  qed
qed

section \<open>Equivocation proofs\<close>

text \<open>For the proof and the pinned keys it decodes, the browser reports a valid equivocation proof
  exactly when the check of he-witness verify-equivocation succeeds, and with the same verdict.\<close>

theorem browser_equivocation_agrees:
  assumes "heVerifyEquivocation parse (JsString text # keys # rest) = Inr ((ok, why), wA, wB)"
  shows "\<exists>bodyA sigA bodyB sigB aX aY bX bY.
    Option.bind (parse (bytes_of_string text)) unmarshalEquivocation = Some ((wA, bodyA, sigA), (wB, bodyB, sigB)) \<and>
    hex_decode (getString keys ''aPubX'') = Inr aX \<and> hex_decode (getString keys ''aPubY'') = Inr aY \<and>
    hex_decode (getString keys ''bPubX'') = Inr bX \<and> hex_decode (getString keys ''bPubY'') = Inr bY \<and>
    (\<forall>p. ECheckpointBody (EA p) = bodyA \<longrightarrow> ECosignature (EA p) = sigA \<longrightarrow>
       ECheckpointBody (EB p) = bodyB \<longrightarrow> ECosignature (EB p) = sigB \<longrightarrow>
       checkProof p (aX, aY, bX, bY) = (if ok then Inr why else Inl (NotEquivocation why)))"
  using assms
  by (auto simp: heVerifyEquivocation_def pinHex_def bindE_Inr_iff checkProof_def split: option.splits)

end
