(* ===== verification/Verify_Demo.thy ===== *)
theory Verify_Demo
  imports Verify_Wasm Bound_Demo Witness_Cli_Demo
begin

text \<open>
  The inputs on which the theorems about he-verify and its browser twin are applied: the bundle of
  \<open>Bound_Demo\<close> as a JSON object, and the equivocation proof of \<open>Witness_Cli_Demo\<close>.
\<close>

section \<open>A bundle that passes in both front ends\<close>

definition bundleJson :: "Bundle \<Rightarrow> json" where
  "bundleJson b = JObject [(''schema'', JString (Schema b)), (''payload'', JString (Payload b)),
     (''sig'', JString (Sig b)), (''pub_x'', JString (PubX b)), (''pub_y'', JString (PubY b))]"

lemma bundleJson_fields:
  "stringField ''schema'' (bundleJson b) = Some (Schema b)" "stringField ''payload'' (bundleJson b) = Some (Payload b)"
  "stringField ''sig'' (bundleJson b) = Some (Sig b)" "stringField ''pub_x'' (bundleJson b) = Some (PubX b)"
  "stringField ''pub_y'' (bundleJson b) = Some (PubY b)" "stringField ''cose'' (bundleJson b) = Some []"
  by (simp_all add: stringField_def bundleJson_def members_def decString_def json_names del: foldName.simps)

definition nine :: string where "nine = hex_encode [9]"

text \<open>What the browser is given: the nonce, the last counter 4 and a pin.\<close>

definition jsArgs :: "bytes \<Rightarrow> bytes \<Rightarrow> int js_value list" where
  "jsArgs px py = [JsString [], JsObject ((\<lambda>_. JsUndefined)(''nonce'' := JsString nine,
     ''lastCounter'' := JsNumber 4, ''pinX'' := JsString (hex_encode px), ''pinY'' := JsString (hex_encode py)))]"

lemma jsArgs_strings:
  "getString (jsOptions (jsArgs px py)) ''nonce'' = nine"
  "getString (jsOptions (jsArgs px py)) ''pinX'' = hex_encode px"
  "getString (jsOptions (jsArgs px py)) ''pinY'' = hex_encode py"
  "getString (jsOptions (jsArgs px py)) ''expectPrev'' = []"
  "getNumber (jsOptions (jsArgs px py)) ''lastCounter'' = Some 4"
  by (simp_all add: jsOptions_def jsArgs_def getString_def getNumber_def)

lemma jsArgs_options:
  assumes "px \<noteq> []" "py \<noteq> []"
  shows "wasmOptions word_of_int (jsArgs px py) =
    Inr \<lparr> ExpectedNonce = [9], PinPubX = Some px, PinPubY = Some py, LastCounter = 4, ExpectedPrevDigest = None \<rparr>"
  using assms
  by (simp add: wasmOptions_def Let_def jsOptions_def [symmetric] jsArgs_strings hex_encode_nonempty)
    (simp add: nine_def)

definition probeOf :: "Bundle \<Rightarrow> proverJSON" where
  "probeOf b = \<lparr> PSchema = Schema b, PPayload = Payload b, PCOSE = [], PSig = Sig b, PPubX = PubX b, PPubY = PubY b \<rparr>"

lemma bundleJson_probe: "probeInput (\<lambda>_. Some (bundleJson b)) raw = Some (probeOf b)"
  by (simp add: probeInput_def unmarshalProbe_def bundleJson_fields probeOf_def)

lemma probeOf_verify: "probeVerify (probeOf b) opt = VerifyBundle b opt" "PCOSE (probeOf b) = []"
  by (cases b; simp add: probeVerify_def probeOf_def)+

lemma demo_key_lengths: "length demoPx = 32" "length demoPy = 32"
  by (simp_all add: demoPx_def demoPy_def)

text \<open>The bundle under keys of any width that stand for the device key.\<close>

definition widened :: "bytes \<Rightarrow> bytes \<Rightarrow> Bundle" where
  "widened px py = demoBundle\<lparr> PubX := hex_encode px, PubY := hex_encode py \<rparr>"

lemma widened_run:
  assumes "be_nat px = be_nat demoPx" "be_nat py = be_nat demoPy"
  shows "OK (VerifyBundle (widened px py)
    \<lparr> ExpectedNonce = [9], PinPubX = Some px, PinPubY = Some py, LastCounter = 4, ExpectedPrevDigest = None \<rparr>)"
proof -
  have "deviceSigned px py (encodePayload demoPredicate) demoRS"
    using demo_signed assms by (simp add: deviceSigned_def)
  moreover have "OK (gatesAfterSig (encodePayload demoPredicate)
      \<lparr> ExpectedNonce = [9], PinPubX = Some px, PinPubY = Some py, LastCounter = 4, ExpectedPrevDigest = None \<rparr>)"
    using DecodePayload_encode [OF demo_valid]
    by (auto simp: gatesAfterSig_ok freshPredicate_def demoPredicate_def)
  ultimately show ?thesis
    by (subst VerifyBundle_run [where sig = demoRS and px = px and py = py])
      (simp_all add: widened_def demoBundle_def keyPinned_def sliceOf_def)
qed

lemma widened_browser:
  assumes "be_nat px = be_nat demoPx" "be_nat py = be_nat demoPy" "px \<noteq> []" "py \<noteq> []"
  shows "\<exists>r. heVerify (\<lambda>_. Some (bundleJson (widened px py))) word_of_int uint (jsArgs px py) = Inr r \<and> WOk r \<and>
    WEnvelope r = ''raw''"
  using widened_run [OF assms(1,2)] jsArgs_options [OF assms(3,4)]
  by (simp add: heVerify_def jsArgs_def bundleJson_probe probeOf_verify Let_def envelopeName_def)

lemma browser_and_cli_agree_witness:
  "verifyExit (heVerifyMain (\<lambda>_. Some (bundleJson (widened demoPx demoPy))) (\<lambda>_. None) (Some [])
     (cliFlags word_of_int (jsArgs demoPx demoPy) False)) = 0"
proof -
  have ne: "demoPx \<noteq> []" "demoPy \<noteq> []" using demo_key_lengths by auto
  obtain r where r: "heVerify (\<lambda>_. Some (bundleJson (widened demoPx demoPy))) word_of_int uint (jsArgs demoPx demoPy) = Inr r"
      "WOk r" "WEnvelope r = ''raw''"
    using widened_browser [OF refl refl ne] by blast
  show ?thesis
    using browser_and_cli_agree [where ?text = "[]" and rest = "tl (jsArgs demoPx demoPy)" and toUint = word_of_int
        and parse = "\<lambda>_. Some (bundleJson (widened demoPx demoPy))" and toFloat = uint and files = "\<lambda>_. None"] r jsArgs_strings [of demoPx demoPy] demo_key_lengths
    by (simp add: jsArgs_def bytes_of_string_def)
qed

text \<open>The browser and the command line part on the width of a pin: with the device's key written in 33
  bytes, in the bundle and as the pin, \<open>heVerify\<close> accepts a bundle for which he-verify exits with
  status 2, although both are to accept the same bytes.\<close>

theorem browser_accepts_wide_pin:
  "\<exists>r. heVerify (\<lambda>_. Some (bundleJson (widened (0 # demoPx) (0 # demoPy)))) word_of_int uint
       (jsArgs (0 # demoPx) (0 # demoPy)) = Inr r \<and> WOk r \<and>
     verifyExit (heVerifyMain (\<lambda>_. Some (bundleJson (widened (0 # demoPx) (0 # demoPy)))) (\<lambda>_. None) (Some [])
       (cliFlags word_of_int (jsArgs (0 # demoPx) (0 # demoPy)) False)) = 2"
proof -
  have be: "be_nat (0 # b) = be_nat b" for b by (simp add: be_nat_def)
  let ?f = "cliFlags word_of_int (jsArgs (0 # demoPx) (0 # demoPy)) False"
  have f: "FRoots ?f = []" "FQuorum ?f = 0" "FCoAttest ?f = 0" "FArgs ?f = []" "FNonce ?f = nine"
      "FExpectPrev ?f = []" "FPinX ?f = hex_encode (0 # demoPx)" "FPinY ?f = hex_encode (0 # demoPy)"
    using jsArgs_strings [of "0 # demoPx" "0 # demoPy"] by (simp_all add: cliFlags_def Let_def)
  have "pinFlags ?f = Inl PinXBad"
    using demo_key_lengths hex_decode_encode [of "0 # demoPx"]
    by (simp add: pinFlags_def f hex32_def hex_encode_nonempty del: hex_encode.simps)
  then have "verifyExit (heVerifyMain (\<lambda>_. Some (bundleJson (widened (0 # demoPx) (0 # demoPy)))) (\<lambda>_. None)
      (Some []) ?f) = 2"
    by (simp add: heVerifyMain_def f runSingle_def readBundle_def expectPrevFlag_def verifyExit_def nine_def)
  then show ?thesis using widened_browser [OF be be] by auto
qed

section \<open>he-verify\<close>

lemma he_verify_status_0_witness:
  "\<exists>raw prev res. readBundle (\<lambda>_. None) (Some []) [] = Inr raw \<and>
     verifyEnvelope (\<lambda>_. Some (bundleJson (widened demoPx demoPy))) False raw
       \<lparr> ExpectedNonce = [9], PinPubX = Some demoPx, PinPubY = Some demoPy, LastCounter = 4, ExpectedPrevDigest = prev \<rparr> =
       Inr res \<and> OK res"
proof -
  let ?f = "cliFlags word_of_int (jsArgs demoPx demoPy) False"
  let ?parse = "\<lambda>_. Some (bundleJson (widened demoPx demoPy))"
  have ne: "demoPx \<noteq> []" "demoPy \<noteq> []" using demo_key_lengths by auto
  note match = wasmOptions_match [OF jsArgs_options [OF ne]]
  have probe: "probeInput ?parse [] = Some (probeOf (widened demoPx demoPy))" by (rule bundleJson_probe)
  have main: "heVerifyMain ?parse (\<lambda>_. None) (Some []) (cliFlags word_of_int (jsArgs demoPx demoPy) (PCOSE (probeOf (widened demoPx demoPy)) \<noteq> [])) =
      Inr (BundlePass (probeVerify (probeOf (widened demoPx demoPy)) \<lparr> ExpectedNonce = [9], PinPubX = Some demoPx,
        PinPubY = Some demoPy, LastCounter = 4, ExpectedPrevDigest = None \<rparr>))"
    using widened_run [OF refl refl]
    by (subst cli_verifies [OF match _ _ _ _ probe])
      (simp_all add: jsArgs_strings demo_key_lengths probeOf_verify, simp_all add: nine_def)
  have f: "FQuorum ?f = 0" "FCoAttest ?f = 0" "FArgs ?f = []" "FNonce ?f = hex_encode [9]" "FCose ?f = False"
      "FPinX ?f = hex_encode demoPx" "FPinY ?f = hex_encode demoPy" "FLastCounter ?f = 4"
    using jsArgs_strings [of demoPx demoPy] by (simp_all add: cliFlags_def Let_def nine_def)
  have pins: "pinFlags ?f = Inr (Some demoPx, Some demoPy)"
    by (simp add: pinFlags_def f hex32_def hex_encode_nonempty ne demo_key_lengths)
  have "verifyExit (heVerifyMain ?parse (\<lambda>_. None) (Some []) ?f) = 0"
    using main by (simp add: probeOf_verify verifyExit_def)
  from he_verify_status_0 [OF this] show ?thesis
    by (simp add: f pins pinsGiven_iff prevGiven_iff del: hex_encode.simps) blast
qed

section \<open>An equivocation proof in the browser\<close>

definition forkText :: json where
  "forkText = JObject [
     (''a'', JObject [(''witness'', JString ''w1''), (''checkpoint_body'', JString (string_of_bytes noteBody)),
        (''cosignature'', JString (hex_encode noteSig))]),
     (''b'', JObject [(''witness'', JString ''w2''), (''checkpoint_body'', JString (string_of_bytes forkBody)),
        (''cosignature'', JString (hex_encode forkSig))])]"

definition forkKeys :: "int js_value" where
  "forkKeys = JsObject ((\<lambda>_. JsUndefined)(''aPubX'' := JsString (hex_encode notePx),
     ''aPubY'' := JsString (hex_encode notePy), ''bPubX'' := JsString (hex_encode forkPx),
     ''bPubY'' := JsString (hex_encode forkPy)))"

lemma foldName_halves [json_names]: "foldName ''a'' = ''A''" "foldName ''b'' = ''B''" "foldName ''witness'' = ''WITNESS''"
  "foldName ''checkpoint_body'' = ''CHECKPOINT_BODY''" "foldName ''cosignature'' = ''COSIGNATURE''"
  by code_simp+

lemma forkText_parts: "unmarshalEquivocation forkText =
    Some ((''w1'', string_of_bytes noteBody, hex_encode noteSig), (''w2'', string_of_bytes forkBody, hex_encode forkSig))"
  by (simp add: unmarshalEquivocation_def forkText_def members_def decHalf_def decString_def json_names
      del: foldName.simps)

lemma fork_in_browser:
  "heVerifyEquivocation (\<lambda>_. Some forkText) [JsString [], forkKeys] =
    Inr ((True, Equivocated ''mlog'' 2 (take 4 (mth demoLog)) (take 4 forkRoot)), ''w1'', ''w2'')"
proof -
  have "VerifyEquivocation noteBody noteSig notePx notePy forkBody forkSig forkPx forkPy =
      (True, Equivocated ''mlog'' 2 (take 4 (mth demoLog)) (take 4 forkRoot))"
    using note_signed fork_signed note_parse fork_parse fork_differs
    by (simp add: VerifyEquivocation_def VerifyCheckpointSig_def)
  then show ?thesis
    by (simp add: heVerifyEquivocation_def forkText_parts pinHex_def forkKeys_def getString_def)
qed

lemma browser_equivocation_agrees_witness:
  "\<exists>aX aY bX bY. checkProof forkProof (aX, aY, bX, bY) = Inr (Equivocated ''mlog'' 2 (take 4 (mth demoLog)) (take 4 forkRoot))"
proof -
  from browser_equivocation_agrees [OF fork_in_browser] obtain bodyA sigA bodyB sigB aX aY bX bY
    where "unmarshalEquivocation forkText = Some ((''w1'', bodyA, sigA), (''w2'', bodyB, sigB))"
      and c: "\<forall>p. ECheckpointBody (EA p) = bodyA \<longrightarrow> ECosignature (EA p) = sigA \<longrightarrow>
       ECheckpointBody (EB p) = bodyB \<longrightarrow> ECosignature (EB p) = sigB \<longrightarrow>
       checkProof p (aX, aY, bX, bY) = Inr (Equivocated ''mlog'' 2 (take 4 (mth demoLog)) (take 4 forkRoot))"
    by auto
  then show ?thesis
    using c [rule_format, of forkProof] by (intro exI [of _ aX] exI [of _ aY] exI [of _ bX] exI [of _ bY])
      (simp add: forkText_parts forkProof_def)
qed

end
