(* ===== verification/Tools_Demo.thy ===== *)
theory Tools_Demo
  imports Dump_Cli Gui Attest_Cli Verify_Demo
begin

text \<open>
  The inputs on which the theorems about he-dump and he-gui are applied: the bundle of \<open>Bound_Demo\<close>, as a
  file and as the output of the simulator.
\<close>

lemma demo_unpinned:
  "OK (VerifyBundle (widened demoPx demoPy) (guiOptions [9] 4))"
proof -
  have "OK (gatesAfterSig (encodePayload demoPredicate) (guiOptions [9] 4))"
    using DecodePayload_encode [OF demo_valid]
    by (auto simp: gatesAfterSig_ok freshPredicate_def demoPredicate_def guiOptions_def)
  then show ?thesis
    using demo_signed
    by (subst VerifyBundle_run [where sig = demoRS and px = demoPx and py = demoPy])
      (simp_all add: widened_def demoBundle_def keyPinned_def guiOptions_def)
qed

lemma demo_text: "unmarshalBundle (bundleJson b) = Some b"
  by (cases b) (simp add: unmarshalBundle_def bundleJson_fields)

lemma dump_shows_what_is_verified_witness:
  "\<exists>b' payload p. Pred (VerifyBundle (widened demoPx demoPy) (guiOptions [9] 4)) = Some p \<and>
    dumpMain (\<lambda>_. Some (bundleJson (widened demoPx demoPy))) (\<lambda>_. []) [] (Some []) =
      Inr (render (\<lambda>_. []) (Some b') payload (Inr p), 0)"
  by (rule dump_shows_what_is_verified [where cose = False and raw = "[]" and opt = "guiOptions [9] 4"
      and res = "VerifyBundle (widened demoPx demoPy) (guiOptions [9] 4)" and b = "widened demoPx demoPy"])
    (simp_all add: verifyEnvelope_def demo_text demo_unpinned)

definition demoSim :: "bytes \<Rightarrow> string \<Rightarrow> string \<Rightarrow> bytes option" where
  "demoSim pcm nonce ctr = Some []"

lemma demo_listen:
  "\<exists>res. listenHandler (\<lambda>_. Some (bundleJson (widened demoPx demoPy))) demoSim TempOk (Some [9]) ''POST''
     (Some (replicate 64 0)) 4 = (Answer res, 5) \<and> GVerified res"
  using demo_unpinned
  by (simp add: listenHandler_def process_def demoSim_def demo_text guiOptions_def [symmetric] Let_def)

lemma posted_back_verifies_witness:
  "\<exists>res res'. listenHandler (\<lambda>_. Some (bundleJson (widened demoPx demoPy))) demoSim TempOk (Some [9]) ''POST''
     (Some (replicate 64 0)) 4 = (Answer res, 5) \<and>
     verifyHandler (Some (postedBack res)) ''POST'' = Answer res' \<and> GVerified res'"
  using demo_listen posted_back_verifies by blast

end
