(* ===== verification/Consent_Cli.thy ===== *)
theory Consent_Cli
  imports Json Threshold
begin

text \<open>
  The consent command line (cmd/he-consent/main.go): \<open>seal\<close> and \<open>reveal\<close>, \<open>disclose\<close> and
  \<open>verify-disclosure\<close>. A file is raw bytes, or a JSON value this program has written; \<open>parse\<close> and
  \<open>render\<close> are \<open>json.Unmarshal\<close> into a value and \<open>json.MarshalIndent\<close>. \<open>cli.Die\<close> (status 2) is \<open>Inl\<close>,
  and \<open>seal\<close> gives the files it leaves in both cases.
\<close>

datatype consent_die =
    UnexpectedArg string
  | NeedsValue string
  | ConsentUsage string
  | UnknownCommand string
  | CannotRead string
  | CannotParse string
  | NotInteger string
  | SealFails threshold_error
  | CannotMakeDir string
  | CannotWrite string
  | BadCiphertextHex
  | BadShareHex string
  | RevealFails threshold_error
  | NoWindows
  | DiscloseFails merkle_error
  | RootHex
  | EntryHex
  | ProofNodeHex
  | NotIncluded int

section \<open>Flags\<close>

definition helpRequested_consent :: "string list \<Rightarrow> bool" where
  "helpRequested_consent args \<longleftrightarrow>
     length args > 0 \<and> (args ! 0 = ''-h'' \<or> args ! 0 = ''--help'' \<or> args ! 0 = ''help'')"

text \<open>\<open>indexEq\<close>: where the first equals sign is, if there is one.\<close>

fun indexEq :: "string \<Rightarrow> nat option" where
  "indexEq [] = None"
| "indexEq (c # s) = (if c = CHR ''='' then Some 0 else map_option Suc (indexEq s))"

type_synonym flag_maps = "(string \<rightharpoonup> string) \<times> (string \<Rightarrow> string list)"

definition setFlag :: "string \<Rightarrow> string \<Rightarrow> flag_maps \<Rightarrow> flag_maps" where
  "setFlag k v m = ((fst m)(k \<mapsto> v), (snd m)(k := snd m k @ [v]))"

fun consentFlagLoop :: "flag_maps \<Rightarrow> string list \<Rightarrow> consent_die + flag_maps" where
  "consentFlagLoop m [] = Inr m"
| "consentFlagLoop m (a # rest) =
     (if length a < 3 \<or> take 2 a \<noteq> ''--'' then Inl (UnexpectedArg a)
      else
        let k = drop 2 a in
        case indexEq k of
          Some eq \<Rightarrow> consentFlagLoop (setFlag (take eq k) (drop (Suc eq) k) m) rest
        | None \<Rightarrow>
            (case rest of
               [] \<Rightarrow> Inl (NeedsValue k)
             | v # rest' \<Rightarrow>
                 if length v \<ge> 2 \<and> take 2 v = ''--'' then Inl (NeedsValue k)
                 else consentFlagLoop (setFlag k v m) rest'))"

definition consentFlags :: "string list \<Rightarrow> consent_die + flag_maps" where
  "consentFlags args = consentFlagLoop (Map.empty, \<lambda>_. []) args"

definition single :: "flag_maps \<Rightarrow> string \<Rightarrow> string" where
  "single m k = (case fst m k of None \<Rightarrow> [] | Some v \<Rightarrow> v)"

section \<open>Files\<close>

datatype stored = Raw bytes | Written json

type_synonym store = "string \<rightharpoonup> stored"

definition readInput :: "(json \<Rightarrow> bytes) \<Rightarrow> store \<Rightarrow> string \<Rightarrow> consent_die + bytes" where
  "readInput render files name =
     (case files (if name = ''-'' then ''/dev/stdin'' else name) of
        None \<Rightarrow> Inl (CannotRead name)
      | Some (Raw b) \<Rightarrow> Inr b
      | Some (Written j) \<Rightarrow> Inr (render j @ [10]))"

definition readJSON :: "(bytes \<Rightarrow> json option) \<Rightarrow> store \<Rightarrow> string \<Rightarrow> (json \<Rightarrow> 'a option) \<Rightarrow> consent_die + 'a" where
  "readJSON parse files name unmarshal =
     (case files name of
        None \<Rightarrow> Inl (CannotRead name)
      | Some f \<Rightarrow>
          (case Option.bind (case f of Raw b \<Rightarrow> parse b | Written j \<Rightarrow> Some j) unmarshal of
             None \<Rightarrow> Inl (CannotParse name) | Some x \<Rightarrow> Inr x))"

text \<open>\<open>writable\<close> says which paths \<open>os.WriteFile\<close> can write.\<close>

definition writeJSON :: "(string \<Rightarrow> bool) \<Rightarrow> string \<Rightarrow> json \<Rightarrow> store \<Rightarrow> (consent_die + unit) \<times> store" where
  "writeJSON writable name j files =
     (if writable name then (Inr (), files(name \<mapsto> Written j)) else (Inl (CannotWrite name), files))"

definition mustInt :: "string \<Rightarrow> string \<Rightarrow> consent_die + int" where
  "mustInt s name = (case atoi s of None \<Rightarrow> Inl (NotInteger name) | Some n \<Rightarrow> Inr n)"

section \<open>Wire formats\<close>

record shareJSON =
  SX :: int
  SY :: string

record sealedJSON =
  SealedCiphertext :: string
  SealedKField :: int
  SealedNField :: int

record disclosureJSON =
  DIndex :: int
  DSize :: int
  DEntry :: string
  DProof :: "string list"

definition marshalShare :: "shareJSON \<Rightarrow> json" where
  "marshalShare s = JObject [(''x'', JInteger (SX s)), (''y'', JString (SY s))]"

definition unmarshalShare :: "json \<Rightarrow> shareJSON option" where
  "unmarshalShare j =
     Option.bind (intField ''x'' j) (\<lambda>x.
     Option.bind (stringField ''y'' j) (\<lambda>y. Some \<lparr> SX = x, SY = y \<rparr>))"

definition marshalSealed :: "sealedJSON \<Rightarrow> json" where
  "marshalSealed s = JObject [(''ciphertext'', JString (SealedCiphertext s)), (''k'', JInteger (SealedKField s)),
     (''n'', JInteger (SealedNField s))]"

definition unmarshalSealed :: "json \<Rightarrow> sealedJSON option" where
  "unmarshalSealed j =
     Option.bind (stringField ''ciphertext'' j) (\<lambda>ct.
     Option.bind (intField ''k'' j) (\<lambda>k.
     Option.bind (intField ''n'' j) (\<lambda>n.
     Some \<lparr> SealedCiphertext = ct, SealedKField = k, SealedNField = n \<rparr>)))"

text \<open>A nil slice is written as \<open>null\<close>; \<open>disclose\<close> adds the root to the fields of the disclosure.\<close>

definition marshalDisclosure :: "disclosureJSON \<Rightarrow> string \<Rightarrow> json" where
  "marshalDisclosure d rt = JObject [(''index'', JInteger (DIndex d)), (''size'', JInteger (DSize d)),
     (''entry'', JString (DEntry d)),
     (''proof'', if DProof d = [] then JNull else JArray (map JString (DProof d))), (''root'', JString rt)]"

definition unmarshalDisclosure :: "json \<Rightarrow> disclosureJSON option" where
  "unmarshalDisclosure j =
     Option.bind (intField ''index'' j) (\<lambda>i.
     Option.bind (intField ''size'' j) (\<lambda>n.
     Option.bind (stringField ''entry'' j) (\<lambda>e.
     Option.bind (stringsField ''proof'' j) (\<lambda>ps.
     Some \<lparr> DIndex = i, DSize = n, DEntry = e, DProof = ps \<rparr>))))"

section \<open>Seal and reveal\<close>

definition sharePath :: "string \<Rightarrow> int \<Rightarrow> string" where
  "sharePath dir x = dir @ ''/share-'' @ dec_int x @ ''.json''"

fun writeShares :: "(string \<Rightarrow> bool) \<Rightarrow> string \<Rightarrow> Share list \<Rightarrow> store \<Rightarrow> (consent_die + unit) \<times> store" where
  "writeShares writable dir [] files = (Inr (), files)"
| "writeShares writable dir (sh # shares) files =
     (case writeJSON writable (sharePath dir (ShareX sh))
             (marshalShare \<lparr> SX = ShareX sh, SY = hex_encode (ShareY sh) \<rparr>) files of
        (Inl e, files') \<Rightarrow> (Inl e, files')
      | (Inr _, files') \<Rightarrow> writeShares writable dir shares files')"

text \<open>\<open>keyRand\<close>, \<open>nonce\<close> and \<open>rs\<close> are the key, the nonce and the coefficients drawn; the threshold and
  the number of shares are printed.\<close>

definition sealArtifact :: "(json \<Rightarrow> bytes) \<Rightarrow> bytes option \<Rightarrow> bytes option \<Rightarrow> int option list \<Rightarrow> store \<Rightarrow>
    flag_maps \<Rightarrow> consent_die + SealedReveal" where
  "sealArtifact render keyRand nonce rs files m =
     (if single m ''in'' = [] \<or> single m ''out-dir'' = [] \<or> single m ''k'' = [] \<or> single m ''n'' = []
      then Inl (ConsentUsage ''seal'')
      else
        bindE (readInput render files (single m ''in'')) (\<lambda>plaintext.
        bindE (mustInt (single m ''k'') ''k'') (\<lambda>k.
        bindE (mustInt (single m ''n'') ''n'') (\<lambda>n.
        wrapE SealFails (ThresholdSeal keyRand nonce rs plaintext k n)))))"

definition writeSealed :: "(string \<Rightarrow> bool) \<Rightarrow> string \<Rightarrow> SealedReveal \<Rightarrow> store \<Rightarrow> (consent_die + unit) \<times> store" where
  "writeSealed writable dir sr files =
     (case writeJSON writable (dir @ ''/sealed.json'')
             (marshalSealed \<lparr> SealedCiphertext = hex_encode (Ciphertext sr), SealedKField = SealedK sr,
                SealedNField = SealedN sr \<rparr>) files of
        (Inl e, files') \<Rightarrow> (Inl e, files')
      | (Inr _, files') \<Rightarrow> writeShares writable dir (Shares sr) files')"

definition runSeal :: "(json \<Rightarrow> bytes) \<Rightarrow> bytes option \<Rightarrow> bytes option \<Rightarrow> int option list \<Rightarrow> (string \<Rightarrow> bool) \<Rightarrow>
    (string \<Rightarrow> bool) \<Rightarrow> store \<Rightarrow> string list \<Rightarrow> (consent_die + (int \<times> int) option) \<times> store" where
  "runSeal render keyRand nonce rs mkdir writable files args =
     (if helpRequested_consent args then (Inr None, files)
      else case bindE (consentFlags args) (\<lambda>m.
             bindE (sealArtifact render keyRand nonce rs files m) (\<lambda>sr.
             if \<not> mkdir (single m ''out-dir'') then Inl (CannotMakeDir (single m ''out-dir''))
             else Inr (single m ''out-dir'', sr))) of
        Inl e \<Rightarrow> (Inl e, files)
      | Inr (dir, sr) \<Rightarrow>
          (case writeSealed writable dir sr files of
             (Inl e, files') \<Rightarrow> (Inl e, files')
           | (Inr _, files') \<Rightarrow> (Inr (Some (SealedK sr, SealedN sr)), files')))"

fun shareLoop :: "(bytes \<Rightarrow> json option) \<Rightarrow> store \<Rightarrow> string list \<Rightarrow> consent_die + Share list" where
  "shareLoop parse files [] = Inr []"
| "shareLoop parse files (p # ps) =
     bindE (readJSON parse files p unmarshalShare) (\<lambda>s.
     case hex_decode (SY s) of
       Inl _ \<Rightarrow> Inl (BadShareHex p)
     | Inr y \<Rightarrow> bindE (shareLoop parse files ps) (\<lambda>shares. Inr (\<lparr> ShareX = SX s, ShareY = y \<rparr> # shares)))"

definition runReveal :: "(bytes \<Rightarrow> json option) \<Rightarrow> store \<Rightarrow> string list \<Rightarrow> consent_die + bytes option" where
  "runReveal parse files args =
     (if helpRequested_consent args then Inr None
      else
        bindE (consentFlags args) (\<lambda>m.
        if single m ''sealed'' = [] \<or> length (snd m ''share'') = 0 then Inl (ConsentUsage ''reveal'')
        else
          bindE (readJSON parse files (single m ''sealed'') unmarshalSealed) (\<lambda>sj.
          case hex_decode (SealedCiphertext sj) of
            Inl _ \<Rightarrow> Inl BadCiphertextHex
          | Inr ct \<Rightarrow>
              bindE (shareLoop parse files (snd m ''share'')) (\<lambda>shares.
              bindE (wrapE RevealFails (ThresholdOpen \<lparr> Ciphertext = ct, Shares = [], SealedK = SealedKField sj,
                SealedN = SealedNField sj \<rparr> shares)) (\<lambda>pt. Inr (Some pt))))))"

section \<open>Disclosure\<close>

text \<open>\<open>buildLog\<close>: the windows are the non-empty lines; \<open>cur\<close> is the line read so far.\<close>

fun windowLoop :: "bytes \<Rightarrow> bytes \<Rightarrow> MerkleLog \<Rightarrow> MerkleLog" where
  "windowLoop cur [] l = (if cur \<noteq> [] then fst (Add cur l) else l)"
| "windowLoop cur (c # cs) l =
     (if c = 10 then windowLoop [] cs (if cur \<noteq> [] then fst (Add cur l) else l)
      else windowLoop (cur @ [c]) cs l)"

definition buildLog :: "(json \<Rightarrow> bytes) \<Rightarrow> store \<Rightarrow> string \<Rightarrow> consent_die + MerkleLog" where
  "buildLog render files name =
     bindE (readInput render files name) (\<lambda>data.
     let l = windowLoop [] data \<lparr> Leaves = [] \<rparr> in
     if length (Leaves l) = 0 then Inl NoWindows else Inr l)"

definition runDisclose :: "(json \<Rightarrow> bytes) \<Rightarrow> store \<Rightarrow> string list \<Rightarrow> consent_die + json option" where
  "runDisclose render files args =
     (if helpRequested_consent args then Inr None
      else
        bindE (consentFlags args) (\<lambda>m.
        if single m ''stream'' = [] \<or> single m ''index'' = [] then Inl (ConsentUsage ''disclose'')
        else
          bindE (buildLog render files (single m ''stream'')) (\<lambda>l.
          bindE (mustInt (single m ''index'') ''index'') (\<lambda>i.
          bindE (wrapE DiscloseFails (DiscloseWindow l i)) (\<lambda>d.
          Inr (Some (marshalDisclosure \<lparr> DIndex = WDIndex d, DSize = WDSize d, DEntry = hex_encode (WDEntry d),
            DProof = map hex_encode (WDProof d) \<rparr> (hex_encode (Root l)))))))))"

fun consentNodeLoop :: "string list \<Rightarrow> consent_die + bytes list" where
  "consentNodeLoop [] = Inr []"
| "consentNodeLoop (h # hs) =
     (case hex_decode h of
        Inl _ \<Rightarrow> Inl ProofNodeHex
      | Inr b \<Rightarrow> if length b \<noteq> 32 then Inl ProofNodeHex
                else bindE (consentNodeLoop hs) (\<lambda>ns. Inr (b # ns)))"

text \<open>On success the index and the disclosed window are printed.\<close>

definition runVerifyDisclosure :: "(bytes \<Rightarrow> json option) \<Rightarrow> store \<Rightarrow> string list \<Rightarrow>
    consent_die + (int \<times> bytes) option" where
  "runVerifyDisclosure parse files args =
     (if helpRequested_consent args then Inr None
      else
        bindE (consentFlags args) (\<lambda>m.
        if single m ''disclosure'' = [] \<or> single m ''root'' = [] then Inl (ConsentUsage ''verify-disclosure'')
        else
          bindE (readJSON parse files (single m ''disclosure'') unmarshalDisclosure) (\<lambda>dj.
          bindE (case hex_decode (single m ''root'') of
                   Inl _ \<Rightarrow> Inl RootHex | Inr b \<Rightarrow> if length b \<noteq> 32 then Inl RootHex else Inr b) (\<lambda>rt.
          bindE (case hex_decode (DEntry dj) of Inl _ \<Rightarrow> Inl EntryHex | Inr e \<Rightarrow> Inr e) (\<lambda>entry.
          bindE (consentNodeLoop (DProof dj)) (\<lambda>ps.
          if \<not> VerifyWindowDisclosure (Some \<lparr> WDIndex = DIndex dj, WDSize = DSize dj, WDEntry = entry, WDProof = ps \<rparr>) rt
            then Inl (NotIncluded (DIndex dj))
          else Inr (Some (DIndex dj, entry))))))))"

end
