(* ===== verification/Consent_Props.thy ===== *)
theory Consent_Props
  imports Consent_Cli
begin

text \<open>
  What the files of he-consent carry: the wire formats are read back, the shares that \<open>seal\<close> writes
  open the artifact in \<open>reveal\<close>, and what \<open>disclose\<close> prints passes \<open>verify-disclosure\<close>.
\<close>

section \<open>Reading back the wire formats\<close>

lemma consent_names [json_names]:
  "foldName ''x'' = ''X''" "foldName ''y'' = ''Y''" "foldName ''ciphertext'' = ''CIPHERTEXT''"
  "foldName ''k'' = ''K''" "foldName ''n'' = ''N''" "foldName ''index'' = ''INDEX''" "foldName ''size'' = ''SIZE''"
  "foldName ''entry'' = ''ENTRY''" "foldName ''proof'' = ''PROOF''" "foldName ''root'' = ''ROOT''"
  by code_simp+

lemma int64_small: "0 \<le> x \<Longrightarrow> x \<le> 255 \<Longrightarrow> int64 x"
  by (simp add: int64_def)

lemma decInt_int64: "int64 n \<Longrightarrow> decInt old (JInteger n) = Some n"
  by (simp add: decInt_def int64_def)

lemmas consent_fields =
  stringField_def intField_def stringsField_def members_def decString_def decStrings_def decInt_int64 json_names
  decElements_strings

lemma share_roundtrip: "int64 (SX s) \<Longrightarrow> unmarshalShare (marshalShare s) = Some s"
  by (cases s) (simp add: unmarshalShare_def marshalShare_def consent_fields del: foldName.simps)

lemma sealed_roundtrip: "int64 (SealedKField s) \<Longrightarrow> int64 (SealedNField s) \<Longrightarrow>
    unmarshalSealed (marshalSealed s) = Some s"
  by (cases s) (simp add: unmarshalSealed_def marshalSealed_def consent_fields del: foldName.simps)

lemma disclosure_roundtrip: "int64 (DIndex d) \<Longrightarrow> int64 (DSize d) \<Longrightarrow>
    unmarshalDisclosure (marshalDisclosure d rt) = Some d"
  by (cases d) (simp add: unmarshalDisclosure_def marshalDisclosure_def consent_fields del: foldName.simps)

section \<open>The files seal writes\<close>

lemma dec_inj: "dec a = dec b \<longleftrightarrow> a = b"
  by (metis digits_val_dec_gen option.inject)

lemma sharePath_inj: "0 \<le> x \<Longrightarrow> 0 \<le> y \<Longrightarrow> sharePath dir x = sharePath dir y \<longleftrightarrow> x = y"
  by (auto simp: sharePath_def dec_int_def dec_inj)

lemma sharePath_not_sealed: "sharePath dir x \<noteq> dir @ ''/sealed.json''"
  by (simp add: sharePath_def)

definition shareFile :: "string \<Rightarrow> Share \<Rightarrow> string \<times> stored" where
  "shareFile dir sh = (sharePath dir (ShareX sh),
     Written (marshalShare \<lparr> SX = ShareX sh, SY = hex_encode (ShareY sh) \<rparr>))"

lemma writeShares_files:
  "writeShares writable dir shares files = (Inr u, files') \<Longrightarrow>
     files' = files ++ map_of (rev (map (shareFile dir) shares))"
proof (induction shares arbitrary: files)
  case (Cons sh shares)
  then have "writeShares writable dir shares (files(sharePath dir (ShareX sh) \<mapsto>
      Written (marshalShare \<lparr> SX = ShareX sh, SY = hex_encode (ShareY sh) \<rparr>))) = (Inr u, files')"
    by (simp add: writeJSON_def split: if_splits)
  from Cons.IH [OF this] show ?case
    by (simp add: shareFile_def) (simp add: fun_upd_def)
qed simp

lemma share_written:
  assumes "distinct (map ShareX shares)" "\<forall>sh\<in>set shares. 0 \<le> ShareX sh" "sh \<in> set shares"
  shows "(files ++ map_of (rev (map (shareFile dir) shares))) (sharePath dir (ShareX sh)) = Some (snd (shareFile dir sh))"
proof -
  have "inj_on (sharePath dir) (ShareX ` set shares)"
    using assms(2) by (auto intro!: inj_onI simp: sharePath_inj)
  then have "distinct (map fst (rev (map (shareFile dir) shares)))"
    using assms(1) by (simp add: rev_map [symmetric] shareFile_def comp_def distinct_map inj_on_def)
  moreover have "shareFile dir sh \<in> set (rev (map (shareFile dir) shares))" using assms(3) by simp
  ultimately have "map_of (rev (map (shareFile dir) shares)) (fst (shareFile dir sh)) = Some (snd (shareFile dir sh))"
    by (intro map_of_is_SomeI) simp_all
  then show ?thesis by (simp add: shareFile_def)
qed

lemma sealed_written:
  "(files(dir @ ''/sealed.json'' \<mapsto> f) ++ map_of (rev (map (shareFile dir) shares))) (dir @ ''/sealed.json'') = Some f"
proof -
  have "dir @ ''/sealed.json'' \<notin> fst ` set (rev (map (shareFile dir) shares))"
    by (simp add: shareFile_def image_iff) (metis sharePath_not_sealed)
  then show ?thesis by (simp add: map_add_dom_app_simps dom_map_of_conv_image_fst)
qed

lemma shareLoop_written:
  assumes "\<forall>sh\<in>set picked. files (sharePath dir (ShareX sh)) = Some (snd (shareFile dir sh)) \<and> int64 (ShareX sh)"
  shows "shareLoop parse files (map (\<lambda>sh. sharePath dir (ShareX sh)) picked) = Inr picked"
  using assms
proof (induction picked)
  case (Cons sh picked)
  then show ?case
    by (simp add: readJSON_def shareFile_def share_roundtrip)
qed simp

section \<open>The arguments of reveal\<close>

definition revealArgs :: "string \<Rightarrow> int list \<Rightarrow> string list" where
  "revealArgs dir xs = [''--sealed'', dir @ ''/sealed.json''] @ concat (map (\<lambda>x. [''--share'', sharePath dir x]) xs)"

lemma path_not_flag: "take 2 dir \<noteq> ''--'' \<Longrightarrow> take 2 (dir @ CHR ''/'' # s) \<noteq> ''--''"
  by (cases dir; cases "tl dir") auto

lemma share_flags:
  assumes "take 2 dir \<noteq> ''--''"
  shows "consentFlagLoop m (concat (map (\<lambda>x. [''--share'', sharePath dir x]) xs)) =
    Inr (if xs = [] then m else ((fst m)(''share'' \<mapsto> sharePath dir (List.last xs)),
         (snd m)(''share'' := snd m ''share'' @ map (sharePath dir) xs)))"
proof (induction xs arbitrary: m)
  case (Cons x xs)
  have "take 2 (sharePath dir x) \<noteq> ''--''"
    using path_not_flag [OF assms] by (simp add: sharePath_def)
  then show ?case using Cons.IH by (simp add: setFlag_def Let_def)
qed simp

lemma reveal_flags:
  assumes "take 2 dir \<noteq> ''--''" "xs \<noteq> []"
  shows "\<exists>m. consentFlags (revealArgs dir xs) = Inr m \<and> single m ''sealed'' = dir @ ''/sealed.json'' \<and>
    snd m ''share'' = map (sharePath dir) xs"
  using path_not_flag [OF assms(1)] share_flags [OF assms(1)] assms(2)
  by (simp add: consentFlags_def revealArgs_def setFlag_def single_def Let_def)

section \<open>What runSeal leaves\<close>

lemma runSeal_done:
  assumes "runSeal render keyRand nonce rs mkdir writable files args = (Inr (Some (k, n)), files')"
    and "consentFlags args = Inr m" and "readInput render files (single m ''in'') = Inr plaintext"
  obtains sr where "ThresholdSeal keyRand nonce rs plaintext k n = Inr sr"
    "files' = files(single m ''out-dir'' @ ''/sealed.json'' \<mapsto> Written (marshalSealed
       \<lparr> SealedCiphertext = hex_encode (Ciphertext sr), SealedKField = k, SealedNField = n \<rparr>)) ++
       map_of (rev (map (shareFile (single m ''out-dir'')) (Shares sr)))"
proof -
  from assms obtain sr where s: "sealArtifact render keyRand nonce rs files m = Inr sr"
    and w: "writeSealed writable (single m ''out-dir'') sr files = (Inr (), files')"
    and kn: "SealedK sr = k" "SealedN sr = n"
    by (auto simp: runSeal_def bindE_def split: if_splits sum.splits prod.splits)
  from s assms(3) obtain k' n' where "ThresholdSeal keyRand nonce rs plaintext k' n' = Inr sr"
    by (auto simp: sealArtifact_def bindE_Inr_iff split: if_splits)
  moreover from this kn have "k' = k" "n' = n"
    by (auto simp: ThresholdSeal_def bindE_Inr_iff split: option.splits)
  ultimately have "ThresholdSeal keyRand nonce rs plaintext k n = Inr sr" by simp
  moreover have "files' = files(single m ''out-dir'' @ ''/sealed.json'' \<mapsto> Written (marshalSealed
       \<lparr> SealedCiphertext = hex_encode (Ciphertext sr), SealedKField = k, SealedNField = n \<rparr>)) ++
       map_of (rev (map (shareFile (single m ''out-dir'')) (Shares sr)))"
    using w kn by (auto simp: writeSealed_def writeJSON_def split: if_splits dest!: writeShares_files)
  ultimately show ?thesis by (rule that)
qed

lemma ThresholdSeal_shares:
  assumes "ThresholdSeal keyRand nonce rs plaintext k n = Inr sr"
  shows "2 \<le> k" "k \<le> n" "n \<le> 255" "map ShareX (Shares sr) = map int [1..<nat n + 1]"
    "SealedK sr = k" "SealedN sr = n"
  using assms
  by (auto simp: ThresholdSeal_def bindE_Inr_iff ShamirSplit_Inr shareAt_def comp_def split: option.splits)

text \<open>The holders' numbers and their shares.\<close>

lemma holders:
  assumes "map ShareX shares = map int [1..<nat n + 1]" "set xs \<subseteq> {1..n}" "distinct xs"
  obtains picked where "xs = map ShareX picked" "set picked \<subseteq> set shares" "distinct picked"
proof -
  have "set xs \<subseteq> ShareX ` set shares"
  proof
    fix x assume "x \<in> set xs"
    then have "1 \<le> x" "x \<le> n" using assms(2) by auto
    then have "x = int (nat x)" "nat x \<in> set [1..<nat n + 1]" by auto
    then have "x \<in> set (map int [1..<nat n + 1])" by (metis image_eqI set_map)
    then show "x \<in> ShareX ` set shares" by (metis assms(1) set_map)
  qed
  then obtain picked where "xs = map ShareX picked" "set picked \<subseteq> set shares"
  proof (induction xs arbitrary: thesis)
    case (Cons x xs)
    then obtain ps where "xs = map ShareX ps" "set ps \<subseteq> set shares" by auto
    moreover obtain sh where "sh \<in> set shares" "x = ShareX sh" using Cons.prems(2) by auto
    ultimately show ?case by (intro Cons.prems(1) [of "sh # ps"]) simp_all
  qed simp
  moreover from this(1) assms(3) have "distinct picked" by (simp add: distinct_map)
  ultimately show ?thesis by (rule that)
qed

section \<open>Properties\<close>

text \<open>C39: The files \<open>he-consent seal\<close> writes make the threshold hold: \<open>he-consent reveal\<close> on the sealed
  file and the share files of any selection of holders prints the artifact if there are at least k of
  them and dies otherwise, whatever was drawn at random.\<close>

theorem seal_then_reveal:
  assumes "runSeal render (Some key) (Some nonce) rs mkdir writable files args = (Inr (Some (k, n)), files')"
    and "consentFlags args = Inr m" and "readInput render files (single m ''in'') = Inr plaintext"
    and "length key = 32" "length nonce = 12" "inField rs" "take 2 (single m ''out-dir'') \<noteq> ''--''"
    and "set holders \<subseteq> {1..n}" "distinct holders" "holders \<noteq> []"
  shows "runReveal parse files' (revealArgs (single m ''out-dir'') holders) =
    (if int (length holders) < k then Inl (RevealFails (NeedShares k (length holders))) else Inr (Some plaintext))"
proof -
  let ?dir = "single m ''out-dir''"
  from assms(1-3) obtain sr where sr: "ThresholdSeal (Some key) (Some nonce) rs plaintext k n = Inr sr"
    and files: "files' = files(?dir @ ''/sealed.json'' \<mapsto> Written (marshalSealed
       \<lparr> SealedCiphertext = hex_encode (Ciphertext sr), SealedKField = k, SealedNField = n \<rparr>)) ++
       map_of (rev (map (shareFile ?dir) (Shares sr)))"
    by (rule runSeal_done)
  note sh = ThresholdSeal_shares [OF sr]
  obtain picked where picked: "holders = map ShareX picked" "set picked \<subseteq> set (Shares sr)" "distinct picked"
    using holders [OF sh(4) assms(8,9)] .
  have range: "\<forall>s\<in>set (Shares sr). 0 \<le> ShareX s \<and> ShareX s \<le> 255"
  proof
    fix s assume "s \<in> set (Shares sr)"
    then have "ShareX s \<in> set (map int [1..<nat n + 1])" by (metis imageI set_map sh(4))
    then show "0 \<le> ShareX s \<and> ShareX s \<le> 255" using sh(3) by auto
  qed
  have dist: "distinct (map ShareX (Shares sr))" by (simp add: sh(4) distinct_map)
  have "\<forall>s\<in>set picked. files' (sharePath ?dir (ShareX s)) = Some (snd (shareFile ?dir s)) \<and> int64 (ShareX s)"
    using picked(2) range share_written [OF dist] by (auto simp: files intro: int64_small)
  then have shares: "shareLoop parse files' (map (sharePath ?dir) holders) = Inr picked"
    using shareLoop_written [of picked files' ?dir parse] by (simp add: picked(1) comp_def)
  have sealed: "readJSON parse files' (?dir @ ''/sealed.json'') unmarshalSealed =
      Inr \<lparr> SealedCiphertext = hex_encode (Ciphertext sr), SealedKField = k, SealedNField = n \<rparr>"
    using sh(1-3) by (simp add: files readJSON_def sealed_written sealed_roundtrip int64_def)
  obtain m' where m': "consentFlags (revealArgs ?dir holders) = Inr m'" "single m' ''sealed'' = ?dir @ ''/sealed.json''"
      "snd m' ''share'' = map (sharePath ?dir) holders"
    using reveal_flags [OF assms(7,10)] by blast
  have "ThresholdOpen \<lparr> Ciphertext = Ciphertext sr, Shares = [], SealedK = k, SealedN = n \<rparr> picked = ThresholdOpen sr picked"
    using sh(5) by (cases "ShamirCombine picked") (simp_all add: ThresholdOpen_def)
  also have "\<dots> = (if int (length picked) < k then Inl (NeedShares k (length picked)) else Inr plaintext)"
    by (rule threshold_open [OF sr assms(4-6) picked(2,3)])
  finally have "ThresholdOpen \<lparr> Ciphertext = Ciphertext sr, Shares = [], SealedK = k, SealedN = n \<rparr> picked =
      (if int (length holders) < k then Inl (NeedShares k (length holders)) else Inr plaintext)"
    by (simp add: picked(1))
  moreover have "\<not> helpRequested_consent (revealArgs ?dir holders)"
    by (simp add: helpRequested_consent_def revealArgs_def)
  ultimately show ?thesis
    using m' sealed shares assms(10) by (simp add: runReveal_def)
qed

lemma nodes_read: "\<forall>p\<in>set ps. length p = 32 \<Longrightarrow> consentNodeLoop (map hex_encode ps) = Inr ps"
  by (induction ps) simp_all

text \<open>A window that \<open>disclose\<close> prints passes \<open>verify-disclosure\<close> under the root printed with it, which
  then shows exactly that window of the stream; an index outside the stream is refused.\<close>

theorem disclose_then_verify:
  assumes "consentFlags args = Inr m" "single m ''stream'' \<noteq> []" "\<not> helpRequested_consent args"
    and "buildLog render files (single m ''stream'') = Inr l" "atoi (single m ''index'') = Some i"
    and "int (Size l) < 2 ^ 63" "single m ''index'' \<noteq> []"
    and "consentFlags args' = Inr m'" "single m' ''disclosure'' = name" "name \<noteq> []"
      "single m' ''root'' = hex_encode (Root l)" "\<not> helpRequested_consent args'"
  shows "if 0 \<le> i \<and> i < int (Size l) then
      \<exists>j. runDisclose render files args = Inr (Some j) \<and>
        runVerifyDisclosure parse (files'(name \<mapsto> Written j)) args' = Inr (Some (i, Leaves l ! nat i))
    else runDisclose render files args = Inl (DiscloseFails IndexOutOfRange)"
proof -
  have run: "runDisclose render files args = bindE (wrapE DiscloseFails (DiscloseWindow l i)) (\<lambda>d.
      Inr (Some (marshalDisclosure \<lparr> DIndex = WDIndex d, DSize = WDSize d, DEntry = hex_encode (WDEntry d),
        DProof = map hex_encode (WDProof d) \<rparr> (hex_encode (Root l)))))"
    using assms(1-5,7) by (simp add: runDisclose_def mustInt_def)
  show ?thesis
  proof (cases "0 \<le> i \<and> i < int (Size l)")
    case False
    then have "DiscloseWindow l i = Inl IndexOutOfRange"
      by (auto simp: DiscloseWindow_def InclusionProof_def Size_def)
    then have "runDisclose render files args = Inl (DiscloseFails IndexOutOfRange)" by (simp add: run)
    with False show ?thesis by auto
  next
    case True
    then obtain ps where ps: "InclusionProof l i = Inr ps" "\<forall>p\<in>set ps. length p = 32"
      using path_digests by (auto simp: InclusionProof_def Size_def)
    let ?d = "\<lparr> DIndex = i, DSize = int (Size l), DEntry = hex_encode (Leaves l ! nat i), DProof = map hex_encode ps \<rparr>"
    let ?j = "marshalDisclosure ?d (hex_encode (Root l))"
    have "runDisclose render files args = Inr (Some ?j)"
      by (simp add: run DiscloseWindow_def ps(1) Size_def)
    moreover have "runVerifyDisclosure parse (files'(name \<mapsto> Written ?j)) args' = Inr (Some (i, Leaves l ! nat i))"
    proof -
      have "int64 i" "int64 (int (Size l))" using True assms(6) by (simp_all add: int64_def)
      then have "unmarshalDisclosure ?j = Some ?d" by (intro disclosure_roundtrip) simp_all
      then have "readJSON parse (files'(name \<mapsto> Written ?j)) name unmarshalDisclosure = Inr ?d"
        by (simp add: readJSON_def)
      moreover have "consentNodeLoop (map hex_encode ps) = Inr ps" using ps(2) by (rule nodes_read)
      moreover have "VerifyWindowDisclosure (Some \<lparr> WDIndex = i, WDSize = int (Size l), WDEntry = Leaves l ! nat i,
          WDProof = ps \<rparr>) (Root l)"
        using inclusion_complete [OF ps(1)] by (simp add: VerifyWindowDisclosure_def)
      moreover have "length (hex_encode (mth (Leaves l))) = 64" by (simp add: length_mth)
      then have "hex_encode (mth (Leaves l)) \<noteq> []" by (metis list.size(3) zero_neq_numeral)
      ultimately show ?thesis
        using assms(8-12) length_mth [of "Leaves l"]
        by (simp add: runVerifyDisclosure_def Root_def)
    qed
    ultimately show ?thesis using True by auto
  qed
qed

end
