(* ===== verification/Consent_Demo.thy ===== *)
theory Consent_Demo
  imports Consent_Props
begin

text \<open>
  The inputs on which the theorems about he-consent are applied: an artifact sealed for two of three
  holders, and a stream of three windows.
\<close>

section \<open>Seal and reveal\<close>

definition sealArgs :: "string list" where
  "sealArgs = [''--in'', ''a'', ''--out-dir'', ''d'', ''--k'', ''2'', ''--n'', ''3'']"

lemma sealArgs_flags: "\<exists>m. consentFlags sealArgs = Inr m \<and> single m ''in'' = ''a'' \<and> single m ''out-dir'' = ''d'' \<and>
    single m ''k'' = ''2'' \<and> single m ''n'' = ''3''"
  by (simp add: consentFlags_def sealArgs_def setFlag_def single_def Let_def)

lemma seal_run:
  "\<exists>files'. runSeal (\<lambda>_. []) (Some (replicate 32 0)) (Some (replicate 12 0)) [Some 5] (\<lambda>_. True) (\<lambda>_. True)
     [''a'' \<mapsto> Raw [104, 105]] sealArgs = (Inr (Some (2, 3)), files')"
proof -
  obtain m where m: "consentFlags sealArgs = Inr m" "single m ''in'' = ''a''" "single m ''out-dir'' = ''d''"
      "single m ''k'' = ''2''" "single m ''n'' = ''3''"
    using sealArgs_flags by blast
  have split: "ShamirSplit [Some 5] (replicate 32 0) 2 3 = Inr (map (shareAt [0, 5]) [1, 2, 3])"
    unfolding ShamirSplit_Inr by (simp add: be_nat_def shamirPrime_def numeral_eq_Suc)
  obtain sr where sr: "ThresholdSeal (Some (replicate 32 0)) (Some (replicate 12 0)) [Some 5] [104, 105] 2 3 = Inr sr"
      "Shares sr = map (shareAt [0, 5]) [1, 2, 3]"
    using split by (simp add: ThresholdSeal_def SealStream_def aesKeySize_def gcmLimit_def)
  have atoi: "atoi ''2'' = Some 2" "atoi ''3'' = Some 3" by (simp_all add: atoi_def digit_val_def)
  have nohelp: "\<not> helpRequested_consent sealArgs" by (simp add: helpRequested_consent_def sealArgs_def)
  have "sealArtifact (\<lambda>_. []) (Some (replicate 32 0)) (Some (replicate 12 0)) [Some 5] [''a'' \<mapsto> Raw [104, 105]] m = Inr sr"
    by (simp add: sealArtifact_def m readInput_def mustInt_def atoi sr(1))
  then show ?thesis
    using m nohelp ThresholdSeal_shares(5,6) [OF sr(1)] sr(2) by (simp add: runSeal_def writeSealed_def writeJSON_def)
qed

lemma seal_then_reveal_witness:
  "\<exists>files'. runReveal (\<lambda>_. None) files' (revealArgs ''d'' [3, 1]) = Inr (Some [104, 105]) \<and>
     runReveal (\<lambda>_. None) files' (revealArgs ''d'' [3]) = Inl (RevealFails (NeedShares 2 1))"
proof -
  obtain m where m: "consentFlags sealArgs = Inr m" "single m ''in'' = ''a''" "single m ''out-dir'' = ''d''"
    using sealArgs_flags by blast
  obtain files' where run: "runSeal (\<lambda>_. []) (Some (replicate 32 0)) (Some (replicate 12 0)) [Some 5] (\<lambda>_. True) (\<lambda>_. True)
     [''a'' \<mapsto> Raw [104, 105]] sealArgs = (Inr (Some (2, 3)), files')"
    using seal_run by blast
  have f: "inField [Some 5]" by (simp add: inField_def shamirPrime_def)
  have r: "readInput (\<lambda>_. []) [''a'' \<mapsto> Raw [104, 105]] (single m ''in'') = Inr [104, 105]"
    by (simp add: m readInput_def)
  have h: "set [3, 1] \<subseteq> {1..3::int}" "set [3] \<subseteq> {1..3::int}" by auto
  have d: "take 2 (single m ''out-dir'') \<noteq> ''--''" by (simp add: m)
  show ?thesis
    using seal_then_reveal [OF run m(1) r _ _ f d h(1), of "\<lambda>_. None"] seal_then_reveal [OF run m(1) r _ _ f d h(2), of "\<lambda>_. None"]
    by (intro exI [of _ files']) (simp add: m(3))
qed

section \<open>Disclose and verify-disclosure\<close>

definition streamFiles :: store where
  "streamFiles = [''s'' \<mapsto> Raw [97, 10, 98, 10, 10, 99]]"

definition discloseArgs :: "string list" where
  "discloseArgs = [''--stream'', ''s'', ''--index'', ''1'']"

lemma stream_log: "buildLog (\<lambda>_. []) streamFiles ''s'' = Inr \<lparr> Leaves = [[97], [98], [99]] \<rparr>"
  by (simp add: buildLog_def streamFiles_def readInput_def Add_def)

lemma not_flag: "take 2 (hex_encode b) \<noteq> ''--''"
proof (cases b)
  case (Cons x xs)
  have "unat x < 2 ^ LENGTH(8)" by (rule unsigned_less)
  then have "unat x div 16 < 16" by (subst div_less_iff_less_mult) simp_all
  then have "hex_char (unat x div 16) \<noteq> CHR ''-''"
    using from_hex_char_hex_char [of "unat x div 16"]
    by (auto simp: from_hex_char_def)
  then show ?thesis by (simp add: Cons)
qed simp

lemma disclose_then_verify_witness:
  "\<exists>j root. runDisclose (\<lambda>_. []) streamFiles discloseArgs = Inr (Some j) \<and>
     runVerifyDisclosure (\<lambda>_. None) [''w'' \<mapsto> Written j] [''--disclosure'', ''w'', ''--root'', root] = Inr (Some (1, [98]))"
proof -
  let ?l = "\<lparr> Leaves = [[97], [98], [99]] \<rparr>"
  let ?args' = "[''--disclosure'', ''w'', ''--root'', hex_encode (Root ?l)]"
  have "\<exists>m. consentFlags discloseArgs = Inr m \<and> single m ''stream'' = ''s'' \<and> single m ''index'' = ''1''"
    by (simp add: consentFlags_def discloseArgs_def setFlag_def single_def Let_def)
  then obtain m where m: "consentFlags discloseArgs = Inr m" "single m ''stream'' = ''s''" "single m ''index'' = ''1''"
    by blast
  have "\<exists>m'. consentFlags ?args' = Inr m' \<and> single m' ''disclosure'' = ''w'' \<and> single m' ''root'' = hex_encode (Root ?l)"
    using not_flag by (simp add: consentFlags_def setFlag_def single_def Let_def)
  then obtain m' where m': "consentFlags ?args' = Inr m'" "single m' ''disclosure'' = ''w''"
      "single m' ''root'' = hex_encode (Root ?l)" by blast
  have atoi: "atoi ''1'' = Some 1" by (simp add: atoi_def digit_val_def)
  have "\<not> helpRequested_consent discloseArgs" "\<not> helpRequested_consent ?args'"
    by (simp_all add: helpRequested_consent_def discloseArgs_def)
  then show ?thesis
    using disclose_then_verify [OF m(1), where render = "\<lambda>_. []" and files = streamFiles and l = ?l and i = 1
        and args' = ?args' and m' = m' and name = "''w''" and parse = "\<lambda>_. None" and files' = Map.empty]
      m m' atoi stream_log by (auto simp: Size_def)
qed

end
