(* ===== verification/Consent_Sound.thy ===== *)
theory Consent_Sound
  imports Consent_Demo Merkle_Demo
begin

text \<open>
  What a window disclosure proves. Index and size come from the disclosure itself, only the root is
  trusted: a disclosure that verifies shows an entry of the stream, but not where it is.
\<close>

section \<open>Climbing from an entry to the root\<close>

text \<open>The digest \<open>r\<close> is the root of a subtree of \<open>leaves\<close> whose strings are hashed in the tree.\<close>

definition subtreeRoot :: "bytes \<Rightarrow> bytes list \<Rightarrow> bool" where
  "subtreeRoot r leaves \<longleftrightarrow> (\<exists>ys. r = mth ys \<and> set ys \<subseteq> set leaves \<and>
     set (treeStrings ys) \<subseteq> set (treeStrings leaves))"

lemma tree_cases:
  obtains (empty) "ys = []" "mth ys = sha256 []" "[] \<in> set (treeStrings ys)"
  | (leaf) x where "ys = [x]" "mth ys = hashLeaf x" "0x00 # x \<in> set (treeStrings ys)"
  | (node) k where "mth ys = hashNode (mth (take k ys)) (mth (drop k ys))"
      "nodeString (mth (take k ys), mth (drop k ys)) \<in> set (treeStrings ys)"
      "set (treeStrings (take k ys)) \<subseteq> set (treeStrings ys)" "set (treeStrings (drop k ys)) \<subseteq> set (treeStrings ys)"
proof -
  consider "ys = []" | x where "ys = [x]" | "length ys \<noteq> 0" "length ys \<noteq> 1"
    by (cases ys; cases "tl ys") auto
  then show ?thesis
  proof cases
    case 1
    then show ?thesis by (intro empty) (simp_all add: mth.simps [of "[]"] treeStrings.simps [of "[]"])
  next
    case (2 x)
    then show ?thesis by (intro leaf) (simp_all add: mth.simps [of "[x]"] treeStrings.simps [of "[x]"])
  next
    case 3
    then show ?thesis
      by (intro node [of "largestPow2Below (length ys)"])
        (simp_all add: mth.simps [of ys] treeStrings.simps [of ys] Let_def nodeString_def, auto)
  qed
qed

lemma hash_strings: "hashNode a b = sha256 (nodeString (a, b))" "hashLeaf x = sha256 (0x00 # x)"
  by (simp_all add: hashNode_def hashLeaf_def nodeString_def)

text \<open>The parent is such a root only if both children are: another string would have the same digest.\<close>

lemma subtree_children:
  assumes "subtreeRoot (hashNode a b) leaves" "length a = 32" "length b = 32"
    and "inj_on sha256 (set (treeStrings leaves) \<union> S)" "nodeString (a, b) \<in> S"
  shows "subtreeRoot a leaves \<and> subtreeRoot b leaves"
proof -
  from assms(1) obtain ys where ys: "hashNode a b = mth ys" "set ys \<subseteq> set leaves"
      "set (treeStrings ys) \<subseteq> set (treeStrings leaves)"
    by (auto simp: subtreeRoot_def)
  have same: "nodeString (a, b) = s" if "s \<in> set (treeStrings ys)" "mth ys = sha256 s" for s
    using that ys(1,3) assms(4,5) by (auto simp: hash_strings dest!: inj_onD)
  show ?thesis
  proof (cases rule: tree_cases [of ys])
    case empty
    then show ?thesis using same [of "[]"] by (simp add: nodeString_def)
  next
    case (leaf x)
    then show ?thesis using same [of "0x00 # x"] by (simp add: nodeString_def hash_strings)
  next
    case (node k)
    then have "nodeString (a, b) = nodeString (mth (take k ys), mth (drop k ys))"
      by (intro same) (simp_all add: hash_strings)
    then have "a = mth (take k ys)" "b = mth (drop k ys)"
      using assms(2,3) by (simp_all add: nodeString_def length_mth)
    moreover have "set (take k ys) \<subseteq> set leaves" "set (drop k ys) \<subseteq> set leaves"
      using ys(2) set_take_subset [of k ys] set_drop_subset [of k ys] by blast+
    ultimately show ?thesis using node(3,4) ys(3) unfolding subtreeRoot_def by blast
  qed
qed

lemma climb:
  assumes "inclLoop ps fn sn r = Some (n, mth leaves)" "length r = 32" "\<forall>p\<in>set ps. length p = 32"
    and "inj_on sha256 (set (treeStrings leaves) \<union> S)" "nodeString ` set (inclPairs ps fn sn r) \<subseteq> S"
  shows "subtreeRoot r leaves"
  using assms
proof (induction ps fn sn r rule: inclLoop.induct)
  case (1 fn sn r)
  then show ?case by (auto simp: subtreeRoot_def)
next
  case (2 p ps fn sn r)
  from "2.prems"(1) have sn: "sn \<noteq> 0" by (cases "sn = 0") simp_all
  show ?case
  proof (cases "odd fn \<or> fn = sn")
    case True
    obtain fn' sn' where f: "shiftEven fn sn = (fn', sn')" by (cases "shiftEven fn sn")
    have "subtreeRoot (hashNode p r) leaves"
      using "2.IH"(1) [OF sn True f [symmetric] refl] "2.prems" sn True f by simp
    then show ?thesis
      using subtree_children [of p r leaves S] "2.prems" sn True f by simp
  next
    case False
    have "subtreeRoot (hashNode r p) leaves"
      using "2.IH"(2) [OF sn False] "2.prems" sn False by simp
    then show ?thesis
      using subtree_children [of r p leaves S] "2.prems" sn False by simp
  qed
qed

lemma leaf_in_tree:
  assumes "subtreeRoot (hashLeaf e) leaves" "inj_on sha256 (set (treeStrings leaves) \<union> S)" "0x00 # e \<in> S"
  shows "e \<in> set leaves"
proof -
  from assms(1) obtain ys where ys: "hashLeaf e = mth ys" "set ys \<subseteq> set leaves"
      "set (treeStrings ys) \<subseteq> set (treeStrings leaves)"
    by (auto simp: subtreeRoot_def)
  have same: "0x00 # e = s" if "s \<in> set (treeStrings ys)" "mth ys = sha256 s" for s
    using that ys(1,3) assms(2,3) by (auto simp: hash_strings dest!: inj_onD)
  show ?thesis
  proof (cases rule: tree_cases [of ys])
    case empty
    then show ?thesis using same [of "[]"] by simp
  next
    case (leaf x)
    then show ?thesis using same [of "0x00 # x"] ys(2) by (simp add: hash_strings)
  next
    case (node k)
    then show ?thesis
      using same [of "nodeString (mth (take k ys), mth (drop k ys))"] by (simp add: nodeString_def hash_strings)
  qed
qed

section \<open>Properties\<close>

text \<open>C40: A window that \<open>VerifyWindowDisclosure\<close> accepts under the root of a stream is a window of that stream,
  whatever index and size the disclosure states, unless two different strings among those hashed in
  the tree or by this verification have the same SHA-256 digest.\<close>

theorem disclosed_window_is_in_the_stream:
  assumes "VerifyWindowDisclosure (Some d) (Root l)" and "\<forall>p\<in>set (WDProof d). length p = 32"
    and "inj_on sha256 (set (treeStrings (Leaves l)) \<union>
           set (inclStrings (WDEntry d) (nat (WDIndex d)) (nat (WDSize d)) (WDProof d)))"
  shows "WDEntry d \<in> set (Leaves l)"
proof -
  from assms(1) obtain n where
    "inclLoop (WDProof d) (nat (WDIndex d)) (nat (WDSize d - 1)) (hashLeaf (WDEntry d)) = Some (n, mth (Leaves l))"
    by (auto simp: VerifyWindowDisclosure_def VerifyInclusion_def Root_def split: if_splits option.splits)
  moreover have "nat (WDSize d - 1) = nat (WDSize d) - 1" by arith
  ultimately have "inclLoop (WDProof d) (nat (WDIndex d)) (nat (WDSize d) - 1) (hashLeaf (WDEntry d)) =
      Some (n, mth (Leaves l))" by simp
  then have "subtreeRoot (hashLeaf (WDEntry d)) (Leaves l)"
    by (rule climb [OF _ _ assms(2,3)]) (auto simp: inclStrings_def)
  then show ?thesis using assms(3) by (rule leaf_in_tree) (simp add: inclStrings_def)
qed

lemma disclosed_window_is_in_the_stream_witness:
  "VerifyWindowDisclosure (Some \<lparr> WDIndex = 0, WDSize = 2, WDEntry = [1], WDProof = [hashLeaf [2]] \<rparr>) (Root \<lparr> Leaves = demoLog \<rparr>) \<and>
   [1] \<in> set demoLog"
proof -
  have two: "length demoLog = 2" by (simp add: demoLog_def)
  have "set (inclStrings [1] (nat 0) 2 [hashLeaf [2]]) = {[0, 1], demoNode}"
    using demo_node by (simp add: inclStrings_def)
  then have "inj_on sha256 (set (treeStrings demoLog) \<union> set (inclStrings [1] (nat 0) 2 [hashLeaf [2]]))"
    using demo_clean by (simp add: demo_strings insert_commute)
  then show ?thesis
    using disclosed_window_is_in_the_stream [of "\<lparr> WDIndex = 0, WDSize = 2, WDEntry = [1], WDProof = [hashLeaf [2]] \<rparr>"
        "\<lparr> Leaves = demoLog \<rparr>"] demo_inclusion
    by (simp add: two VerifyWindowDisclosure_def Root_def)
qed

text \<open>The index of a disclosure is not verified: the third window of a stream of four is accepted as well
  as the fifth window of a stream of six, under the same root and with the same proof.\<close>

theorem window_index_is_not_bound:
  "VerifyWindowDisclosure (Some \<lparr> WDIndex = 2, WDSize = 4, WDEntry = e, WDProof = ps \<rparr>) rt \<longleftrightarrow>
   VerifyWindowDisclosure (Some \<lparr> WDIndex = 4, WDSize = 6, WDEntry = e, WDProof = ps \<rparr>) rt"
proof -
  consider "ps = []" | p where "ps = [p]" | p q where "ps = [p, q]" | p q q' qs where "ps = p # q # q' # qs"
    by (cases ps; cases "tl ps"; cases "tl (tl ps)") auto
  then show ?thesis
    by cases (simp_all add: VerifyWindowDisclosure_def VerifyInclusion_def shiftEven.simps)
qed

end
