(* ===== verification/Gossip.thy ===== *)
theory Gossip
  imports Witness_Machine Witness_Cli
begin

text \<open>
  Two witnesses that were shown different trees of one size: what the cross-check of a peer finds
  in the answer of the peer's \<open>/cosignature\<close> handler, the proof \<open>checkPeers\<close> assembles from it, and
  who accepts that proof: every witness that pins the two keys, and the command line.
\<close>

section \<open>What the cross-check finds\<close>

text \<open>A peer diverges from the view: it serves a checkpoint of the watched log, cosigned under the
  pinned key, of the same size with another root.\<close>

definition splitView :: "json_decoders \<Rightarrow> network \<Rightarrow> config \<Rightarrow> view \<Rightarrow> peer \<Rightarrow> peerCosigResp \<Rightarrow> bool" where
  "splitView js net cfg v p pr \<longleftrightarrow> HasView v \<and>
     getJSON net (toPeerCosig js) (PURL p @ ''/cosignature'') = Inr pr \<and>
     (\<exists>sig root. hex_decode (PRCosignature pr) = Inr sig \<and>
        VerifyCheckpointSig (bytes_of_string (PRCheckpointBody pr)) sig (PX p) (PY p) \<and>
        ParseCheckpoint (bytes_of_string (PRCheckpointBody pr)) = Inr (COrigin cfg, OurSize v, root) \<and>
        root \<noteq> OurRoot v)"

definition peerCheckpoint :: "peer \<Rightarrow> peerCosigResp \<Rightarrow> equivCkpt" where
  "peerCheckpoint p pr = \<lparr> EWitness = PName p, ECheckpointBody = PRCheckpointBody pr,
     ECosignature = PRCosignature pr, EWitnessPubX = hex_encode (PX p), EWitnessPubY = hex_encode (PY p) \<rparr>"

lemma scanPeer_split:
  "splitView js net cfg v p pr \<Longrightarrow> AnyEquiv (scanPeer js net cfg v p acc) \<and>
     ProofPeer (scanPeer js net cfg v p acc) \<noteq> None"
  by (auto simp: splitView_def scanPeer_def crossCheck_def Let_def)

lemma scanPeer_keeps:
  "AnyEquiv acc \<Longrightarrow> AnyEquiv (scanPeer js net cfg v p acc)"
  "ProofPeer acc \<noteq> None \<Longrightarrow> ProofPeer (scanPeer js net cfg v p acc) = ProofPeer acc"
  by (auto simp: scanPeer_def Let_def split: sum.splits prod.splits crossVerdict.splits)

lemma scanPeer_proof:
  assumes "ProofPeer (scanPeer js net cfg v p acc) = Some b" "ProofPeer acc = None"
  shows "\<exists>pr. splitView js net cfg v p pr \<and> b = peerCheckpoint p pr"
  using assms unfolding splitView_def peerCheckpoint_def
  by (auto simp: scanPeer_def Let_def crossCheck_def split: sum.splits prod.splits if_splits option.splits)

lemma scan_keeps:
  "AnyEquiv acc \<Longrightarrow> AnyEquiv (fold (\<lambda>p. scanPeer js (nets (PName p)) cfg v p) ps acc)"
  "ProofPeer acc \<noteq> None \<Longrightarrow> ProofPeer (fold (\<lambda>p. scanPeer js (nets (PName p)) cfg v p) ps acc) = ProofPeer acc"
  by (induction ps arbitrary: acc) (simp_all add: scanPeer_keeps)

lemma scan_split:
  assumes "p \<in> set ps" "splitView js (nets (PName p)) cfg v p pr"
  shows "AnyEquiv (fold (\<lambda>p. scanPeer js (nets (PName p)) cfg v p) ps acc) \<and>
    ProofPeer (fold (\<lambda>p. scanPeer js (nets (PName p)) cfg v p) ps acc) \<noteq> None"
  using assms(1)
proof (induction ps arbitrary: acc)
  case (Cons q ps)
  show ?case
  proof (cases "q = p")
    case True
    with scanPeer_split [OF assms(2), of acc] show ?thesis by (simp add: scan_keeps)
  next
    case False
    with Cons show ?thesis by simp
  qed
qed simp

lemma scan_proof:
  assumes "ProofPeer (fold (\<lambda>p. scanPeer js (nets (PName p)) cfg v p) ps acc) = Some b" "ProofPeer acc = None"
  shows "\<exists>p\<in>set ps. \<exists>pr. splitView js (nets (PName p)) cfg v p pr \<and> b = peerCheckpoint p pr"
  using assms
proof (induction ps arbitrary: acc)
  case (Cons q ps)
  show ?case
  proof (cases "ProofPeer (scanPeer js (nets (PName q)) cfg v q acc)")
    case None
    with Cons show ?thesis by auto
  next
    case (Some c)
    with Cons.prems have "c = b" by (simp add: scan_keeps)
    with scanPeer_proof [OF _ Cons.prems(2)] Some show ?thesis by auto
  qed
qed simp

text \<open>The proof \<open>checkPeers\<close> puts together: the witness's own cosigned checkpoint and the peer's.\<close>

definition splitProof :: "pollResult \<Rightarrow> peer \<Rightarrow> peerCosigResp \<Rightarrow> equivProof" where
  "splitProof r q pr = \<lparr> ESchema = equivProofSchema, EA = ownCheckpoint r, EB = peerCheckpoint q pr \<rparr>"

lemma checkPeers_split:
  assumes "p \<in> set (Peers d)" "splitView js (nets (PName p)) (Cfg d) (readView d) p pr"
    and "Proof d = None" "Latest d = Some r"
  obtains q pr' where "q \<in> set (Peers d)" "splitView js (nets (PName q)) (Cfg d) (readView d) q pr'"
    "Proof (fst (checkPeers js nets d)) = Some (splitProof r q pr')"
    "snd (checkPeers js nets d) = pushAll (Peers d) (splitProof r q pr')"
    "Equivoc (fst (checkPeers js nets d))"
proof -
  define sc where "sc = scanPeers js nets (Cfg d) (readView d) (Peers d)"
  have sc: "AnyEquiv sc" "ProofPeer sc \<noteq> None"
    using scan_split [where nets = nets, OF assms(1,2)] by (simp_all add: sc_def scanPeers_def)
  then obtain b where b: "ProofPeer sc = Some b" by blast
  then obtain q pr' where q: "q \<in> set (Peers d)" "splitView js (nets (PName q)) (Cfg d) (readView d) q pr'"
      "b = peerCheckpoint q pr'"
    using scan_proof [where nets = nets, OF b [unfolded sc_def scanPeers_def]] by auto
  have "checkPeers js nets d = commitScan sc d"
    using assms(1) by (auto simp: checkPeers_def sc_def)
  moreover have "Proof (fst (commitScan sc d)) = Some (splitProof r q pr') \<and>
      snd (commitScan sc d) = pushAll (Peers d) (splitProof r q pr') \<and> Equivoc (fst (commitScan sc d))"
    using sc(1) b q(3) assms(3,4) by (simp add: commitScan_def Let_def splitProof_def)
  ultimately show thesis using q(1,2) by (intro that [of q pr']) simp_all
qed

section \<open>The published view\<close>

text \<open>The checkpoint a witness publishes is its view, under its name and key.\<close>

definition publishes :: "daemon \<Rightarrow> pollResult \<Rightarrow> bytes \<Rightarrow> bool" where
  "publishes d r root \<longleftrightarrow> Latest d = Some r \<and> CoWitness (Cosig r) = CName (Cfg d) \<and>
     PubXY (CKey (Cfg d)) = (CoPubX (Cosig r), CoPubY (Cosig r)) \<and>
     ParseCheckpoint (Body r) = Inr (COrigin (Cfg d), WSize (St d), root) \<and>
     hexRoot (WRoot (St d)) = Some root"

definition viewInv :: "daemon \<Rightarrow> bool" where
  "viewInv d \<longleftrightarrow> (\<forall>r. Latest d = Some r \<longrightarrow> (\<exists>root. publishes d r root))"

text \<open>Every poll finds randomness to sign with.\<close>

fun signing :: "event \<Rightarrow> bool" where
  "signing (Poll net nonce failure) \<longleftrightarrow> nonce \<noteq> None"
| "signing _ \<longleftrightarrow> True"

lemma accept_cosig:
  "Accepted (accept nonce body key name why) \<Longrightarrow> CoWitness (Cosig (accept nonce body key name why)) = name \<and>
   PubXY key = (CoPubX (Cosig (accept nonce body key name why)), CoPubY (Cosig (accept nonce body key name why)))"
  by (auto simp: accept_def split: option.splits prod.splits)

lemma once_viewInv:
  assumes "once js marshal net nonce failure d disk = (d', disk')" "nonce \<noteq> None" "viewInv d"
  shows "viewInv d'"
proof -
  obtain res st' where p: "poll js net nonce (Cfg d) (St d) = (res, st')" by fastforce
  from poll_view [OF p] consider
      "st' = St d" "\<not> (\<exists>r. res = Inr r \<and> Accepted r)"
    | body n root why where "servedCheckpoint js net (Cfg d) body n root"
        "st' = advance (COrigin (Cfg d)) n root (St d) \<or>
           st' = St d \<and> WSize (St d) = n \<and> hexRoot (WRoot (St d)) = Some root"
        "res = Inr (accept nonce body (CKey (Cfg d)) (CName (Cfg d)) why)"
    by blast
  then show ?thesis
  proof cases
    case 1
    then have "Latest d' = Latest d" "St d' = St d" "Cfg d' = Cfg d"
      using assms(1) p by (auto simp: once_def Let_def split: sum.splits)
    then show ?thesis using assms(3) by (simp add: viewInv_def publishes_def)
  next
    case 2
    note view = view_after [OF 2(1,2)]
    define r where "r = accept nonce body (CKey (Cfg d)) (CName (Cfg d)) why"
    have r: "Accepted r" "Body r = body" using assms(2) by (simp_all add: r_def accept_Some)
    then have "Latest d' = Some r" "St d' = st'" "Cfg d' = Cfg d"
      using assms(1) p 2(3) by (auto simp: once_def Let_def r_def split: prod.splits if_splits)
    then show ?thesis
      using r view accept_cosig [of nonce body "CKey (Cfg d)" "CName (Cfg d)" why]
      by (auto simp: viewInv_def publishes_def r_def)
  qed
qed

lemma viewInv_cong:
  "viewInv d \<Longrightarrow> Latest d' = Latest d \<Longrightarrow> St d' = St d \<Longrightarrow> Cfg d' = Cfg d \<Longrightarrow> viewInv d'"
  by (simp add: viewInv_def publishes_def)

lemma step_viewInv:
  assumes "step js marshal s e s'" "signing e" "viewInv (Daemon s)"
  shows "viewInv (Daemon s')"
  using assms
proof (cases rule: step.cases)
  case (poll_step net nonce failure d disk)
  then show ?thesis using once_viewInv [OF poll_step(4)] assms(2,3) by simp
next
  case (pull_step nets)
  then show ?thesis
    using pullPeerProofs_cases [of js nets "Daemon s"] viewInv_cong [OF assms(3)] assms(3) by auto
next
  case (intake_step httpMethod decoded)
  then show ?thesis
    using intake_cases [of httpMethod decoded "Daemon s"] viewInv_cong [OF assms(3)] assms(3) by auto
qed (use viewInv_cong [OF assms(3)] in \<open>simp_all add: viewInv_def start_def\<close>)

text \<open>C36: What a witness publishes is its current view: as long as its polls can sign, the
  cosignature it serves names it, carries its key, and is for a checkpoint of the watched log with
  the size and root of its view, whatever happens in between; and before the first one it serves 503.\<close>

theorem published_view_is_current:
  assumes "run js marshal s es s'" "Daemon s = start cfg ps st" "list_all signing es"
  shows "case handleCosignature (Daemon s') of
      (status, CosignaturePayload w px py sig body) \<Rightarrow> status = 200 \<and> w = CName (Cfg (Daemon s')) \<and>
        (hex_decode px, hex_decode py) = map_prod Inr Inr (PubXY (CKey (Cfg (Daemon s')))) \<and>
        (\<exists>root. ParseCheckpoint (bytes_of_string body) =
             Inr (COrigin (Cfg (Daemon s')), WSize (St (Daemon s')), root) \<and>
           hexRoot (WRoot (St (Daemon s'))) = Some root)
    | (status, _) \<Rightarrow> status = 503"
proof -
  have "viewInv (Daemon s')"
    by (rule run_invariant [OF assms(1), where Q = "\<lambda>s. viewInv (Daemon s)"])
      (use assms(2,3) step_viewInv in \<open>auto simp: viewInv_def start_def list_all_iff\<close>)
  then show ?thesis
    by (cases "Latest (Daemon s')")
      (auto simp: handleCosignature_def Let_def viewInv_def publishes_def)
qed

section \<open>Who accepts the proof\<close>

text \<open>A witness that watches the same log and pins the keys of another one and of its peers.\<close>

definition pinsParties :: "daemon \<Rightarrow> daemon \<Rightarrow> bool" where
  "pinsParties t d \<longleftrightarrow> COrigin (Cfg t) = COrigin (Cfg d) \<and>
     pinnedKey t (CName (Cfg d)) = Some (PubXY (CKey (Cfg d))) \<and>
     (\<forall>q\<in>set (Peers d). pinnedKey t (PName q) = Some (PX q, PY q))"

lemma split_convicts:
  assumes "publishes d r root" "splitView js net (Cfg d) (readView d) q pr"
    and "VerifyCheckpointSig (Body r) (CoSig (Cosig r)) ax ay"
  obtains sig why where "hex_decode (PRCosignature pr) = Inr sig"
    "VerifyEquivocation (Body r) (CoSig (Cosig r)) ax ay
       (bytes_of_string (PRCheckpointBody pr)) sig (PX q) (PY q) = (True, why)"
proof -
  have "WRoot (St d) \<noteq> []" using assms(1) by (auto simp: publishes_def)
  then have v: "OurSize (readView d) = WSize (St d)" "OurRoot (readView d) = root"
    using assms(1) by (simp_all add: readView_def publishes_def Let_def)
  from assms(2) obtain sig root' where "hex_decode (PRCosignature pr) = Inr sig"
      "VerifyCheckpointSig (bytes_of_string (PRCheckpointBody pr)) sig (PX q) (PY q)"
      "ParseCheckpoint (bytes_of_string (PRCheckpointBody pr)) = Inr (COrigin (Cfg d), WSize (St d), root')"
      "root' \<noteq> root"
    unfolding splitView_def v by blast
  then show thesis
    using assms(1,3) by (intro that [of sig]) (auto simp: VerifyEquivocation_def publishes_def)
qed

lemma split_convinces:
  assumes "publishes d r root" "splitView js net (Cfg d) (readView d) q pr" "q \<in> set (Peers d)"
    and "VerifyCheckpointSig (Body r) (CoSig (Cosig r)) (CoPubX (Cosig r)) (CoPubY (Cosig r))"
    and "pinsParties t d"
  shows "fst (verifyProof t (splitProof r q pr))"
proof -
  obtain sig why where "hex_decode (PRCosignature pr) = Inr sig"
      "VerifyEquivocation (Body r) (CoSig (Cosig r)) (CoPubX (Cosig r)) (CoPubY (Cosig r))
         (bytes_of_string (PRCheckpointBody pr)) sig (PX q) (PY q) = (True, why)"
    by (rule split_convicts [OF assms(1,2,4)])
  moreover have "pinnedKey t (EWitness (ownCheckpoint r)) = Some (CoPubX (Cosig r), CoPubY (Cosig r))"
      "pinnedKey t (PName q) = Some (PX q, PY q)" "COrigin (Cfg t) = COrigin (Cfg d)"
    using assms(1,3,5) by (simp_all add: pinsParties_def publishes_def ownCheckpoint_def Let_def)
  ultimately show ?thesis
    using assms(1)
    by (simp add: verifyProof_def splitProof_def ownCheckpoint_def peerCheckpoint_def publishes_def Let_def)
qed

lemma split_checks_offline:
  assumes "publishes d r root" "splitView js net (Cfg d) (readView d) q pr"
    and "VerifyCheckpointSig (Body r) (CoSig (Cosig r)) (CoPubX (Cosig r)) (CoPubY (Cosig r))"
  shows "isOk (checkProof (splitProof r q pr) (CoPubX (Cosig r), CoPubY (Cosig r), PX q, PY q))"
proof -
  obtain sig why where "hex_decode (PRCosignature pr) = Inr sig"
      "VerifyEquivocation (Body r) (CoSig (Cosig r)) (CoPubX (Cosig r)) (CoPubY (Cosig r))
         (bytes_of_string (PRCheckpointBody pr)) sig (PX q) (PY q) = (True, why)"
    by (rule split_convicts [OF assms])
  then show ?thesis
    by (simp add: checkProof_def splitProof_def ownCheckpoint_def peerCheckpoint_def Let_def)
qed

lemma intake_verified:
  assumes "fst (verifyProof t p)"
  shows "fst (fst (handleEquivocationIntake ''POST'' (Some p) t)) = 200 \<and>
    snd (handleEquivocationIntake ''POST'' (Some p) t) = adopt p t"
  using assms tryAdopt_cases [of p t] by (auto simp: handleEquivocationIntake_def)

section \<open>A split view is convicted\<close>

text \<open>The peer's \<open>/cosignature\<close> endpoint answers what its daemon's handler gives.\<close>

definition answersFor :: "json_decoders \<Rightarrow> network \<Rightarrow> peer \<Rightarrow> daemon \<Rightarrow> bool" where
  "answersFor js net p e \<longleftrightarrow>
     (case handleCosignature e of
        (status, CosignaturePayload w px py sig body) \<Rightarrow>
          getJSON net (toPeerCosig js) (PURL p @ ''/cosignature'') =
            Inr \<lparr> PRWitness = w, PRWitnessPubX = px, PRWitnessPubY = py, PRCosignature = sig,
                  PRCheckpointBody = body \<rparr>
      | (status, _) \<Rightarrow> \<exists>why. getJSON net (toPeerCosig js) (PURL p @ ''/cosignature'') = Inl why)"

text \<open>Two witnesses of one log publish different roots for one size, and one of them pins the other.\<close>

definition shownAFork :: "json_decoders \<Rightarrow> network \<Rightarrow> daemon \<Rightarrow> peer \<Rightarrow> daemon \<Rightarrow> bool" where
  "shownAFork js net d p e \<longleftrightarrow> p \<in> set (Peers d) \<and> answersFor js net p e \<and>
     COrigin (Cfg e) = COrigin (Cfg d) \<and> WSize (St e) = WSize (St d) \<and>
     (\<exists>r root r' root'. publishes d r root \<and> publishes e r' root' \<and> root \<noteq> root' \<and>
        VerifyCheckpointSig (Body r) (CoSig (Cosig r)) (CoPubX (Cosig r)) (CoPubY (Cosig r)) \<and>
        VerifyCheckpointSig (Body r') (CoSig (Cosig r')) (PX p) (PY p))"

lemma shown_split:
  assumes "shownAFork js net d p e"
  obtains r root pr where "publishes d r root" "p \<in> set (Peers d)" "splitView js net (Cfg d) (readView d) p pr"
    "VerifyCheckpointSig (Body r) (CoSig (Cosig r)) (CoPubX (Cosig r)) (CoPubY (Cosig r))"
proof -
  from assms obtain r root r' root' where r: "publishes d r root" "publishes e r' root'" "root \<noteq> root'"
      "VerifyCheckpointSig (Body r) (CoSig (Cosig r)) (CoPubX (Cosig r)) (CoPubY (Cosig r))"
      "VerifyCheckpointSig (Body r') (CoSig (Cosig r')) (PX p) (PY p)"
    by (auto simp: shownAFork_def)
  have "WRoot (St d) \<noteq> []" using r(1) by (auto simp: publishes_def)
  then have v: "HasView (readView d)" "OurSize (readView d) = WSize (St d)" "OurRoot (readView d) = root"
    using r(1) by (simp_all add: readView_def publishes_def Let_def)
  define c where "c = Cosig r'"
  define pr where "pr = \<lparr> PRWitness = CoWitness c, PRWitnessPubX = hex_encode (CoPubX c),
    PRWitnessPubY = hex_encode (CoPubY c), PRCosignature = hex_encode (CoSig c),
    PRCheckpointBody = string_of_bytes (Body r') \<rparr>"
  have "getJSON net (toPeerCosig js) (PURL p @ ''/cosignature'') = Inr pr"
    using assms r(2) by (simp add: shownAFork_def answersFor_def handleCosignature_def publishes_def pr_def c_def Let_def)
  then have "splitView js net (Cfg d) (readView d) p pr"
    using assms r(2,3,5) v by (auto simp: splitView_def publishes_def pr_def c_def shownAFork_def)
  with r(1,4) assms show thesis by (intro that) (simp_all add: shownAFork_def)
qed

lemma fork_evidence:
  assumes "shownAFork js (nets (PName p)) d p e" "Proof d = None"
  obtains r q pr root where "q \<in> set (Peers d)" "publishes d r root"
    "splitView js (nets (PName q)) (Cfg d) (readView d) q pr"
    "VerifyCheckpointSig (Body r) (CoSig (Cosig r)) (CoPubX (Cosig r)) (CoPubY (Cosig r))"
    "Proof (fst (checkPeers js nets d)) = Some (splitProof r q pr)"
    "snd (checkPeers js nets d) = pushAll (Peers d) (splitProof r q pr)"
    "Equivoc (fst (checkPeers js nets d))"
proof -
  obtain r root pr where r: "publishes d r root" "p \<in> set (Peers d)"
      "splitView js (nets (PName p)) (Cfg d) (readView d) p pr"
      "VerifyCheckpointSig (Body r) (CoSig (Cosig r)) (CoPubX (Cosig r)) (CoPubY (Cosig r))"
    by (rule shown_split [OF assms(1)])
  have "Latest d = Some r" using r(1) by (simp add: publishes_def)
  from checkPeers_split [where nets = nets, OF r(2,3) assms(2) this] show thesis
    using that r(1,4) by metis
qed

text \<open>C18: A fork shown to two witnesses is convicted by one cross-check. If two witnesses of a log
  publish validly cosigned checkpoints of one size with different roots, and the first pins the
  second, then its next cross-check latches the alarm, and it keeps and pushes to every peer one
  proof; that proof passes he-witness verify-equivocation under the witness's key and the key
  pinned for one of its peers, and every witness of the log that pins the keys adopts it when it is
  posted and from then on reports 503.\<close>

theorem split_view_is_convicted:
  assumes "shownAFork js (nets (PName p)) d p e" "Proof d = None"
  shows "\<exists>evidence. Proof (fst (checkPeers js nets d)) = Some evidence \<and>
    snd (checkPeers js nets d) = pushAll (Peers d) evidence \<and>
    fst (handleHealth (fst (checkPeers js nets d))) = 503 \<and>
    (\<exists>q\<in>set (Peers d). case PubXY (CKey (Cfg d)) of (x, y) \<Rightarrow> isOk (checkProof evidence (x, y, PX q, PY q))) \<and>
    (\<forall>t. pinsParties t d \<longrightarrow>
       (case handleEquivocationIntake ''POST'' (Some evidence) t of
          ((status, _), t', _) \<Rightarrow> status = 200 \<and> Proof t' \<noteq> None \<and> fst (handleHealth t') = 503))"
proof -
  obtain r q pr root where q: "q \<in> set (Peers d)" and pub: "publishes d r root"
      and split: "splitView js (nets (PName q)) (Cfg d) (readView d) q pr"
      and sig: "VerifyCheckpointSig (Body r) (CoSig (Cosig r)) (CoPubX (Cosig r)) (CoPubY (Cosig r))"
      and out: "Proof (fst (checkPeers js nets d)) = Some (splitProof r q pr)"
        "snd (checkPeers js nets d) = pushAll (Peers d) (splitProof r q pr)"
        "Equivoc (fst (checkPeers js nets d))"
    by (rule fork_evidence [where nets = nets, OF assms])
  have "PubXY (CKey (Cfg d)) = (CoPubX (Cosig r), CoPubY (Cosig r))"
    using pub by (simp add: publishes_def)
  moreover have "case handleEquivocationIntake ''POST'' (Some (splitProof r q pr)) t of
      ((status, _), t', _) \<Rightarrow> status = 200 \<and> Proof t' \<noteq> None \<and> fst (handleHealth t') = 503"
    if "pinsParties t d" for t
  proof -
    obtain status b t' out where h: "handleEquivocationIntake ''POST'' (Some (splitProof r q pr)) t = ((status, b), t', out)"
      by (metis prod.exhaust)
    then have "status = 200" "t' = fst (adopt (splitProof r q pr) t)"
      using intake_verified [OF split_convinces [OF pub split q sig that]] by (simp_all add: prod_eq_iff)
    then show ?thesis by (simp add: h handleHealth_def Let_def split: option.splits)
  qed
  ultimately show ?thesis
    using out q split_checks_offline [OF pub split sig]
    by (intro exI [of _ "splitProof r q pr"]) (auto simp: handleHealth_def Let_def)
qed

section \<open>Catching up\<close>

text \<open>A witness that missed the push finds the proof when it next asks its peers: one of them
  answers its \<open>/equivocation-proof\<close> with a proof the witness can verify.\<close>

lemma pullLoop_adopts:
  assumes "q \<in> set ps" "getJSON (nets (PName q)) (toEquivProof js) (PURL q @ ''/equivocation-proof'') = Inr p"
    and "fst (verifyProof d p)"
  shows "\<exists>p'. fst (verifyProof d p') \<and> pullLoop js nets ps d = adopt p' d"
  using assms(1)
proof (induction ps)
  case (Cons q' ps)
  show ?case
  proof (cases "\<exists>p'. getJSON (nets (PName q')) (toEquivProof js) (PURL q' @ ''/equivocation-proof'') = Inr p' \<and>
      fst (verifyProof d p')")
    case True
    then obtain p' where "getJSON (nets (PName q')) (toEquivProof js) (PURL q' @ ''/equivocation-proof'') = Inr p'"
        "fst (verifyProof d p')" by blast
    with tryAdopt_cases [of p' d] show ?thesis
      by (intro exI [of _ p']) (auto split: prod.split)
  next
    case False
    with Cons.prems assms(2,3) have "q \<in> set ps" by auto
    moreover have "pullLoop js nets (q' # ps) d = pullLoop js nets ps d"
    proof (cases "getJSON (nets (PName q')) (toEquivProof js) (PURL q' @ ''/equivocation-proof'')")
      case (Inr p')
      then show ?thesis using False tryAdopt_cases [of p' d] by auto
    qed simp
    ultimately show ?thesis using Cons.IH by simp
  qed
qed simp

theorem pull_catches_up:
  assumes "Proof d = None" "q \<in> set (Peers d)" "fst (verifyProof d p)"
    and "getJSON (nets (PName q)) (toEquivProof js) (PURL q @ ''/equivocation-proof'') = Inr p"
  shows "\<exists>p'. Proof (fst (pullPeerProofs js nets d)) = Some p' \<and>
    snd (pullPeerProofs js nets d) = pushAll (Peers d) p' \<and>
    fst (handleHealth (fst (pullPeerProofs js nets d))) = 503"
proof -
  from pullLoop_adopts [where nets = nets, OF assms(2,4,3)] obtain p' where
    "pullLoop js nets (Peers d) d = adopt p' d" by blast
  then have "pullPeerProofs js nets d = adopt p' d"
    using assms(1,2) by (auto simp: pullPeerProofs_def)
  moreover have "snd (adopt p' d) = pushAll (Peers d) p'" using assms(1) by (simp add: adopt_def Let_def)
  ultimately show ?thesis
    using assms(1) by (simp add: handleHealth_def Let_def)
qed

section \<open>A view that could not be signed\<close>

text \<open>\<open>poll\<close> replaces the view before it signs. When the signature then fails, the cosignature served is
  still that of the older view, and a proof assembled in this state pairs checkpoints of two sizes:
  nobody accepts it, and since one proof is kept for good, no other is assembled.\<close>

theorem stale_half_convicts_nobody:
  assumes "Latest d = Some r" "ParseCheckpoint (Body r) = Inr (origin, n, root)" "n \<noteq> WSize (St d)"
    and "splitView js net (Cfg d) (readView d) q pr"
  shows "\<not> isOk (checkProof (splitProof r q pr) keys) \<and> \<not> fst (verifyProof t (splitProof r q pr))"
proof -
  have "OurSize (readView d) = WSize (St d)" by (simp add: readView_def Let_def)
  then obtain root' where "ParseCheckpoint (bytes_of_string (PRCheckpointBody pr)) = Inr (COrigin (Cfg d), WSize (St d), root')"
    using assms(4) by (auto simp: splitView_def)
  then have no: "\<not> fst (VerifyEquivocation (Body r) sa ax ay (bytes_of_string (PRCheckpointBody pr)) sb bx y)" for sa ax ay sb bx y
    using assms(2,3) by (simp add: VerifyEquivocation_def)
  have "VerifyEquivocation (Body r) sa ax ay (bytes_of_string (PRCheckpointBody pr)) sb bx y \<noteq> (True, why)"
    for sa ax ay sb bx y why
    using no [of sa ax ay sb bx y] by auto
  then show ?thesis
    by (auto simp: checkProof_def verifyProof_def splitProof_def ownCheckpoint_def peerCheckpoint_def Let_def
        bindE_def wrapE_def split: sum.splits prod.splits option.splits)
qed

end
