(* ===== verification/Runs.thy ===== *)
theory Runs
  imports Prelude
begin

text \<open>
  Runs of a labelled step relation, and the two contracts under which something is known of every
  run: the steps keep an invariant, and the steps also lower a natural number, the potential, which
  then bounds the length of the run.
\<close>

inductive runs :: "('s \<Rightarrow> 'e \<Rightarrow> 's \<Rightarrow> bool) \<Rightarrow> 's \<Rightarrow> 'e list \<Rightarrow> 's \<Rightarrow> bool"
  for steps :: "'s \<Rightarrow> 'e \<Rightarrow> 's \<Rightarrow> bool" where
  runs_Nil [intro]: "runs steps s [] s"
| runs_Cons: "steps s e s' \<Longrightarrow> runs steps s' es s'' \<Longrightarrow> runs steps s (e # es) s''"

inductive_simps runs_Nil_iff [simp]: "runs steps s [] s'"
inductive_simps runs_Cons_iff: "runs steps s (e # es) s'"

lemma runs_append: "runs steps s es s' \<Longrightarrow> runs steps s' fs s'' \<Longrightarrow> runs steps s (es @ fs) s''"
  by (induction rule: runs.induct) (auto intro: runs_Cons)

text \<open>Runs whose events are all of one kind are the runs of the steps of that kind.\<close>

lemma runs_kind:
  "runs (\<lambda>s e s'. steps s e s' \<and> kind e) s es s' \<longleftrightarrow> runs steps s es s' \<and> list_all kind es"
  by (induction es arbitrary: s) (auto simp: runs_Cons_iff)

locale preserving =
  fixes steps :: "'s \<Rightarrow> 'e \<Rightarrow> 's \<Rightarrow> bool" and inv :: "'s \<Rightarrow> bool"
  assumes preserved: "steps s e s' \<Longrightarrow> inv s \<Longrightarrow> inv s'"
begin

lemma runs_inv: "runs steps s es s' \<Longrightarrow> inv s \<Longrightarrow> inv s'"
  by (induction rule: runs.induct) (auto intro: preserved)

end

locale descending = preserving steps inv for steps :: "'s \<Rightarrow> 'e \<Rightarrow> 's \<Rightarrow> bool" and inv +
  fixes potential :: "'s \<Rightarrow> nat"
  assumes descends: "steps s e s' \<Longrightarrow> inv s \<Longrightarrow> potential s' < potential s"
begin

lemma runs_length: "runs steps s es s' \<Longrightarrow> inv s \<Longrightarrow> length es + potential s' \<le> potential s"
proof (induction rule: runs.induct)
  case (runs_Cons s e s' es s'')
  then have "length es + potential s'' \<le> potential s'" using preserved by blast
  then show ?case using descends [OF runs_Cons.hyps(1) runs_Cons.prems] by simp
qed simp

text \<open>So a run can be continued to a state in which no step of a chosen kind is enabled.\<close>

lemma runs_to_rest:
  assumes "inv s"
  obtains es s' where "runs steps s es s'" "inv s'" "\<forall>e\<in>set es. kind e" "\<forall>e s''. kind e \<longrightarrow> \<not> steps s' e s''"
proof -
  have "\<exists>es s'. runs steps s es s' \<and> inv s' \<and> (\<forall>e\<in>set es. kind e) \<and> (\<forall>e s''. kind e \<longrightarrow> \<not> steps s' e s'')"
    using assms
  proof (induction "potential s" arbitrary: s rule: less_induct)
    case less
    show ?case
    proof (cases "\<exists>e s'. kind e \<and> steps s e s'")
      case True
      then obtain e s' where st: "kind e" "steps s e s'" by blast
      from less.hyps [OF descends [OF st(2) less.prems] preserved [OF st(2) less.prems]]
      obtain es s'' where "runs steps s' es s''" "inv s''" "\<forall>e\<in>set es. kind e"
          "\<forall>e t. kind e \<longrightarrow> \<not> steps s'' e t"
        by blast
      then show ?thesis using st by (intro exI [of _ "e # es"] exI [of _ s'']) (auto intro: runs_Cons)
    next
      case False
      then show ?thesis using less.prems by (intro exI [of _ "[]"] exI [of _ s]) auto
    qed
  qed
  then show thesis using that by blast
qed

end

end
