(* ===== verification/Flood.thy ===== *)
theory Flood
  imports Gossip Runs
begin

text \<open>
  A mesh of witnesses that push equivocation proofs to one another: \<open>pushProof\<close> puts a POST to a
  peer's \<open>/equivocation-intake\<close> in flight, and the network delivers the messages in any order or
  loses them. \<open>wire\<close> is what marshalling a proof, cutting it off at 1 MiB and decoding it again gives.
  Two comments of cmd/he-witness/main.go, at the push of \<open>checkPeers\<close> (line 762) and at
  \<open>handleEquivocationIntake\<close> (861), say that there is one hop and no re-flood; the code of
  \<open>tryAdopt\<close> pushes to every peer on the first adoption, as docs/DESIGN_WITNESS_GOSSIP.md says. The
  model follows the code.
\<close>

section \<open>The mesh\<close>

record mesh =
  Nodes :: "string \<rightharpoonup> daemon"
  InFlight :: pushes

datatype delivery = Delivered string equivProof | Lost string equivProof

definition intakeURL :: "string \<Rightarrow> string" where
  "intakeURL u = u @ ''/equivocation-intake''"

lemma intakeURL_inject [simp]: "intakeURL u = intakeURL v \<longleftrightarrow> u = v"
  by (simp add: intakeURL_def)

inductive flood :: "(equivProof \<Rightarrow> equivProof option) \<Rightarrow> mesh \<Rightarrow> delivery \<Rightarrow> mesh \<Rightarrow> bool"
  for wire where
  delivered: "flood wire m (Delivered u p)
      (m\<lparr> Nodes := (Nodes m)(u \<mapsto> d'), InFlight := xs @ ys @ out \<rparr>)"
  if "InFlight m = xs @ (intakeURL u, p) # ys" and "Nodes m u = Some d"
    and "handleEquivocationIntake ''POST'' (wire p) d = (resp, d', out)"
| lost: "flood wire m (Lost url p) (m\<lparr> InFlight := xs @ ys \<rparr>)"
  if "InFlight m = xs @ (url, p) # ys"

inductive_cases DeliveredE: "flood wire m (Delivered u p) m'"
inductive_cases floodE: "flood wire m e m'"

section \<open>What a delivery does\<close>

lemma intake_effect:
  assumes "handleEquivocationIntake ''POST'' decoded d = (resp, d', out)"
  shows "Cfg d' = Cfg d" "Peers d' = Peers d" "Equivoc d \<Longrightarrow> Equivoc d'"
    "d' = d \<and> out = [] \<or> Equivoc d' \<and> Proof d' \<noteq> None \<and>
       out = (if Proof d = None then pushAll (Peers d) (the decoded) else [])"
proof -
  have "d' = d \<and> out = [] \<or> (\<exists>p. decoded = Some p \<and> (d', out) = adopt p d)"
    using assms tryAdopt_cases [of "the decoded" d]
    by (cases decoded) (auto simp: handleEquivocationIntake_def)
  moreover have "snd (adopt p d) = (if Proof d = None then pushAll (Peers d) p else [])" for p
    by (simp add: adopt_def Let_def)
  moreover have "fst (adopt p d) = d'" "snd (adopt p d) = out" if "(d', out) = adopt p d" for p
    using arg_cong [OF that, of fst] arg_cong [OF that, of snd] by simp_all
  ultimately show "Cfg d' = Cfg d" "Peers d' = Peers d" "Equivoc d \<Longrightarrow> Equivoc d'"
    "d' = d \<and> out = [] \<or> Equivoc d' \<and> Proof d' \<noteq> None \<and>
       out = (if Proof d = None then pushAll (Peers d) (the decoded) else [])"
    using adopt_fields [of _ d] by (metis option.sel option.simps(3) option.case_eq_if)+
qed

lemma verifyProof_static: "Cfg d' = Cfg d \<Longrightarrow> Peers d' = Peers d \<Longrightarrow> verifyProof d' p = verifyProof d p"
proof -
  assume "Cfg d' = Cfg d" "Peers d' = Peers d"
  moreover from this have "pinnedKey d' = pinnedKey d" by (intro ext) (simp add: pinnedKey_def)
  ultimately show ?thesis by (simp only: verifyProof_def)
qed

section \<open>The flood ends\<close>

text \<open>A node that holds no proof yet may still push to each of its peers; one that holds a proof never
  pushes again.\<close>

definition pushesLeft :: "daemon \<Rightarrow> nat" where
  "pushesLeft d = (if Proof d = None then length (Peers d) else 0)"

definition meshPotential :: "mesh \<Rightarrow> nat" where
  "meshPotential m = length (InFlight m) + (\<Sum>u\<in>dom (Nodes m). pushesLeft (the (Nodes m u)))"

lemma intake_pushes:
  "handleEquivocationIntake ''POST'' decoded d = (resp, d', out) \<Longrightarrow>
   length out + pushesLeft d' \<le> pushesLeft d"
  using intake_effect(4) [of decoded d resp d' out] by (auto simp: pushesLeft_def pushAll_def)

interpretation flooding: descending "flood wire" "\<lambda>m. finite (dom (Nodes m))" meshPotential
proof
  fix m e m'
  assume st: "flood wire m e m'" and fin: "finite (dom (Nodes m))"
  show "finite (dom (Nodes m'))"
    using st fin by (cases rule: flood.cases) auto
  show "meshPotential m' < meshPotential m"
    using st
  proof (cases rule: flood.cases)
    case (delivered xs u p ys d resp d' out)
    have "(\<Sum>v\<in>dom (Nodes m'). pushesLeft (the (Nodes m' v))) + length out \<le>
        (\<Sum>v\<in>dom (Nodes m). pushesLeft (the (Nodes m v)))"
    proof -
      have u: "u \<in> dom (Nodes m)" and dom: "dom (Nodes m') = dom (Nodes m)"
        using delivered by auto
      have rest: "(\<Sum>v\<in>dom (Nodes m) - {u}. pushesLeft (the (Nodes m' v))) =
          (\<Sum>v\<in>dom (Nodes m) - {u}. pushesLeft (the (Nodes m v)))"
        by (rule sum.cong) (simp_all add: delivered(2))
      show ?thesis
        unfolding dom using intake_pushes [OF delivered(5)] delivered(2,4) rest
        by (simp add: sum.remove [OF fin u])
    qed
    then show ?thesis using delivered(2,3) by (simp add: meshPotential_def)
  next
    case (lost xs url p ys)
    then show ?thesis by (simp add: meshPotential_def)
  qed
qed

text \<open>C20: The flood ends. However the messages are delivered or lost, no more of them are handled than
  were in flight at the start plus the number of peers of all witnesses, whatever proofs, genuine or
  not, they carry; and as long as one is in flight the network can go on.\<close>

theorem flood_ends:
  assumes "runs (flood wire) m es m'" "finite (dom (Nodes m))"
  shows "length es + length (InFlight m') \<le>
      length (InFlight m) + (\<Sum>u\<in>dom (Nodes m). length (Peers (the (Nodes m u)))) \<and>
    (InFlight m' = [] \<longleftrightarrow> \<not> (\<exists>e m''. flood wire m' e m''))"
proof
  have "(\<Sum>u\<in>dom (Nodes m). pushesLeft (the (Nodes m u))) \<le> (\<Sum>u\<in>dom (Nodes m). length (Peers (the (Nodes m u))))"
    by (rule sum_mono) (simp add: pushesLeft_def)
  then show "length es + length (InFlight m') \<le>
      length (InFlight m) + (\<Sum>u\<in>dom (Nodes m). length (Peers (the (Nodes m u))))"
    using flooding.runs_length [OF assms] by (simp add: meshPotential_def)
  have "\<exists>e m''. flood wire m' e m''" if "InFlight m' = x # xs" for x xs
    using flood.lost [of m' "[]" "fst x" "snd x" xs wire] that by auto
  then show "InFlight m' = [] \<longleftrightarrow> \<not> (\<exists>e m''. flood wire m' e m'')"
    by (cases "InFlight m'") (auto elim: floodE)
qed

section \<open>The flood reaches every witness\<close>

fun lossless :: "delivery \<Rightarrow> bool" where
  "lossless (Delivered u p) \<longleftrightarrow> True"
| "lossless (Lost url p) \<longleftrightarrow> False"

text \<open>From whom to whom a mesh pushes.\<close>

definition meshEdges :: "mesh \<Rightarrow> (string \<times> string) set" where
  "meshEdges m = {(u, PURL q) | u d q. Nodes m u = Some d \<and> q \<in> set (Peers d)}"

definition notified :: "mesh \<Rightarrow> string \<Rightarrow> bool" where
  "notified m v \<longleftrightarrow> (\<exists>d. Nodes m v = Some d \<and> Proof d \<noteq> None) \<or> (\<exists>p. (intakeURL v, p) \<in> set (InFlight m))"

definition evident :: "(equivProof \<Rightarrow> equivProof option) \<Rightarrow> mesh \<Rightarrow> equivProof \<Rightarrow> bool" where
  "evident wire m p \<longleftrightarrow> wire p = Some p \<and> (\<forall>u d. Nodes m u = Some d \<longrightarrow> fst (verifyProof d p))"

text \<open>Only evidence is in flight, and only to witnesses of the mesh; who holds a proof is alarmed, and
  each of its peers holds one or has one in flight to it.\<close>

definition meshInv :: "(equivProof \<Rightarrow> equivProof option) \<Rightarrow> mesh \<Rightarrow> bool" where
  "meshInv wire m \<longleftrightarrow> meshEdges m \<subseteq> UNIV \<times> dom (Nodes m) \<and>
     (\<forall>(url, p)\<in>set (InFlight m). evident wire m p \<and> url \<in> intakeURL ` dom (Nodes m)) \<and>
     (\<forall>u d. Nodes m u = Some d \<and> Proof d \<noteq> None \<longrightarrow> Equivoc d) \<and>
     (\<forall>(u, v)\<in>meshEdges m. (\<exists>d. Nodes m u = Some d \<and> Proof d \<noteq> None) \<longrightarrow> notified m v)"

lemma meshInvD:
  assumes "meshInv wire m"
  shows "(url, p) \<in> set (InFlight m) \<Longrightarrow> evident wire m p"
    "(url, p) \<in> set (InFlight m) \<Longrightarrow> \<exists>v d. Nodes m v = Some d \<and> url = intakeURL v"
    "Nodes m u = Some d \<Longrightarrow> Proof d \<noteq> None \<Longrightarrow> Equivoc d"
    "(u, v) \<in> meshEdges m \<Longrightarrow> Nodes m u = Some d \<Longrightarrow> Proof d \<noteq> None \<Longrightarrow> notified m v"
    "(u, v) \<in> meshEdges m \<Longrightarrow> v \<in> dom (Nodes m)"
  using assms unfolding meshInv_def by blast+

text \<open>Deliveries change neither the configuration nor the peers of a node, and edges and evidence depend
  on nothing else.\<close>

definition parties :: "mesh \<Rightarrow> string \<rightharpoonup> config \<times> peer list" where
  "parties m u = map_option (\<lambda>d. (Cfg d, Peers d)) (Nodes m u)"

lemma parties_simps:
  "dom (Nodes m) = dom (parties m)"
  "meshEdges m = {(u, PURL q) | u c ps q. parties m u = Some (c, ps) \<and> q \<in> set ps}"
  by (auto simp: parties_def meshEdges_def dom_def)

lemma evident_parties:
  "evident wire m p \<longleftrightarrow> wire p = Some p \<and>
     (\<forall>u c ps. parties m u = Some (c, ps) \<longrightarrow> fst (verifyProof (start c ps baseline) p))"
proof -
  have "verifyProof (start (Cfg d) (Peers d) baseline) p = verifyProof d p" for d
    by (rule verifyProof_static) (simp_all add: start_def)
  then show ?thesis by (simp add: evident_def parties_def) metis
qed

lemma flood_parties: "flood wire m e m' \<Longrightarrow> parties m' = parties m"
  by (erule flood.cases; rule ext) (auto simp: parties_def dest: intake_effect(1,2))

lemma flood_static:
  assumes "flood wire m e m'"
  shows "dom (Nodes m') = dom (Nodes m)" "meshEdges m' = meshEdges m" "evident w m' p = evident w m p"
  by (simp_all only: parties_simps evident_parties flood_parties [OF assms])

lemma delivered_evidence:
  assumes "flood wire m (Delivered u p) m'" "evident wire m p"
  obtains xs ys d d' where "InFlight m = xs @ (intakeURL u, p) # ys" "Nodes m u = Some d"
    "Nodes m' = (Nodes m)(u \<mapsto> d')" "Equivoc d'" "Proof d' \<noteq> None"
    "InFlight m' = xs @ ys @ (if Proof d = None then pushAll (Peers d) p else [])"
  using assms(1)
proof (rule DeliveredE)
  fix xs ys d resp d' out
  assume m': "m' = m\<lparr> Nodes := (Nodes m)(u \<mapsto> d'), InFlight := xs @ ys @ out \<rparr>"
    and fl: "InFlight m = xs @ (intakeURL u, p) # ys" and d: "Nodes m u = Some d"
    and h: "handleEquivocationIntake ''POST'' (wire p) d = (resp, d', out)"
  from assms(2) d have "wire p = Some p" "fst (verifyProof d p)" by (auto simp: evident_def)
  with h intake_verified [of d p] have a: "(d', out) = adopt p d" by simp
  have "Equivoc d'" "Proof d' \<noteq> None"
    using adopt_fields [of p d] arg_cong [OF a, of fst] by (auto split: option.splits)
  moreover have "out = (if Proof d = None then pushAll (Peers d) p else [])"
    using arg_cong [OF a, of snd] by (simp add: adopt_def Let_def)
  ultimately show thesis
    using m' fl d by (intro that [of xs ys d d']) simp_all
qed

interpretation spreading: preserving "\<lambda>m e m'. flood wire m e m' \<and> lossless e" "meshInv wire" for wire
proof
  fix m e m'
  assume st: "flood wire m e m' \<and> lossless e" and inv: "meshInv wire m"
  then obtain u p where e: "e = Delivered u p" by (cases e) auto
  with st have st': "flood wire m (Delivered u p) m'" by simp
  note static = flood_static [OF st']
  from st' have "(intakeURL u, p) \<in> set (InFlight m)" by (auto elim: DeliveredE)
  then have ev: "evident wire m p" using meshInvD(1) [OF inv] by blast
  from delivered_evidence [OF st' ev] obtain xs ys d d' where
    fl: "InFlight m = xs @ (intakeURL u, p) # ys" and d: "Nodes m u = Some d"
    and m': "Nodes m' = (Nodes m)(u \<mapsto> d')" "Equivoc d'" "Proof d' \<noteq> None"
      "InFlight m' = xs @ ys @ (if Proof d = None then pushAll (Peers d) p else [])" .
  have keep: "notified m' v" if "notified m v" for v
    using that m' fl by (auto simp: notified_def split: if_splits)
  have edge: "(u, PURL q) \<in> meshEdges m" if "q \<in> set (Peers d)" for q
    using d that by (auto simp: meshEdges_def)
  have fresh: "notified m' (PURL q)" if "q \<in> set (Peers d)" "Proof d = None" for q
    using that m'(4) by (auto simp: notified_def pushAll_def intakeURL_def)
  have mail: "evident wire m p' \<and> url \<in> intakeURL ` dom (Nodes m)" if "(url, p') \<in> set (InFlight m')" for url p'
  proof (cases "(url, p') \<in> set (InFlight m)")
    case True
    then show ?thesis using meshInvD(1,2) [OF inv True] by blast
  next
    case False
    then have "(url, p') \<in> set (pushAll (Peers d) p)"
      using that fl m'(4) by (auto split: if_splits)
    then show ?thesis
      using ev edge meshInvD(5) [OF inv] by (fastforce simp: pushAll_def intakeURL_def [symmetric])
  qed
  have told: "notified m' v" if "(a, v) \<in> meshEdges m" "Nodes m' a = Some t" "Proof t \<noteq> None" for a v t
  proof (cases "a = u \<and> Proof d = None")
    case True
    then show ?thesis using that(1) d fresh by (auto simp: meshEdges_def)
  next
    case False
    then have "\<exists>t. Nodes m a = Some t \<and> Proof t \<noteq> None" using that d m'(1) by (auto split: if_splits)
    then show ?thesis using meshInvD(4) [OF inv that(1)] keep by blast
  qed
  have "Equivoc t" if "Nodes m' a = Some t" "Proof t \<noteq> None" for a t
    using that m'(1,2) meshInvD(3) [OF inv] by (auto split: if_splits)
  with mail told show "meshInv wire m'"
    using inv unfolding meshInv_def static by blast
qed

text \<open>A mesh at rest: the alarm has gone wherever a proof can be pushed to.\<close>

lemma rest_alarmed:
  assumes "meshInv wire m" "InFlight m = []" "(u, v) \<in> (meshEdges m)\<^sup>*"
    and "\<exists>d. Nodes m u = Some d \<and> Proof d \<noteq> None"
  shows "\<exists>d. Nodes m v = Some d \<and> Proof d \<noteq> None \<and> Equivoc d"
proof -
  have "\<exists>d. Nodes m v = Some d \<and> Proof d \<noteq> None"
    using assms(3)
  proof (induction rule: rtrancl_induct)
    case base
    show ?case by (rule assms(4))
  next
    case (step a b)
    then have "notified m b" using assms(1) by (fastforce simp: meshInv_def)
    then show ?case by (simp add: notified_def assms(2))
  qed
  then show ?thesis using assms(1) by (auto simp: meshInv_def)
qed

definition holds :: "string \<Rightarrow> (string \<times> string) set \<Rightarrow> mesh \<Rightarrow> bool" where
  "holds u edges m \<longleftrightarrow> meshEdges m = edges \<and> (\<exists>d. Nodes m u = Some d \<and> Proof d \<noteq> None)"

interpretation holding: preserving "flood wire" "holds u edges" for wire u edges
proof
  fix m e m'
  assume st: "flood wire m e m'" and "holds u edges m"
  moreover from st have "\<exists>d'. Nodes m' u = Some d' \<and> Proof d' \<noteq> None" if "Nodes m u = Some d" "Proof d \<noteq> None" for d
    by (cases rule: flood.cases) (use that intake_effect(4) in fastforce)+
  ultimately show "holds u edges m'"
    using flood_static(2) [OF st] by (auto simp: holds_def)
qed

text \<open>Without losses a mesh comes to rest.\<close>

lemma lossless_rest:
  assumes "finite (dom (Nodes m))" "meshInv wire m"
  obtains es m' where "runs (flood wire) m es m'" "list_all lossless es" "InFlight m' = []"
proof -
  obtain es m' where r: "runs (flood wire) m es m'" "\<forall>e\<in>set es. lossless e"
      "\<forall>e m''. lossless e \<longrightarrow> \<not> flood wire m' e m''"
    by (rule flooding.runs_to_rest [where kind = lossless, OF assms(1)])
  have "meshInv wire m'"
    using spreading.runs_inv [OF _ assms(2), of es m'] r(1,2) by (simp add: runs_kind list_all_iff)
  note inv' = this
  have "\<exists>e m''. lossless e \<and> flood wire m' e m''"
    if "InFlight m' = (intakeURL u, p) # ms" "Nodes m' u = Some d" for u p ms d
  proof -
    obtain resp d' out where h: "handleEquivocationIntake ''POST'' (wire p) d = (resp, d', out)"
      by (metis prod.exhaust)
    show ?thesis
      using flood.delivered [where xs = "[]" and u = u and p = p and wire = wire, OF _ that(2) h] that(1)
      by (intro exI [of _ "Delivered u p"]) auto
  qed
  note go = this
  have "InFlight m' = []"
  proof (cases "InFlight m'")
    case (Cons x ms)
    then obtain url p where x: "InFlight m' = (url, p) # ms" by (cases x) simp
    with meshInvD(2) [OF inv', of url p] obtain v d where "Nodes m' v = Some d" "url = intakeURL v" by auto
    with go [of v p ms d] x r(3) show ?thesis by blast
  qed
  then show thesis using r(1,2) by (intro that) (simp_all add: list_all_iff)
qed

section \<open>A detected fork alarms the mesh\<close>

text \<open>The mesh when the witness at \<open>u\<close> has just cross-checked its peers.\<close>

definition afterCheck :: "json_decoders \<Rightarrow> (string \<Rightarrow> network) \<Rightarrow> string \<Rightarrow> daemon \<Rightarrow> mesh \<Rightarrow> mesh" where
  "afterCheck js nets u d m = (let (d', out) = checkPeers js nets d in
     m\<lparr> Nodes := (Nodes m)(u \<mapsto> d'), InFlight := InFlight m @ out \<rparr>)"

lemma checkPeers_fields: "Cfg (fst (checkPeers js nets d)) = Cfg d" "Peers (fst (checkPeers js nets d)) = Peers d"
  by (simp_all add: checkPeers_def)

lemma afterCheck_parties: "Nodes m u = Some d \<Longrightarrow> parties (afterCheck js nets u d m) = parties m"
  by (rule ext) (simp add: parties_def afterCheck_def split_beta checkPeers_fields)

lemma afterCheck_inv:
  assumes "Nodes m u = Some d" "InFlight m = []" "shownAFork js (nets (PName p)) d p e"
    and "\<forall>v t. Nodes m v = Some t \<longrightarrow> Proof t = None \<and> pinsParties t d"
    and "meshEdges m \<subseteq> UNIV \<times> dom (Nodes m)"
    and "\<forall>pf. Proof (fst (checkPeers js nets d)) = Some pf \<longrightarrow> wire pf = Some pf"
  shows "meshInv wire (afterCheck js nets u d m)" "\<exists>t. Nodes (afterCheck js nets u d m) u = Some t \<and> Proof t \<noteq> None"
proof -
  have none: "Proof d = None" using assms(1,4) by blast
  obtain r q pr root where q: "q \<in> set (Peers d)" and pub: "publishes d r root"
      and split: "splitView js (nets (PName q)) (Cfg d) (readView d) q pr"
      and sig: "VerifyCheckpointSig (Body r) (CoSig (Cosig r)) (CoPubX (Cosig r)) (CoPubY (Cosig r))"
      and out: "Proof (fst (checkPeers js nets d)) = Some (splitProof r q pr)"
        "snd (checkPeers js nets d) = pushAll (Peers d) (splitProof r q pr)"
        "Equivoc (fst (checkPeers js nets d))"
    by (rule fork_evidence [where nets = nets, OF assms(3) none])
  define m0 where "m0 = afterCheck js nets u d m"
  have m0: "Nodes m0 = (Nodes m)(u \<mapsto> fst (checkPeers js nets d))" "InFlight m0 = pushAll (Peers d) (splitProof r q pr)"
    using assms(2) out(2) by (simp_all add: m0_def afterCheck_def split_beta)
  have same: "meshEdges m0 = meshEdges m" "dom (Nodes m0) = dom (Nodes m)"
      "evident wire m0 (splitProof r q pr) = evident wire m (splitProof r q pr)"
    by (simp_all only: parties_simps evident_parties m0_def afterCheck_parties [OF assms(1)])
  have ev: "evident wire m (splitProof r q pr)"
    using assms(4,6) out(1) split_convinces [OF pub split q sig] by (auto simp: evident_def)
  have edge: "(u, PURL q') \<in> meshEdges m" if "q' \<in> set (Peers d)" for q'
    using assms(1) that by (auto simp: meshEdges_def)
  have mail: "evident wire m0 p' \<and> url \<in> intakeURL ` dom (Nodes m)" if "(url, p') \<in> set (InFlight m0)" for url p'
  proof -
    obtain q' where "q' \<in> set (Peers d)" "url = intakeURL (PURL q')" "p' = splitProof r q pr"
      using \<open>(url, p') \<in> set (InFlight m0)\<close> by (auto simp: m0(2) pushAll_def intakeURL_def)
    then show ?thesis using edge [of q'] assms(5) ev same(3) by blast
  qed
  have only: "a = u" if "Nodes m0 a = Some t" "Proof t \<noteq> None" for a t
    using that assms(4) m0(1) by (metis fun_upd_other)
  have sent: "notified m0 v" if "(a, v) \<in> meshEdges m" "Nodes m0 a = Some t" "Proof t \<noteq> None" for a v t
    using that(1) only [OF that(2,3)] assms(1) m0(2)
    by (auto simp: meshEdges_def notified_def pushAll_def intakeURL_def)
  have "Equivoc t" if "Nodes m0 a = Some t" "Proof t \<noteq> None" for a t
    using only [OF that] that(1) m0(1) out(3) by simp
  with mail sent show "meshInv wire (afterCheck js nets u d m)"
    using assms(5) unfolding m0_def [symmetric] meshInv_def same by blast
  show "\<exists>t. Nodes (afterCheck js nets u d m) u = Some t \<and> Proof t \<noteq> None"
    unfolding m0_def [symmetric] by (simp add: m0(1) out(1))
qed

text \<open>C19: One witness that sees a fork alarms the mesh. In a mesh of witnesses of one log that pin the
  two witnesses shown the fork, none of them holding a proof yet, let the one at \<open>u\<close> cross-check its
  peers. Then the pushed proofs can all be delivered, and in whatever order they are, once none is in
  flight any more every witness reachable from \<open>u\<close> along peers serves a proof and reports 503.
  This is transitive flooding, by the push of \<open>tryAdopt\<close>; the comments at lines 762 and 861 of
  cmd/he-witness/main.go deny it.\<close>

theorem detected_fork_alarms_the_mesh:
  assumes "Nodes m u = Some d" "InFlight m = []" "finite (dom (Nodes m))"
    and "shownAFork js (nets (PName p)) d p e"
    and "\<forall>v t. Nodes m v = Some t \<longrightarrow> Proof t = None \<and> pinsParties t d"
    and "meshEdges m \<subseteq> UNIV \<times> dom (Nodes m)"
    and "\<forall>pf. Proof (fst (checkPeers js nets d)) = Some pf \<longrightarrow> wire pf = Some pf"
  shows "(\<exists>es m'. runs (flood wire) (afterCheck js nets u d m) es m' \<and> list_all lossless es \<and> InFlight m' = []) \<and>
    (\<forall>es m' v. runs (flood wire) (afterCheck js nets u d m) es m' \<and> list_all lossless es \<and> InFlight m' = [] \<and>
       (u, v) \<in> (meshEdges m)\<^sup>* \<longrightarrow>
       (\<exists>t. Nodes m' v = Some t \<and> fst (handleEquivocationProof t) = 200 \<and> fst (handleHealth t) = 503))"
proof (intro conjI allI impI)
  define m0 where "m0 = afterCheck js nets u d m"
  note inv = afterCheck_inv [where nets = nets, OF assms(1,2,4-7), folded m0_def]
  have fin: "finite (dom (Nodes m0))" and edges: "meshEdges m0 = meshEdges m"
    using assms(3) by (simp_all only: parties_simps m0_def afterCheck_parties [OF assms(1)])
  show "\<exists>es m'. runs (flood wire) (afterCheck js nets u d m) es m' \<and> list_all lossless es \<and> InFlight m' = []"
    unfolding m0_def [symmetric] using lossless_rest [OF fin inv(1)] by blast
  fix es m' v
  assume r: "runs (flood wire) (afterCheck js nets u d m) es m' \<and> list_all lossless es \<and> InFlight m' = [] \<and>
       (u, v) \<in> (meshEdges m)\<^sup>*"
  then have "meshInv wire m'" and h: "holds u (meshEdges m) m'"
    using spreading.runs_inv [OF _ inv(1), of es m'] holding.runs_inv [of wire m0 es m' u "meshEdges m"] inv(2) edges
    by (auto simp: m0_def runs_kind holds_def)
  from rest_alarmed [OF this(1), of u v] h r
  show "\<exists>t. Nodes m' v = Some t \<and> fst (handleEquivocationProof t) = 200 \<and> fst (handleHealth t) = 503"
    by (auto simp: holds_def handleEquivocationProof_def handleHealth_def Let_def)
qed

end
