(* ===== verification/Flood_Demo.thy ===== *)
theory Flood_Demo
  imports Flood Witness_Cli_Demo
begin

text \<open>
  Three witnesses of one log. The first two were shown the two checkpoints of \<open>Witness_Cli_Demo\<close>, the
  third has seen nothing; the first pins the second, the second pins both others, and the third hears
  of the fork only through the second.
\<close>

definition meshConfig :: "string \<Rightarrow> int \<Rightarrow> int \<Rightarrow> config" where
  "meshConfig name x y = \<lparr> CName = name, COrigin = ''mlog'', CLogURL = ''http://log'', CStatePath = [],
     CKey = \<lparr> D = 1, X = x, Y = y \<rparr>, CLogX = [], CLogY = [] \<rparr>"

definition peer1 :: peer where
  "peer1 = \<lparr> PName = ''w1'', PURL = ''http://w1'', PX = notePx, PY = notePy \<rparr>"

definition peer2 :: peer where
  "peer2 = \<lparr> PName = ''w2'', PURL = ''http://w2'', PX = forkPx, PY = forkPy \<rparr>"

definition peer3 :: peer where
  "peer3 = \<lparr> PName = ''w3'', PURL = ''http://w3'', PX = notePx, PY = notePy \<rparr>"

definition shown :: "string \<Rightarrow> bytes \<Rightarrow> bytes \<Rightarrow> bytes \<Rightarrow> bytes \<Rightarrow> pollResult" where
  "shown name x y body sig = \<lparr> Accepted = True, PollReason = FirstSight, Body = body,
     Cosig = \<lparr> CoWitness = name, CoPubX = x, CoPubY = y, CoSig = sig \<rparr> \<rparr>"

definition w1 :: daemon where
  "w1 = (start (meshConfig ''w1'' noteQx noteQy) [peer2]
     \<lparr> WOrigin = ''mlog'', WSize = 2, WRoot = hex_encode (mth demoLog) \<rparr>)
     \<lparr> Latest := Some (shown ''w1'' notePx notePy noteBody noteSig) \<rparr>"

definition w2 :: daemon where
  "w2 = (start (meshConfig ''w2'' forkQx forkQy) [peer1, peer3]
     \<lparr> WOrigin = ''mlog'', WSize = 2, WRoot = hex_encode forkRoot \<rparr>)
     \<lparr> Latest := Some (shown ''w2'' forkPx forkPy forkBody forkSig) \<rparr>"

definition w3 :: daemon where
  "w3 = start (meshConfig ''w3'' 0 0) [peer1, peer2] baseline"

definition meshJson :: json_decoders where
  "meshJson = demoJson\<lparr> toPeerCosig := (\<lambda>_. Some \<lparr> PRWitness = ''w2'', PRWitnessPubX = hex_encode forkPx,
     PRWitnessPubY = hex_encode forkPy, PRCosignature = hex_encode forkSig,
     PRCheckpointBody = string_of_bytes forkBody \<rparr>) \<rparr>"

definition demoMesh :: mesh where
  "demoMesh = \<lparr> Nodes = [''http://w1'' \<mapsto> w1, ''http://w2'' \<mapsto> w2, ''http://w3'' \<mapsto> w3], InFlight = [] \<rparr>"

lemma mesh_keys:
  "PubXY \<lparr> D = 1, X = noteQx, Y = noteQy \<rparr> = (notePx, notePy)"
  "PubXY \<lparr> D = 1, X = forkQx, Y = forkQy \<rparr> = (forkPx, forkPy)"
  by (simp_all add: PubXY_def notePx_def notePy_def forkPx_def forkPy_def leftPad32_min_bytes
      noteQx_def noteQy_def forkQx_def forkQy_def)

lemma mesh_publishes:
  "publishes w1 (shown ''w1'' notePx notePy noteBody noteSig) (mth demoLog)"
  "publishes w2 (shown ''w2'' forkPx forkPy forkBody forkSig) forkRoot"
proof -
  have len: "length (mth demoLog) = 32" "length forkRoot = 32"
    by (simp_all add: demo_root_bytes forkRoot_def)
  show "publishes w1 (shown ''w1'' notePx notePy noteBody noteSig) (mth demoLog)"
    "publishes w2 (shown ''w2'' forkPx forkPy forkBody forkSig) forkRoot"
    using note_parse fork_parse len
    by (simp_all add: publishes_def w1_def w2_def shown_def start_def meshConfig_def mesh_keys)
qed

lemma mesh_fork: "shownAFork meshJson demoNet w1 peer2 w2"
  unfolding shownAFork_def
proof (intro conjI exI)
  show "publishes w1 (shown ''w1'' notePx notePy noteBody noteSig) (mth demoLog)"
    "publishes w2 (shown ''w2'' forkPx forkPy forkBody forkSig) forkRoot"
    by (rule mesh_publishes)+
  show "mth demoLog \<noteq> forkRoot" by (rule fork_differs)
  show "answersFor meshJson demoNet peer2 w2"
    by (simp add: answersFor_def handleCosignature_def w2_def shown_def getJSON_def demoNet_def meshJson_def Let_def)
qed (use note_signed fork_signed in \<open>simp_all add: w1_def w2_def start_def meshConfig_def shown_def peer2_def
  VerifyCheckpointSig_def\<close>)

lemma mesh_nodes:
  "Nodes demoMesh v = Some t \<Longrightarrow> t = w1 \<or> t = w2 \<or> t = w3"
  by (auto simp: demoMesh_def split: if_splits)

lemma mesh_pins: "\<forall>v t. Nodes demoMesh v = Some t \<longrightarrow> Proof t = None \<and> pinsParties t w1"
proof (intro allI impI)
  fix v t
  assume "Nodes demoMesh v = Some t"
  then have "t = w1 \<or> t = w2 \<or> t = w3" by (rule mesh_nodes)
  then show "Proof t = None \<and> pinsParties t w1"
    by (elim disjE) (simp_all add: pinsParties_def pinnedKey_def w1_def w2_def w3_def start_def meshConfig_def
        peer1_def peer2_def peer3_def mesh_keys)
qed

lemma mesh_peers: "Peers w1 = [peer2]" "Peers w2 = [peer1, peer3]" "Peers w3 = [peer1, peer2]"
  by (simp_all add: w1_def w2_def w3_def start_def)

lemma mesh_urls:
  "Nodes demoMesh (PURL peer1) = Some w1" "Nodes demoMesh (PURL peer2) = Some w2" "Nodes demoMesh (PURL peer3) = Some w3"
  by (simp_all add: demoMesh_def peer1_def peer2_def peer3_def)

lemma mesh_dom: "dom (Nodes demoMesh) = {PURL peer1, PURL peer2, PURL peer3}"
  by (auto simp: demoMesh_def peer1_def peer2_def peer3_def)

lemma mesh_edges: "meshEdges demoMesh \<subseteq> UNIV \<times> dom (Nodes demoMesh)"
proof
  fix e assume "e \<in> meshEdges demoMesh"
  then obtain u d q where e: "e = (u, PURL q)" "Nodes demoMesh u = Some d" "q \<in> set (Peers d)"
    by (auto simp: meshEdges_def)
  from mesh_nodes [OF e(2)] e(3) have "q = peer1 \<or> q = peer2 \<or> q = peer3"
    by (auto simp: mesh_peers)
  then show "e \<in> UNIV \<times> dom (Nodes demoMesh)" by (auto simp: e(1) mesh_dom)
qed

lemma mesh_path: "(PURL peer1, PURL peer3) \<in> (meshEdges demoMesh)\<^sup>*"
proof -
  have "(PURL peer1, PURL peer2) \<in> meshEdges demoMesh"
    unfolding meshEdges_def by (intro CollectI exI [of _ "PURL peer1"] exI [of _ w1] exI [of _ peer2])
      (simp add: mesh_urls mesh_peers)
  moreover have "(PURL peer2, PURL peer3) \<in> meshEdges demoMesh"
    unfolding meshEdges_def by (intro CollectI exI [of _ "PURL peer2"] exI [of _ w2] exI [of _ peer3])
      (simp add: mesh_urls mesh_peers)
  ultimately show ?thesis by (metis r_into_rtrancl rtrancl_trans)
qed

lemma split_view_is_convicted_witness:
  "\<exists>evidence. Proof (fst (checkPeers meshJson (\<lambda>_. demoNet) w1)) = Some evidence \<and>
     snd (checkPeers meshJson (\<lambda>_. demoNet) w1) = [(''http://w2/equivocation-intake'', evidence)] \<and>
     isOk (checkProof evidence (notePx, notePy, forkPx, forkPy))"
proof -
  have "Proof w1 = None" by (simp add: w1_def start_def)
  from split_view_is_convicted [where nets = "\<lambda>_. demoNet", OF mesh_fork this] show ?thesis
    by (auto simp: w1_def start_def meshConfig_def mesh_keys pushAll_def peer2_def)
qed

text \<open>After two polls the first demo witness serves the checkpoint it has cosigned.\<close>

lemma cosigned_latest:
  assumes "step js marshal s (Poll net nonce failure) s'" "Published s' \<noteq> Published s"
  shows "\<exists>r. Latest (Daemon s') = Some r \<and> Published s' = Published s @ [Body r]"
proof -
  from assms(1) obtain d disk where o: "once js marshal net nonce failure (Daemon s) (Disk s) = (d, disk)"
    and s': "s' = s\<lparr> Daemon := d, Disk := disk, Published := Published s @ cosignedBy js net nonce (Daemon s) \<rparr>"
    by (auto elim!: stepE)
  with assms(2) have "cosignedBy js net nonce (Daemon s) \<noteq> []" by simp
  then show ?thesis
    using o unfolding s'
    by (auto simp: cosignedBy_def once_def Let_def split: sum.splits prod.splits if_splits)
qed

lemma published_view_is_current_witness:
  "\<exists>s' w px py sig. run demoJson (\<lambda>_. []) demoStart [demoPoll, demoPoll] s' \<and>
     handleCosignature (Daemon s') = (200, CosignaturePayload w px py sig (string_of_bytes noteBody)) \<and>
     WSize (St (Daemon s')) = 2"
proof -
  obtain s1 s2 where s2: "run demoJson (\<lambda>_. []) demoStart [demoPoll, demoPoll] s2"
      "Published s2 = [noteBody] @ [noteBody]" "step demoJson (\<lambda>_. []) s1 demoPoll s2" "Published s1 = [noteBody]"
    using demo_two_polls by auto
  then obtain r where r: "Latest (Daemon s2) = Some r" "Published s2 = Published s1 @ [Body r]"
    using cosigned_latest unfolding demoPoll_def by force
  then have body: "Body r = noteBody" using s2(2,4) by simp
  have st: "Daemon demoStart = start demoConfig [] baseline" "list_all signing [demoPoll, demoPoll]"
    by (simp_all add: demoStart_def demoPoll_def)
  obtain w px py sig where h: "handleCosignature (Daemon s2) =
      (200, CosignaturePayload w px py sig (string_of_bytes noteBody))"
    using r(1) body by (simp add: handleCosignature_def Let_def)
  from published_view_is_current [OF s2(1) st] note_parse
  have "WSize (St (Daemon s2)) = 2" unfolding h by auto
  with s2(1) h show ?thesis by blast
qed

text \<open>The third witness is posted a genuine proof, and then the same proof with its halves swapped:
  it keeps one.\<close>

definition postedProof :: equivProof where
  "postedProof = \<lparr> ESchema = equivProofSchema,
     EA = \<lparr> EWitness = ''w1'', ECheckpointBody = string_of_bytes noteBody, ECosignature = hex_encode noteSig,
            EWitnessPubX = hex_encode notePx, EWitnessPubY = hex_encode notePy \<rparr>,
     EB = \<lparr> EWitness = ''w2'', ECheckpointBody = string_of_bytes forkBody, ECosignature = hex_encode forkSig,
            EWitnessPubX = hex_encode forkPx, EWitnessPubY = hex_encode forkPy \<rparr> \<rparr>"

definition swappedProof :: equivProof where
  "swappedProof = postedProof\<lparr> EA := EB postedProof, EB := EA postedProof \<rparr>"

definition w3System :: system where
  "w3System = \<lparr> Daemon = w3, Disk = FileMissing, Pending = None, Published = [] \<rparr>"

lemma posted_verified:
  assumes "pinnedKey d ''w1'' = Some (notePx, notePy)" "pinnedKey d ''w2'' = Some (forkPx, forkPy)"
    and "COrigin (Cfg d) = ''mlog''"
  shows "fst (verifyProof d postedProof)" "fst (verifyProof d swappedProof)"
  using assms note_signed fork_signed note_parse fork_parse fork_differs fork_differs [symmetric]
  by (simp_all add: verifyProof_def postedProof_def swappedProof_def VerifyEquivocation_def VerifyCheckpointSig_def)

lemma w3_pins: "pinnedKey w3 ''w1'' = Some (notePx, notePy)" "pinnedKey w3 ''w2'' = Some (forkPx, forkPy)"
    "COrigin (Cfg w3) = ''mlog''"
  by (simp_all add: pinnedKey_def w3_def start_def meshConfig_def peer1_def peer2_def)

lemma adopt_pins: "pinnedKey (fst (adopt p d)) name = pinnedKey d name"
  by (simp add: pinnedKey_def)

lemma forensic_set_bounded_witness:
  "\<exists>s'. run demoJson (\<lambda>_. []) w3System [Intake ''POST'' (Some postedProof)] s' \<and>
     Proofs (Daemon s') = [postedProof] \<and> fst (handleHealth (Daemon s')) = 503 \<and>
     (case handleEquivocationIntake ''POST'' (Some swappedProof) (Daemon s') of
        ((status, _), d', _) \<Rightarrow> status = 200 \<and> Proofs d' = [postedProof])"
proof -
  let ?s = "w3System\<lparr> Daemon := fst (adopt postedProof w3) \<rparr>" and ?d = "fst (adopt postedProof w3)"
  have adopted: "snd (handleEquivocationIntake ''POST'' (Some postedProof) w3) = adopt postedProof w3"
    using intake_verified [OF posted_verified(1) [OF w3_pins]] by simp
  have "step demoJson (\<lambda>_. []) w3System (Intake ''POST'' (Some postedProof)) ?s"
    using intake_step [of demoJson "\<lambda>_. []" w3System "''POST''" "Some postedProof"] adopted
    by (simp add: w3System_def)
  then have r: "run demoJson (\<lambda>_. []) w3System [Intake ''POST'' (Some postedProof)] ?s"
    by (rule run_single)
  have kept: "Proofs ?d = [postedProof]"
    using adopt_Proofs [of w3 postedProof] proofsInv_start
    by (simp add: w3_def start_def maxRetainedProofs_def)
  have pins: "pinnedKey ?d ''w1'' = Some (notePx, notePy)" "pinnedKey ?d ''w2'' = Some (forkPx, forkPy)"
      "COrigin (Cfg ?d) = ''mlog''"
    using w3_pins by (simp_all add: adopt_pins)
  obtain status why d' out where
    h: "handleEquivocationIntake ''POST'' (Some swappedProof) ?d = ((status, why), d', out)"
    by (metis prod.exhaust)
  then have ok: "status = 200" using intake_verified [OF posted_verified(2) [OF pins]] by simp
  have key: "proofKey swappedProof = proofKey postedProof"
    by (rule proofKey_bodies) (auto simp: swappedProof_def)
  have w3: "Pending w3System = None" "Daemon w3System = start (meshConfig ''w3'' 0 0) [peer1, peer2] baseline"
    by (simp_all add: w3System_def w3_def)
  from forensic_set_bounded [OF r w3, of swappedProof] kept ok h key
  have "fst (handleHealth ?d) = 503 \<and> Proofs d' = [postedProof]" by simp
  with r kept ok h show ?thesis by (intro exI [of _ ?s]) simp
qed

lemma mesh_wire: "\<forall>pf. Proof (fst (checkPeers meshJson (\<lambda>_. demoNet) w1)) = Some pf \<longrightarrow> Some pf = Some pf"
  by simp

lemma mesh_first: "InFlight demoMesh = []" "finite (dom (Nodes demoMesh))"
  by (simp_all add: mesh_dom) (simp add: demoMesh_def)

text \<open>The third witness is alarmed although nobody cross-checked with it.\<close>

lemma detected_fork_alarms_the_mesh_witness:
  "\<exists>es m' t. runs (flood Some) (afterCheck meshJson (\<lambda>_. demoNet) (PURL peer1) w1 demoMesh) es m' \<and>
     InFlight m' = [] \<and> Nodes m' (PURL peer3) = Some t \<and> fst (handleHealth t) = 503"
  using detected_fork_alarms_the_mesh [where nets = "\<lambda>_. demoNet",
      OF mesh_urls(1) mesh_first mesh_fork mesh_pins mesh_edges mesh_wire] mesh_path
  by blast

lemma flood_ends_witness:
  "\<exists>es m'. runs (flood Some) (afterCheck meshJson (\<lambda>_. demoNet) (PURL peer1) w1 demoMesh) es m' \<and>
     InFlight m' = [] \<and> length es \<le> length (InFlight (afterCheck meshJson (\<lambda>_. demoNet) (PURL peer1) w1 demoMesh)) + 5"
proof -
  define m0 where "m0 = afterCheck meshJson (\<lambda>_. demoNet) (PURL peer1) w1 demoMesh"
  have par: "parties m0 = parties demoMesh"
    unfolding m0_def by (rule afterCheck_parties [OF mesh_urls(1)])
  then have dom: "dom (Nodes m0) = {PURL peer1, PURL peer2, PURL peer3}"
    using mesh_dom by (simp add: parties_simps(1))
  have same: "\<exists>d. Nodes m0 v = Some d \<and> Peers d = Peers t" if "Nodes demoMesh v = Some t" for v t
    using fun_cong [OF par, of v] that by (auto simp: parties_def)
  have "length (Peers (the (Nodes m0 (PURL peer1)))) = 1" "length (Peers (the (Nodes m0 (PURL peer2)))) = 2"
      "length (Peers (the (Nodes m0 (PURL peer3)))) = 2"
    using same [OF mesh_urls(1)] same [OF mesh_urls(2)] same [OF mesh_urls(3)] by (auto simp: mesh_peers)
  then have sum: "(\<Sum>v\<in>dom (Nodes m0). length (Peers (the (Nodes m0 v)))) = 5"
    unfolding dom by (simp add: peer1_def peer2_def peer3_def)
  have inv: "meshInv Some m0"
    unfolding m0_def by (rule afterCheck_inv [where nets = "\<lambda>_. demoNet",
        OF mesh_urls(1) mesh_first(1) mesh_fork mesh_pins mesh_edges mesh_wire])
  have fin: "finite (dom (Nodes m0))" using dom by simp
  obtain es m' where r: "runs (flood Some) m0 es m'" "InFlight m' = []"
    by (rule lossless_rest [OF fin inv])
  with flood_ends [OF r(1) fin] sum show ?thesis
    unfolding m0_def [symmetric] by (intro exI [of _ es] exI [of _ m']) simp
qed

end
