(* ===== verification/Stale.thy ===== *)
theory Stale
  imports Gossip Logd
begin

text \<open>
  A cross-check against a log that has moved on. \<open>checkPeers\<close> asks the log for a consistency proof
  from its own size and checks it against the peer's size; the log answers for its current size. A
  proof fits one size only, so an honest peer between the two is taken for an equivocator.
\<close>

section \<open>A consistency proof fits one size\<close>

text \<open>The number of set bits: the left siblings on the path of a leaf.\<close>

fun popcount :: "nat \<Rightarrow> nat" where
  "popcount n = (if n = 0 then 0 else n mod 2 + popcount (n div 2))"

declare popcount.simps [simp del]

lemma popcount_even: "even n \<Longrightarrow> popcount n = popcount (n div 2)"
  by (cases "n = 0") (simp_all add: popcount.simps [of n])

lemma popcount_odd: "odd n \<Longrightarrow> popcount n = Suc (popcount (n div 2))"
  by (subst popcount.simps) (auto simp: odd_iff_mod_2_eq_one)

lemma shiftEven_same:
  "fn \<noteq> 0 \<Longrightarrow> \<exists>g. shiftEven fn fn = (g, g) \<and> odd g \<and> popcount g = popcount fn"
proof (induction fn rule: less_induct)
  case (less fn)
  show ?case
  proof (cases "even fn")
    case True
    then have "fn div 2 < fn" "fn div 2 \<noteq> 0" using less.prems by auto
    from less.IH [OF this] obtain g where
      "shiftEven (fn div 2) (fn div 2) = (g, g)" "odd g" "popcount g = popcount (fn div 2)" by blast
    then show ?thesis
      using True less.prems by (intro exI [of _ g]) (subst shiftEven.simps, simp add: popcount_even)
  next
    case False
    then show ?thesis by (intro exI [of _ fn]) (subst shiftEven.simps, simp)
  qed
qed

text \<open>With both numbers equal there are only left siblings to come; with the second one greater there
  is at least one right sibling more.\<close>

lemma consLoop_same_length:
  "consLoop ps fn fn fr sr = Some (0, fr', sr') \<Longrightarrow> length ps = popcount fn"
proof (induction ps arbitrary: fn fr sr)
  case Nil
  then show ?case by (simp add: popcount.simps)
next
  case (Cons c ps)
  then have "fn \<noteq> 0" by (auto split: if_splits)
  then obtain g where g: "shiftEven fn fn = (g, g)" "odd g" "popcount g = popcount fn"
    using shiftEven_same by blast
  with Cons.prems \<open>fn \<noteq> 0\<close>
  have "consLoop ps (g div 2) (g div 2) (hashNode c fr) (hashNode c sr) = Some (0, fr', sr')" by simp
  from Cons.IH [OF this] g show ?case by (simp add: popcount_odd)
qed

lemma half_less: "odd fn \<Longrightarrow> fn < sn \<Longrightarrow> fn div 2 < (sn :: nat) div 2"
  by presburger

lemma half_le: "fn < sn \<Longrightarrow> fn div 2 \<le> (sn :: nat) div 2"
  by simp

lemma consLoop_less_length:
  "consLoop ps fn sn fr sr = Some (0, fr', sr') \<Longrightarrow> fn < sn \<Longrightarrow> popcount fn < length ps"
proof (induction ps arbitrary: fn sn fr sr)
  case (Cons c ps)
  show ?case
  proof (cases "odd fn")
    case True
    then have "consLoop ps (fn div 2) (sn div 2) (hashNode c fr) (hashNode c sr) = Some (0, fr', sr')"
      using Cons.prems by (simp add: shiftEven_odd)
    from Cons.IH [OF this half_less [OF True Cons.prems(2)]] True show ?thesis by (simp add: popcount_odd)
  next
    case False
    then have run: "consLoop ps (fn div 2) (sn div 2) fr (hashNode sr c) = Some (0, fr', sr')"
      using Cons.prems by simp
    have "popcount (fn div 2) \<le> length ps"
    proof (cases "fn div 2 = sn div 2")
      case True
      then show ?thesis using consLoop_same_length run by simp
    next
      case less: False
      then have "fn div 2 < sn div 2" using half_le [OF Cons.prems(2)] by simp
      from Cons.IH [OF run this] show ?thesis by simp
    qed
    with False show ?thesis by (simp add: popcount_even)
  qed
qed simp

lemma consLoop_one_root:
  "consLoop ps fn sn fr sr = Some (0, fr1, sr1) \<Longrightarrow> consLoop ps fn tn fr sr = Some (0, fr2, sr2) \<Longrightarrow>
   fn < sn \<Longrightarrow> fn < tn \<Longrightarrow> sr1 = sr2"
proof (induction ps arbitrary: fn sn tn fr sr)
  case (Cons c ps)
  show ?case
  proof (cases "odd fn")
    case True
    then show ?thesis
      using Cons.prems Cons.IH [of "fn div 2" "sn div 2" "hashNode c fr" "hashNode c sr" "tn div 2"]
        half_less by (simp add: shiftEven_odd)
  next
    case False
    then have runs: "consLoop ps (fn div 2) (sn div 2) fr (hashNode sr c) = Some (0, fr1, sr1)"
        "consLoop ps (fn div 2) (tn div 2) fr (hashNode sr c) = Some (0, fr2, sr2)"
      using Cons.prems by simp_all
    have le: "fn div 2 \<le> sn div 2" "fn div 2 \<le> tn div 2"
      using half_le Cons.prems(3,4) by simp_all
    consider "fn div 2 < sn div 2" "fn div 2 < tn div 2" | "fn div 2 = sn div 2" "fn div 2 = tn div 2"
      | "fn div 2 = sn div 2" "fn div 2 < tn div 2" | "fn div 2 < sn div 2" "fn div 2 = tn div 2"
      using le by linarith
    then show ?thesis
    proof cases
      case 1
      then show ?thesis using Cons.IH runs by blast
    next
      case 2
      then show ?thesis using runs by simp
    next
      case 3
      then show ?thesis
        using consLoop_same_length [OF runs(1) [folded 3(1)]] consLoop_less_length [OF runs(2) 3(2)] by simp
    next
      case 4
      then show ?thesis
        using consLoop_same_length [OF runs(2) [folded 4(2)]] consLoop_less_length [OF runs(1) 4(1)] by simp
    qed
  qed
qed simp

lemma shiftOdd_less:
  "fn < sn \<Longrightarrow> fn < tn \<Longrightarrow> \<exists>f s t. shiftOdd fn sn = (f, s) \<and> shiftOdd fn tn = (f, t) \<and> f < s \<and> f < t"
proof (induction fn sn arbitrary: tn rule: shiftOdd.induct)
  case (1 fn sn)
  show ?case
  proof (cases "odd fn")
    case True
    with 1 half_less obtain f s t where "shiftOdd (fn div 2) (sn div 2) = (f, s)"
        "shiftOdd (fn div 2) (tn div 2) = (f, t)" "f < s" "f < t"
      by meson
    with True show ?thesis by (simp add: shiftOdd.simps [of fn])
  next
    case False
    then show ?thesis using 1(2,3) by (simp add: shiftOdd.simps [of fn])
  qed
qed

lemma VerifyConsistency_root:
  assumes "VerifyConsistency (int m) (int n) ps old new" "0 < m" "m < n" "shiftOdd (m - 1) (n - 1) = (f, s)"
  obtains c cs where "consLoop cs f s c c = Some (0, old, new)"
    "(c, cs) = (if f = 0 then (old, ps) else (hd ps, tl ps))"
proof -
  have "nat (int i - 1) = i - 1" for i by simp
  then show thesis
    using assms that [of "tl ps" "hd ps"] that [of ps old]
    by (cases ps) (auto simp: VerifyConsistency_def split: if_splits option.splits)
qed

lemma proof_fits_one_size:
  assumes "VerifyConsistency (int m) (int n) ps old r1" "VerifyConsistency (int m) (int k) ps old r2"
    and "0 < m" "m < n" "m < k"
  shows "r1 = r2"
proof -
  have "m - 1 < n - 1" "m - 1 < k - 1" using assms(3-5) by linarith+
  from shiftOdd_less [OF this] obtain f s t where
    f: "shiftOdd (m - 1) (n - 1) = (f, s)" "shiftOdd (m - 1) (k - 1) = (f, t)" "f < s" "f < t" by blast
  obtain c cs where c: "consLoop cs f s c c = Some (0, old, r1)"
      "(c, cs) = (if f = 0 then (old, ps) else (hd ps, tl ps))"
    by (rule VerifyConsistency_root [OF assms(1,3,4) f(1)])
  obtain c' cs' where c': "consLoop cs' f t c' c' = Some (0, old, r2)"
      "(c', cs') = (if f = 0 then (old, ps) else (hd ps, tl ps))"
    by (rule VerifyConsistency_root [OF assms(2,3,5) f(2)])
  from c(2) c'(2) have "c' = c" "cs' = cs" by (simp_all split: if_splits)
  with consLoop_one_root [OF c(1) _ f(3,4)] c'(1) show ?thesis by simp
qed

section \<open>The alarm\<close>

lemma honest_view: "hexRoot (WRoot (St d)) = Some root \<Longrightarrow> WSize (St d) = int m \<Longrightarrow>
    readView d = \<lparr> HasView = True, OurSize = int m, OurRoot = root \<rparr>"
  by (auto simp: readView_def Let_def)

text \<open>The answer of the log's server to the cross-check of a witness whose view has size \<open>m\<close>.\<close>

lemma log_answers:
  assumes "net (CLogURL cfg @ ''/consistency?from='' @ dec_int (int m)) =
      logdNetwork wire sign (Inr l) origin key (CLogURL cfg)
        (CLogURL cfg @ ''/consistency?from='' @ dec_int (int m))"
    and "delivered js wire (consistencyHandler (Inr l) (dec_int (int m)))"
    and "m \<le> Size l" "int (Size l) < 2 ^ 63"
  obtains ps where "ConsistencyProof l (int m) = Inr ps"
    "getJSON net (toConsistency js) (CLogURL cfg @ ''/consistency?from='' @ dec_int (int m)) =
       Inr \<lparr> CRNewSize = int (Size l), CRNewRoot = hex_encode (Root l), CRProof = map hex_encode ps \<rparr>"
proof -
  obtain ps where ps: "ConsistencyProof l (int m) = Inr ps" and
    r: "consistencyHandler (Inr l) (dec_int (int m)) = ConsistencyReply \<lparr> SvFrom = int m,
       SvNewSize = int (Size l), SvNewRoot = hex_encode (Root l), SvProof = map hex_encode ps \<rparr>"
    using consistencyHandler_serves [of "int m" l] assms(3,4) by auto
  have "getJSON net (toConsistency js) (CLogURL cfg @ ''/consistency?from='' @ dec_int (int m)) =
      Inr \<lparr> CRNewSize = int (Size l), CRNewRoot = hex_encode (Root l), CRProof = map hex_encode ps \<rparr>"
    using assms(2) unfolding getJSON_def assms(1) logdNetwork_consistency r
    by (simp add: delivered_def replyStatus_def Let_def)
  with ps show thesis by (rule that)
qed

text \<open>A peer that publishes a tree of size \<open>n\<close> between our size and the log's.\<close>

lemma scanPeer_stale:
  assumes "answersFor js net p e" "publishes e r' (mth (take n (Leaves l)))" "WSize (St e) = int n"
    and "COrigin (Cfg e) = COrigin cfg" "VerifyCheckpointSig (Body r') (CoSig (Cosig r')) (PX p) (PY p)"
    and "getJSON net (toConsistency js) (CLogURL cfg @ ''/consistency?from='' @ dec_int (int m)) =
       Inr \<lparr> CRNewSize = int (Size l), CRNewRoot = hex_encode (Root l), CRProof = map hex_encode ps \<rparr>"
    and "ConsistencyProof l (int m) = Inr ps" "0 < m" "m < n" "n < Size l"
    and "mth (take n (Leaves l)) \<noteq> Root l"
  shows "AnyEquiv (scanPeer js net cfg \<lparr> HasView = True, OurSize = int m, OurRoot = mth (take m (Leaves l)) \<rparr> p acc)"
proof -
  define c where "c = Cosig r'"
  have peer: "getJSON net (toPeerCosig js) (PURL p @ ''/cosignature'') =
      Inr \<lparr> PRWitness = CoWitness c, PRWitnessPubX = hex_encode (CoPubX c),
        PRWitnessPubY = hex_encode (CoPubY c), PRCosignature = hex_encode (CoSig c),
        PRCheckpointBody = string_of_bytes (Body r') \<rparr>"
    using assms(1,2) by (simp add: answersFor_def handleCosignature_def publishes_def c_def Let_def)
  have parse: "ParseCheckpoint (Body r') = Inr (COrigin cfg, int n, mth (take n (Leaves l)))"
    using assms(2-4) by (simp add: publishes_def)
  have ne: "Leaves l \<noteq> []" using assms(10) by (auto simp: Size_def)
  have full: "VerifyConsistency (int m) (int (Size l)) ps (mth (take m (Leaves l))) (Root l)"
    using consistency_complete [OF assms(7) ne] by simp
  have "\<not> VerifyConsistency (int m) (int n) ps (mth (take m (Leaves l))) (mth (take n (Leaves l)))"
  proof
    assume "VerifyConsistency (int m) (int n) ps (mth (take m (Leaves l))) (mth (take n (Leaves l)))"
    from proof_fits_one_size [OF this full assms(8,9)] assms(9-11) show False by simp
  qed
  moreover have "decodeProof (map hex_encode ps) = Some ps"
    using proof_digests [OF assms(7)] by (rule decodeProof_hex)
  ultimately show ?thesis
    using assms(5,6,9) parse by (simp add: scanPeer_def peer c_def Let_def crossCheck_def)
qed

lemma scan_alarm:
  assumes "p \<in> set ps" and "\<And>acc. AnyEquiv (scanPeer js (nets (PName p)) cfg v p acc)"
  shows "AnyEquiv (fold (\<lambda>p. scanPeer js (nets (PName p)) cfg v p) ps acc)"
  using assms(1)
proof (induction ps arbitrary: acc)
  case (Cons q ps)
  then show ?case using scan_keeps(1) [where nets = nets] assms(2) by (cases "q = p") auto
qed simp

lemma extends_prefix:
  assumes "0 < m" "m < n" "n \<le> length leaves"
  shows "\<exists>ps. ConsistencyProof \<lparr> Leaves = take n leaves \<rparr> (int m) = Inr ps \<and>
     VerifyConsistency (int m) (int n) ps (mth (take m leaves)) (mth (take n leaves))"
proof -
  obtain ps where ps: "ConsistencyProof \<lparr> Leaves = take n leaves \<rparr> (int m) = Inr ps"
    using assms by (simp add: ConsistencyProof_def)
  have "take n leaves \<noteq> []" using assms by auto
  with consistency_complete [OF ps] have
    "VerifyConsistency (int m) (int n) ps (mth (take m (take n leaves))) (mth (take n leaves))"
    using assms(3) by (simp add: Size_def Root_def)
  with ps assms(2) show ?thesis by (simp add: min_def)
qed

text \<open>C22: A false alarm among honest parties. Our view is the log's tree of size \<open>m\<close>, not 0; a
  pinned peer publishes, validly cosigned, the same log's tree of a larger size \<open>n\<close>; and the log
  itself, served by he-logd, has grown past \<open>n\<close> to a tree with another root. Although the peer's
  tree extends ours, and a consistency proof for its size exists and verifies, one cross-check
  latches the equivocation alarm and the health check reports 503: the proof \<open>checkPeers\<close> fetches
  is for the log's current size, and its \<open>new_size\<close> is not looked at.\<close>

theorem stale_proof_latches_alarm:
  assumes "WSize (St d) = int m" "hexRoot (WRoot (St d)) = Some (mth (take m (Leaves l)))"
    and "p \<in> set (Peers d)" "answersFor js (nets (PName p)) p e" "COrigin (Cfg e) = COrigin (Cfg d)"
    and "publishes e r (mth (take n (Leaves l)))" "WSize (St e) = int n"
    and "VerifyCheckpointSig (Body r) (CoSig (Cosig r)) (PX p) (PY p)"
    and "nets (PName p) (CLogURL (Cfg d) @ ''/consistency?from='' @ dec_int (int m)) =
      logdNetwork wire sign (Inr l) origin key (CLogURL (Cfg d))
        (CLogURL (Cfg d) @ ''/consistency?from='' @ dec_int (int m))"
    and "delivered js wire (consistencyHandler (Inr l) (dec_int (int m)))"
    and "0 < m" "m < n" "n < Size l" "int (Size l) < 2 ^ 63" "mth (take n (Leaves l)) \<noteq> Root l"
  shows "Equivoc (fst (checkPeers js nets d)) \<and> fst (handleHealth (fst (checkPeers js nets d))) = 503 \<and>
    (\<exists>ps. ConsistencyProof \<lparr> Leaves = take n (Leaves l) \<rparr> (int m) = Inr ps \<and>
       VerifyConsistency (int m) (int n) ps (mth (take m (Leaves l))) (mth (take n (Leaves l))))"
proof -
  have "m \<le> Size l" using assms(12,13) by simp
  then obtain ps where ps: "ConsistencyProof l (int m) = Inr ps"
    "getJSON (nets (PName p)) (toConsistency js) (CLogURL (Cfg d) @ ''/consistency?from='' @ dec_int (int m)) =
       Inr \<lparr> CRNewSize = int (Size l), CRNewRoot = hex_encode (Root l), CRProof = map hex_encode ps \<rparr>"
    by (rule log_answers [where net = "nets (PName p)" and cfg = "Cfg d", OF assms(9,10) _ assms(14)])
  have "AnyEquiv (scanPeers js nets (Cfg d) (readView d) (Peers d))"
    unfolding scanPeers_def honest_view [OF assms(2,1)]
    using scanPeer_stale [OF assms(4,6,7,5,8) ps(2,1) assms(11-13,15)]
    by (intro scan_alarm [where nets = nets, OF assms(3)]) simp
  then have "Equivoc (fst (checkPeers js nets d))"
    using assms(3) by (auto simp: checkPeers_def)
  moreover have "n \<le> length (Leaves l)" using assms(13) by (simp add: Size_def)
  ultimately show ?thesis
    using extends_prefix [OF assms(11,12)] by (simp add: handleHealth_def Let_def)
qed

end
