(* ===== verification/Stale_Demo.thy ===== *)
theory Stale_Demo
  imports Stale Flood_Demo
begin

text \<open>
  Three honest parties and a false alarm: a witness with the view of size 1, the first witness of
  \<open>Flood_Demo\<close>, which publishes the tree of size 2, and the log, which has three entries by now. The
  digest of the third tree is computed in the kernel.
\<close>

definition staleNode :: bytes where
  "staleNode = [1, 107, 207, 14, 46, 147, 224, 161, 142, 34, 120, 154, 238, 150, 94, 101, 83, 244, 251,
      233, 63, 10, 207, 196, 167, 5, 214, 145, 200, 49, 28, 73, 101, 180, 19, 244, 125, 19, 238,
      47, 230, 200, 69, 178, 238, 20, 26, 248, 29, 232, 88, 223, 78, 197, 73, 165, 139, 121,
      112, 187, 150, 100, 91, 200, 210]"

lemma stale_sha: "sha256 staleNode =
     [70, 217, 104, 1, 52, 192, 146, 127, 237, 102, 141, 40, 177, 115, 171, 94, 90, 72, 209,
      217, 114, 142, 186, 150, 66, 141, 71, 146, 175, 7, 200, 26]"
proof -
  have pad: "sha_pad [1, 107, 207, 14, 46, 147, 224, 161, 142, 34, 120, 154, 238, 150, 94, 101, 83, 244, 251,
      233, 63, 10, 207, 196, 167, 5, 214, 145, 200, 49, 28, 73, 101, 180, 19, 244, 125, 19, 238,
      47, 230, 200, 69, 178, 238, 20, 26, 248, 29, 232, 88, 223, 78, 197, 73, 165, 139, 121,
      112, 187, 150, 100, 91, 200, 210] =
      [1, 107, 207, 14, 46, 147, 224, 161, 142, 34, 120, 154, 238, 150, 94, 101, 83, 244, 251,
      233, 63, 10, 207, 196, 167, 5, 214, 145, 200, 49, 28, 73, 101, 180, 19, 244, 125, 19, 238,
      47, 230, 200, 69, 178, 238, 20, 26, 248, 29, 232, 88, 223, 78, 197, 73, 165, 139, 121,
      112, 187, 150, 100, 91, 200, 210, 128, 0, 0, 0, 0, 0, 0, 0, 0, 0, 0, 0, 0, 0, 0, 0, 0, 0,
      0, 0, 0, 0, 0, 0, 0, 0, 0, 0, 0, 0, 0, 0, 0, 0, 0, 0, 0, 0, 0, 0, 0, 0, 0, 0, 0, 0, 0, 0,
      0, 0, 0, 0, 0, 0, 0, 0, 0, 0, 0, 0, 0, 2, 8]"
    by (simp add: sha_pad_simps)
  show ?thesis
    by (simp only: staleNode_def sha256_bits pad, simp only: sha_bit_simps) (simp add: byte_of_bits_value)
qed

definition staleLog :: MerkleLog where
  "staleLog = \<lparr> Leaves = [[1], [2], [1]] \<rparr>"

lemma stale_takes: "take 1 (Leaves staleLog) = [[1]]" "take 2 (Leaves staleLog) = demoLog" "Size staleLog = 3"
  by (simp_all add: staleLog_def demoLog_def Size_def numeral_2_eq_2)

lemma stale_root: "Root staleLog = hashNode (mth demoLog) (hashLeaf [1])"
proof -
  have "largestPow2Below (Suc (Suc (Suc 0))) = 2"
    by (simp add: largestPow2Below_def pow2Loop.simps)
  then show ?thesis
    by (simp add: Root_def staleLog_def mth.simps [of "[[1], [2], [1]]"] mth.simps [of "[[1]]"] demoLog_def)
qed

lemma stale_differs: "mth demoLog \<noteq> Root staleLog"
proof -
  have "1 # mth demoLog @ hashLeaf [1] = staleNode"
    by (simp add: demo_root_bytes demo_hashes staleNode_def)
  then have "Root staleLog = sha256 staleNode" by (simp add: stale_root hashNode_def)
  then show ?thesis unfolding demo_root_bytes stale_sha by simp
qed

definition staleJson :: json_decoders where
  "staleJson = demoJson\<lparr>
     toPeerCosig := (\<lambda>_. Some \<lparr> PRWitness = ''w1'', PRWitnessPubX = hex_encode notePx,
       PRWitnessPubY = hex_encode notePy, PRCosignature = hex_encode noteSig,
       PRCheckpointBody = string_of_bytes noteBody \<rparr>),
     toConsistency := (\<lambda>_. case consistencyHandler (Inr staleLog) (dec_int 1) of
       ConsistencyReply c \<Rightarrow> Some \<lparr> CRNewSize = SvNewSize c, CRNewRoot = SvNewRoot c, CRProof = SvProof c \<rparr>
     | _ \<Rightarrow> None) \<rparr>"

definition staleURL :: string where
  "staleURL = ''http://log/consistency?from='' @ dec_int 1"

definition staleNet :: network where
  "staleNet url = (if url = staleURL
     then logdNetwork (\<lambda>_. []) (\<lambda>_ _ _. None) (Inr staleLog) ''mlog'' (CKey demoConfig) ''http://log'' url
     else Response 200 [])"

definition w0 :: daemon where
  "w0 = start (meshConfig ''w0'' 0 0) [peer1] \<lparr> WOrigin = ''mlog'', WSize = 1, WRoot = hex_encode (mth [[1]]) \<rparr>"

lemma stale_delivered: "delivered staleJson (\<lambda>_. []) (consistencyHandler (Inr staleLog) (dec_int (int 1)))"
proof -
  obtain ps where "consistencyHandler (Inr staleLog) (dec_int (int 1)) = ConsistencyReply
      \<lparr> SvFrom = int 1, SvNewSize = int (Size staleLog), SvNewRoot = hex_encode (Root staleLog),
        SvProof = map hex_encode ps \<rparr>"
    by (rule consistencyHandler_serves [of "int 1" staleLog]) (simp_all add: stale_takes)
  then show ?thesis by (simp add: delivered_def staleJson_def)
qed

lemma peer_not_stale: "PURL peer1 @ ''/cosignature'' \<noteq> staleURL"
  by (simp add: peer1_def staleURL_def)

lemma stale_answers: "answersFor staleJson staleNet peer1 w1"
  using peer_not_stale
  by (simp add: answersFor_def handleCosignature_def w1_def shown_def getJSON_def staleNet_def staleJson_def Let_def)

lemma stale_proof_latches_alarm_witness:
  "Equivoc (fst (checkPeers staleJson (\<lambda>_. staleNet) w0)) \<and>
   fst (handleHealth (fst (checkPeers staleJson (\<lambda>_. staleNet) w0))) = 503"
proof -
  have view: "WSize (St w0) = int 1" "hexRoot (WRoot (St w0)) = Some (mth (take 1 (Leaves staleLog)))"
      "peer1 \<in> set (Peers w0)"
    by (simp_all add: w0_def start_def staleLog_def)
  have peer: "COrigin (Cfg w1) = COrigin (Cfg w0)" "WSize (St w1) = int 2"
      "publishes w1 (shown ''w1'' notePx notePy noteBody noteSig) (mth (take 2 (Leaves staleLog)))"
      "VerifyCheckpointSig (Body (shown ''w1'' notePx notePy noteBody noteSig))
         (CoSig (Cosig (shown ''w1'' notePx notePy noteBody noteSig))) (PX peer1) (PY peer1)"
    using mesh_publishes(1) note_signed
    by (simp_all add: w0_def w1_def start_def meshConfig_def stale_takes shown_def peer1_def VerifyCheckpointSig_def)
  have net: "staleNet (CLogURL (Cfg w0) @ ''/consistency?from='' @ dec_int (int 1)) =
      logdNetwork (\<lambda>_. []) (\<lambda>_ _ _. None) (Inr staleLog) ''mlog'' (CKey demoConfig) (CLogURL (Cfg w0))
        (CLogURL (Cfg w0) @ ''/consistency?from='' @ dec_int (int 1))"
    by (simp add: staleNet_def staleURL_def w0_def start_def meshConfig_def)
  have sizes: "(0 :: nat) < 1" "(1 :: nat) < 2" "2 < Size staleLog" "int (Size staleLog) < 2 ^ 63"
      "mth (take 2 (Leaves staleLog)) \<noteq> Root staleLog"
    using stale_differs by (simp_all add: stale_takes)
  from stale_proof_latches_alarm [where nets = "\<lambda>_. staleNet",
      OF view stale_answers peer(1,3,2,4) net stale_delivered sizes]
  show ?thesis by blast
qed

end
