(* ===== verification/Flags.thy ===== *)
theory Flags
  imports GoStd
begin

text \<open>
  The package \<open>flag\<close> as the mains use it: a table of the flags a command defines, each with what its
  value is stored into, and \<open>flag.Parse\<close> over the arguments. Parsing stops at the first argument that is
  not a flag. \<open>strconv.ParseInt\<close>, \<open>ParseUint\<close> (base 0) and \<open>ParseBool\<close> read the values.
\<close>

section \<open>Numbers and booleans\<close>

text \<open>\<open>lower\<close>: the code of a character, a letter taken as the small one.\<close>

definition lowerCode :: "char \<Rightarrow> nat" where
  "lowerCode c = (let n = of_char c in if 65 \<le> n \<and> n \<le> 90 then n + 32 else n)"

definition baseDigit :: "nat \<Rightarrow> char \<Rightarrow> nat option" where
  "baseDigit base c =
     (let l = lowerCode c;
          d = (if 48 \<le> l \<and> l \<le> 57 then Some (l - 48) else if 97 \<le> l \<and> l \<le> 122 then Some (l - 87) else None)
      in case d of None \<Rightarrow> None | Some v \<Rightarrow> if v < base then Some v else None)"

text \<open>The base a prefix announces, and the digits after it.\<close>

definition basePrefix :: "string \<Rightarrow> nat \<times> string" where
  "basePrefix s =
     (if s \<noteq> [] \<and> hd s = CHR ''0'' then
        (let c = lowerCode (hd (tl s)) in
         if 3 \<le> length s \<and> c = of_char CHR ''b'' then (2, drop 2 s)
         else if 3 \<le> length s \<and> c = of_char CHR ''o'' then (8, drop 2 s)
         else if 3 \<le> length s \<and> c = of_char CHR ''x'' then (16, drop 2 s)
         else (8, drop 1 s))
      else (10, s))"

fun baseDigits :: "nat \<Rightarrow> nat \<Rightarrow> string \<Rightarrow> nat option" where
  "baseDigits base acc [] = Some acc"
| "baseDigits base acc (c # cs) =
     (if c = CHR ''_'' then baseDigits base acc cs
      else case baseDigit base c of None \<Rightarrow> None | Some d \<Rightarrow> baseDigits base (acc * base + d) cs)"

text \<open>\<open>underscoreOK\<close> of the digits \<open>baseDigits\<close> has read: an underscore follows a digit, or the prefix, and a
  digit follows it. \<open>afterDigit\<close> says whether the last character was a digit.\<close>

fun underscoreOK :: "bool \<Rightarrow> string \<Rightarrow> bool" where
  "underscoreOK afterDigit [] \<longleftrightarrow> True"
| "underscoreOK afterDigit [c] \<longleftrightarrow> c \<noteq> CHR ''_''"
| "underscoreOK afterDigit (c # cs) \<longleftrightarrow>
     (if c = CHR ''_'' then afterDigit \<and> underscoreOK False cs else underscoreOK True cs)"

definition parseUint0 :: "string \<Rightarrow> nat option" where
  "parseUint0 s =
     (let (base, digits) = basePrefix s in
      if s = [] then None
      else if CHR ''_'' \<in> set s \<and> \<not> underscoreOK (base \<noteq> 10) digits then None
      else case baseDigits base 0 digits of None \<Rightarrow> None | Some v \<Rightarrow> if v < 2 ^ 64 then Some v else None)"

definition flagUint64 :: "string \<Rightarrow> u64 option" where
  "flagUint64 s = map_option of_nat (parseUint0 s)"

definition flagInt :: "string \<Rightarrow> int option" where
  "flagInt s =
     (let neg = (s \<noteq> [] \<and> hd s = CHR ''-'');
          digits = (if s \<noteq> [] \<and> (hd s = CHR ''-'' \<or> hd s = CHR ''+'') then tl s else s) in
      case parseUint0 digits of
        None \<Rightarrow> None
      | Some v \<Rightarrow>
          if neg then (if v \<le> 2 ^ 63 then Some (- int v) else None)
          else (if v < 2 ^ 63 then Some (int v) else None))"

definition flagBool :: "string \<Rightarrow> bool option" where
  "flagBool s =
     (if s \<in> {''1'', ''t'', ''T'', ''TRUE'', ''true'', ''True''} then Some True
      else if s \<in> {''0'', ''f'', ''F'', ''FALSE'', ''false'', ''False''} then Some False else None)"

text \<open>A counter printed in decimal is read back by a flag.\<close>

lemma digit_char_code: "d < 10 \<Longrightarrow> of_char (digit_char d) = (48 + d :: nat)"
  by (simp add: digit_char_def)

lemma baseDigit_digit: "d < 10 \<Longrightarrow> baseDigit 10 (digit_char d) = Some d"
  by (simp add: baseDigit_def lowerCode_def digit_char_code)

lemma digit_char_not: "d < 10 \<Longrightarrow> digit_char d \<noteq> CHR ''_''"
  using digit_char_code [of d] by auto

lemma digit_char_zero: "d < 10 \<Longrightarrow> digit_char d = CHR ''0'' \<longleftrightarrow> d = 0"
  using digit_char_code [of d] by (auto dest: arg_cong [of _ _ "of_char :: char \<Rightarrow> nat"] simp: digit_char_def char_of_eq_iff take_bit_eq_mod)

lemma dec_0: "dec 0 = ''0''"
  by (subst dec.simps) (simp add: digit_char_zero)

lemma baseDigits_append:
  "baseDigits b acc (s @ t) = (case baseDigits b acc s of None \<Rightarrow> None | Some v \<Rightarrow> baseDigits b v t)"
  by (induction s arbitrary: acc) (auto split: option.splits)

lemma baseDigits_dec: "baseDigits 10 0 (dec n) = Some n"
proof (induction n rule: dec.induct)
  case (1 n)
  show ?case
    using 1 digit_char_not [of "n mod 10"] digit_char_not [of n]
    by (subst dec.simps) (simp add: baseDigits_append baseDigit_digit)
qed

lemma dec_head: "0 < n \<Longrightarrow> hd (dec n) \<noteq> CHR ''0''"
proof (induction n rule: dec.induct)
  case (1 n)
  then show ?case by (subst dec.simps) (simp add: digit_char_zero div_greater_zero_iff)
qed

lemma flagUint64_dec: "flagUint64 (dec (unat v)) = Some v"
proof (cases "v = 0")
  case True
  then show ?thesis by (simp add: flagUint64_def parseUint0_def basePrefix_def dec_0)
next
  case False
  have "CHR ''_'' \<notin> set (dec (unat v))"
    using set_dec [of "CHR ''_''" "unat v"] digit_char_not by metis
  moreover have "unat v < 2 ^ 64" using unsigned_less [of v] by simp
  moreover have "0 < unat v" using False by (simp add: unat_gt_0)
  ultimately show ?thesis
    using dec_head [of "unat v"] by (simp add: flagUint64_def parseUint0_def basePrefix_def baseDigits_dec)
qed

section \<open>flag.Parse\<close>

text \<open>What the value of a flag is stored into: a variable of one of the types of the package, or, for
  \<open>flag.Var\<close>, whatever \<open>Set\<close> makes of it, None being its error. \<open>'f\<close> is the record of the variables.\<close>

datatype 'f flagKind =
    BoolFlag "bool \<Rightarrow> 'f \<Rightarrow> 'f"
  | StringFlag "string \<Rightarrow> 'f \<Rightarrow> 'f"
  | IntFlag "int \<Rightarrow> 'f \<Rightarrow> 'f"
  | Uint64Flag "u64 \<Rightarrow> 'f \<Rightarrow> 'f"
  | VarFlag "string \<Rightarrow> 'f \<Rightarrow> 'f option"

type_synonym 'f flagTable = "string \<rightharpoonup> 'f flagKind"

datatype flagError =
    HelpAsked
  | BadFlagSyntax string
  | FlagNotDefined string
  | NeedsArgument string
  | InvalidFlagValue string string

text \<open>How \<open>parseOne\<close> takes an argument: as the end of the flags, as the terminator, or as a flag with or
  without a value of its own.\<close>

datatype flagToken = Positional | Terminator | Malformed | Named string "string option"

definition splitEq :: "string \<Rightarrow> string \<times> string option" where
  "splitEq name =
     (let k = hd name # takeWhile (\<lambda>c. c \<noteq> CHR ''='') (tl name) in
      (k, if length k < length name then Some (drop (length k + 1) name) else None))"

definition flagToken :: "string \<Rightarrow> flagToken" where
  "flagToken s =
     (if length s < 2 \<or> hd s \<noteq> CHR ''-'' then Positional
      else if s = ''--'' then Terminator
      else
        let name = (if s ! 1 = CHR ''-'' then drop 2 s else drop 1 s) in
        if name = [] \<or> hd name = CHR ''-'' \<or> hd name = CHR ''='' then Malformed
        else (let (k, v) = splitEq name in Named k v))"

definition storeFlag :: "'f flagKind \<Rightarrow> string \<Rightarrow> 'f \<Rightarrow> 'f option" where
  "storeFlag kind v f =
     (case kind of
        BoolFlag put \<Rightarrow> map_option (\<lambda>b. put b f) (flagBool v)
      | StringFlag put \<Rightarrow> Some (put v f)
      | IntFlag put \<Rightarrow> map_option (\<lambda>i. put i f) (flagInt v)
      | Uint64Flag put \<Rightarrow> map_option (\<lambda>w. put w f) (flagUint64 v)
      | VarFlag put \<Rightarrow> put v f)"

definition isBoolKind :: "'f flagKind \<Rightarrow> bool" where
  "isBoolKind kind = (case kind of BoolFlag _ \<Rightarrow> True | _ \<Rightarrow> False)"

datatype 'f parsedOne = NoMoreFlags "string list" | FlagFails flagError | FlagStored 'f "string list"

definition storeWith :: "string \<Rightarrow> 'f flagKind \<Rightarrow> string \<Rightarrow> 'f \<Rightarrow> string list \<Rightarrow> 'f parsedOne" where
  "storeWith name kind v f args =
     (case storeFlag kind v f of None \<Rightarrow> FlagFails (InvalidFlagValue name v) | Some f' \<Rightarrow> FlagStored f' args)"

definition parseOne :: "'f flagTable \<Rightarrow> 'f \<Rightarrow> string \<Rightarrow> string list \<Rightarrow> 'f parsedOne" where
  "parseOne table f s args =
     (case flagToken s of
        Positional \<Rightarrow> NoMoreFlags (s # args)
      | Terminator \<Rightarrow> NoMoreFlags args
      | Malformed \<Rightarrow> FlagFails (BadFlagSyntax s)
      | Named name value \<Rightarrow>
          (case table name of
             None \<Rightarrow> FlagFails (if name = ''help'' \<or> name = ''h'' then HelpAsked else FlagNotDefined name)
           | Some kind \<Rightarrow>
               (case value of
                  Some v \<Rightarrow> storeWith name kind v f args
                | None \<Rightarrow>
                    if isBoolKind kind then storeWith name kind ''true'' f args
                    else
                      (case args of
                         [] \<Rightarrow> FlagFails (NeedsArgument name)
                       | v # rest \<Rightarrow> storeWith name kind v f rest))))"

lemma storeWith_FlagStored:
  "storeWith name kind v f args = FlagStored f' rest \<longleftrightarrow> storeFlag kind v f = Some f' \<and> rest = args"
  by (auto simp: storeWith_def split: option.splits)

lemma parseOne_stored:
  "parseOne table f s args = FlagStored f' rest \<longleftrightarrow>
     (\<exists>name value kind v. flagToken s = Named name value \<and> table name = Some kind \<and> storeFlag kind v f = Some f' \<and>
        (value = Some v \<and> rest = args \<or>
         value = None \<and> isBoolKind kind \<and> v = ''true'' \<and> rest = args \<or>
         value = None \<and> \<not> isBoolKind kind \<and> args = v # rest))"
  by (auto simp: parseOne_def storeWith_FlagStored split: flagToken.splits option.splits list.splits)

text \<open>The result has the arguments that are left.\<close>

function parseFlags :: "'f flagTable \<Rightarrow> 'f \<Rightarrow> string list \<Rightarrow> flagError + 'f \<times> string list" where
  "parseFlags table f [] = Inr (f, [])"
| "parseFlags table f (s # args) =
     (case parseOne table f s args of
        NoMoreFlags rest \<Rightarrow> Inr (f, rest)
      | FlagFails e \<Rightarrow> Inl e
      | FlagStored f' rest \<Rightarrow> parseFlags table f' rest)"
  by pat_completeness auto
termination
  by (relation "measure (\<lambda>(table, f, args). length args)") (auto simp: parseOne_stored)

text \<open>A main ends before it has its flags, with the help or with the error of a flag, or runs.\<close>

datatype 'a mainEnd = BadFlags flagError | Ran 'a

fun mainStatus :: "('a \<Rightarrow> int) \<Rightarrow> 'a mainEnd \<Rightarrow> int" where
  "mainStatus status (BadFlags e) = (if e = HelpAsked then 0 else 2)"
| "mainStatus status (Ran r) = status r"

definition withFlags :: "'f flagTable \<Rightarrow> 'f \<Rightarrow> ('f \<Rightarrow> string list \<Rightarrow> 'a) \<Rightarrow> string list \<Rightarrow> 'a mainEnd" where
  "withFlags table defaults run args =
     (case parseFlags table defaults args of Inl e \<Rightarrow> BadFlags e | Inr (f, rest) \<Rightarrow> Ran (run f rest))"

section \<open>What parsing does\<close>

lemma withFlags_Ran:
  "withFlags table defaults run args = Ran r \<longleftrightarrow>
     (\<exists>f rest. parseFlags table defaults args = Inr (f, rest) \<and> r = run f rest)"
  by (auto simp: withFlags_def split: sum.splits prod.splits)

text \<open>What is left is the end of the arguments.\<close>

lemma parseFlags_suffix: "parseFlags table f args = Inr (f', rest) \<Longrightarrow> \<exists>pre. args = pre @ rest"
proof (induction table f args arbitrary: f' rest rule: parseFlags.induct)
  case (2 table f s args)
  show ?case
  proof (cases "parseOne table f s args")
    case (NoMoreFlags r)
    then have "r = s # args \<or> r = args"
      by (auto simp: parseOne_def storeWith_def split: flagToken.splits option.splits list.splits if_splits)
    with NoMoreFlags 2(2) show ?thesis by (metis append_Cons append_Nil parseFlags.simps(2) parsedOne.simps(10) Pair_inject sum.inject(2))
  next
    case (FlagFails e)
    with 2(2) show ?thesis by simp
  next
    case (FlagStored g r)
    with 2 obtain pre where "r = pre @ rest" by fastforce
    moreover from FlagStored have "\<exists>p. args = p @ r"
      by (auto simp: parseOne_stored intro: exI [of _ "[]"] exI [of _ "[x]" for x])
    ultimately show ?thesis by (metis append_Cons append_assoc)
  qed
qed simp

text \<open>Arguments after the flags do not change what the flags are parsed to.\<close>

lemma parseOne_append:
  "parseOne table f s args = FlagStored f' rest \<Longrightarrow> parseOne table f s (args @ more) = FlagStored f' (rest @ more)"
  by (auto simp: parseOne_stored)

lemma parseFlags_stops:
  assumes "parseFlags table f args = Inr (f', [])" "flagToken a = Positional"
  shows "parseFlags table f (args @ a # more) = Inr (f', a # more)"
  using assms(1)
proof (induction table f args rule: parseFlags.induct)
  case (1 table f)
  then show ?case by (simp add: parseOne_def assms(2))
next
  case (2 table f s args)
  show ?case
  proof (cases "parseOne table f s args")
    case (NoMoreFlags r)
    with 2(2) have "flagToken s = Terminator" "args = []" "f' = f"
      by (auto simp: parseOne_def storeWith_def split: flagToken.splits option.splits list.splits if_splits)
    then show ?thesis by (simp add: parseOne_def)
  next
    case (FlagFails e)
    with 2(2) show ?thesis by simp
  next
    case (FlagStored g r)
    with 2 show ?thesis by (simp add: parseOne_append)
  qed
qed

text \<open>What a flag is written as, and that it is read back whatever its value is.\<close>

definition flagName :: "string \<Rightarrow> bool" where
  "flagName k \<longleftrightarrow> k \<noteq> [] \<and> hd k \<noteq> CHR ''-'' \<and> CHR ''='' \<notin> set k"

lemma takeWhile_all: "CHR ''='' \<notin> set k \<Longrightarrow> takeWhile (\<lambda>c. c \<noteq> CHR ''='') (k @ v) = k @ takeWhile (\<lambda>c. c \<noteq> CHR ''='') v"
  by (induction k) auto

lemma splitEq_written: "flagName k \<Longrightarrow> splitEq (k @ CHR ''='' # v) = (k, Some v)"
  by (cases k) (auto simp: flagName_def splitEq_def Let_def takeWhile_all)

lemma splitEq_bare: "flagName k \<Longrightarrow> splitEq k = (k, None)"
proof -
  assume k: "flagName k"
  then have all: "takeWhile (\<lambda>c. c \<noteq> CHR ''='') (tl k) = tl k"
    by (subst takeWhile_eq_all_conv) (auto simp: flagName_def dest: list.set_sel(2))
  from k show ?thesis by (simp add: splitEq_def flagName_def Let_def all)
qed

lemma flagToken_dashes:
  "flagName k \<Longrightarrow> flagToken (CHR ''-'' # CHR ''-'' # k @ v) = (let (n, w) = splitEq (k @ v) in Named n w)"
  by (cases k) (auto simp: flagToken_def flagName_def)

lemma flagToken_written:
  "flagName k \<Longrightarrow> flagToken (''--'' @ k @ CHR ''='' # v) = Named k (Some v)"
  "flagName k \<Longrightarrow> flagToken (''--'' @ k) = Named k None"
  using flagToken_dashes [of k "[]"] by (simp_all add: flagToken_dashes splitEq_written splitEq_bare)

lemma parseFlags_written:
  assumes "flagName k" "table k = Some kind" "storeFlag kind v f = Some f'"
  shows "parseFlags table f ((''--'' @ k @ CHR ''='' # v) # args) = parseFlags table f' args"
    "\<not> isBoolKind kind \<Longrightarrow> parseFlags table f ((''--'' @ k) # v # args) = parseFlags table f' args"
  using flagToken_written(1) [OF assms(1), of v] flagToken_written(2) [OF assms(1)] assms(2,3) by (simp_all add: parseOne_def storeWith_def)

end
