(* ===== verification/Cli.thy ===== *)
theory Cli
  imports GoStd
begin

text \<open>
  The helpers the commands share (internal/cli/cli.go): the server and the client with their limits, the
  end of a command that cannot go on, JSON answers, and the PASS and FAIL banners. What the environment
  and the operating system say is an argument.
\<close>

section \<open>Servers and clients\<close>

text \<open>The settings of \<open>http.Server\<close>, with durations in nanoseconds; its handler is the default mux.\<close>

record httpServer =
  Addr :: string
  ReadHeaderTimeout :: int
  ReadTimeout :: int
  WriteTimeout :: int
  IdleTimeout :: int

definition second :: int where "second = 10 ^ 9"

text \<open>The server whose \<open>ListenAndServe\<close> is the rest of the run.\<close>

definition Serve :: "string \<Rightarrow> httpServer" where
  "Serve addr =
     \<lparr> Addr = addr, ReadHeaderTimeout = 5 * second, ReadTimeout = 15 * second, WriteTimeout = 30 * second,
       IdleTimeout = 60 * second \<rparr>"

text \<open>The \<open>Timeout\<close> of the client.\<close>

definition HTTPClient :: int where "HTTPClient = 10 * second"

section \<open>Ending a command\<close>

text \<open>What is written to the standard error, and the exit status.\<close>

definition Die :: "string \<Rightarrow> string \<times> int" where
  "Die msg = (''error: '' @ msg @ [CHR 0x0A], 2)"

section \<open>JSON answers\<close>

record jsonAnswer =
  AnsContentType :: string
  AnsStatus :: int
  AnsBody :: bytes

text \<open>\<open>encode\<close> is \<open>json.Encoder.Encode\<close>, None when the value cannot be encoded; the error is dropped, and the
  answer then has no body. The header is set before the status is written, so it is sent.\<close>

definition WriteJSON :: "('v \<Rightarrow> bytes option) \<Rightarrow> int \<Rightarrow> 'v \<Rightarrow> jsonAnswer" where
  "WriteJSON encode code v =
     \<lparr> AnsContentType = ''application/json'', AnsStatus = code,
       AnsBody = (case encode v of None \<Rightarrow> [] | Some b \<Rightarrow> b) \<rparr>"

section \<open>Banners\<close>

text \<open>\<open>noColor\<close> is the variable NO_COLOR, empty when it is not set; \<open>charDevice\<close> is whether the standard output
  is a character device, None when \<open>Stat\<close> fails.\<close>

definition colorEnabled :: "string \<Rightarrow> bool option \<Rightarrow> bool" where
  "colorEnabled noColor charDevice =
     (if noColor \<noteq> [] then False else (case charDevice of None \<Rightarrow> False | Some d \<Rightarrow> d))"

definition Pass :: "bool \<Rightarrow> string" where
  "Pass color = (if color then CHR 0x1B # ''[1;32mPASS'' @ CHR 0x1B # ''[0m'' else ''PASS'')"

definition Fail :: "bool \<Rightarrow> string" where
  "Fail color = (if color then CHR 0x1B # ''[1;31mFAIL'' @ CHR 0x1B # ''[0m'' else ''FAIL'')"

text \<open>Whatever the terminal, the two banners cannot be taken for one another, and what goes into a file or a
  pipe has no escape sequences.\<close>

definition banner :: "bool \<Rightarrow> bool \<Rightarrow> string" where
  "banner color ok = (if ok then Pass color else Fail color)"

lemma banner_tells: "banner color ok = banner color' ok' \<Longrightarrow> ok = ok'"
  by (auto simp: banner_def Pass_def Fail_def split: if_splits)

lemma banner_plain: "charDevice \<noteq> Some True \<Longrightarrow> CHR 0x1B \<notin> set (banner (colorEnabled noColor charDevice) ok)"
  by (cases charDevice) (auto simp: banner_def Pass_def Fail_def colorEnabled_def)

text \<open>A server closes a connection whose request is not read within the limits: reading the header ends
  before reading the request does, and that before the answer must be written.\<close>

lemma Serve_limits:
  "0 < ReadHeaderTimeout (Serve a)" "ReadHeaderTimeout (Serve a) < ReadTimeout (Serve a)"
  "ReadTimeout (Serve a) < WriteTimeout (Serve a)" "WriteTimeout (Serve a) < IdleTimeout (Serve a)"
  by (simp_all add: Serve_def second_def)

end
