(* ===== verification/Verify_Main.thy ===== *)
theory Verify_Main
  imports Flags Cli Verify_Cli
begin

text \<open>
  he-verify from its arguments to what it prints (cmd/he-verify/main.go): the flags it defines, \<open>main\<close>, and
  the lines of a verdict.
\<close>

section \<open>Arguments\<close>

definition noVerifyFlags :: verifyFlags where
  "noVerifyFlags =
     \<lparr> FNonce = [], FPinX = [], FPinY = [], FLastCounter = 0, FExpectPrev = [], FCose = False, FQuorum = 0,
       FCoAttest = 0, FRoots = [], FArgs = [] \<rparr>"

text \<open>\<open>rootList.Set\<close> appends, and has no error.\<close>

definition verifyTable :: "verifyFlags flagTable" where
  "verifyTable = map_of
     [(''nonce'', StringFlag (\<lambda>v f. f\<lparr> FNonce := v \<rparr>)),
      (''pin-x'', StringFlag (\<lambda>v f. f\<lparr> FPinX := v \<rparr>)),
      (''pin-y'', StringFlag (\<lambda>v f. f\<lparr> FPinY := v \<rparr>)),
      (''last-counter'', Uint64Flag (\<lambda>v f. f\<lparr> FLastCounter := v \<rparr>)),
      (''expect-prev'', StringFlag (\<lambda>v f. f\<lparr> FExpectPrev := v \<rparr>)),
      (''cose'', BoolFlag (\<lambda>v f. f\<lparr> FCose := v \<rparr>)),
      (''quorum'', IntFlag (\<lambda>v f. f\<lparr> FQuorum := v \<rparr>)),
      (''co-attest'', IntFlag (\<lambda>v f. f\<lparr> FCoAttest := v \<rparr>)),
      (''root'', VarFlag (\<lambda>v f. Some (f\<lparr> FRoots := FRoots f @ [v] \<rparr>)))]"

definition heVerifyCli :: "(bytes \<Rightarrow> json option) \<Rightarrow> (string \<rightharpoonup> bytes) \<Rightarrow> bytes option \<Rightarrow> string list \<Rightarrow>
    (verify_die + verify_outcome) mainEnd" where
  "heVerifyCli parse files stdin args =
     withFlags verifyTable noVerifyFlags (\<lambda>f rest. heVerifyMain parse files stdin (f\<lparr> FArgs := rest \<rparr>)) args"

section \<open>What is printed\<close>

fun joinComma :: "string list \<Rightarrow> string" where
  "joinComma [] = []"
| "joinComma [s] = s"
| "joinComma (s # ss) = s @ '', '' @ joinComma ss"

text \<open>\<open>why\<close> gives the texts of the reasons.\<close>

definition printSingle :: "(reason \<Rightarrow> string) \<Rightarrow> bool \<Rightarrow> VerifyResult \<Rightarrow> string list" where
  "printSingle why color res =
     (if \<not> OK res then
        (Fail color @ ''  '' @ why (Reason res)) # (case Pred res of None \<Rightarrow> [] | Some p \<Rightarrow> printPredicate p)
      else
        (Pass color @ ''  bound output verified (signature + freshness + anti-replay)'') #
        printPredicate (the (Pred res)) @
        [''  next_digest  : '' @ hex_encode (case NextDigest res of None \<Rightarrow> [] | Some d \<Rightarrow> d)])"

definition printQuorum :: "(quorum_reason \<Rightarrow> string) \<Rightarrow> bool \<Rightarrow> int \<Rightarrow> nat \<Rightarrow> QuorumResult \<Rightarrow> string list" where
  "printQuorum why color k roots res =
     (if \<not> QOK res then [Fail color @ ''  quorum not reached: '' @ why (QReason res)]
      else
        [Pass color @ ''  '' @ dec_int k @ ''-of-'' @ dec roots @ '' quorum reached by independent provers: '' @
           joinComma (PassedRoots res),
         ''  agreed event : '' @ QEvent res,
         ''  (only the event class is quorum-agreed; counters/presence are per-prover)''])"

definition printCoAttest :: "(coattest_reason \<Rightarrow> string) \<Rightarrow> bool \<Rightarrow> CoAttestation \<Rightarrow> string list" where
  "printCoAttest why color res =
     (if \<not> COK res then [Fail color @ ''  co-attestation not reached: '' @ why (CReason res)]
      else
        [Pass color @ ''  co-attestation reached: '' @ dec (length (Modalities res)) @
           '' distinct modalities bound to the same nonce'',
         ''  modalities  : '' @ joinComma (Modalities res),
         ''  (modalities are NOT required to agree '' @ dash @ '' they share the challenge nonce, not a verdict)''])"

section \<open>Properties\<close>

text \<open>A verdict is printed with the banner of its status.\<close>

lemma printSingle_banner:
  "hd (printSingle why color res) = banner color (OK res) @
     (if OK res then ''  bound output verified (signature + freshness + anti-replay)'' else ''  '' @ why (Reason res))"
  by (simp add: printSingle_def banner_def)

text \<open>The flags of a run with status 0 that was not asked for help.\<close>

lemma heVerifyCli_status_0:
  assumes "mainStatus verifyExit (heVerifyCli parse files stdin args) = 0"
  obtains "parseFlags verifyTable noVerifyFlags args = Inl HelpAsked"
  | f rest where "parseFlags verifyTable noVerifyFlags args = Inr (f, rest)"
      "verifyExit (heVerifyMain parse files stdin (f\<lparr> FArgs := rest \<rparr>)) = 0"
  using assms by (cases "parseFlags verifyTable noVerifyFlags args") (auto simp: heVerifyCli_def withFlags_def split: if_splits)

text \<open>What a single bundle is checked with does not depend on what follows it.\<close>

lemma single_ignores_rest:
  assumes "FQuorum f \<le> 0" "FCoAttest f \<le> 0"
  shows "heVerifyMain parse files stdin (f\<lparr> FArgs := a # others \<rparr>) = heVerifyMain parse files stdin (f\<lparr> FArgs := [a] \<rparr>)"
  using assms
  by (cases "hex_decode (FNonce f)")
    (simp_all add: heVerifyMain_def runSingle_def readBundle_def pinFlags_def expectPrevFlag_def)

text \<open>C8: The flag parser stops at the name of the bundle, and a single bundle is checked without a look at what
  follows its name: pins, a previous digest or \<open>--cose\<close> written there are dropped, and the status is the
  one of the command without them.\<close>

theorem he_verify_drops_what_follows_the_bundle:
  assumes "parseFlags verifyTable noVerifyFlags before = Inr (f, [])" "FQuorum f \<le> 0" "FCoAttest f \<le> 0"
    and "flagToken bundle = Positional"
  shows "heVerifyCli parse files stdin (before @ bundle # after) = heVerifyCli parse files stdin (before @ [bundle])"
  using parseFlags_stops [OF assms(1,4)] single_ignores_rest [OF assms(2,3)]
  by (simp add: heVerifyCli_def withFlags_def)

section \<open>A monitor of a stream\<close>

text \<open>What a PASS prints, given back to the next invocation: the counter as \<open>--last-counter\<close>, and the digest as
  \<open>--expect-prev\<close>.\<close>

definition fedBack :: "VerifyResult \<Rightarrow> string list" where
  "fedBack res =
     [''--last-counter='' @ showUint (Counter (the (Pred res))), ''--expect-prev='' @ hex_encode (the (NextDigest res))]"

lemma fedBack_parsed:
  "parseFlags verifyTable f (fedBack res @ args) =
   parseFlags verifyTable (f\<lparr> FLastCounter := Counter (the (Pred res)), FExpectPrev := hex_encode (the (NextDigest res)) \<rparr>) args"
proof -
  have "parseFlags verifyTable f ((''--last-counter='' @ showUint v) # rest) =
      parseFlags verifyTable (f\<lparr> FLastCounter := v \<rparr>) rest" for v f rest
    using parseFlags_written(1) [of "''last-counter''" verifyTable _ "showUint v" f]
    by (simp add: flagName_def verifyTable_def storeFlag_def showUint_def flagUint64_dec)
  moreover have "parseFlags verifyTable f ((''--expect-prev='' @ d) # rest) =
      parseFlags verifyTable (f\<lparr> FExpectPrev := d \<rparr>) rest" for d f rest
    using parseFlags_written(1) [of "''expect-prev''" verifyTable _ d f]
    by (simp add: flagName_def verifyTable_def storeFlag_def)
  ultimately show ?thesis by (simp add: fedBack_def del: parseFlags.simps(2))
qed

lemma single_pass:
  assumes "heVerifyMain parse files stdin f = Inr (BundlePass res)"
  obtains nonce pins prev p where "expectPrevFlag f = Inr prev" "Pred res = Some p"
    "freshPredicate p \<lparr> ExpectedNonce = nonce, PinPubX = fst pins, PinPubY = snd pins, LastCounter = FLastCounter f,
       ExpectedPrevDigest = prev \<rparr>"
proof -
  have not: "runQuorum parse files n f \<noteq> Inr (BundlePass res)" "runCoAttest parse files opt f \<noteq> Inr (BundlePass res)" for n opt
    by (auto simp: runQuorum_def runCoAttest_def bindE_Inr_iff Let_def split: if_splits)
  from assms obtain nonce where "runSingle parse files stdin nonce f = Inr (BundlePass res)"
    by (auto simp: heVerifyMain_def not bindE_Inr_iff split: if_splits sum.splits)
  then obtain raw prev pins where v: "expectPrevFlag f = Inr prev"
      "verifyEnvelope parse (FCose f) raw \<lparr> ExpectedNonce = nonce, PinPubX = fst pins, PinPubY = snd pins,
         LastCounter = FLastCounter f, ExpectedPrevDigest = prev \<rparr> = Inr res" "OK res"
    by (auto simp: runSingle_def bindE_Inr_iff split: if_splits)
  then have "\<exists>p. Pred res = Some p \<and> freshPredicate p \<lparr> ExpectedNonce = nonce, PinPubX = fst pins, PinPubY = snd pins,
      LastCounter = FLastCounter f, ExpectedPrevDigest = prev \<rparr>"
    using raw_verifier.accepted cose_verifier.accepted
    by (auto simp: verifyEnvelope_def split: if_splits option.splits)
  with v(1) show thesis using that by blast
qed

text \<open>A window that passes with what the last PASS printed comes later in the stream, directly after it: its
  counter is greater, and it carries the digest of the window that passed. So neither a window played again
  nor one left out is missed.\<close>

theorem fed_back_windows_chain:
  assumes "heVerifyMain parse files stdin g = Inr (BundlePass res)"
    and "parseFlags verifyTable noVerifyFlags (fedBack res @ args) = Inr (f, rest)"
    and "FLastCounter f = Counter (the (Pred res))" "FExpectPrev f = hex_encode (the (NextDigest res))"
    and "NextDigest res = Some d" "d \<noteq> []"
    and "heVerifyMain parse' files' stdin' (f\<lparr> FArgs := rest \<rparr>) = Inr (BundlePass res')"
  shows "\<exists>p p'. Pred res = Some p \<and> Pred res' = Some p' \<and> Counter p < Counter p' \<and> PrevDigest p' = d"
proof -
  obtain p where p: "Pred res = Some p" by (rule single_pass [OF assms(1)])
  obtain nonce pins prev p' where n: "expectPrevFlag (f\<lparr> FArgs := rest \<rparr>) = Inr prev" "Pred res' = Some p'"
      "freshPredicate p' \<lparr> ExpectedNonce = nonce, PinPubX = fst pins, PinPubY = snd pins,
         LastCounter = FLastCounter (f\<lparr> FArgs := rest \<rparr>), ExpectedPrevDigest = prev \<rparr>"
    by (rule single_pass [OF assms(7)])
  have "prev = Some d"
    using n(1) assms(4,5,6) by (auto simp: hex_encode_nonempty expectPrevFlag_def hex32_def bindE_Inr_iff split: if_splits)
  with n p assms(3) show ?thesis by (auto simp: freshPredicate_def)
qed

end
