(* ===== verification/Log_Main.thy ===== *)
theory Log_Main
  imports Flags Cli Log_Key Runs
begin

text \<open>
  he-log and he-logd from their arguments (\<open>main\<close> of cmd/he-log/main.go and cmd/he-logd/main.go): the flags
  after the subcommand, the choice of the subcommand, and the start of the server.
\<close>

section \<open>he-log\<close>

definition noLogFlags :: logFlags where
  "noLogFlags =
     \<lparr> LogPath = ''he-log.json'', LogKeyHex = [], LogOrigin = ''honest-ear.log/v1'', Index = 0, ProofPath = [],
       CpPath = [], WitnessName = [], CosigsPath = [], WitnessThreshold = 1, EndorserName = [], DeviceX = [],
       DeviceY = [], EndorserX = [], EndorserY = [], FilePath = [], CoseFlag = False, EnrolledWitnesses = [],
       Args = [] \<rparr>"

text \<open>\<open>witnessList.Set\<close> appends, and has no error.\<close>

definition logTable :: "logFlags flagTable" where
  "logTable = map_of
     [(''log'', StringFlag (\<lambda>v f. f\<lparr> LogPath := v \<rparr>)),
      (''key'', StringFlag (\<lambda>v f. f\<lparr> LogKeyHex := v \<rparr>)),
      (''origin'', StringFlag (\<lambda>v f. f\<lparr> LogOrigin := v \<rparr>)),
      (''index'', IntFlag (\<lambda>v f. f\<lparr> Index := v \<rparr>)),
      (''proof'', StringFlag (\<lambda>v f. f\<lparr> ProofPath := v \<rparr>)),
      (''checkpoint'', StringFlag (\<lambda>v f. f\<lparr> CpPath := v \<rparr>)),
      (''witness'', StringFlag (\<lambda>v f. f\<lparr> WitnessName := v \<rparr>)),
      (''cosigs'', StringFlag (\<lambda>v f. f\<lparr> CosigsPath := v \<rparr>)),
      (''witness-threshold'', IntFlag (\<lambda>v f. f\<lparr> WitnessThreshold := v \<rparr>)),
      (''endorser'', StringFlag (\<lambda>v f. f\<lparr> EndorserName := v \<rparr>)),
      (''device-x'', StringFlag (\<lambda>v f. f\<lparr> DeviceX := v \<rparr>)),
      (''device-y'', StringFlag (\<lambda>v f. f\<lparr> DeviceY := v \<rparr>)),
      (''endorser-x'', StringFlag (\<lambda>v f. f\<lparr> EndorserX := v \<rparr>)),
      (''endorser-y'', StringFlag (\<lambda>v f. f\<lparr> EndorserY := v \<rparr>)),
      (''file'', StringFlag (\<lambda>v f. f\<lparr> FilePath := v \<rparr>)),
      (''cose'', BoolFlag (\<lambda>v f. f\<lparr> CoseFlag := v \<rparr>)),
      (''enrolled'', VarFlag (\<lambda>v f. Some (f\<lparr> EnrolledWitnesses := EnrolledWitnesses f @ [v] \<rparr>)))]"

datatype log_end =
    LogUsageError
  | LogUsagePrinted
  | LogFlagsBad flagError
  | LogUnknownCommand string
  | LogGenkey "(string \<times> string \<times> string) option"
  | LogRan "log_die + log_outcome"

definition logStatus :: "log_end \<Rightarrow> int" where
  "logStatus e =
     (case e of
        LogUsageError \<Rightarrow> 2
      | LogUsagePrinted \<Rightarrow> 0
      | LogFlagsBad err \<Rightarrow> if err = HelpAsked then 0 else 2
      | LogUnknownCommand _ \<Rightarrow> 2
      | LogGenkey r \<Rightarrow> (case r of None \<Rightarrow> 2 | Some _ \<Rightarrow> 0)
      | LogRan r \<Rightarrow> (case r of Inl _ \<Rightarrow> 2 | Inr out \<Rightarrow> exitStatus out))"

text \<open>The randomness of a run: the key \<open>genkey\<close> draws and two signing nonces.\<close>

record logRandom =
  GenKey :: "priv_key option"
  SignNonce :: "int option"
  CoseNonce :: "int option"

text \<open>The subcommand; the second component is the log file it leaves, which only \<open>add\<close> writes.\<close>

definition logCommand :: "log_json \<Rightarrow> (string list \<Rightarrow> bytes) \<Rightarrow> disk_file option \<Rightarrow> logRandom \<Rightarrow> files \<Rightarrow>
    string \<Rightarrow> logFlags \<Rightarrow> log_end \<times> disk_file" where
  "logCommand js marshal failure rnd files cmd f =
     (let disk = files (LogPath f); nonce = SignNonce rnd in
      if cmd = ''genkey'' then (LogGenkey (genkeyCmd (GenKey rnd)), disk)
      else if cmd = ''add'' then (let (r, disk') = addCmd js marshal failure files f in (LogRan r, disk'))
      else if cmd = ''root'' then (LogRan (rootCmd js files f), disk)
      else if cmd = ''checkpoint'' then (LogRan (checkpointCmd js nonce files f), disk)
      else if cmd = ''prove'' then (LogRan (proveCmd js nonce files f), disk)
      else if cmd = ''consistency'' then (LogRan (consistencyCmd js files f), disk)
      else if cmd = ''cosign'' then (LogRan (cosignCmd nonce files f), disk)
      else if cmd = ''cosign-verify'' then (LogRan (cosignVerifyCmd js files f), disk)
      else if cmd = ''verify'' then (LogRan (verifyCmd js files f), disk)
      else if cmd = ''endorse'' then (LogRan (endorseCmd nonce (CoseNonce rnd) f), disk)
      else if cmd = ''endorse-verify'' then (LogRan (endorseVerifyCmd js files f), disk)
      else (LogUnknownCommand cmd, disk))"

text \<open>\<open>main\<close>. The second component is the files it leaves.\<close>

definition heLog :: "log_json \<Rightarrow> (string list \<Rightarrow> bytes) \<Rightarrow> disk_file option \<Rightarrow> logRandom \<Rightarrow> files \<Rightarrow> string list \<Rightarrow>
    log_end \<times> files" where
  "heLog js marshal failure rnd files args =
     (case args of
        [] \<Rightarrow> (LogUsageError, files)
      | cmd # rest \<Rightarrow>
          if cmd = ''-h'' \<or> cmd = ''--help'' \<or> cmd = ''help'' then (LogUsagePrinted, files)
          else
            case parseFlags logTable noLogFlags rest of
              Inl e \<Rightarrow> (LogFlagsBad e, files)
            | Inr (f, words) \<Rightarrow>
                (let (r, disk) = logCommand js marshal failure rnd files cmd (f\<lparr> Args := words \<rparr>)
                 in (r, files(LogPath f := disk))))"

section \<open>he-logd\<close>

record logdFlags =
  LdAddr :: string
  LdLog :: string
  LdKey :: string
  LdOrigin :: string

definition noLogdFlags :: logdFlags where
  "noLogdFlags = \<lparr> LdAddr = '':8088'', LdLog = [], LdKey = [], LdOrigin = ''honest-ear.log/v1'' \<rparr>"

definition logdTable :: "logdFlags flagTable" where
  "logdTable = map_of
     [(''addr'', StringFlag (\<lambda>v f. f\<lparr> LdAddr := v \<rparr>)),
      (''log'', StringFlag (\<lambda>v f. f\<lparr> LdLog := v \<rparr>)),
      (''key'', StringFlag (\<lambda>v f. f\<lparr> LdKey := v \<rparr>)),
      (''origin'', StringFlag (\<lambda>v f. f\<lparr> LdOrigin := v \<rparr>))]"

datatype logd_die = LogAndKeyRequired | LogdBadKey key_error

text \<open>The answer to a request for a path, by the two handlers \<open>main\<close> registers; the log file is read anew for
  each request. None is the not-found answer of the mux, for paths without a handler.\<close>

definition logdRoutes :: "(bytes \<Rightarrow> string list option) \<Rightarrow> int option \<Rightarrow> files \<Rightarrow> logdFlags \<Rightarrow> priv_key \<Rightarrow> string \<Rightarrow>
    string \<Rightarrow> logd_reply option" where
  "logdRoutes decode nonce files f key route query =
     (let l = loadLogFile decode (files (LdLog f)) in
      if route = ''/checkpoint'' then Some (checkpointHandler (\<lambda>org size root. SignCheckpoint nonce org size root key) l (LdOrigin f) key)
      else if route = ''/consistency'' then Some (consistencyHandler l query)
      else None)"

definition logdMain :: "logdFlags \<Rightarrow> logd_die + priv_key" where
  "logdMain f =
     (if LdLog f = [] \<or> LdKey f = [] then Inl LogAndKeyRequired
      else wrapE LogdBadKey (PrivKeyFromHex (LdKey f)))"

text \<open>The server and the routes it serves once it has started.\<close>

definition heLogd :: "(bytes \<Rightarrow> string list option) \<Rightarrow> string list \<Rightarrow>
    (logd_die + httpServer \<times> (int option \<Rightarrow> files \<Rightarrow> string \<Rightarrow> string \<Rightarrow> logd_reply option)) mainEnd" where
  "heLogd decode args =
     withFlags logdTable noLogdFlags
       (\<lambda>f rest. case logdMain f of
          Inl e \<Rightarrow> Inl e
        | Inr key \<Rightarrow>
            Inr (Serve (LdAddr f), \<lambda>nonce files route query. logdRoutes decode nonce files f key route query)) args"

section \<open>Properties\<close>

text \<open>Only \<open>add\<close> writes, and only the file of \<open>--log\<close>: whatever the arguments are, every other subcommand, every
  misuse and every failing flag leaves all files as they were.\<close>

lemma logCommand_reads: "cmd \<noteq> ''add'' \<Longrightarrow> snd (logCommand js marshal failure rnd files cmd f) = files (LogPath f)"
  by (simp add: logCommand_def Let_def)

lemma heLog_files_others:
  assumes "heLog js marshal failure rnd files (cmd # rest) = (r, files')" "cmd \<noteq> ''add''"
  shows "files' = files"
  using assms logCommand_reads [OF assms(2)]
  by (auto simp: heLog_def split_beta fun_eq_iff split: if_splits sum.splits)

text \<open>A subcommand that is misspelt, or unknown, does not end with status 0.\<close>

lemma logCommand_unknown:
  "logStatus (fst (logCommand js marshal failure rnd files cmd f)) = 0 \<Longrightarrow>
   cmd \<in> {''genkey'', ''add'', ''root'', ''checkpoint'', ''prove'', ''consistency'', ''cosign'', ''cosign-verify'', ''verify'',
     ''endorse'', ''endorse-verify''}"
  by (auto simp: logCommand_def logStatus_def Let_def split: if_splits)

section \<open>The log file is what was added\<close>

text \<open>An invocation of he-log on a disk that can be written: its randomness and its arguments.\<close>

definition invoked :: "log_json \<Rightarrow> (string list \<Rightarrow> bytes) \<Rightarrow> files \<Rightarrow> logRandom \<times> string list \<Rightarrow> files \<Rightarrow> bool" where
  "invoked js marshal files run files' \<longleftrightarrow> files' = snd (heLog js marshal None (fst run) files (snd run))"

text \<open>The entry an invocation adds to the log at a path: the one of \<open>add\<close> with flags that parse, this path and
  one word of hexadecimal that is not empty.\<close>

definition entryAdded :: "string \<Rightarrow> string list \<Rightarrow> bytes list" where
  "entryAdded p args =
     (case args of
        [] \<Rightarrow> []
      | cmd # rest \<Rightarrow>
          if cmd \<noteq> ''add'' then []
          else
            case parseFlags logTable noLogFlags rest of
              Inl _ \<Rightarrow> []
            | Inr (f, words) \<Rightarrow>
                if LogPath f \<noteq> p \<or> length words \<noteq> 1 then []
                else (case hex_decode (words ! 0) of Inl _ \<Rightarrow> [] | Inr e \<Rightarrow> if e = [] then [] else [e]))"

lemma addCmd_entry:
  assumes "leavesRoundTrip js marshal" "loadLogFile (toLeaves js) (files (LogPath f)) = Inr l"
  shows "loadLogFile (toLeaves js) (snd (addCmd js marshal None files f)) = Inr \<lparr> Leaves = Leaves l @
    (if length (Args f) \<noteq> 1 then []
     else case hex_decode (Args f ! 0) of Inl _ \<Rightarrow> [] | Inr e \<Rightarrow> if e = [] then [] else [e]) \<rparr>"
proof -
  have l: "load js files (LogPath f) = Inr l"
    using assms(2) by (subst load_contents) (auto simp: loadLogFile_def)
  have saved: "loadLogFile (toLeaves js) (snd (save marshal None l')) = Inr l'" for l'
    using saved_log_loads [OF assms(1), of l'] by (metis prod.collapse)
  show ?thesis
    using assms(2) l
    by (simp add: addCmd_def Add_def Let_def split_beta saved split: sum.split)
qed

lemma heLog_entry:
  assumes "leavesRoundTrip js marshal" "loadLogFile (toLeaves js) (files p) = Inr l" "invoked js marshal files run files'"
  shows "loadLogFile (toLeaves js) (files' p) = Inr \<lparr> Leaves = Leaves l @ entryAdded p (snd run) \<rparr>"
proof (cases "snd run")
  case Nil
  then show ?thesis using assms(2,3) by (simp add: invoked_def heLog_def entryAdded_def)
next
  case (Cons cmd rest)
  show ?thesis
  proof (cases "cmd = ''add''")
    case False
    then have "files' = files"
      using assms(3) Cons heLog_files_others [OF prod.collapse [symmetric] False]
      by (simp add: invoked_def)
    then show ?thesis using assms(2) False Cons by (simp add: entryAdded_def)
  next
    case True
    show ?thesis
    proof (cases "parseFlags logTable noLogFlags rest")
      case (Inl e)
      then show ?thesis using assms(2,3) Cons True by (simp add: invoked_def heLog_def entryAdded_def)
    next
      case (Inr fw)
      obtain f words where fw: "fw = (f, words)" by fastforce
      have "files' = files(LogPath f := snd (addCmd js marshal None files (f\<lparr> Args := words \<rparr>)))"
        using assms(3) Cons True Inr fw by (simp add: invoked_def heLog_def logCommand_def Let_def split_beta)
      then show ?thesis
        using assms(2) addCmd_entry [OF assms(1), of files "f\<lparr> Args := words \<rparr>" l] Cons True Inr fw
        by (cases "LogPath f = p") (auto simp: entryAdded_def)
    qed
  qed
qed

text \<open>C27: However he-log is invoked on a disk it can write, with any subcommands, paths and arguments, right or wrong, a log
  file that loads still loads, and what it holds is what it held followed by the entries of the \<open>add\<close>
  invocations for its path, in their order; nothing else is ever added and nothing is taken away.\<close>

theorem he_log_is_what_was_added:
  assumes "leavesRoundTrip js marshal" "loadLogFile (toLeaves js) (files p) = Inr l"
    and "runs (invoked js marshal) files es files'"
  shows "loadLogFile (toLeaves js) (files' p) = Inr \<lparr> Leaves = Leaves l @ concat (map (entryAdded p \<circ> snd) es) \<rparr>"
  using assms(3,2)
proof (induction arbitrary: l rule: runs.induct)
  case (runs_Cons files run files' es files'')
  from heLog_entry [OF assms(1) runs_Cons.prems runs_Cons.hyps(1)] show ?case
    by (drule_tac runs_Cons.IH) simp
qed simp

end
