(* ===== verification/Mains_Demo.thy ===== *)
theory Mains_Demo
  imports Verify_Main Log_Main Verify_Demo Log_Cli_Demo
begin

text \<open>Concrete arguments of he-verify and he-log, on which the theorems about their mains are applied.\<close>

section \<open>he-verify\<close>

definition unpinnedArgs :: "string list" where
  "unpinnedArgs = [''--nonce=09'', ''--last-counter'', ''4'']"

definition wrongPins :: "string list" where
  "wrongPins = [''--pin-x=00'', ''--pin-y=00'']"

lemma four: "flagUint64 ''4'' = Some 4"
  by (simp add: flagUint64_def parseUint0_def basePrefix_def baseDigit_def lowerCode_def)

lemma verify_flag_written:
  "parseFlags verifyTable f (''--nonce=09'' # args) = parseFlags verifyTable (f\<lparr> FNonce := ''09'' \<rparr>) args"
  "parseFlags verifyTable f (''--last-counter'' # ''4'' # args) = parseFlags verifyTable (f\<lparr> FLastCounter := 4 \<rparr>) args"
  "parseFlags verifyTable f (''--pin-x=00'' # args) = parseFlags verifyTable (f\<lparr> FPinX := ''00'' \<rparr>) args"
  "parseFlags verifyTable f (''--pin-y=00'' # args) = parseFlags verifyTable (f\<lparr> FPinY := ''00'' \<rparr>) args"
  using parseFlags_written(1) [of "''nonce''" verifyTable _ "''09''" f]
    parseFlags_written(2) [of "''last-counter''" verifyTable _ "''4''" f]
    parseFlags_written(1) [of "''pin-x''" verifyTable _ "''00''" f]
    parseFlags_written(1) [of "''pin-y''" verifyTable _ "''00''" f]
  by (simp_all add: flagName_def verifyTable_def storeFlag_def isBoolKind_def four)

lemma bundle_name: "flagToken ''b.json'' = Positional"
  by (simp add: flagToken_def)

lemma unpinned_parsed:
  "parseFlags verifyTable noVerifyFlags unpinnedArgs = Inr (noVerifyFlags\<lparr> FNonce := ''09'', FLastCounter := 4 \<rparr>, [])"
  by (simp add: unpinnedArgs_def verify_flag_written del: parseFlags.simps(2))

lemma wrong_pins_parsed:
  "parseFlags verifyTable noVerifyFlags (unpinnedArgs @ wrongPins @ [''b.json'']) =
   Inr (noVerifyFlags\<lparr> FNonce := ''09'', FLastCounter := 4, FPinX := ''00'', FPinY := ''00'' \<rparr>, [''b.json''])"
proof -
  have "parseFlags verifyTable noVerifyFlags (unpinnedArgs @ wrongPins) =
      Inr (noVerifyFlags\<lparr> FNonce := ''09'', FLastCounter := 4, FPinX := ''00'', FPinY := ''00'' \<rparr>, [])"
    by (simp add: unpinnedArgs_def wrongPins_def verify_flag_written del: parseFlags.simps(2))
  from parseFlags_stops [OF this bundle_name] show ?thesis by (simp del: parseFlags.simps(2))
qed

lemma unpinned_run:
  "OK (VerifyBundle (widened demoPx demoPy)
    \<lparr> ExpectedNonce = [9], PinPubX = None, PinPubY = None, LastCounter = 4, ExpectedPrevDigest = None \<rparr>)"
proof -
  have "OK (gatesAfterSig (encodePayload demoPredicate)
      \<lparr> ExpectedNonce = [9], PinPubX = None, PinPubY = None, LastCounter = 4, ExpectedPrevDigest = None \<rparr>)"
    using DecodePayload_encode [OF demo_valid]
    by (auto simp: gatesAfterSig_ok freshPredicate_def demoPredicate_def)
  then show ?thesis
    using demo_signed
    by (subst VerifyBundle_run [where sig = demoRS and px = demoPx and py = demoPy])
      (simp_all add: widened_def demoBundle_def keyPinned_def sliceOf_def)
qed

definition demoParse :: "bytes \<Rightarrow> json option" where
  "demoParse = (\<lambda>_. Some (bundleJson (widened demoPx demoPy)))"

definition demoFiles :: "string \<rightharpoonup> bytes" where
  "demoFiles = [''b.json'' \<mapsto> []]"

lemma unpinned_passes:
  "mainStatus verifyExit (heVerifyCli demoParse demoFiles None (unpinnedArgs @ [''b.json''])) = 0"
proof -
  let ?f = "noVerifyFlags\<lparr> FNonce := ''09'', FLastCounter := 4, FArgs := [''b.json''] \<rparr>"
  have f: "pinFlags ?f = Inr (None, None)" "expectPrevFlag ?f = Inr None"
      "readBundle demoFiles None [''b.json''] = Inr []"
    by (simp_all add: pinFlags_def expectPrevFlag_def readBundle_def noVerifyFlags_def demoFiles_def)
  have nonce: "hex_decode ''09'' = Inr [9]" by (simp add: from_hex_char_def)
  have "verifyEnvelope demoParse False [] \<lparr> ExpectedNonce = [9], PinPubX = None, PinPubY = None, LastCounter = 4,
      ExpectedPrevDigest = None \<rparr> = Inr (VerifyBundle (widened demoPx demoPy) \<lparr> ExpectedNonce = [9], PinPubX = None,
      PinPubY = None, LastCounter = 4, ExpectedPrevDigest = None \<rparr>)"
    by (cases "widened demoPx demoPy") (simp add: verifyEnvelope_def demoParse_def unmarshalBundle_def bundleJson_fields)
  then have "verifyExit (heVerifyMain demoParse demoFiles None ?f) = 0"
    using f nonce unpinned_run by (simp add: heVerifyMain_def runSingle_def noVerifyFlags_def verifyExit_def del: hex_decode.simps)
  moreover have "parseFlags verifyTable noVerifyFlags (unpinnedArgs @ [''b.json'']) =
      Inr (noVerifyFlags\<lparr> FNonce := ''09'', FLastCounter := 4 \<rparr>, [''b.json''])"
    by (rule parseFlags_stops [OF unpinned_parsed bundle_name])
  ultimately show ?thesis by (simp add: heVerifyCli_def withFlags_def)
qed

lemma wrong_pins_stop:
  "mainStatus verifyExit (heVerifyCli demoParse demoFiles None (unpinnedArgs @ wrongPins @ [''b.json''])) = 2"
proof -
  let ?f = "noVerifyFlags\<lparr> FNonce := ''09'', FLastCounter := 4, FPinX := ''00'', FPinY := ''00'', FArgs := [''b.json''] \<rparr>"
  have "hex_decode ''00'' = Inr [0]" "hex_decode ''09'' = Inr [9]" by (simp_all add: from_hex_char_def)
  then have "pinFlags ?f = Inl PinXBad" "hex_decode (FNonce ?f) = Inr [9]"
    by (simp_all add: pinFlags_def hex32_def noVerifyFlags_def del: hex_decode.simps)
  moreover have "expectPrevFlag ?f = Inr None" "readBundle demoFiles None [''b.json''] = Inr []"
    by (simp_all add: expectPrevFlag_def readBundle_def noVerifyFlags_def demoFiles_def)
  ultimately have "heVerifyMain demoParse demoFiles None ?f = Inl PinXBad"
    by (simp add: heVerifyMain_def runSingle_def noVerifyFlags_def del: hex_decode.simps)
  then show ?thesis
    by (simp add: heVerifyCli_def withFlags_def wrong_pins_parsed verifyExit_def)
qed

text \<open>A pin the device does not have ends he-verify when it is written before the bundle, and is not seen when
  it is written after it.\<close>

lemma he_verify_drops_what_follows_the_bundle_witness:
  "mainStatus verifyExit (heVerifyCli demoParse demoFiles None (unpinnedArgs @ ''b.json'' # wrongPins)) = 0 \<and>
   mainStatus verifyExit (heVerifyCli demoParse demoFiles None (unpinnedArgs @ wrongPins @ [''b.json''])) = 2"
  using he_verify_drops_what_follows_the_bundle [OF unpinned_parsed _ _ bundle_name, of demoParse demoFiles None wrongPins]
    unpinned_passes wrong_pins_stop
  by (simp add: noVerifyFlags_def)

section \<open>he-log\<close>

definition goodAdd :: "string list" where "goodAdd = [''add'', ''--log=L'', ''0a'']"
definition badAdd :: "string list" where "badAdd = [''add'', ''--log=L'', ''0a'', ''0b'']"
definition otherRun :: "string list" where "otherRun = [''root'', ''--log=L'']"

lemma log_flag_parsed:
  assumes "flagToken w = Positional"
  shows "parseFlags logTable noLogFlags (''--log=L'' # w # ws) = Inr (noLogFlags\<lparr> LogPath := ''L'' \<rparr>, w # ws)"
proof -
  have "parseFlags logTable noLogFlags ([''--log=L''] @ w # ws) = Inr (noLogFlags\<lparr> LogPath := ''L'' \<rparr>, w # ws)"
    by (rule parseFlags_stops [OF _ assms])
      (use parseFlags_written(1) [of "''log''" logTable _ "''L''" noLogFlags _ "[]"] in
        \<open>simp add: flagName_def logTable_def storeFlag_def\<close>)
  then show ?thesis by simp
qed

lemma entries_added:
  "entryAdded ''L'' goodAdd = [[10]]" "entryAdded ''L'' badAdd = []" "entryAdded ''L'' otherRun = []"
proof -
  have "flagToken ''0a'' = Positional" "hex_decode ''0a'' = Inr [10]"
    by (simp_all add: flagToken_def from_hex_char_def)
  then show "entryAdded ''L'' goodAdd = [[10]]" "entryAdded ''L'' badAdd = []" "entryAdded ''L'' otherRun = []"
    by (simp_all add: entryAdded_def goodAdd_def badAdd_def otherRun_def log_flag_parsed del: parseFlags.simps(2) hex_decode.simps)
qed

lemma he_log_is_what_was_added_witness:
  "\<exists>files'. runs (invoked lineJson lineMarshal) (\<lambda>_. FileContents [])
       (map (Pair \<lparr> GenKey = None, SignNonce = None, CoseNonce = None \<rparr>) [goodAdd, otherRun, badAdd, goodAdd]) files' \<and>
     loadLogFile (toLeaves lineJson) (files' ''L'') = Inr \<lparr> Leaves = [[10], [10]] \<rparr>"
proof -
  have go: "\<exists>files'. runs (invoked lineJson lineMarshal) files es files'" for es files
  proof (induction es arbitrary: files)
    case (Cons e es)
    then show ?case by (meson invoked_def runs_Cons)
  qed auto
  then obtain files' where r: "runs (invoked lineJson lineMarshal) (\<lambda>_. FileContents [])
      (map (Pair \<lparr> GenKey = None, SignNonce = None, CoseNonce = None \<rparr>) [goodAdd, otherRun, badAdd, goodAdd]) files'"
    by blast
  from he_log_is_what_was_added [OF line_roundtrip line_empty r, of "''L''"] r show ?thesis
    by (auto simp: entries_added)
qed

end
