(* ===== verification/Mains.thy ===== *)
theory Mains
  imports Flags Cli Receipt_Cli Consent_Cli Witness_Cli
begin

text \<open>
  The commands with a switch over their first argument: \<open>main\<close> of cmd/he-receipt, cmd/he-consent and
  cmd/he-witness, \<open>helpRequested\<close> of he-receipt, and the lines he-receipt prints of a verdict.
\<close>

section \<open>The switch\<close>

datatype 'a dispatched = NoSubcommand | UsagePrinted | UnknownSub string | Sub 'a

text \<open>\<open>os.Args[1:]\<close> is \<open>args\<close>; \<open>subs\<close> gives the function of each case.\<close>

definition dispatch :: "(string \<rightharpoonup> string list \<Rightarrow> 'a) \<Rightarrow> string list \<Rightarrow> 'a dispatched" where
  "dispatch subs args =
     (case args of
        [] \<Rightarrow> NoSubcommand
      | cmd # rest \<Rightarrow>
          if cmd = ''-h'' \<or> cmd = ''--help'' \<or> cmd = ''help'' then UsagePrinted
          else (case subs cmd of None \<Rightarrow> UnknownSub cmd | Some run \<Rightarrow> Sub (run rest)))"

text \<open>\<open>cli.Die\<close> ends the command where there is no subcommand, or not one of its own.\<close>

fun dispatchStatus :: "('a \<Rightarrow> int) \<Rightarrow> 'a dispatched \<Rightarrow> int" where
  "dispatchStatus status NoSubcommand = snd (Die [])"
| "dispatchStatus status UsagePrinted = 0"
| "dispatchStatus status (UnknownSub cmd) = snd (Die cmd)"
| "dispatchStatus status (Sub r) = status r"

section \<open>he-receipt\<close>

definition helpRequested_receipt :: "string list \<Rightarrow> bool" where
  "helpRequested_receipt args \<longleftrightarrow>
     length args > 0 \<and> (args ! 0 = ''-h'' \<or> args ! 0 = ''--help'' \<or> args ! 0 = ''help'')"

datatype receipt_run =
    ReceiptHelp
  | Emitted "receipt_die + ReceiptBundle \<times> bytes"
  | Checked "receipt_die + ReceiptResult"

definition heReceipt :: "(bytes \<Rightarrow> ReceiptBundle option) \<Rightarrow> (string \<rightharpoonup> bytes) \<Rightarrow> bytes option \<Rightarrow> int option \<Rightarrow>
    string list \<Rightarrow> receipt_run dispatched" where
  "heReceipt decode files stdin nonce args =
     dispatch
       [''emit'' \<mapsto> \<lambda>rest. if helpRequested_receipt rest then ReceiptHelp else Emitted (runEmit files nonce rest),
        ''verify'' \<mapsto> \<lambda>rest. if helpRequested_receipt rest then ReceiptHelp else Checked (runVerify decode files stdin rest)]
       args"

fun receiptStatus :: "receipt_run \<Rightarrow> int" where
  "receiptStatus ReceiptHelp = 0"
| "receiptStatus (Emitted r) = (case r of Inl _ \<Rightarrow> 2 | Inr _ \<Rightarrow> 0)"
| "receiptStatus (Checked r) = (case r of Inl _ \<Rightarrow> 2 | Inr res \<Rightarrow> if RROK res then 0 else 1)"

text \<open>\<open>why\<close> gives the texts of the reasons; a nil digest is printed as nothing.\<close>

definition printReceipt :: "(receipt_reason \<Rightarrow> string) \<Rightarrow> bool \<Rightarrow> bool \<Rightarrow> ReceiptResult \<Rightarrow> string list" where
  "printReceipt why color requireNotRetained res =
     (if \<not> RROK res then [Fail color @ ''  '' @ why (RRReason res)]
      else
        let r = the (RRReceipt res) in
        [Pass color @ ''  restraint receipt verified (signature + chain'' @
           (if requireNotRetained then '' + not-retained'' else []) @ '')'',
         ''  session     : '' @ RSession r,
         ''  batch       : '' @ dec (unat (RBatch r)),
         ''  input_hash  : '' @ hex_encode (RInputHash r) @ ''  (processed, then discarded)'',
         ''  output_hash : '' @ hex_encode (ROutputHash r) @ ''  (the only thing emitted)'',
         ''  retained    : '' @ (if RRetained r then ''true'' else ''false''),
         ''  prev_digest : '' @ hex_encode (RPrevDigest r),
         ''  next_digest : '' @ hex_encode (case RRNextDigest res of None \<Rightarrow> [] | Some d \<Rightarrow> d)])"

section \<open>he-consent\<close>

text \<open>The randomness of \<open>seal\<close>, and what the file system lets it write.\<close>

record consentWorld =
  KeyRand :: "bytes option"
  GcmNonce :: "bytes option"
  Coefficients :: "int option list"
  MkDir :: "string \<Rightarrow> bool"
  Writable :: "string \<Rightarrow> bool"

datatype consent_run =
    Sealed "(consent_die + (int \<times> int) option) \<times> store"
  | Revealed "consent_die + bytes option"
  | Disclosed "consent_die + json option"
  | DisclosureChecked "consent_die + (int \<times> bytes) option"

definition heConsent :: "(json \<Rightarrow> bytes) \<Rightarrow> (bytes \<Rightarrow> json option) \<Rightarrow> consentWorld \<Rightarrow> store \<Rightarrow> string list \<Rightarrow>
    consent_run dispatched" where
  "heConsent render parse w files args =
     dispatch
       [''seal'' \<mapsto> \<lambda>rest. Sealed (runSeal render (KeyRand w) (GcmNonce w) (Coefficients w) (MkDir w) (Writable w) files rest),
        ''reveal'' \<mapsto> \<lambda>rest. Revealed (runReveal parse files rest),
        ''disclose'' \<mapsto> \<lambda>rest. Disclosed (runDisclose render files rest),
        ''verify-disclosure'' \<mapsto> \<lambda>rest. DisclosureChecked (runVerifyDisclosure parse files rest)]
       args"

definition dieStatus :: "'e + 'a \<Rightarrow> int" where
  "dieStatus r = (if isOk r then 0 else 2)"

fun consentStatus :: "consent_run \<Rightarrow> int" where
  "consentStatus (Sealed r) = dieStatus (fst r)"
| "consentStatus (Revealed r) = dieStatus r"
| "consentStatus (Disclosed r) = dieStatus r"
| "consentStatus (DisclosureChecked r) = dieStatus r"

section \<open>he-witness\<close>

datatype witness_run =
    CheckRun "check_output outcome \<times> (string \<Rightarrow> disk_file)"
  | ServeRun "(config \<times> peer list \<times> witnessState) outcome"
  | CompareRun "(string \<times> cross_reason) outcome"
  | VerifyRun "(equivocation_verdict \<times> string \<times> string) outcome"
  | FetchRun "(equivocation_verdict \<times> string \<times> string \<times> string) outcome"

definition heWitness :: "json_decoders \<Rightarrow> (witnessState \<Rightarrow> bytes) \<Rightarrow> network \<Rightarrow> int option \<Rightarrow>
    (string \<Rightarrow> disk_file) \<Rightarrow> disk_file option \<Rightarrow> string list \<Rightarrow> witness_run dispatched" where
  "heWitness js marshal net nonce disk failure args =
     dispatch
       [''check'' \<mapsto> \<lambda>rest. CheckRun (runCheck js marshal net nonce disk failure rest),
        ''serve'' \<mapsto> \<lambda>rest. ServeRun (runServe js disk rest),
        ''compare'' \<mapsto> \<lambda>rest. CompareRun (runCompare js net disk rest),
        ''verify-equivocation'' \<mapsto> \<lambda>rest. VerifyRun (runVerifyEquivocation js disk rest),
        ''fetch-proof'' \<mapsto> \<lambda>rest. FetchRun (runFetchProof js net rest)]
       args"

definition outcomeStatus :: "'a outcome \<Rightarrow> int" where
  "outcomeStatus r = (case r of Usage \<Rightarrow> 0 | Dies _ \<Rightarrow> 2 | Exits n _ \<Rightarrow> n)"

text \<open>A daemon that has started ends only when its server does, with status 2 (that of a panic, too).\<close>

fun witnessStatus :: "witness_run \<Rightarrow> int" where
  "witnessStatus (CheckRun r) = outcomeStatus (fst r)"
| "witnessStatus (ServeRun r) = (case r of Exits _ _ \<Rightarrow> snd (Die ''server exited'') | _ \<Rightarrow> outcomeStatus r)"
| "witnessStatus (CompareRun r) = outcomeStatus r"
| "witnessStatus (VerifyRun r) = outcomeStatus r"
| "witnessStatus (FetchRun r) = outcomeStatus r"

subsection \<open>The settings and the routes of serve\<close>

text \<open>\<open>parseDuration\<close> is \<open>time.ParseDuration\<close>, in nanoseconds, None for an error. A value it does not take is
  dropped without a word.\<close>

definition pollInterval :: "(string \<Rightarrow> int option) \<Rightarrow> string \<Rightarrow> int" where
  "pollInterval parseDuration pollSecs =
     (if pollSecs \<noteq> [] then
        (case parseDuration (pollSecs @ ''s'') of None \<Rightarrow> 15 * second | Some n \<Rightarrow> n)
      else 15 * second)"

definition serveAddr :: "string \<Rightarrow> string" where
  "serveAddr addr = (if addr = [] then '':9101'' else addr)"

text \<open>\<open>time.NewTicker\<close> panics for an interval that is not positive, and the panic of the polling goroutine ends
  the process: None. Otherwise the daemon serves, and polls at the interval.\<close>

definition serveLoop :: "(string \<Rightarrow> int option) \<Rightarrow> (string \<rightharpoonup> string) \<Rightarrow> (httpServer \<times> int) option" where
  "serveLoop parseDuration m =
     (let interval = pollInterval parseDuration (flagValue m ''poll'') in
      if interval \<le> 0 then None else Some (Serve (serveAddr (flagValue m ''addr'')), interval))"

datatype witness_handler = CosignatureH | HealthH | EquivocationProofH | EquivocationProofsH | EquivocationIntakeH

definition witnessRoutes :: "string \<rightharpoonup> witness_handler" where
  "witnessRoutes = map_of
     [(''/cosignature'', CosignatureH), (''/health'', HealthH), (''/equivocation-proof'', EquivocationProofH),
      (''/equivocation-proofs'', EquivocationProofsH), (''/equivocation-intake'', EquivocationIntakeH)]"

text \<open>Without \<open>--poll\<close>, or with a value that is no duration, the daemon polls every 15 seconds; with an interval
  of zero or below it does not stay up.\<close>

lemma serveLoop_interval:
  "flagValue m ''poll'' = [] \<or> parseDuration (flagValue m ''poll'' @ ''s'') = None \<Longrightarrow>
     serveLoop parseDuration m = Some (Serve (serveAddr (flagValue m ''addr'')), 15 * second)"
  "flagValue m ''poll'' \<noteq> [] \<Longrightarrow> parseDuration (flagValue m ''poll'' @ ''s'') = Some n \<Longrightarrow>
     serveLoop parseDuration m = (if n \<le> 0 then None else Some (Serve (serveAddr (flagValue m ''addr'')), n))"
  by (auto simp: serveLoop_def pollInterval_def second_def)

section \<open>Properties\<close>

lemma dispatch_status_0:
  "dispatchStatus status (dispatch subs args) = 0 \<Longrightarrow>
     (\<exists>rest. args = ''-h'' # rest \<or> args = ''--help'' # rest \<or> args = ''help'' # rest) \<or>
     (\<exists>cmd rest run. args = cmd # rest \<and> subs cmd = Some run \<and> status (run rest) = 0)"
  by (auto simp: dispatch_def Die_def split: list.splits if_splits option.splits)

text \<open>he-receipt verify has status 0 only for help and for a receipt that verifies.\<close>

lemma heReceipt_verify_status_0:
  "dispatchStatus receiptStatus (heReceipt decode files stdin nonce (''verify'' # args)) = 0 \<longleftrightarrow>
     helpRequested_receipt args \<or> (\<exists>res. runVerify decode files stdin args = Inr res \<and> RROK res)"
  by (auto simp: heReceipt_def dispatch_def split: sum.splits)

text \<open>he-witness fetch-proof and verify-equivocation have status 0 only for help and for an equivocation.\<close>

lemma checkProof_Inr:
  "checkProof p (aX, aY, bX, bY) = Inr why \<Longrightarrow>
   \<exists>cosigA cosigB. hex_decode (ECosignature (EA p)) = Inr cosigA \<and> hex_decode (ECosignature (EB p)) = Inr cosigB \<and>
     VerifyEquivocation (bytes_of_string (ECheckpointBody (EA p))) cosigA aX aY
       (bytes_of_string (ECheckpointBody (EB p))) cosigB bX bY = (True, why)"
  by (cases "hex_decode (ECosignature (EA p))"; cases "hex_decode (ECosignature (EB p))")
    (auto simp: checkProof_def split: prod.splits if_splits)

lemma heWitness_verify_status_0:
  assumes "dispatchStatus witnessStatus (heWitness js marshal net nonce disk failure (''verify-equivocation'' # args)) = 0"
    and "\<not> helpRequested args"
  obtains m name raw p keys why where "flagMap args = Inr m" "need m ''file'' = Inr name" "disk name = FileContents raw"
    "toEquivProof js raw = Some p" "pinnedKeys m = Inr keys" "checkProof p keys = Inr why"
  using assms
  by (auto simp: heWitness_def dispatch_def outcomeStatus_def runVerifyEquivocation_def orDie_def bindE_def
      split: sum.splits option.splits disk_file.splits)

end
