(* ===== verification/Server_Mains.thy ===== *)
theory Server_Mains
  imports Flags Cli Attest_Cli Dump_Cli Gui Challenge_Page
begin

text \<open>
  The remaining mains that use the \<open>flag\<close> package: he-attest-verify and he-dump from their arguments,
  and the start and the routes of the servers he-challenge and he-gui. \<open>log.Fatalf\<close> is \<open>Inl\<close>.
\<close>

section \<open>he-attest-verify\<close>

definition noAttestFlags :: attestFlags where
  "noAttestFlags = \<lparr> AToken = [], APinX = [], APinY = [], ANonce = [], AProfile = PSAProfile, ARefs = [] \<rparr>"

text \<open>\<open>refList.Set\<close> fails for a value that is not hexadecimal.\<close>

definition attestTable :: "attestFlags flagTable" where
  "attestTable = map_of
     [(''token'', StringFlag (\<lambda>v f. f\<lparr> AToken := v \<rparr>)),
      (''pin-x'', StringFlag (\<lambda>v f. f\<lparr> APinX := v \<rparr>)),
      (''pin-y'', StringFlag (\<lambda>v f. f\<lparr> APinY := v \<rparr>)),
      (''nonce'', StringFlag (\<lambda>v f. f\<lparr> ANonce := v \<rparr>)),
      (''profile'', StringFlag (\<lambda>v f. f\<lparr> AProfile := v \<rparr>)),
      (''ref'', VarFlag (\<lambda>v f. if isOk (hex_decode v) then Some (f\<lparr> ARefs := ARefs f @ [v] \<rparr>) else None))]"

definition heAttest :: "(string \<rightharpoonup> bytes) \<Rightarrow> string list \<Rightarrow>
    (attest_die + ((PSAClaims option \<times> token_error) + PSAClaims)) mainEnd" where
  "heAttest files args = withFlags attestTable noAttestFlags (\<lambda>f rest. attestMain files f) args"

text \<open>What is not a flag is not looked at, so a token, a pin or a reference measurement after it is dropped; the
  required flags must all come before.\<close>

lemma heAttest_drops_rest:
  assumes "parseFlags attestTable noAttestFlags before = Inr (f, [])" "flagToken a = Positional"
  shows "heAttest files (before @ a # after) = heAttest files before"
  using parseFlags_stops [OF assms] assms(1) by (simp add: heAttest_def withFlags_def)

text \<open>The number of runes of a string, as \<open>utf8.RuneCountInString\<close> has it: a byte that starts no
  well-formed sequence counts as one.\<close>

function runeCount :: "string \<Rightarrow> nat" where
  "runeCount s = (if s = [] then 0 else Suc (runeCount (drop (runeSize s) s)))"
  by pat_completeness auto
termination
  by (relation "measure length") auto

declare runeCount.simps [simp del]

definition printSoftware :: "nat \<Rightarrow> SWComponent \<Rightarrow> string" where
  "printSoftware i sc =
     ''  sw['' @ dec i @ ''] '' @ MeasurementType sc @ replicate (8 - runeCount (MeasurementType sc)) CHR '' '' @
     '' measurement='' @ hex_encode (MeasurementValue sc) @ '' signer='' @ hex_encode (SignerID sc)"

definition printClaims :: "PSAClaims \<Rightarrow> string list" where
  "printClaims c =
     [''  eat_profile      : '' @ Profile c,
      ''  nonce            : '' @ hex_encode (TokenNonce c),
      ''  instance_id      : '' @ hex_encode (InstanceID c),
      ''  implementation_id: '' @ hex_encode (ImplementationID c)] @
     map (\<lambda>(i, sc). printSoftware i sc) (List.enumerate 0 (SoftwareComponents c))"

text \<open>\<open>why\<close> gives the texts of the errors.\<close>

definition printAttest :: "(token_error \<Rightarrow> string) \<Rightarrow> bool \<Rightarrow> (PSAClaims option \<times> token_error) + PSAClaims \<Rightarrow> string list" where
  "printAttest why color r =
     (case r of
        Inl (claims, e) \<Rightarrow> (Fail color @ ''  '' @ why e) # (case claims of None \<Rightarrow> [] | Some c \<Rightarrow> printClaims c)
      | Inr c \<Rightarrow>
          (Pass color @ ''  PSA token verified (signature + profile + freshness + reference measurements)'') #
          printClaims c)"

text \<open>For a string of ASCII the runes are its characters.\<close>

lemma runeCount_ascii: "\<forall>c\<in>set s. of_char c < (128 :: nat) \<Longrightarrow> runeCount s = length s"
proof (induction s)
  case (Cons c s)
  then have "runeSize (c # s) = 1" by (simp add: runeSize_def Let_def)
  then show ?case using Cons by (subst runeCount.simps) simp
qed (simp add: runeCount.simps)

section \<open>he-dump\<close>

definition dumpTable :: "string flagTable" where
  "dumpTable = [''payload'' \<mapsto> StringFlag (\<lambda>v f. v)]"

definition heDump :: "(bytes \<Rightarrow> json option) \<Rightarrow> (dump_error \<Rightarrow> string) \<Rightarrow> (string \<rightharpoonup> bytes) \<Rightarrow> bytes option \<Rightarrow>
    string list \<Rightarrow> (dump_die + string list \<times> int) mainEnd" where
  "heDump parse errText files stdin args =
     withFlags dumpTable []
       (\<lambda>payloadHex rest. dumpMain parse errText payloadHex (if length rest \<ge> 1 then files (rest ! 0) else stdin)) args"

section \<open>he-challenge\<close>

definition noChallengeFlags :: challengeFlags where
  "noChallengeFlags = \<lparr> ChAddr = '':8090'', ChBase = [], ChPinX = [], ChPinY = [], ChSim = [] \<rparr>"

definition challengeTable :: "challengeFlags flagTable" where
  "challengeTable = map_of
     [(''addr'', StringFlag (\<lambda>v f. f\<lparr> ChAddr := v \<rparr>)),
      (''base-url'', StringFlag (\<lambda>v f. f\<lparr> ChBase := v \<rparr>)),
      (''pin-x'', StringFlag (\<lambda>v f. f\<lparr> ChPinX := v \<rparr>)),
      (''pin-y'', StringFlag (\<lambda>v f. f\<lparr> ChPinY := v \<rparr>)),
      (''sim'', StringFlag (\<lambda>v f. f\<lparr> ChSim := v \<rparr>))]"

text \<open>\<open>writeAlarmClip\<close>: \<open>sample i\<close> is \<open>int16\<close> of the i-th value of the tone, which is written with the low byte
  first. \<open>created\<close> is the name of the temporary file, None if it cannot be created.\<close>

definition clipRate :: nat where "clipRate = 16000"

definition littleEndian16 :: "16 word \<Rightarrow> bytes" where
  "littleEndian16 v = [ucast v, ucast (drop_bit 8 v)]"

definition clipBytes :: "(nat \<Rightarrow> 16 word) \<Rightarrow> bytes" where
  "clipBytes sample = concat (map (\<lambda>i. littleEndian16 (sample i)) [0..<clipRate])"

definition writeAlarmClip :: "(nat \<Rightarrow> 16 word) \<Rightarrow> string option \<Rightarrow> bool \<Rightarrow> (string \<times> bytes) option" where
  "writeAlarmClip sample created written =
     (case created of
        None \<Rightarrow> None
      | Some name \<Rightarrow> if \<not> written then None else Some (name, clipBytes sample))"

text \<open>The handlers \<open>main\<close> registers; the mux takes a path without a handler of its own to the one of the root.\<close>

datatype challenge_route = ToSimulate | ToChallenge | ToAttest | ToStatus | ToVerifyPage | ToRoot

definition challengeRoute :: "bool \<Rightarrow> string \<Rightarrow> challenge_route" where
  "challengeRoute simEnabled route =
     (if simEnabled \<and> route = ''/simulate'' then ToSimulate
      else if route = ''/challenge'' then ToChallenge
      else if route = ''/attest'' then ToAttest
      else if route = ''/status'' then ToStatus
      else if route = ''/v'' then ToVerifyPage
      else ToRoot)"

text \<open>The server and its routes.\<close>

definition heChallenge :: "(nat \<Rightarrow> 16 word) \<Rightarrow> string option \<Rightarrow> bool \<Rightarrow> string list \<Rightarrow>
    (challenge_fatal + httpServer \<times> server \<times> (string \<Rightarrow> challenge_route)) mainEnd" where
  "heChallenge sample created written args =
     withFlags challengeTable noChallengeFlags
       (\<lambda>f rest. case challengeMain f (map_option fst (writeAlarmClip sample created written)) of
          Inl e \<Rightarrow> Inl e
        | Inr (srv, sim) \<Rightarrow> Inr (Serve (ChAddr f), srv, challengeRoute (sim \<noteq> None))) args"

lemma littleEndian16_roundtrip:
  "littleEndian16 v = [lo, hi] \<Longrightarrow> or (push_bit 8 (ucast hi)) (ucast lo) = v"
  by (rule bit_word_eqI)
    (auto simp: littleEndian16_def bit_or_iff bit_push_bit_iff bit_ucast_iff bit_drop_bit_eq not_less dest: bit_imp_le_length)

text \<open>The clip of the demonstration is one second of sound, in whole samples, as the simulator needs it.\<close>

lemma clip_length: "length (clipBytes sample) = 2 * clipRate"
proof -
  have "length (concat (map (\<lambda>i. littleEndian16 (sample i)) [0..<n])) = 2 * n" for n
    by (induction n) (simp_all add: littleEndian16_def)
  then show ?thesis by (simp add: clipBytes_def)
qed

text \<open>A server started without a simulator answers not-found where the simulation would be.\<close>

lemma no_simulation:
  assumes "heChallenge sample created written args = Ran (Inr (h, srv, routes))"
    and "parseFlags challengeTable noChallengeFlags args = Inr (f, rest)" "ChSim f = []"
  shows "routes ''/simulate'' = ToRoot \<and> handleRoot page [] ''/simulate'' = None"
  using assms
  by (auto simp: heChallenge_def withFlags_def challengeRoute_def handleRoot_def challengeMain_def Let_def bindE_def
      split: sum.splits)

section \<open>he-gui\<close>

record guiFlags =
  GAddr :: string
  GSim :: string

definition noGuiFlags :: guiFlags where
  "noGuiFlags = \<lparr> GAddr = '':8095'', GSim = ''sim/bin/he-attest-sim'' \<rparr>"

definition guiTable :: "guiFlags flagTable" where
  "guiTable = map_of
     [(''addr'', StringFlag (\<lambda>v f. f\<lparr> GAddr := v \<rparr>)), (''sim'', StringFlag (\<lambda>v f. f\<lparr> GSim := v \<rparr>))]"

datatype gui_route = GuiListen string | GuiVerify | GuiPage | GuiNotFound

text \<open>\<open>simExists\<close> is whether \<open>os.Stat\<close> finds the simulator.\<close>

definition heGui :: "(string \<Rightarrow> bool) \<Rightarrow> string list \<Rightarrow> (string + httpServer \<times> (string \<Rightarrow> gui_route)) mainEnd" where
  "heGui simExists args =
     withFlags guiTable noGuiFlags
       (\<lambda>f rest.
          if \<not> simExists (GSim f) then Inl (GSim f)
          else Inr (Serve (GAddr f),
            \<lambda>route.
              if route = ''/listen'' then GuiListen (GSim f)
              else if route = ''/verify'' then GuiVerify
              else if route \<noteq> ''/'' then GuiNotFound
              else GuiPage)) args"

end
