(* ===== verification/Spec2Isabelle.thy ===== *)
theory Spec2Isabelle
  imports Bound_Demo Merkle_Demo Quorum_Demo Checkpoint_Demo Witness_Cli_Demo Receipt_Demo Logd_Demo Log_Cli_Demo
    Threshold Challenge_Demo Challenge_Page Log_Key Tools_Demo Consent_Sound Flood_Demo Stale_Demo
    Mains_Demo Mains Server_Mains
begin

text \<open>
  Verification library of the open-opticon verifier, the Go module under src/src/verifier.

  \<^bold>\<open>The program.\<close> A device ("Honest Ear") hears something, signs a small deterministic-CBOR predicate and
  hands out a bundle. The Go module checks such bundles (bound.go, cose.go), asks several devices for
  agreement (quorum.go), keeps the keys of devices in a Merkle log whose checkpoints are signed and
  witnessed (transparency.go, he-log, he-logd, he-witness), chains receipts of what was not retained
  (receipt.go, he-receipt), seals recordings for a threshold of holders and discloses single windows
  (threshold.go, he-consent), appraises attestation tokens (eat.go, he-attest-verify), and serves live
  challenges (he-challenge). he-verify, its browser twin he-verify-wasm, he-dump and he-gui are front
  ends of the same gates.

  \<^bold>\<open>Theories and sources.\<close>
  \<^item> \<open>Prelude\<close>: byte types, results with an error, big-endian numbers, list facts.
  \<^item> \<open>GoStd\<close>, \<open>Json\<close>, \<open>Sha256\<close> (with \<open>Sha256_Eval\<close> for evaluation in the kernel), \<open>P256\<close>, \<open>Gcm\<close>: what the
    sources use of Go's standard library, as executable functions.
  \<^item> \<open>Signature\<close>, \<open>Cbor\<close>, \<open>Payload\<close>, \<open>Cose\<close>, \<open>Bound\<close>: keys.go, bound.go, cose.go, cose_encode.go. The reader
    of \<open>Cbor\<close> is \<open>cborReader\<close>; \<open>decodeLoop\<close> is the loop of \<open>DecodePayload\<close>; \<open>gatesAfterSig\<close>, \<open>VerifyBundle\<close> and
    \<open>VerifyCOSEBundle\<close> carry the names of the code.
  \<^item> \<open>Quorum\<close>: quorum.go.
  \<^item> \<open>Merkle\<close>, \<open>Merkle_Levels\<close>, \<open>Merkle_Proofs\<close>, \<open>Checkpoint\<close>: transparency.go, first the tree and its proofs,
    then checkpoints, cosignatures, endorsements and equivocation.
  \<^item> \<open>Witness\<close>, \<open>Witness_Daemon\<close>, \<open>Witness_Machine\<close>, \<open>Witness_Cli\<close>: cmd/he-witness; polling, the state of the
    daemon with its handlers, the runs of the daemon, and the other subcommands.
  \<^item> \<open>Runs\<close>, \<open>Gossip\<close>, \<open>Flood\<close>, \<open>Stale\<close>: several daemons of cmd/he-witness at once. \<open>Runs\<close> is the runs of any labelled
    step relation; \<open>Gossip\<close> follows \<open>checkPeers\<close> from the view one daemon publishes to the conviction of a
    log by another; \<open>Flood\<close> is a mesh of daemons, with the proofs that \<open>pushProof\<close> has put in flight;
    \<open>Stale\<close> is a cross-check against a log that has grown past the peer.
  \<^item> \<open>Logd\<close>, \<open>Log_Cli\<close>, \<open>Log_Key\<close>: cmd/he-logd and cmd/he-log.
  \<^item> \<open>Receipt\<close>, \<open>Receipt_Cli\<close>: receipt.go and cmd/he-receipt.
  \<^item> \<open>Shamir\<close>, \<open>Threshold\<close>, \<open>Consent_Cli\<close>, \<open>Consent_Props\<close>, \<open>Consent_Sound\<close>: threshold.go and cmd/he-consent.
  \<^item> \<open>Eat\<close>, \<open>Loops\<close>, \<open>Attest_Cli\<close>: eat.go and cmd/he-attest-verify, and the rounds of the decoder loops.
  \<^item> \<open>Challenge\<close>, \<open>Challenge_Runs\<close>, \<open>Challenge_Page\<close>: cmd/he-challenge; its handlers, their runs, its start and pages.
  \<^item> \<open>Verify_Cli\<close>, \<open>Verify_Wasm\<close>, \<open>Dump_Cli\<close>, \<open>Gui\<close>: cmd/he-verify, cmd/he-verify-wasm, cmd/he-dump, cmd/he-gui.
  \<^item> \<open>Flags\<close>, \<open>Cli\<close>: Go's \<open>flag\<close> package and internal/cli. \<open>Verify_Main\<close> (he-verify), \<open>Log_Main\<close> (he-log, he-logd),
    \<open>Mains\<close> (he-receipt, he-consent, he-witness), \<open>Server_Mains\<close> (he-attest-verify, he-dump, he-challenge, he-gui):
    each \<open>main\<close> from its arguments, on top of the models of the commands, with the routes of the servers.
  \<^item> The theories named \<open>_Demo\<close> hold the concrete inputs at which theorems with hypotheses are applied.

  \<^bold>\<open>Conventions.\<close> A Go slice of bytes is a \<open>byte list\<close>, a string the list of its bytes, a [32]byte a list of
  length 32, uint64 a 64-bit word that wraps, int an \<open>int\<close> whose 64-bit bounds are written where they
  matter, a nil-able slice an option. An error is a constructor that keeps the arguments of its message;
  a function that can fail gives \<open>error + result\<close>; \<open>cli.Die\<close> (exit status 2) is the \<open>Inl\<close> of a command line.
  Random bytes, signing nonces, the clock, file contents, HTTP answers, the simulator and the parse of a
  JSON text into a value are arguments. Where a theorem needs what \<open>encoding/json\<close> does, it is a hypothesis
  for the values that JSON carries: \<open>stateCodec\<close> asks that a state with valid UTF-8 and 64-bit numbers is read
  back, and that nothing else is ever read. Mutable state is a record passed along (the session heap of
  he-challenge, the daemon of he-witness); critical sections under a mutex are single steps, and the
  relations \<open>step\<close> and \<open>cstep\<close> interleave them in any order.

  \<^bold>\<open>What the lemmas show.\<close>
  \<^item> Exact acceptance: what \<open>DecodePayload\<close>, \<open>parseCOSESign1\<close>, \<open>VerifyBundle\<close>, \<open>VerifyCOSEBundle\<close>, \<open>VerifyReceipt\<close>,
    \<open>ParseCheckpoint\<close>, \<open>VerifyEquivocation\<close>, the quorum, he-attest-verify and he-log cosign-verify accept. The
    conditions are stated without the function (\<open>bundleGates\<close>, \<open>receiptGates\<close>, \<open>cosignInputs\<close>), so neither an
    unsound verifier nor one that refuses too much satisfies them.
  \<^item> The Merkle proofs the log gives verify (but for the empty log, whose proof is refused), and a proof that verifies speaks of the log: under the
    hypothesis that SHA-256 has no collision among an explicit finite set of strings, those hashed in
    the tree and by the verification (\<open>inj_on sha256\<close> of that set). Hypotheses of this form are the only
    cryptographic assumption; ECDSA is a computable predicate and nothing is assumed of it.
  \<^item> State machines: a witness never cosigns two roots for one size, its alarm is permanent, its view is
    always a prefix of what it is shown later, its forensic set holds at most 64 proofs with pairwise
    different pairs of bodies; every PASS answer of the
    challenge server is fresh and its status page is backed by a verified bundle.
  \<^item> Meshes of witnesses: what a daemon publishes is its current view, a fork between two daemons is convicted
    by the one that cross-checks, the flood of proofs that follows ends whatever is delivered or lost, and
    without losses it has alarmed every daemon that can be reached along peers. An honest peer whose
    checkpoint lies between a daemon's view and the log's current tree sets off a false alarm.
  \<^item> Composition: a witness follows an honest he-logd; what he-log, he-receipt and he-consent write is read
    back by their counterparts; the browser, he-verify, he-dump and he-gui agree on the predicate shown.
  \<^item> Command lines: what parsing makes of the arguments, the exit status of each command; the log file is what
    was added by the invocations of he-log; he-verify does not look at what follows the name of the bundle.
    A window that he-verify passes with what its last PASS printed follows the last one directly.
  \<^item> Threshold: any k holders open, and fewer see equally many polynomials for every secret.

  \<^bold>\<open>Interfaces.\<close> \<open>codec\<close> (readers that invert an encoder, interpreted on the CBOR readers), \<open>append_log\<close> (commitments
  to growing lists, interpreted on the Merkle log), \<open>bundle_verifier\<close> (what the quorum relies on, interpreted
  on both envelopes), \<open>consuming_loop\<close> (loops that read at least a byte per round, interpreted on the four
  decoder loops), \<open>preserving\<close> (an invariant of a step relation, interpreted on the mesh) and \<open>descending\<close>, which adds
  a potential that every step lowers (interpreted on the flood).

  \<^bold>\<open>Bounds and fuel.\<close> \<open>skipAt\<close> recurses on the nesting depth that is left of \<open>maxCBORDepth = 64\<close>, as the code
  does. Counted loops recurse on the count read from the message; \<open>decoder_rounds\<close> shows that a count
  above the number of unread bytes changes nothing. \<open>trimPrefixes\<close> gets the length of its string, and
  takes a character in each round. The other recursions are structural or have a measure.

  \<^bold>\<open>Not modelled.\<close> The C code of the device, the enclave and the simulator (another language; its encoder is
  specified as \<open>encodePayload\<close>), sockets and HTTP framing (the timeouts are
  settings of \<open>Serve\<close>), the texts of usages, error messages and of the HTML and JavaScript pages,
  the samples of the demonstration tone and the QR rendering of he-challenge, and
  the registration of the functions of he-verify-wasm in the browser.
\<close>

end
